(* ===== verification/Prelude.thy ===== *)
theory Prelude
  imports Main "HOL-Library.Word"
begin

text \<open>
  Shared vocabulary of the development: the types every component uses for identifiers, instants
  and machine integers, the \<open>Result\<close> type of the Rust sources with its \<open>?\<close> operator, early-exit
  iteration over a slice, and a few list facts the components rely on.
\<close>

section \<open>Shared types\<close>

text \<open>
  Identifiers (\<open>TaskId\<close>, \<open>SessionId\<close>, \dots) are UUIDs: 128-bit values compared byte by byte, which
  for a big-endian byte array is the unsigned order of the word. Instants (\<open>DateTime<Utc>\<close>) and
  spans (\<open>TimeDelta\<close>) are counted in nanoseconds. \<open>usize\<close> is 64 bits wide on the supported targets.
\<close>

type_synonym uuid = "128 word"
type_synonym DateTime = int
type_synonym TimeDelta = int
type_synonym usize = "64 word"
type_synonym u64 = "64 word"
type_synonym u32 = "32 word"
type_synonym u8 = "8 word"

type_synonym TaskId = uuid
type_synonym SessionId = uuid
type_synonym MessageId = uuid
type_synonym GraphRevisionId = uuid
type_synonym RequirementRevisionId = uuid
type_synonym CheckpointId = uuid
type_synonym VerificationId = uuid
type_synonym AttemptId = uuid
type_synonym EventId = uuid
type_synonym CorrelationId = uuid
type_synonym HandoverId = uuid
type_synonym IntegrationBatchId = uuid
type_synonym ClientCommandId = uuid
type_synonym DaemonInstanceId = uuid
type_synonym ScheduleClaimId = uuid
type_synonym ResourceClaimId = uuid
type_synonym RoutingDecisionId = uuid
type_synonym WorkspaceId = uuid
type_synonym CommandEvidenceId = uuid
type_synonym IntegrationApplicationId = uuid

named_theorems result_simps \<open>rewriting of Result values and early returns\<close>
named_theorems invariant_intros \<open>preservation rules of the component invariants\<close>

section \<open>Results\<close>

text \<open>\<open>Result<T, E>\<close> is \<open>E + T\<close> with \<open>Inl\<close> the error; \<open>and_then\<close> is the \<open>?\<close> operator.\<close>

definition and_then :: "'e + 'a \<Rightarrow> ('a \<Rightarrow> 'e + 'b) \<Rightarrow> 'e + 'b" where
  "and_then r f = (case r of Inl e \<Rightarrow> Inl e | Inr a \<Rightarrow> f a)"

definition map_err :: "('e \<Rightarrow> 'f) \<Rightarrow> 'e + 'a \<Rightarrow> 'f + 'a" where
  "map_err h r = (case r of Inl e \<Rightarrow> Inl (h e) | Inr a \<Rightarrow> Inr a)"

definition ok_or :: "'e \<Rightarrow> 'a option \<Rightarrow> 'e + 'a" where
  "ok_or e x = (case x of None \<Rightarrow> Inl e | Some a \<Rightarrow> Inr a)"

definition is_some_and :: "'a option \<Rightarrow> ('a \<Rightarrow> bool) \<Rightarrow> bool" where
  "is_some_and x p = (case x of None \<Rightarrow> False | Some a \<Rightarrow> p a)"

text \<open>A \<open>for\<close> loop whose body may return early with an error.\<close>

fun try_each :: "('a \<Rightarrow> 'e + unit) \<Rightarrow> 'a list \<Rightarrow> 'e + unit" where
  "try_each f [] = Inr ()"
| "try_each f (x # xs) = (case f x of Inl e \<Rightarrow> Inl e | Inr _ \<Rightarrow> try_each f xs)"

text \<open>A \<open>map\<close> collected into a \<open>Result<Vec<_>, _>\<close>: the first error wins.\<close>

fun try_map :: "('a \<Rightarrow> 'e + 'b) \<Rightarrow> 'a list \<Rightarrow> 'e + 'b list" where
  "try_map f [] = Inr []"
| "try_map f (x # xs) =
     (case f x of Inl e \<Rightarrow> Inl e
      | Inr y \<Rightarrow> (case try_map f xs of Inl e \<Rightarrow> Inl e | Inr ys \<Rightarrow> Inr (y # ys)))"

lemma and_then_Inl [simp, result_simps]: "and_then (Inl e) f = Inl e"
  by (simp add: and_then_def)

lemma and_then_Inr [simp, result_simps]: "and_then (Inr a) f = f a"
  by (simp add: and_then_def)

lemma and_then_eq_Inr [result_simps]: "and_then r f = Inr b \<longleftrightarrow> (\<exists>a. r = Inr a \<and> f a = Inr b)"
  by (cases r) simp_all

lemma and_then_eq_Inl [result_simps]:
  "and_then r f = Inl e \<longleftrightarrow> r = Inl e \<or> (\<exists>a. r = Inr a \<and> f a = Inl e)"
  by (cases r) simp_all

lemma map_err_eq_Inr [simp, result_simps]: "map_err h r = Inr a \<longleftrightarrow> r = Inr a"
  by (cases r) (simp_all add: map_err_def)

lemma map_err_Inl [simp, result_simps]: "map_err h (Inl e) = Inl (h e)"
  by (simp add: map_err_def)

lemma ok_or_eq_Inr [simp, result_simps]: "ok_or e x = Inr a \<longleftrightarrow> x = Some a"
  by (cases x) (simp_all add: ok_or_def)

lemma is_some_and_simps [simp, result_simps]:
  "is_some_and None p = False" "is_some_and (Some a) p = p a"
  by (simp_all add: is_some_and_def)

lemma is_some_and_iff: "is_some_and x p \<longleftrightarrow> (\<exists>a. x = Some a \<and> p a)"
  by (cases x) simp_all

lemma unit_result_cases: "(r :: 'e + unit) = Inr () \<or> (\<exists>e. r = Inl e)"
  by (cases r) auto

lemma try_each_ok [result_simps]: "try_each f xs = Inr () \<longleftrightarrow> (\<forall>x \<in> set xs. f x = Inr ())"
  by (induction xs) (auto split: sum.splits)

lemma try_each_err: "try_each f xs = Inl e \<Longrightarrow> \<exists>x \<in> set xs. f x = Inl e"
  by (induction xs) (auto split: sum.splits)

lemma try_map_ok: "try_map f xs = Inr ys \<Longrightarrow> list_all2 (\<lambda>x y. f x = Inr y) xs ys"
  by (induction xs arbitrary: ys) (auto split: sum.splits)

section \<open>Lists\<close>

text \<open>\<open>slice.iter().position(p)\<close> and \<open>Vec::dedup\<close> (the library's \<open>remdups_adj\<close>).\<close>

fun position :: "('a \<Rightarrow> bool) \<Rightarrow> 'a list \<Rightarrow> nat option" where
  "position p [] = None"
| "position p (x # xs) = (if p x then Some 0 else map_option Suc (position p xs))"

lemma position_Some:
  "position p xs = Some k \<Longrightarrow> k < length xs \<and> p (xs ! k) \<and> (\<forall>j < k. \<not> p (xs ! j))"
proof (induction xs arbitrary: k)
  case Nil
  then show ?case by simp
next
  case (Cons x xs)
  then show ?case
    by (auto split: if_splits simp: nth_Cons split: nat.splits)
qed

lemma position_None: "position p xs = None \<longleftrightarrow> (\<forall>x \<in> set xs. \<not> p x)"
  by (induction xs) auto

lemma position_ex: "x \<in> set xs \<Longrightarrow> \<exists>k. position (\<lambda>c. c = x) xs = Some k"
  using position_None [of "\<lambda>c. c = x" xs] by (cases "position (\<lambda>c. c = x) xs") auto

lemma sorted_distinct_adj_strict: "sorted xs \<Longrightarrow> distinct_adj xs \<Longrightarrow> sorted_wrt (<) (xs :: 'a::linorder list)"
proof (induction xs)
  case Nil
  then show ?case by simp
next
  case (Cons x xs)
  then show ?case
    by (cases xs) (auto simp: distinct_adj_Cons)
qed

lemma sort_dedup_strict: "sorted_wrt (<) (remdups_adj (sort (xs :: 'a::linorder list)))"
  by (rule sorted_distinct_adj_strict) simp_all

lemma map_of_zip_upt:
  assumes "distinct ks" and "i < length ks"
  shows "map_of (zip ks [0..<length ks]) (ks ! i) = Some i"
  using assms by (simp add: map_of_zip_nth)

lemma map_of_zip_upt_inv:
  assumes "map_of (zip ks [0..<length ks]) k = Some i"
  shows "i < length ks \<and> ks ! i = k"
proof -
  from assms have "(k, i) \<in> set (zip ks [0..<length ks])" by (rule map_of_SomeD)
  then show ?thesis by (auto simp: in_set_zip)
qed

lemma find_in_set: "find p xs = Some x \<Longrightarrow> x \<in> set xs \<and> p x"
  by (auto simp: find_Some_iff)

lemma find_append: "find p (xs @ ys) = (case find p xs of None \<Rightarrow> find p ys | Some x \<Rightarrow> Some x)"
  by (induction xs) simp_all

end
