(* ===== verification/Rust_Str.thy ===== *)
theory Rust_Str
  imports Prelude
begin

text \<open>
  The operations of Rust's \<open>str\<close> that the sources use, on the UTF-8 bytes of the string: a
  \<open>char\<close> of the model is one byte. \<open>str::trim\<close> strips the characters with the Unicode property
  White\_Space; each of them is listed here by its UTF-8 encoding. UTF-8 is self-synchronising,
  so stripping an encoding at either end of a well-formed string strips exactly one character.
\<close>

section \<open>White space and trimming\<close>

definition byte :: "char \<Rightarrow> nat" where
  "byte c = of_char c"

definition ascii_whitespace :: "nat \<Rightarrow> bool" where
  "ascii_whitespace b \<longleftrightarrow> (9 \<le> b \<and> b \<le> 13) \<or> b = 32"

definition whitespace2 :: "nat \<Rightarrow> nat \<Rightarrow> bool" where
  "whitespace2 a b \<longleftrightarrow> a = 194 \<and> (b = 133 \<or> b = 160)"

definition whitespace3 :: "nat \<Rightarrow> nat \<Rightarrow> nat \<Rightarrow> bool" where
  "whitespace3 a b c \<longleftrightarrow>
     (a = 225 \<and> b = 154 \<and> c = 128)
   \<or> (a = 226 \<and> b = 128 \<and> ((128 \<le> c \<and> c \<le> 138) \<or> c = 168 \<or> c = 169 \<or> c = 175))
   \<or> (a = 226 \<and> b = 129 \<and> c = 159)
   \<or> (a = 227 \<and> b = 128 \<and> c = 128)"

fun strip_ws_start :: "string \<Rightarrow> string option" where
  "strip_ws_start [] = None"
| "strip_ws_start [a] = (if ascii_whitespace (byte a) then Some [] else None)"
| "strip_ws_start [a, b] =
     (if ascii_whitespace (byte a) then Some [b]
      else if whitespace2 (byte a) (byte b) then Some [] else None)"
| "strip_ws_start (a # b # c # s) =
     (if ascii_whitespace (byte a) then Some (b # c # s)
      else if whitespace2 (byte a) (byte b) then Some (c # s)
      else if whitespace3 (byte a) (byte b) (byte c) then Some s else None)"

text \<open>The same at the end of the string, on the reversed bytes.\<close>

fun strip_ws_end_rev :: "string \<Rightarrow> string option" where
  "strip_ws_end_rev [] = None"
| "strip_ws_end_rev [a] = (if ascii_whitespace (byte a) then Some [] else None)"
| "strip_ws_end_rev [b, a] =
     (if ascii_whitespace (byte b) then Some [a]
      else if whitespace2 (byte a) (byte b) then Some [] else None)"
| "strip_ws_end_rev (c # b # a # s) =
     (if ascii_whitespace (byte c) then Some (b # a # s)
      else if whitespace2 (byte b) (byte c) then Some (a # s)
      else if whitespace3 (byte a) (byte b) (byte c) then Some s else None)"

lemma strip_ws_start_shorter: "strip_ws_start s = Some t \<Longrightarrow> length t < length s"
  by (cases s rule: strip_ws_start.cases) (auto split: if_splits)

lemma strip_ws_end_rev_shorter: "strip_ws_end_rev s = Some t \<Longrightarrow> length t < length s"
  by (cases s rule: strip_ws_end_rev.cases) (auto split: if_splits)

function trim_start :: "string \<Rightarrow> string" where
  "trim_start s = (case strip_ws_start s of None \<Rightarrow> s | Some t \<Rightarrow> trim_start t)"
  by pat_completeness auto
termination
  by (relation "measure length") (auto dest: strip_ws_start_shorter)

function trim_end_rev :: "string \<Rightarrow> string" where
  "trim_end_rev s = (case strip_ws_end_rev s of None \<Rightarrow> s | Some t \<Rightarrow> trim_end_rev t)"
  by pat_completeness auto
termination
  by (relation "measure length") (auto dest: strip_ws_end_rev_shorter)

declare trim_start.simps [simp del] trim_end_rev.simps [simp del]

definition trim :: "string \<Rightarrow> string" where
  "trim s = rev (trim_end_rev (rev (trim_start s)))"

text \<open>\<open>value.trim().is_empty()\<close>, the test the validators use for a blank field.\<close>

definition is_blank :: "string \<Rightarrow> bool" where
  "is_blank s \<longleftrightarrow> trim s = []"

definition all_non_blank :: "string list \<Rightarrow> bool" where
  "all_non_blank vs \<longleftrightarrow> list_all (\<lambda>v. \<not> is_blank v) vs"

lemma trim_start_fixed: "strip_ws_start (trim_start s) = None"
  by (induction s rule: trim_start.induct)
    (subst trim_start.simps, auto split: option.splits)

lemma trim_end_rev_fixed: "strip_ws_end_rev (trim_end_rev s) = None"
  by (induction s rule: trim_end_rev.induct)
    (subst trim_end_rev.simps, auto split: option.splits)

lemma trim_start_id: "strip_ws_start s = None \<Longrightarrow> trim_start s = s"
  by (simp add: trim_start.simps)

lemma trim_end_rev_id: "strip_ws_end_rev s = None \<Longrightarrow> trim_end_rev s = s"
  by (simp add: trim_end_rev.simps)

lemma trim_start_suffix: "\<exists>p. s = p @ trim_start s"
proof (induction s rule: trim_start.induct)
  case (1 s)
  show ?case
  proof (cases "strip_ws_start s")
    case None
    then show ?thesis by (simp add: trim_start_id)
  next
    case (Some t)
    with 1 obtain p where p: "t = p @ trim_start t" by blast
    from Some have "\<exists>q. s = q @ t"
      by (cases s rule: strip_ws_start.cases) (auto split: if_splits)
    with p Some show ?thesis
      by (metis append.assoc option.simps(5) trim_start.simps)
  qed
qed

lemma trim_end_rev_suffix: "\<exists>p. s = p @ trim_end_rev s"
proof (induction s rule: trim_end_rev.induct)
  case (1 s)
  show ?case
  proof (cases "strip_ws_end_rev s")
    case None
    then show ?thesis by (simp add: trim_end_rev_id)
  next
    case (Some t)
    with 1 obtain p where p: "t = p @ trim_end_rev t" by blast
    from Some have "\<exists>q. s = q @ t"
      by (cases s rule: strip_ws_end_rev.cases) (auto split: if_splits)
    with p Some show ?thesis
      by (metis append.assoc option.simps(5) trim_end_rev.simps)
  qed
qed

text \<open>Trimming keeps a contiguous part of the string.\<close>

lemma trim_infix: "\<exists>p q. s = p @ trim s @ q"
proof -
  obtain p where p: "s = p @ trim_start s" using trim_start_suffix by blast
  obtain q where "rev (trim_start s) = q @ trim_end_rev (rev (trim_start s))"
    using trim_end_rev_suffix by blast
  then have "trim_start s = trim s @ rev q"
    by (metis rev_append rev_rev_ident trim_def)
  with p show ?thesis by metis
qed

lemma is_blank_Nil [simp]: "is_blank []"
  by (simp add: is_blank_def trim_def trim_start_id trim_end_rev_id)

section \<open>ASCII case, hexadecimal digits, substrings\<close>

definition ascii_lower :: "char \<Rightarrow> char" where
  "ascii_lower c =
     (case map_of (zip ''ABCDEFGHIJKLMNOPQRSTUVWXYZ'' ''abcdefghijklmnopqrstuvwxyz'') c of
        Some d \<Rightarrow> d | None \<Rightarrow> c)"

definition to_ascii_lowercase :: "string \<Rightarrow> string" where
  "to_ascii_lowercase s = map ascii_lower s"

definition is_ascii_hexdigit :: "char \<Rightarrow> bool" where
  "is_ascii_hexdigit c \<longleftrightarrow>
     (48 \<le> byte c \<and> byte c \<le> 57) \<or> (65 \<le> byte c \<and> byte c \<le> 70) \<or> (97 \<le> byte c \<and> byte c \<le> 102)"

definition all_hex :: "string \<Rightarrow> bool" where
  "all_hex s \<longleftrightarrow> list_all is_ascii_hexdigit s"

text \<open>The helper \<open>is_sha256\<close> (\<open>graph.rs\<close>, \<open>conversation.rs\<close>) and the two spellings of the Git object
  id test: \<open>matches!(len, 40 | 64)\<close> in the graph and conversation validators.\<close>

definition is_sha256 :: "string \<Rightarrow> bool" where
  "is_sha256 s \<longleftrightarrow> length s = 64 \<and> all_hex s"

definition is_git_object_id :: "string \<Rightarrow> bool" where
  "is_git_object_id s \<longleftrightarrow> (length s = 40 \<or> length s = 64) \<and> all_hex s"

definition is_hex_with_len :: "string \<Rightarrow> nat \<Rightarrow> nat \<Rightarrow> bool" where
  "is_hex_with_len s lo hi \<longleftrightarrow> lo \<le> length s \<and> length s \<le> hi \<and> all_hex s"

fun starts_with :: "string \<Rightarrow> string \<Rightarrow> bool" where
  "starts_with s [] = True"
| "starts_with [] (p # ps) = False"
| "starts_with (c # s) (p # ps) = (c = p \<and> starts_with s ps)"

fun str_contains :: "string \<Rightarrow> string \<Rightarrow> bool" where
  "str_contains [] n = (n = [])"
| "str_contains (c # s) n = (starts_with (c # s) n \<or> str_contains s n)"

lemma starts_with_iff: "starts_with s p \<longleftrightarrow> (\<exists>r. s = p @ r)"
  by (induction s p rule: starts_with.induct) auto

lemma str_contains_iff: "str_contains s n \<longleftrightarrow> (\<exists>p r. s = p @ n @ r)"
proof (induction s)
  case Nil
  then show ?case by auto
next
  case (Cons c s)
  show ?case
    by (simp add: Cons.IH starts_with_iff Cons_eq_append_conv) (metis append_Nil append_Cons)
qed

lemma is_sha256_imp_hex_len: "is_sha256 s \<Longrightarrow> is_hex_with_len s 64 64"
  by (simp add: is_sha256_def is_hex_with_len_def)

lemma is_git_object_id_imp_hex_len: "is_git_object_id s \<Longrightarrow> is_hex_with_len s 40 64"
  by (auto simp: is_git_object_id_def is_hex_with_len_def)

end
