(* ===== verification/Providers.thy ===== *)
theory Providers
  imports Rust_Str
begin

text \<open>
  The small vocabulary types of the domain crate: \<open>ProviderId\<close> (\<open>usage.rs\<close>), capabilities, health,
  profiles and worker outcomes (\<open>provider.rs\<close>), and schema versions (\<open>schema.rs\<close>). Where the source derives \<open>Ord\<close> the type is a \<open>linorder\<close> in
  declaration order.
\<close>

section \<open>Providers\<close>

datatype ProviderId = Gemini | Agy | Codex | Claude

fun provider_rank :: "ProviderId \<Rightarrow> nat" where
  "provider_rank Gemini = 0"
| "provider_rank Agy = 1"
| "provider_rank Codex = 2"
| "provider_rank Claude = 3"

lemma provider_rank_inj: "provider_rank a = provider_rank b \<Longrightarrow> a = b"
  by (cases a; cases b) simp_all

instantiation ProviderId :: linorder
begin

definition less_eq_ProviderId :: "ProviderId \<Rightarrow> ProviderId \<Rightarrow> bool" where
  "less_eq_ProviderId a b \<longleftrightarrow> provider_rank a \<le> provider_rank b"

definition less_ProviderId :: "ProviderId \<Rightarrow> ProviderId \<Rightarrow> bool" where
  "less_ProviderId a b \<longleftrightarrow> provider_rank a < provider_rank b"

instance
  by standard
    (auto simp: less_eq_ProviderId_def less_ProviderId_def dest: provider_rank_inj)

end

text \<open>The keys of a \<open>BTreeMap<ProviderId, _>\<close> in iteration order.\<close>

definition all_providers :: "ProviderId list" where
  "all_providers = [Gemini, Agy, Codex, Claude]"

lemma set_all_providers [simp]: "set all_providers = UNIV"
proof -
  have "p \<in> set all_providers" for p by (cases p) (simp_all add: all_providers_def)
  then show ?thesis by auto
qed

lemma sorted_all_providers: "sorted_wrt (<) all_providers"
  by (simp add: all_providers_def less_ProviderId_def)

fun provider_as_str :: "ProviderId \<Rightarrow> string" where
  "provider_as_str Gemini = ''gemini''"
| "provider_as_str Agy = ''agy''"
| "provider_as_str Codex = ''codex''"
| "provider_as_str Claude = ''claude''"

datatype ProviderIdParseError = ProviderIdParseError string

definition provider_from_str :: "string \<Rightarrow> ProviderIdParseError + ProviderId" where
  "provider_from_str value =
     (let v = to_ascii_lowercase value in
      if v = ''gemini'' then Inr Gemini
      else if v = ''agy'' then Inr Agy
      else if v = ''codex'' then Inr Codex
      else if v = ''claude'' then Inr Claude
      else Inl (ProviderIdParseError value))"

section \<open>Capabilities, health, profiles, outcomes\<close>

datatype CapabilitySupport = Unsupported | Advertised | Verified | Degraded

definition capability_usable :: "CapabilitySupport \<Rightarrow> bool" where
  "capability_usable c \<longleftrightarrow> c \<in> {Advertised, Verified, Degraded}"

definition capability_verified :: "CapabilitySupport \<Rightarrow> bool" where
  "capability_verified c \<longleftrightarrow> c = Verified"

datatype HealthStatus = Healthy | Health_Degraded | Unhealthy | Health_Unknown

record ProviderHealth =
  health_provider :: ProviderId
  health_status :: HealthStatus
  health_checked_at :: DateTime
  health_latency_ms :: "u64 option"
  health_consecutive_failures :: u32
  health_detail :: "string option"

definition ProviderHealth_unknown :: "ProviderId \<Rightarrow> DateTime \<Rightarrow> ProviderHealth" where
  "ProviderHealth_unknown p t =
     \<lparr> health_provider = p, health_status = Health_Unknown, health_checked_at = t,
       health_latency_ms = None, health_consecutive_failures = 0, health_detail = None \<rparr>"

record ProviderCapabilities =
  cap_provider :: ProviderId
  cap_version :: "string option"
  cap_non_interactive :: CapabilitySupport
  cap_structured_output :: CapabilitySupport
  cap_writable :: CapabilitySupport
  cap_read_only :: CapabilitySupport
  cap_session_resume :: CapabilitySupport
  cap_output_schema :: CapabilitySupport
  cap_app_server :: CapabilitySupport
  cap_reasoning_effort :: CapabilitySupport
  cap_usage_events :: CapabilitySupport
  cap_evidence :: "string list"

definition ProviderCapabilities_unsupported :: "ProviderId \<Rightarrow> ProviderCapabilities" where
  "ProviderCapabilities_unsupported p =
     \<lparr> cap_provider = p, cap_version = None, cap_non_interactive = Unsupported,
       cap_structured_output = Unsupported, cap_writable = Unsupported, cap_read_only = Unsupported,
       cap_session_resume = Unsupported, cap_output_schema = Unsupported, cap_app_server = Unsupported,
       cap_reasoning_effort = Unsupported, cap_usage_events = Unsupported, cap_evidence = [] \<rparr>"

datatype SandboxMode = ReadOnly | WorkspaceWrite

datatype ModelProfile = Economy | Standard | Premium

fun profile_rank :: "ModelProfile \<Rightarrow> nat" where
  "profile_rank Economy = 0"
| "profile_rank Standard = 1"
| "profile_rank Premium = 2"

lemma profile_rank_inj: "profile_rank a = profile_rank b \<Longrightarrow> a = b"
  by (cases a; cases b) simp_all

instantiation ModelProfile :: linorder
begin

definition less_eq_ModelProfile :: "ModelProfile \<Rightarrow> ModelProfile \<Rightarrow> bool" where
  "less_eq_ModelProfile a b \<longleftrightarrow> profile_rank a \<le> profile_rank b"

definition less_ModelProfile :: "ModelProfile \<Rightarrow> ModelProfile \<Rightarrow> bool" where
  "less_ModelProfile a b \<longleftrightarrow> profile_rank a < profile_rank b"

instance
  by standard
    (auto simp: less_eq_ModelProfile_def less_ModelProfile_def dest: profile_rank_inj)

end

datatype ReasoningEffort = Effort_Low | Effort_Medium | Effort_High

datatype RawEventChannel = Stdout | Stderr | Protocol

datatype WorkerOutcome =
  Outcome_Succeeded | Outcome_Failed | Outcome_Cancelled | Outcome_TimedOut | Outcome_QuotaExceeded

datatype CancelOutcome = Cancel_Cancelled | AlreadyExited | Forced

section \<open>Schema versions\<close>

type_synonym SchemaVersion = string

definition SchemaVersion_V1 :: SchemaVersion where "SchemaVersion_V1 = ''1''"
definition SchemaVersion_V4 :: SchemaVersion where "SchemaVersion_V4 = ''4''"

definition schema_v1 :: SchemaVersion where "schema_v1 = SchemaVersion_V1"
definition schema_state_current :: SchemaVersion where "schema_state_current = SchemaVersion_V4"

definition is_supported_by :: "SchemaVersion \<Rightarrow> string list \<Rightarrow> bool" where
  "is_supported_by v supported \<longleftrightarrow> v \<in> set supported"

text \<open>\<open>deserialize_v1_schema_version\<close>: every other discriminator is refused (with its text).\<close>

definition deserialize_v1_schema_version :: "string \<Rightarrow> string + SchemaVersion" where
  "deserialize_v1_schema_version v = (if v = SchemaVersion_V1 then Inr v else Inl v)"

section \<open>Round trip\<close>

text \<open>A provider name printed by \<open>as_str\<close> parses back to the same provider, in any ASCII case, and
  the parser accepts nothing else.\<close>

theorem provider_from_str_iff:
  "provider_from_str value = Inr p \<longleftrightarrow> to_ascii_lowercase value = provider_as_str p"
  by (cases p) (auto simp: provider_from_str_def Let_def)

end
