(* ===== verification/F64.thy ===== *)
theory F64
  imports Complex_Main
begin

text \<open>
  Rust's \<open>f64\<close>: IEEE 754 binary64 with round-to-nearest, ties-to-even. A finite value is a sign bit
  and a rational magnitude, so that negative zero is kept apart; every operation computes the exact
  rational result and rounds it once. NaN payloads are not distinguished.
\<close>

section \<open>Values and rounding\<close>

datatype f64 = NaN | Infinity bool | Finite bool rat

text \<open>\<open>int_log2 a\<close>: the floor of the binary logarithm of a positive integer.\<close>

function int_log2 :: "int \<Rightarrow> int" where
  "int_log2 a = (if a \<le> 1 then 0 else int_log2 (a div 2) + 1)"
  by pat_completeness auto
termination
  by (relation "measure nat") auto

declare int_log2.simps [simp del]

text \<open>\<open>exponent_of q\<close>: the exponent \<open>e\<close> with \<open>2 powi e \<le> q < 2 powi (e + 1)\<close>, for positive \<open>q\<close>.\<close>

definition exponent_of :: "rat \<Rightarrow> int" where
  "exponent_of q =
     (let (a, b) = quotient_of q;
          k = int_log2 a - int_log2 b
      in if 2 powi k \<le> q then k else k - 1)"

definition round_half_even :: "rat \<Rightarrow> int" where
  "round_half_even x =
     (let f = \<lfloor>x\<rfloor>; d = x - of_int f in
      if d < 1 / 2 then f else if d > 1 / 2 then f + 1 else if even f then f else f + 1)"

definition round_magnitude :: "bool \<Rightarrow> rat \<Rightarrow> f64" where
  "round_magnitude s q =
     (if q = 0 then Finite s 0
      else let u = max (- 1074) (exponent_of q - 52);
               r = of_int (round_half_even (q / 2 powi u)) * 2 powi u
           in if 2 ^ 1024 \<le> r then Infinity s else Finite s r)"

definition f64_of_rat :: "rat \<Rightarrow> f64" where
  "f64_of_rat q = round_magnitude (q < 0) \<bar>q\<bar>"

definition f64_of_int :: "int \<Rightarrow> f64" where
  "f64_of_int i = f64_of_rat (of_int i)"

fun f64_negative :: "f64 \<Rightarrow> bool" where
  "f64_negative NaN = False"
| "f64_negative (Infinity s) = s"
| "f64_negative (Finite s m) = s"

fun f64_is_finite :: "f64 \<Rightarrow> bool" where
  "f64_is_finite (Finite s m) = True"
| "f64_is_finite _ = False"

definition f64_val :: "bool \<Rightarrow> rat \<Rightarrow> rat" where
  "f64_val s m = (if s then - m else m)"

section \<open>Comparison\<close>

fun f64_lt :: "f64 \<Rightarrow> f64 \<Rightarrow> bool" where
  "f64_lt NaN y = False"
| "f64_lt x NaN = False"
| "f64_lt (Infinity s) (Infinity t) = (s \<and> \<not> t)"
| "f64_lt (Infinity s) (Finite t m) = s"
| "f64_lt (Finite s m) (Infinity t) = (\<not> t)"
| "f64_lt (Finite s m) (Finite t n) = (f64_val s m < f64_val t n)"

fun f64_eq :: "f64 \<Rightarrow> f64 \<Rightarrow> bool" where
  "f64_eq NaN y = False"
| "f64_eq x NaN = False"
| "f64_eq (Infinity s) (Infinity t) = (s = t)"
| "f64_eq (Infinity s) (Finite t m) = False"
| "f64_eq (Finite s m) (Infinity t) = False"
| "f64_eq (Finite s m) (Finite t n) = (f64_val s m = f64_val t n)"

definition f64_le :: "f64 \<Rightarrow> f64 \<Rightarrow> bool" where
  "f64_le x y \<longleftrightarrow> f64_lt x y \<or> f64_eq x y"

definition f64_zero :: f64 where "f64_zero = Finite False 0"
definition f64_one :: f64 where "f64_one = Finite False 1"
definition f64_hundred :: f64 where "f64_hundred = Finite False 100"

text \<open>\<open>(lo..=hi).contains(&x)\<close>.\<close>

definition f64_in_range :: "f64 \<Rightarrow> f64 \<Rightarrow> f64 \<Rightarrow> bool" where
  "f64_in_range lo hi x \<longleftrightarrow> f64_le lo x \<and> f64_le x hi"

text \<open>\<open>f64::clamp\<close>: NaN stays NaN.\<close>

definition f64_clamp :: "f64 \<Rightarrow> f64 \<Rightarrow> f64 \<Rightarrow> f64" where
  "f64_clamp lo hi x = (let y = (if f64_lt x lo then lo else x) in if f64_lt hi y then hi else y)"

text \<open>\<open>f64::max\<close> and \<open>f64::min\<close> ignore a NaN operand.\<close>

definition f64_max :: "f64 \<Rightarrow> f64 \<Rightarrow> f64" where
  "f64_max x y = (if x = NaN then y else if y = NaN then x else if f64_lt x y then y else x)"

definition f64_min :: "f64 \<Rightarrow> f64 \<Rightarrow> f64" where
  "f64_min x y = (if x = NaN then y else if y = NaN then x else if f64_lt y x then y else x)"

section \<open>Arithmetic\<close>

fun f64_neg :: "f64 \<Rightarrow> f64" where
  "f64_neg NaN = NaN"
| "f64_neg (Infinity s) = Infinity (\<not> s)"
| "f64_neg (Finite s m) = Finite (\<not> s) m"

fun f64_abs :: "f64 \<Rightarrow> f64" where
  "f64_abs NaN = NaN"
| "f64_abs (Infinity s) = Infinity False"
| "f64_abs (Finite s m) = Finite False m"

fun f64_add :: "f64 \<Rightarrow> f64 \<Rightarrow> f64" where
  "f64_add NaN y = NaN"
| "f64_add x NaN = NaN"
| "f64_add (Infinity s) (Infinity t) = (if s = t then Infinity s else NaN)"
| "f64_add (Infinity s) (Finite t m) = Infinity s"
| "f64_add (Finite s m) (Infinity t) = Infinity t"
| "f64_add (Finite s m) (Finite t n) =
     (let r = f64_val s m + f64_val t n in
      if r = 0 then Finite (s \<and> t) 0 else f64_of_rat r)"

definition f64_sub :: "f64 \<Rightarrow> f64 \<Rightarrow> f64" where
  "f64_sub x y = f64_add x (f64_neg y)"

fun f64_mul :: "f64 \<Rightarrow> f64 \<Rightarrow> f64" where
  "f64_mul NaN y = NaN"
| "f64_mul x NaN = NaN"
| "f64_mul (Infinity s) (Infinity t) = Infinity (s \<noteq> t)"
| "f64_mul (Infinity s) (Finite t m) = (if m = 0 then NaN else Infinity (s \<noteq> t))"
| "f64_mul (Finite s m) (Infinity t) = (if m = 0 then NaN else Infinity (s \<noteq> t))"
| "f64_mul (Finite s m) (Finite t n) = round_magnitude (s \<noteq> t) (m * n)"

fun f64_div :: "f64 \<Rightarrow> f64 \<Rightarrow> f64" where
  "f64_div NaN y = NaN"
| "f64_div x NaN = NaN"
| "f64_div (Infinity s) (Infinity t) = NaN"
| "f64_div (Infinity s) (Finite t m) = Infinity (s \<noteq> t)"
| "f64_div (Finite s m) (Infinity t) = Finite (s \<noteq> t) 0"
| "f64_div (Finite s m) (Finite t n) =
     (if n = 0 then (if m = 0 then NaN else Infinity (s \<noteq> t))
      else round_magnitude (s \<noteq> t) (m / n))"

section \<open>Facts\<close>

lemma f64_lt_irrefl [simp]: "\<not> f64_lt x x"
  by (cases x) auto

lemma f64_eq_refl_iff [simp]: "f64_eq x x \<longleftrightarrow> x \<noteq> NaN"
  by (cases x) auto

lemma f64_lt_asym: "f64_lt x y \<Longrightarrow> \<not> f64_lt y x"
  by (induction x y rule: f64_lt.induct) auto

lemma f64_lt_trans: "f64_lt x y \<Longrightarrow> f64_lt y z \<Longrightarrow> f64_lt x z"
  by (cases x; cases y; cases z) auto

lemma f64_le_trans: "f64_le x y \<Longrightarrow> f64_le y z \<Longrightarrow> f64_le x z"
  by (cases x; cases y; cases z) (auto simp: f64_le_def)

lemma f64_le_lt_trans: "f64_le x y \<Longrightarrow> f64_lt y z \<Longrightarrow> f64_lt x z"
  by (cases x; cases y; cases z) (auto simp: f64_le_def)

lemma f64_le_NaN [simp]: "\<not> f64_le NaN x" "\<not> f64_le x NaN"
  by (cases x; simp add: f64_le_def)+

lemma f64_not_lt: "x \<noteq> NaN \<Longrightarrow> y \<noteq> NaN \<Longrightarrow> \<not> f64_lt x y \<longleftrightarrow> f64_le y x"
  by (cases x; cases y) (auto simp: f64_le_def)

lemma f64_clamp_NaN [simp]: "lo \<noteq> NaN \<Longrightarrow> hi \<noteq> NaN \<Longrightarrow> f64_clamp lo hi x = NaN \<longleftrightarrow> x = NaN"
  by (cases hi; cases lo; cases x) (auto simp: f64_clamp_def Let_def)

lemma f64_clamp_in_range:
  assumes "f64_le lo hi" and "x \<noteq> NaN"
  shows "f64_in_range lo hi (f64_clamp lo hi x)"
  using assms
  by (cases lo; cases hi; cases x) (auto simp: f64_clamp_def f64_in_range_def f64_le_def Let_def)

section \<open>Rounding bounds\<close>

lemma int_log2_bounds:
  assumes "0 < a"
  shows "0 \<le> int_log2 a \<and> 2 ^ nat (int_log2 a) \<le> a \<and> a < 2 ^ Suc (nat (int_log2 a))"
  using assms
proof (induction a rule: int_log2.induct)
  case (1 a)
  show ?case
  proof (cases "a \<le> 1")
    case True
    with 1(2) show ?thesis by (simp add: int_log2.simps [of a])
  next
    case False
    define l where "l = int_log2 (a div 2)"
    have "0 \<le> l" "2 ^ nat l \<le> a div 2" "a div 2 < 2 ^ Suc (nat l)"
      using 1(1) [OF False] False unfolding l_def by auto
    moreover have "int_log2 a = l + 1" using False by (simp add: int_log2.simps [of a] l_def)
    moreover have "nat (l + 1) = Suc (nat l)" using \<open>0 \<le> l\<close> by simp
    ultimately show ?thesis by (simp add: algebra_simps) presburger
  qed
qed

lemma exponent_of_le:
  assumes "0 < q"
  shows "2 powi exponent_of q \<le> q"
proof -
  obtain a b where ab: "quotient_of q = (a, b)" by (cases "quotient_of q")
  have b: "0 < b" using quotient_of_denom_pos [OF ab] .
  have q: "q = of_int a / of_int b" by (rule quotient_of_div [OF ab])
  have a: "0 < a" using assms b by (simp add: q zero_less_divide_iff)
  define m n where "m = nat (int_log2 a)" and "n = nat (int_log2 b)"
  have m: "int_log2 a = int m" "2 ^ m \<le> a" using int_log2_bounds [OF a] by (simp_all add: m_def)
  have n: "int_log2 b = int n" "b < 2 ^ Suc n" using int_log2_bounds [OF b] by (simp_all add: n_def)
  have "(2 :: rat) powi (int m - int n - 1) = 2 ^ m / 2 ^ Suc n"
    by (simp add: power_int_diff)
  also have "\<dots> \<le> of_int a / of_int b"
  proof (rule frac_le)
    show "(2 :: rat) ^ m \<le> of_int a" using m(2) by (metis of_int_le_iff of_int_numeral of_int_power)
    show "(of_int b :: rat) \<le> 2 ^ Suc n"
      using n(2) by (metis less_imp_le of_int_le_iff of_int_numeral of_int_power)
  qed (use a b in simp_all)
  finally have "(2 :: rat) powi (int m - int n - 1) \<le> q" by (simp add: q)
  then show ?thesis by (auto simp: exponent_of_def ab m(1) n(1) Let_def)
qed

lemma round_half_even_mono_int: "x \<le> of_int n \<Longrightarrow> round_half_even x \<le> n"
proof -
  assume x: "x \<le> of_int n"
  show ?thesis
  proof (cases "\<lfloor>x\<rfloor> = n")
    case True
    then have "x = of_int n" using x of_int_floor_le [of x] by simp
    then show ?thesis by (simp add: round_half_even_def)
  next
    case False
    moreover have "\<lfloor>x\<rfloor> \<le> n" using x by (simp add: floor_le_iff)
    ultimately show ?thesis by (simp add: round_half_even_def Let_def)
  qed
qed

lemma round_half_even_nonneg: "0 \<le> x \<Longrightarrow> 0 \<le> round_half_even x"
  by (auto simp: round_half_even_def Let_def)

text \<open>Rounding a magnitude below an exactly representable integer stays below it.\<close>

lemma round_magnitude_le_int:
  assumes "0 \<le> q" and "q \<le> of_nat n" and "n < 2 ^ 53"
  shows "\<exists>r. round_magnitude s q = Finite s r \<and> 0 \<le> r \<and> r \<le> of_nat n"
proof (cases "q = 0")
  case True
  then show ?thesis by (simp add: round_magnitude_def)
next
  case False
  define u where "u = max (- 1074) (exponent_of q - 52)"
  define r where "r = of_int (round_half_even (q / 2 powi u)) * (2 :: rat) powi u"
  have "(2 :: rat) powi exponent_of q \<le> q" using False assms(1) by (intro exponent_of_le) simp
  also have "q < 2 powi 53"
  proof -
    have "(of_nat n :: rat) < of_nat (2 ^ 53)" using assms(3) by (simp only: of_nat_less_iff)
    then show ?thesis using assms(2) by simp
  qed
  finally have "exponent_of q < 53"
    using power_int_increasing [of 53 "exponent_of q" "2 :: rat"] by force
  then have "u \<le> 0" by (simp add: u_def)
  then obtain k where k: "u = - int k" by (metis neg_0_le_iff_le nonneg_int_cases add.inverse_inverse)
  have p: "(2 :: rat) powi u = 1 / 2 ^ k" by (simp add: k power_int_minus field_simps)
  have "q / 2 powi u \<le> of_int (int n * 2 ^ k)" using assms(2) by (simp add: p)
  then have "round_half_even (q / 2 powi u) \<le> int n * 2 ^ k" by (rule round_half_even_mono_int)
  then have "(of_int (round_half_even (q / 2 powi u)) :: rat) \<le> of_nat n * 2 ^ k"
    using of_int_le_iff [where 'a = rat, of "round_half_even (q / 2 powi u)" "int n * 2 ^ k"] by simp
  then have "r \<le> of_nat n" by (simp add: r_def p field_simps)
  moreover have "0 \<le> r"
    unfolding r_def using assms(1) by (simp add: round_half_even_nonneg p)
  moreover have "\<not> 2 ^ 1024 \<le> r"
  proof -
    have "(of_nat n :: rat) < of_nat (2 ^ 53)" using assms(3) by (simp only: of_nat_less_iff)
    also have "(of_nat (2 ^ 53) :: rat) \<le> 2 ^ 1024" by simp
    finally show ?thesis using \<open>r \<le> of_nat n\<close> by simp
  qed
  ultimately show ?thesis using False by (auto simp: round_magnitude_def Let_def u_def r_def)
qed

text \<open>The percentage left over from a percentage is a percentage.\<close>

lemma f64_in_percent_iff:
  "f64_in_range f64_zero f64_hundred x \<longleftrightarrow>
     (\<exists>s m. x = Finite s m \<and> 0 \<le> f64_val s m \<and> f64_val s m \<le> 100)"
  by (cases x) (auto simp: f64_in_range_def f64_le_def f64_zero_def f64_hundred_def f64_val_def)

lemma f64_percent_complement:
  assumes "f64_in_range f64_zero f64_hundred x"
  shows "f64_in_range f64_zero f64_hundred (f64_sub f64_hundred x)"
proof -
  obtain s m where x: "x = Finite s m" and v: "0 \<le> f64_val s m" "f64_val s m \<le> 100"
    using assms by (auto simp: f64_in_percent_iff)
  define q where "q = 100 - f64_val s m"
  have sub: "f64_sub f64_hundred x = (if q = 0 then Finite False 0 else round_magnitude False q)"
    using v by (cases s) (simp_all add: f64_sub_def f64_hundred_def x f64_of_rat_def q_def Let_def f64_val_def not_less)
  obtain r where "round_magnitude False q = Finite False r" "0 \<le> r" "r \<le> 100"
    using round_magnitude_le_int [of q 100 False] v by (auto simp: q_def)
  then show ?thesis by (auto simp: sub f64_in_percent_iff f64_val_def)
qed

end
