(* ===== verification/Repo_Path.thy ===== *)
theory Repo_Path
  imports Rust_Str "HOL-Library.Sublist"
begin

text \<open>
  \<open>crates/orchestrator-domain/src/path.rs\<close>: repository-relative paths. \<open>std::path\<close> is modelled with
  its Unix rules: a path is its bytes, \<open>components\<close> splits at \<open>/\<close>, drops empty parts and every \<open>.\<close> but
  a leading one, and a leading \<open>/\<close> gives the root component. The Windows prefix rules are not modelled.
\<close>

section \<open>Paths and their components\<close>

datatype Component = RootDir | CurDir | ParentDir | Normal string

fun path_parts :: "string \<Rightarrow> string list" where
  "path_parts [] = [[]]"
| "path_parts (c # s) =
     (if c = CHR ''/'' then [] # path_parts s
      else (case path_parts s of [] \<Rightarrow> [[c]] | p # ps \<Rightarrow> (c # p) # ps))"

definition part_component :: "string \<Rightarrow> Component" where
  "part_component p = (if p = ''..'' then ParentDir else Normal p)"

definition body_components :: "string list \<Rightarrow> Component list" where
  "body_components ps = map part_component (filter (\<lambda>p. p \<noteq> [] \<and> p \<noteq> ''.'') ps)"

definition has_root :: "string \<Rightarrow> bool" where
  "has_root s \<longleftrightarrow> (case s of [] \<Rightarrow> False | c # _ \<Rightarrow> c = CHR ''/'')"

definition components :: "string \<Rightarrow> Component list" where
  "components s =
     (if has_root s then [RootDir] else if hd (path_parts s) = ''.'' then [CurDir] else [])
     @ body_components (path_parts s)"

definition path_join :: "string \<Rightarrow> string \<Rightarrow> string" where
  "path_join root p =
     (if has_root p then p
      else if root = [] \<or> last root = CHR ''/'' then root @ p
      else root @ ''/'' @ p)"

text \<open>Well-formed UTF-8, the test of \<open>Path::to_str\<close>.\<close>

definition utf8_tail :: "char \<Rightarrow> bool" where
  "utf8_tail c \<longleftrightarrow> 128 \<le> byte c \<and> byte c \<le> 191"

fun valid_utf8 :: "string \<Rightarrow> bool" where
  "valid_utf8 [] = True"
| "valid_utf8 (a # s) =
     (if byte a < 128 then valid_utf8 s
      else if byte a < 194 then False
      else if byte a < 224 then
        (case s of b # t \<Rightarrow> utf8_tail b \<and> valid_utf8 t | _ \<Rightarrow> False)
      else if byte a < 240 then
        (case s of b # c # t \<Rightarrow>
           utf8_tail b \<and> utf8_tail c
           \<and> (byte a = 224 \<longrightarrow> 160 \<le> byte b) \<and> (byte a = 237 \<longrightarrow> byte b \<le> 159)
           \<and> valid_utf8 t
         | _ \<Rightarrow> False)
      else if byte a < 245 then
        (case s of b # c # d # t \<Rightarrow>
           utf8_tail b \<and> utf8_tail c \<and> utf8_tail d
           \<and> (byte a = 240 \<longrightarrow> 144 \<le> byte b) \<and> (byte a = 244 \<longrightarrow> byte b \<le> 143)
           \<and> valid_utf8 t
         | _ \<Rightarrow> False)
      else False)"

section \<open>Validated repository paths\<close>

datatype RepoPath = RepoPath string

datatype RepoPathError = Empty | Unsafe string | Nul | NonUtf8

fun as_path :: "RepoPath \<Rightarrow> string" where
  "as_path (RepoPath s) = s"

definition is_normal :: "Component \<Rightarrow> bool" where
  "is_normal c \<longleftrightarrow> (case c of Normal _ \<Rightarrow> True | _ \<Rightarrow> False)"

definition RepoPath_new :: "string \<Rightarrow> RepoPathError + RepoPath" where
  "RepoPath_new path =
     (if path = [] then Inl Empty
      else if \<not> valid_utf8 path then Inl NonUtf8
      else if CHR 0x00 \<in> set path then Inl Nul
      else if has_root path \<or> list_ex (\<lambda>c. \<not> is_normal c) (components path) then Inl (Unsafe path)
      else Inr (RepoPath path))"

definition join_to :: "RepoPath \<Rightarrow> string \<Rightarrow> string" where
  "join_to p root = path_join root (as_path p)"

definition repo_paths_overlap :: "RepoPath \<Rightarrow> RepoPath \<Rightarrow> bool" where
  "repo_paths_overlap l r \<longleftrightarrow>
     prefix (components (as_path r)) (components (as_path l))
   \<or> prefix (components (as_path l)) (components (as_path r))"

text \<open>\<open>Display\<close> prints the path text, and \<open>Deserialize\<close> revalidates it.\<close>

definition RepoPath_to_string :: "RepoPath \<Rightarrow> string" where
  "RepoPath_to_string p = as_path p"

definition RepoPath_try_from :: "string \<Rightarrow> RepoPathError + RepoPath" where
  "RepoPath_try_from s = RepoPath_new s"

section \<open>Component lemmas\<close>

lemma path_parts_not_Nil [simp]: "path_parts s \<noteq> []"
  by (cases s) (auto split: list.splits)

lemma path_parts_append_slash:
  "path_parts (a @ CHR ''/'' # b) = path_parts a @ path_parts b"
  by (induction a) (auto split: list.splits simp: Cons_eq_append_conv)

lemma path_parts_snoc_slash: "path_parts (a @ ''/'') = path_parts a @ [[]]"
  using path_parts_append_slash [of a "[]"] by simp

lemma body_components_append: "body_components (ps @ qs) = body_components ps @ body_components qs"
  by (simp add: body_components_def)

lemma no_root_components:
  assumes "\<not> has_root s" and "list_all is_normal (components s)"
  shows "components s = body_components (path_parts s)"
  using assms by (auto simp: components_def is_normal_def split: if_splits)

lemma has_root_join: "root \<noteq> [] \<Longrightarrow> has_root (root @ x) = has_root root"
  by (cases root) (auto simp: has_root_def)

lemma hd_path_parts_join:
  "root \<noteq> [] \<Longrightarrow> last root = CHR ''/'' \<Longrightarrow> path_parts (root @ p) = butlast (path_parts root) @ path_parts p"
  by (cases root rule: rev_cases) (auto simp: path_parts_append_slash path_parts_snoc_slash)

lemma components_join:
  assumes "\<not> has_root p" and "components p = body_components (path_parts p)"
  shows "components (path_join root p) = components root @ components p"
proof (cases "root = []")
  case True
  then show ?thesis using assms
    by (simp add: path_join_def components_def has_root_def body_components_def)
next
  case ne: False
  show ?thesis
  proof (cases "last root = CHR ''/''")
    case True
    then obtain r where r: "root = r @ ''/''"
      using ne by (metis append_butlast_last_id)
    have pp: "path_parts (root @ p) = path_parts r @ path_parts p"
      and pr: "path_parts root = path_parts r @ [[]]"
      by (simp_all add: r path_parts_append_slash path_parts_snoc_slash)
    show ?thesis using assms ne True
      by (simp add: path_join_def components_def pp pr has_root_join [OF ne] body_components_append)
        (simp add: body_components_def)
  next
    case False
    have pp: "path_parts (root @ ''/'' @ p) = path_parts root @ path_parts p"
      by (simp add: path_parts_append_slash)
    show ?thesis using assms ne False
      by (simp add: path_join_def components_def pp [simplified] has_root_join [OF ne]
          body_components_append)
  qed
qed

lemma RepoPath_new_ok:
  assumes "RepoPath_new s = Inr p"
  shows "as_path p = s" and "\<not> has_root s" and "list_all is_normal (components s)"
    and "components s = body_components (path_parts s)"
proof -
  from assms show "as_path p = s" and r: "\<not> has_root s"
    by (auto simp: RepoPath_new_def split: if_splits)
  from assms show n: "list_all is_normal (components s)"
    by (auto simp: RepoPath_new_def list_ex_iff list_all_iff split: if_splits)
  show "components s = body_components (path_parts s)"
    by (rule no_root_components [OF r n])
qed

lemma repo_paths_overlap_sym: "repo_paths_overlap l r = repo_paths_overlap r l"
  by (auto simp: repo_paths_overlap_def)

lemma repo_paths_overlap_refl [simp]: "repo_paths_overlap p p"
  by (simp add: repo_paths_overlap_def)

lemma overlap_common_descendant:
  "repo_paths_overlap l r \<longleftrightarrow>
     (\<exists>loc. prefix (components (as_path l)) loc \<and> prefix (components (as_path r)) loc)"
  by (auto simp: repo_paths_overlap_def dest: prefix_same_cases)

section \<open>Properties\<close>

text \<open>C40: a path accepted by \<open>RepoPath::new\<close> resolves lexically below every root it is joined to:
  the root's components are kept and followed by normal components only, so no accepted path
  climbs out of the repository through \<open>..\<close>, an absolute prefix or a leading \<open>.\<close>.\<close>

theorem join_to_stays_below_root:
  assumes "RepoPath_new s = Inr p"
  shows "components (join_to p root) = components root @ components s
       \<and> list_all is_normal (components s)"
  using RepoPath_new_ok [OF assms] components_join [of s root]
  by (simp add: join_to_def)

theorem join_to_stays_below_root_witness:
  "components (join_to (RepoPath ''src/lib.rs'') ''/repo'')
     = [RootDir, Normal ''repo'', Normal ''src'', Normal ''lib.rs'']"
proof -
  have h: "RepoPath_new ''src/lib.rs'' = Inr (RepoPath ''src/lib.rs'')" by code_simp
  have r: "components ''/repo'' = [RootDir, Normal ''repo'']" by code_simp
  have s: "components ''src/lib.rs'' = [Normal ''src'', Normal ''lib.rs'']" by code_simp
  show ?thesis using join_to_stays_below_root [OF h, of "''/repo''"] r s by simp
qed

text \<open>Two reserved paths overlap exactly when some location lies in both of their trees, so the
  component-aware prefix test neither misses a shared file nor confuses \<open>src/a\<close> with \<open>src/ab\<close>.\<close>

theorem repo_paths_overlap_iff_common_descendant:
  "repo_paths_overlap l r \<longleftrightarrow>
     (\<exists>location. prefix (components (as_path l)) location \<and> prefix (components (as_path r)) location)"
  by (rule overlap_common_descendant)

end
