(* ===== verification/Integrity.thy ===== *)
theory Integrity
  imports Rust_Str "HOL-Library.List_Lexorder" "HOL-Library.Multiset"
begin

text \<open>
  \<open>crates/orchestrator-domain/src/integrity.rs\<close>: canonical JSON and the SHA-256 seal, and the seal/verify
  protocol shared by checkpoints, handover bundles and audit events. The SHA-256 digest (crates
  \<open>sha2\<close> and \<open>hex\<close>), \<open>serde_json\<close>'s string quoting and the generated \<open>Serialize\<close> implementations are not
  part of the repository: they are parameters.
\<close>

section \<open>Canonical JSON\<close>

text \<open>\<open>serde_json::Value\<close>; a number is kept as the text its \<open>to_string\<close> prints.\<close>

datatype json =
    JNull
  | JBool bool
  | JNumber string
  | JString string
  | JArray "json list"
  | JObject "(string \<times> json) list"

text \<open>\<open>str::encode_utf16\<close> on the UTF-8 bytes of a string.\<close>

fun utf16 :: "string \<Rightarrow> nat list" where
  "utf16 [] = []"
| "utf16 (a # s) =
     (if byte a < 128 then byte a # utf16 s
      else if byte a < 224 then
        (case s of b # t \<Rightarrow> ((byte a - 192) * 64 + (byte b - 128)) # utf16 t | _ \<Rightarrow> [])
      else if byte a < 240 then
        (case s of b # c # t \<Rightarrow>
           ((byte a - 224) * 4096 + (byte b - 128) * 64 + (byte c - 128)) # utf16 t | _ \<Rightarrow> [])
      else
        (case s of b # c # d # t \<Rightarrow>
           (let v = (byte a - 240) * 262144 + (byte b - 128) * 4096
                    + (byte c - 128) * 64 + (byte d - 128) - 65536
            in (55296 + v div 1024) # (56320 + v mod 1024) # utf16 t) | _ \<Rightarrow> []))"

fun join_with :: "string \<Rightarrow> string list \<Rightarrow> string" where
  "join_with sep [] = []"
| "join_with sep [x] = x"
| "join_with sep (x # y # xs) = x @ sep @ join_with sep (y # xs)"

text \<open>\<open>write_value\<close>; \<open>quote\<close> is \<open>serde_json::to_string\<close> on a string. Object entries are sorted by
  their UTF-16 keys with a stable sort.\<close>

fun write_value :: "(string \<Rightarrow> string) \<Rightarrow> json \<Rightarrow> string" where
  "write_value quote JNull = ''null''"
| "write_value quote (JBool b) = (if b then ''true'' else ''false'')"
| "write_value quote (JNumber n) = n"
| "write_value quote (JString s) = quote s"
| "write_value quote (JArray vs) = ''['' @ join_with '','' (map (write_value quote) vs) @ '']''"
| "write_value quote (JObject es) =
     ''{'' @ join_with '',''
       (map (\<lambda>(k, v). quote k @ '':'' @ write_value quote v) (sort_key (\<lambda>(k, v). utf16 k) es))
     @ ''}''"

section \<open>Seals\<close>

record integrity_env =
  json_quote :: "string \<Rightarrow> string"
  sha256_hex :: "string \<Rightarrow> string"

datatype IntegrityError = Serialization string

definition canonical_json :: "integrity_env \<Rightarrow> string + json \<Rightarrow> IntegrityError + string" where
  "canonical_json env v =
     (case v of Inl e \<Rightarrow> Inl (Serialization e) | Inr j \<Rightarrow> Inr (write_value (json_quote env) j))"

definition canonical_sha256 :: "integrity_env \<Rightarrow> string + json \<Rightarrow> IntegrityError + string" where
  "canonical_sha256 env v = and_then (canonical_json env v) (\<lambda>bytes. Inr (sha256_hex env bytes))"

text \<open>
  \<open>seal\<close>, \<open>refresh_integrity_hash\<close> and \<open>verify_integrity\<close> have the same body in \<open>checkpoint.rs\<close>,
  \<open>handover.rs\<close> and \<open>event.rs\<close>: clear the hash field, hash the document, store or compare. They are
  stated once over the document's hash and its hash field.
\<close>

definition seal_with ::
    "('d \<Rightarrow> IntegrityError + string) \<Rightarrow> (string \<Rightarrow> 'd \<Rightarrow> 'd) \<Rightarrow> 'd \<Rightarrow> IntegrityError + 'd" where
  "seal_with hash set_hash d =
     (let cleared = set_hash [] d in
      and_then (hash cleared) (\<lambda>h. Inr (set_hash h cleared)))"

definition verify_with ::
    "('d \<Rightarrow> IntegrityError + string) \<Rightarrow> ('d \<Rightarrow> string) \<Rightarrow> (string \<Rightarrow> 'd \<Rightarrow> 'd) \<Rightarrow> 'd
     \<Rightarrow> IntegrityError + bool" where
  "verify_with hash get_hash set_hash d =
     (let expected = get_hash d in
      if expected = [] then Inr False
      else and_then (hash (set_hash [] d)) (\<lambda>h. Inr (h = expected)))"

text \<open>The interface of a sealed document: a hash field with the laws of a record field.\<close>

locale sealed_document =
  fixes hash :: "'d \<Rightarrow> IntegrityError + string"
    and get_hash :: "'d \<Rightarrow> string"
    and set_hash :: "string \<Rightarrow> 'd \<Rightarrow> 'd"
  assumes get_set: "get_hash (set_hash h d) = h"
    and set_set: "set_hash h (set_hash h' d) = set_hash h d"
    and set_get: "set_hash (get_hash d) d = d"
begin

lemma verify_iff:
  "verify_with hash get_hash set_hash d = Inr True \<longleftrightarrow>
     get_hash d \<noteq> [] \<and> hash (set_hash [] d) = Inr (get_hash d)"
  by (auto simp: verify_with_def Let_def and_then_eq_Inr)

lemma seal_iff:
  "seal_with hash set_hash d = Inr d' \<longleftrightarrow>
     (\<exists>h. hash (set_hash [] d) = Inr h \<and> d' = set_hash h d)"
  by (auto simp: seal_with_def Let_def and_then_eq_Inr set_set)

lemma seal_verifies:
  assumes "seal_with hash set_hash d = Inr d'" and "get_hash d' \<noteq> []"
  shows "verify_with hash get_hash set_hash d' = Inr True"
  using assms by (auto simp: seal_iff verify_iff get_set set_set)

lemma seal_keeps_content:
  assumes "seal_with hash set_hash d = Inr d'"
  shows "set_hash [] d' = set_hash [] d"
  using assms by (auto simp: seal_iff set_set)

lemma verified_same_hash:
  assumes "verify_with hash get_hash set_hash d = Inr True"
    and "verify_with hash get_hash set_hash d' = Inr True" and "get_hash d = get_hash d'"
  shows "hash (set_hash [] d) = hash (set_hash [] d')"
  using assms by (simp add: verify_iff)

lemma same_content_same_document:
  assumes "set_hash [] d = set_hash [] d'" and "get_hash d = get_hash d'"
  shows "d = d'"
  using assms by (metis set_get set_set)

lemma seal_idempotent:
  assumes "seal_with hash set_hash d = Inr d'"
  shows "seal_with hash set_hash d' = Inr d'"
  using assms by (auto simp: seal_iff set_set)

lemma seal_total:
  assumes "hash (set_hash [] d) = Inr h"
  shows "seal_with hash set_hash d = Inr (set_hash h d)"
  using assms by (simp add: seal_iff)

text \<open>Where equal hashes mean equal content, a verified document is determined by its hash.\<close>

lemma verified_unique:
  assumes "verify_with hash get_hash set_hash d = Inr True"
    and "verify_with hash get_hash set_hash d' = Inr True" and "get_hash d = get_hash d'"
    and "hash (set_hash [] d) = hash (set_hash [] d') \<Longrightarrow> set_hash [] d = set_hash [] d'"
  shows "d = d'"
  using same_content_same_document [OF assms(4) [OF verified_same_hash [OF assms(1-3)]] assms(3)] .

end

section \<open>Lemmas\<close>

lemma canonical_sha256_Inr:
  "canonical_sha256 env v = Inr h \<longleftrightarrow>
     (\<exists>j. v = Inr j \<and> h = sha256_hex env (write_value (json_quote env) j))"
  by (cases v) (auto simp: canonical_sha256_def canonical_json_def)

text \<open>Sorting by distinct keys forgets the order of the entries.\<close>

lemma filter_key_unique:
  assumes "distinct (map f xs)" and "x \<in> set xs"
  shows "filter (\<lambda>y. f x = f y) xs = [x]"
  using assms
proof (induction xs)
  case Nil
  then show ?case by simp
next
  case (Cons a xs)
  then show ?case by (auto simp: filter_empty_conv image_iff)
qed

lemma sort_key_permute:
  assumes "mset xs = mset ys" and "distinct (map f xs)"
  shows "sort_key f xs = sort_key f ys"
proof (rule sym, rule properties_for_sort_key)
  have m: "mset (map f xs) = mset (map f ys)" by (simp only: mset_map assms(1))
  have dy: "distinct (map f ys)" using mset_eq_imp_distinct_iff [OF m] assms(2) by (rule iffD1)
  have n: "mset (map f xs) = mset (map f (sort_key f xs))" by (simp only: mset_map mset_sort)
  have dx: "distinct (map f (sort_key f xs))"
    using mset_eq_imp_distinct_iff [OF n] assms(2) by (rule iffD1)
  show "filter (\<lambda>x. f k = f x) (sort_key f xs) = filter (\<lambda>x. f k = f x) ys"
    if "k \<in> set (sort_key f xs)" for k
  proof -
    have "k \<in> set ys" using that mset_eq_setD [OF assms(1)] by simp
    then show ?thesis using filter_key_unique [OF dx that] filter_key_unique [OF dy] by simp
  qed
qed (use assms in simp_all)

end
