(* ===== verification/Usage.thy ===== *)
theory Usage
  imports Providers F64 Repo_Path Integrity
begin

text \<open>
  Quota data and worker protocol data of the domain crate: \<open>usage.rs\<close> (quota scopes, usage
  snapshots with their validation and the percentages derived from them), \<open>evidence.rs\<close> (plan steps,
  command and test evidence) and the worker records of \<open>provider.rs\<close>.
\<close>

section \<open>Quotas\<close>

datatype QuotaPeriod = CalendarDay | RollingDay | CalendarMonth | RollingMonth | Period_Custom

datatype UsageUnit = Tokens | Requests | Credits | WorkUnits | Unit_Custom string

record QuotaScope =
  scope_name :: string
  scope_period :: QuotaPeriod
  scope_unit :: UsageUnit

definition QuotaScope_new :: "string \<Rightarrow> QuotaPeriod \<Rightarrow> UsageUnit \<Rightarrow> QuotaScope" where
  "QuotaScope_new name period unit = \<lparr> scope_name = name, scope_period = period, scope_unit = unit \<rparr>"

datatype UsageSource =
  OfficialCli | OfficialProtocol | ConfiguredProbe | LocalLedger | ManualOverride | Source_Unknown

datatype UsageConfidence = Confirmed | Estimated | Confidence_Unknown

fun confidence_weight :: "UsageConfidence \<Rightarrow> f64" where
  "confidence_weight Confirmed = f64_one"
| "confidence_weight Estimated = f64_of_rat (6 / 10)"
| "confidence_weight Confidence_Unknown = f64_zero"

section \<open>Usage snapshots\<close>

definition SUPPORTED_USAGE_SNAPSHOT_SCHEMA_VERSIONS :: "string list" where
  "SUPPORTED_USAGE_SNAPSHOT_SCHEMA_VERSIONS = [SchemaVersion_V1]"

record UsageSnapshot =
  us_schema_version :: SchemaVersion
  us_provider :: ProviderId
  us_quota_scope :: QuotaScope
  us_quota_period :: QuotaPeriod
  us_used :: "f64 option"
  us_limit :: "f64 option"
  us_remaining :: "f64 option"
  us_used_percent :: "f64 option"
  us_remaining_percent :: "f64 option"
  us_period_started_at :: "DateTime option"
  us_resets_at :: "DateTime option"
  us_source :: UsageSource
  us_confidence :: UsageConfidence
  us_collected_at :: DateTime

datatype UsageError =
    Usage_UnsupportedSchema string
  | ScopePeriodMismatch
  | InvalidValue string
  | InvalidPercent string
  | InvalidPeriod
  | InconsistentValues
  | UnknownWithKnownValues

definition snapshot_has_supported_schema :: "UsageSnapshot \<Rightarrow> bool" where
  "snapshot_has_supported_schema s =
     is_supported_by (us_schema_version s) SUPPORTED_USAGE_SNAPSHOT_SCHEMA_VERSIONS"

definition UsageSnapshot_unknown :: "ProviderId \<Rightarrow> QuotaScope \<Rightarrow> DateTime \<Rightarrow> UsageSnapshot" where
  "UsageSnapshot_unknown provider scope collected_at =
     \<lparr> us_schema_version = schema_v1, us_provider = provider, us_quota_scope = scope,
       us_quota_period = scope_period scope, us_used = None, us_limit = None, us_remaining = None,
       us_used_percent = None, us_remaining_percent = None, us_period_started_at = None,
       us_resets_at = None, us_source = Source_Unknown, us_confidence = Confidence_Unknown,
       us_collected_at = collected_at \<rparr>"

text \<open>The value checks of \<open>validate\<close>, in its order. \<open>percent_of x limit\<close> is \<open>x / limit * 100.0\<close>; a
  comparison with NaN is false.\<close>

definition percent_of :: "f64 \<Rightarrow> f64 \<Rightarrow> f64" where
  "percent_of x limit = f64_mul (f64_div x limit) f64_hundred"

definition PERCENT_TOLERANCE :: f64 where "PERCENT_TOLERANCE = f64_of_rat (1 / 10 ^ 4)"

definition check_value :: "string \<times> f64 option \<Rightarrow> UsageError + unit" where
  "check_value nv =
     (if is_some_and (snd nv) (\<lambda>v. \<not> f64_is_finite v \<or> f64_lt v f64_zero)
      then Inl (InvalidValue (fst nv)) else Inr ())"

definition check_percent :: "string \<times> f64 option \<Rightarrow> UsageError + unit" where
  "check_percent nv =
     (if is_some_and (snd nv) (\<lambda>v. \<not> f64_is_finite v \<or> \<not> f64_in_range f64_zero f64_hundred v)
      then Inl (InvalidPercent (fst nv)) else Inr ())"

definition disagrees :: "(f64 \<Rightarrow> f64 \<Rightarrow> f64) \<Rightarrow> f64 \<Rightarrow> f64 option \<Rightarrow> f64 option \<Rightarrow> bool" where
  "disagrees difference tolerance a b \<longleftrightarrow>
     is_some_and a (\<lambda>x. is_some_and b (\<lambda>y. f64_lt tolerance (f64_abs (difference x y))))"

definition check_limit :: "UsageSnapshot \<Rightarrow> UsageError + unit" where
  "check_limit s =
     (case us_limit s of
        None \<Rightarrow> Inr ()
      | Some limit \<Rightarrow>
          (if is_some_and (us_used s) (\<lambda>used. f64_lt limit used)
              \<or> is_some_and (us_remaining s) (\<lambda>remaining. f64_lt limit remaining)
           then Inl InconsistentValues
           else let unit_tolerance =
                      f64_max (f64_mul (f64_abs limit) (f64_of_rat (1 / 10 ^ 6))) (f64_of_rat (1 / 10 ^ 9))
                in
                if disagrees (\<lambda>used remaining. f64_sub (f64_add used remaining) limit) unit_tolerance
                     (us_used s) (us_remaining s)
                then Inl InconsistentValues
                else if f64_lt f64_zero limit
                        \<and> disagrees (\<lambda>used percent. f64_sub (percent_of used limit) percent)
                            PERCENT_TOLERANCE (us_used s) (us_used_percent s)
                then Inl InconsistentValues
                else if f64_lt f64_zero limit
                        \<and> disagrees (\<lambda>remaining percent. f64_sub (percent_of remaining limit) percent)
                            PERCENT_TOLERANCE (us_remaining s) (us_remaining_percent s)
                then Inl InconsistentValues
                else Inr ()))"

definition snapshot_validate :: "UsageSnapshot \<Rightarrow> UsageError + unit" where
  "snapshot_validate s =
     (if \<not> snapshot_has_supported_schema s then Inl (Usage_UnsupportedSchema (us_schema_version s))
      else if scope_period (us_quota_scope s) \<noteq> us_quota_period s then Inl ScopePeriodMismatch
      else
        and_then (try_each check_value
          [(''used'', us_used s), (''limit'', us_limit s), (''remaining'', us_remaining s)]) (\<lambda>_.
        and_then (check_limit s) (\<lambda>_.
        if disagrees (\<lambda>used remaining. f64_sub (f64_add used remaining) f64_hundred) PERCENT_TOLERANCE
             (us_used_percent s) (us_remaining_percent s)
        then Inl InconsistentValues
        else
          and_then (try_each check_percent
            [(''used_percent'', us_used_percent s), (''remaining_percent'', us_remaining_percent s)]) (\<lambda>_.
          if is_some_and (us_period_started_at s) (\<lambda>start.
               is_some_and (us_resets_at s) (\<lambda>reset. reset \<le> start))
          then Inl InvalidPeriod
          else if us_confidence s = Confidence_Unknown
                  \<and> (us_used s \<noteq> None \<or> us_remaining s \<noteq> None
                     \<or> us_used_percent s \<noteq> None \<or> us_remaining_percent s \<noteq> None)
          then Inl UnknownWithKnownValues
          else Inr ()))))"

text \<open>\<open>x.or_else(f)\<close>.\<close>

definition or_else :: "'a option \<Rightarrow> 'a option \<Rightarrow> 'a option" where
  "or_else x y = (case x of Some a \<Rightarrow> Some a | None \<Rightarrow> y)"

definition clamped_percent :: "f64 \<Rightarrow> f64 \<Rightarrow> f64 option" where
  "clamped_percent x limit =
     (if f64_lt f64_zero limit then Some (f64_clamp f64_zero f64_hundred (percent_of x limit)) else None)"

definition effective_used_percent :: "UsageSnapshot \<Rightarrow> f64 option" where
  "effective_used_percent s =
     or_else (us_used_percent s)
       (Option.bind (us_used s) (\<lambda>used. Option.bind (us_limit s) (clamped_percent used)))"

definition effective_remaining_percent :: "UsageSnapshot \<Rightarrow> f64 option" where
  "effective_remaining_percent s =
     or_else (us_remaining_percent s)
       (case (us_remaining s, us_limit s) of
          (Some remaining, Some limit) \<Rightarrow> clamped_percent remaining limit
        | _ \<Rightarrow> map_option (\<lambda>used. f64_sub f64_hundred used) (effective_used_percent s))"

definition is_confirmed_exhausted :: "UsageSnapshot \<Rightarrow> bool" where
  "is_confirmed_exhausted s \<longleftrightarrow>
     us_confidence s = Confirmed
     \<and> (is_some_and (us_remaining s) (\<lambda>v. f64_le v f64_zero)
        \<or> is_some_and (effective_remaining_percent s) (\<lambda>v. f64_le v f64_zero))"

record UsageObservation =
  ob_provider :: ProviderId
  ob_quota_scope :: QuotaScope
  ob_amount :: f64
  ob_observed_at :: DateTime
  ob_source :: UsageSource
  ob_confidence :: UsageConfidence

section \<open>Evidence\<close>

datatype PlanStepStatus = Step_Pending | Step_InProgress | Step_Completed | Step_Blocked

record PlanStep =
  step_id :: string
  step_description :: string
  step_status :: PlanStepStatus

record CompletedStep =
  cs_step_id :: string
  cs_summary :: string
  cs_completed_at :: DateTime
  cs_evidence :: "string list"

record CommandEvidence =
  ce_id :: CommandEvidenceId
  ce_executable :: string
  ce_args :: "string list"
  ce_cwd :: "RepoPath option"
  ce_started_at :: DateTime
  ce_finished_at :: DateTime
  ce_exit_code :: "32 word option"
  ce_timed_out :: bool
  ce_output_truncated :: bool
  ce_stdout_artifact :: "RepoPath option"
  ce_stderr_artifact :: "RepoPath option"
  ce_stdout_sha256 :: "string option"
  ce_stderr_sha256 :: "string option"

datatype TestStatus = Test_Passed | Test_Failed | Test_Skipped | Test_TimedOut | Test_Inconclusive

record TestEvidence =
  te_name :: string
  te_status :: TestStatus
  te_command_id :: "CommandEvidenceId option"
  te_detail :: "string option"

record DecisionRecord =
  dr_decision :: string
  dr_rationale :: string
  dr_alternatives :: "string list"
  dr_decided_by :: ProviderId
  dr_decided_at :: DateTime

record FailureRecord =
  fr_code :: "string option"
  fr_summary :: string
  fr_retryable :: bool
  fr_occurred_at :: DateTime

section \<open>Worker protocol\<close>

record WorkerRequest =
  wr_schema_version :: SchemaVersion
  wr_task_id :: TaskId
  wr_attempt_id :: AttemptId
  wr_provider :: ProviderId
  wr_objective :: string
  wr_prompt :: string
  wr_constraints :: "string list"
  wr_acceptance_criteria :: "string list"
  wr_workspace_root :: string
  wr_sandbox :: SandboxMode
  wr_profile :: ModelProfile
  wr_model :: "string option"
  wr_reasoning_effort :: "ReasoningEffort option"
  wr_timeout_seconds :: u64
  wr_max_output_bytes :: u64
  wr_resume_session_id :: "string option"
  wr_handover_payload :: "json option"

record WorkerHandle =
  wh_attempt_id :: AttemptId
  wh_provider :: ProviderId
  wh_process_id :: "u32 option"
  wh_session_id :: "string option"

record RawEvent =
  raw_channel :: RawEventChannel
  raw_sequence :: u64
  raw_bytes :: "u8 list"
  raw_received_at :: DateTime

datatype WorkerEvent =
    Worker_Started "string option"
  | Worker_Message string
  | Worker_MessageDelta string
  | Worker_CommandStarted string string "string list"
  | Worker_CommandCompleted string "32 word option"
  | Worker_FileChanged RepoPath
  | Worker_Usage UsageObservation
  | Worker_QuotaExceeded "string option"
  | Worker_CheckpointClaim string
  | Worker_Completed "string option" "UsageObservation option"
  | Worker_Error "string option" string bool
  | Worker_Unknown string json bool

record WorkerResult =
  res_schema_version :: SchemaVersion
  res_task_id :: TaskId
  res_attempt_id :: AttemptId
  res_provider :: ProviderId
  res_outcome :: WorkerOutcome
  res_exit_code :: "32 word option"
  res_session_id :: "string option"
  res_summary :: "string option"
  res_commands :: "CommandEvidence list"
  res_tests :: "TestEvidence list"
  res_started_at :: DateTime
  res_finished_at :: DateTime
  res_output_truncated :: bool

definition SUPPORTED_WORKER_RESULT_SCHEMA_VERSIONS :: "string list" where
  "SUPPORTED_WORKER_RESULT_SCHEMA_VERSIONS = [SchemaVersion_V1]"

definition worker_result_has_supported_schema :: "WorkerResult \<Rightarrow> bool" where
  "worker_result_has_supported_schema r =
     is_supported_by (res_schema_version r) SUPPORTED_WORKER_RESULT_SCHEMA_VERSIONS"

record CancelResult =
  cancel_outcome :: CancelOutcome
  cancel_detail :: "string option"

section \<open>Facts\<close>

lemma or_else_simps [simp]: "or_else (Some a) y = Some a" "or_else None y = y"
  by (simp_all add: or_else_def)

lemma check_value_ok:
  "check_value (n, v) = Inr () \<longleftrightarrow> (\<forall>x. v = Some x \<longrightarrow> f64_is_finite x \<and> f64_le f64_zero x)"
proof (cases v)
  case (Some x)
  then show ?thesis
    by (cases x) (auto simp: check_value_def f64_le_def f64_zero_def)
qed (simp add: check_value_def)

lemma check_percent_ok:
  "check_percent (n, v) = Inr () \<longleftrightarrow> (\<forall>x. v = Some x \<longrightarrow> f64_in_range f64_zero f64_hundred x)"
proof (cases v)
  case (Some x)
  then show ?thesis by (cases x) (auto simp: check_percent_def f64_in_percent_iff)
qed (simp add: check_percent_def)

lemma f64_div_finite_positive: "f64_is_finite x \<Longrightarrow> f64_is_finite y \<Longrightarrow> f64_lt f64_zero y \<Longrightarrow> f64_div x y \<noteq> NaN"
  by (cases x; cases y) (auto simp: f64_zero_def f64_val_def round_magnitude_def Let_def split: if_splits)

lemma f64_mul_hundred_NaN: "f64_mul x f64_hundred = NaN \<longleftrightarrow> x = NaN"
  by (cases x) (auto simp: f64_hundred_def round_magnitude_def Let_def)

lemma clamped_percent_in_range:
  assumes "clamped_percent x limit = Some p" and "f64_is_finite x" and "f64_is_finite limit"
  shows "f64_in_range f64_zero f64_hundred p"
proof -
  have pos: "f64_lt f64_zero limit" and p: "p = f64_clamp f64_zero f64_hundred (percent_of x limit)"
    using assms(1) by (auto simp: clamped_percent_def split: if_splits)
  have "percent_of x limit \<noteq> NaN"
    using f64_div_finite_positive [OF assms(2,3) pos] by (simp add: percent_of_def f64_mul_hundred_NaN)
  then show ?thesis
    unfolding p by (intro f64_clamp_in_range) (simp_all add: f64_le_def f64_zero_def f64_hundred_def f64_val_def)
qed

text \<open>What a validated snapshot guarantees about its own fields.\<close>

lemma snapshot_validate_fields:
  assumes "snapshot_validate s = Inr ()"
  shows "\<And>x. us_used s = Some x \<Longrightarrow> f64_is_finite x \<and> f64_le f64_zero x"
    and "\<And>x. us_limit s = Some x \<Longrightarrow> f64_is_finite x \<and> f64_le f64_zero x"
    and "\<And>x. us_remaining s = Some x \<Longrightarrow> f64_is_finite x \<and> f64_le f64_zero x"
    and "\<And>x. us_used_percent s = Some x \<Longrightarrow> f64_in_range f64_zero f64_hundred x"
    and "\<And>x. us_remaining_percent s = Some x \<Longrightarrow> f64_in_range f64_zero f64_hundred x"
  using assms
  by (auto simp: snapshot_validate_def and_then_eq_Inr try_each_ok check_value_ok check_percent_ok
      simp del: try_each.simps split: if_splits)

lemma effective_used_in_range:
  assumes "snapshot_validate s = Inr ()" and "effective_used_percent s = Some p"
  shows "f64_in_range f64_zero f64_hundred p"
  using assms(2) snapshot_validate_fields [OF assms(1)]
  by (cases "us_used_percent s")
     (auto simp: effective_used_percent_def bind_eq_Some_conv intro: clamped_percent_in_range)

lemma effective_remaining_in_range:
  assumes "snapshot_validate s = Inr ()" and "effective_remaining_percent s = Some p"
  shows "f64_in_range f64_zero f64_hundred p"
proof (cases "us_remaining_percent s")
  case (Some x)
  then show ?thesis
    using assms(2) snapshot_validate_fields(5) [OF assms(1)] by (simp add: effective_remaining_percent_def)
next
  case None
  show ?thesis
  proof (cases "us_remaining s = None \<or> us_limit s = None")
    case True
    then obtain u where "effective_used_percent s = Some u" and p: "p = f64_sub f64_hundred u"
      using assms(2) None by (auto simp: effective_remaining_percent_def split: option.splits)
    then show ?thesis using effective_used_in_range [OF assms(1)] f64_percent_complement by simp
  next
    case False
    then obtain r l where "us_remaining s = Some r" "us_limit s = Some l" by auto
    then show ?thesis
      using assms(2) None snapshot_validate_fields(2,3) [OF assms(1)]
      by (auto simp: effective_remaining_percent_def intro: clamped_percent_in_range)
  qed
qed

section \<open>Properties\<close>

lemma snapshot_validate_simps:
  "snapshot_has_supported_schema s \<longleftrightarrow> us_schema_version s = ''1''"
  by (simp add: snapshot_has_supported_schema_def is_supported_by_def
      SUPPORTED_USAGE_SNAPSHOT_SCHEMA_VERSIONS_def SchemaVersion_V1_def)

text \<open>the percentages derived from a validated snapshot are percentages: whatever combination of
  amounts, limit and reported percentages the snapshot carries, the effective used and remaining
  percentages are absent or finite numbers within 0 and 100, after every rounding of the division, the
  scaling and the subtraction.\<close>

theorem effective_percents_bounded:
  assumes "snapshot_validate s = Inr ()"
  shows "pred_option (f64_in_range f64_zero f64_hundred) (effective_used_percent s)
         \<and> pred_option (f64_in_range f64_zero f64_hundred) (effective_remaining_percent s)"
  using effective_used_in_range [OF assms] effective_remaining_in_range [OF assms]
  by (auto simp: option.pred_set)

text \<open>An estimated snapshot with an amount used and a limit.\<close>

definition sample_snapshot :: UsageSnapshot where
  "sample_snapshot =
     (UsageSnapshot_unknown Codex (QuotaScope_new ''primary'' CalendarDay Requests) 0)
       \<lparr> us_used := Some (Finite False 30), us_limit := Some f64_hundred,
         us_source := LocalLedger, us_confidence := Estimated \<rparr>"

lemma sample_snapshot_valid: "snapshot_validate sample_snapshot = Inr ()"
  by (simp add: sample_snapshot_def snapshot_validate_def snapshot_validate_simps UsageSnapshot_unknown_def
      schema_v1_def SchemaVersion_V1_def QuotaScope_new_def check_value_def f64_zero_def f64_hundred_def
      check_limit_def disagrees_def check_percent_def f64_val_def)

theorem effective_percents_bounded_witness:
  "pred_option (f64_in_range f64_zero f64_hundred) (effective_used_percent sample_snapshot)
   \<and> pred_option (f64_in_range f64_zero f64_hundred) (effective_remaining_percent sample_snapshot)"
  by (rule effective_percents_bounded) (rule sample_snapshot_valid)

end
