(* ===== verification/Canonical.thy ===== *)
theory Canonical
  imports Integrity
begin

text \<open>
  Canonical JSON is unambiguous: two JSON values have the same canonical text exactly when they differ
  only in the order of object members. The proof factors \<open>write_value\<close> into \<open>canonical\<close>, which sorts the
  members of every object, and \<open>print_value\<close>, which prints without sorting and is uniquely decodable.
\<close>

section \<open>Well-formed values and canonical order\<close>

definition number_chars :: "char set" where
  "number_chars = set ''0123456789+-.eE''"

text \<open>The values \<open>serde_json\<close> builds: numbers print with the characters of the JSON grammar, starting
  with a digit or a minus sign, and the keys of an object are distinct.\<close>

fun wf_json :: "json \<Rightarrow> bool" where
  "wf_json (JNumber n) \<longleftrightarrow> n \<noteq> [] \<and> set n \<subseteq> number_chars \<and> hd n \<in> set ''0123456789-''"
| "wf_json (JArray vs) \<longleftrightarrow> list_all wf_json vs"
| "wf_json (JObject es) \<longleftrightarrow> distinct (map (\<lambda>(k, v). utf16 k) es) \<and> list_all (\<lambda>(k, v). wf_json v) es"
| "wf_json _ \<longleftrightarrow> True"

fun canonical :: "json \<Rightarrow> json" where
  "canonical (JArray vs) = JArray (map canonical vs)"
| "canonical (JObject es) = JObject (map (\<lambda>(k, v). (k, canonical v)) (sort_key (\<lambda>(k, v). utf16 k) es))"
| "canonical v = v"

fun print_value :: "(string \<Rightarrow> string) \<Rightarrow> json \<Rightarrow> string" where
  "print_value quote JNull = ''null''"
| "print_value quote (JBool b) = (if b then ''true'' else ''false'')"
| "print_value quote (JNumber n) = n"
| "print_value quote (JString s) = quote s"
| "print_value quote (JArray vs) = ''['' @ join_with '','' (map (print_value quote) vs) @ '']''"
| "print_value quote (JObject es) =
     ''{'' @ join_with '','' (map (\<lambda>(k, v). quote k @ '':'' @ print_value quote v) es) @ ''}''"

lemma write_value_canonical: "write_value quote v = print_value quote (canonical v)"
proof (induction v)
  case (JArray vs)
  then show ?case by (auto intro!: arg_cong [where f = "join_with '',''"])
next
  case (JObject es)
  have "map (\<lambda>(k, v). quote k @ '':'' @ write_value quote v) (sort_key (\<lambda>(k, v). utf16 k) es) =
        map (\<lambda>(k, v). quote k @ '':'' @ print_value quote (canonical v)) (sort_key (\<lambda>(k, v). utf16 k) es)"
    using JObject by (auto simp: snds.simps)
  then show ?case by (simp only: write_value.simps canonical.simps print_value.simps map_map comp_def case_prod_unfold fst_conv snd_conv)
qed simp_all

text \<open>Equality of \<open>serde_json::Value\<close>: the order of the members of an object does not count, and a float zero equals its negative. Other
  numbers are equal exactly when they print alike.\<close>

fun zero_unsigned :: "json \<Rightarrow> json" where
  "zero_unsigned (JNumber n) = JNumber (if n = ''-0.0'' then ''0.0'' else n)"
| "zero_unsigned (JArray vs) = JArray (map zero_unsigned vs)"
| "zero_unsigned (JObject es) = JObject (map (\<lambda>(k, v). (k, zero_unsigned v)) es)"
| "zero_unsigned v = v"

definition json_same :: "json \<Rightarrow> json \<Rightarrow> bool" where
  "json_same v w \<longleftrightarrow> canonical (zero_unsigned v) = canonical (zero_unsigned w)"

lemma json_same_refl [simp]: "json_same v v"
  by (simp add: json_same_def)

lemma json_same_sym: "json_same v w \<Longrightarrow> json_same w v"
  by (simp add: json_same_def)

lemma json_same_trans: "json_same u v \<Longrightarrow> json_same v w \<Longrightarrow> json_same u w"
  by (simp add: json_same_def)

section \<open>Unique decoding\<close>

text \<open>What the encoding relies on of \<open>serde_json::to_string\<close> on strings: the quoted form starts with a
  quotation mark and no quoted form is a proper prefix of another.\<close>

definition quoting :: "(string \<Rightarrow> string) \<Rightarrow> bool" where
  "quoting quote \<longleftrightarrow>
     (\<forall>s. \<exists>t. quote s = CHR ''\"'' # t) \<and> (\<forall>s t x y. quote s @ x = quote t @ y \<longrightarrow> s = t \<and> x = y)"

lemma quotingD:
  assumes "quoting quote"
  shows "quote s @ x = quote t @ y \<longleftrightarrow> s = t \<and> x = y" and "\<exists>t. quote s = CHR ''\"'' # t"
  using assms unfolding quoting_def by blast+

text \<open>Text that can follow a value: nothing, or a separator or closing bracket.\<close>

definition delimited :: "string \<Rightarrow> bool" where
  "delimited x \<longleftrightarrow> (case x of [] \<Rightarrow> True | c # _ \<Rightarrow> c \<in> set '',]}'')"

lemma delimited_simps [simp]:
  "delimited []" "delimited (CHR '','' # x)" "delimited (CHR '']'' # x)" "delimited (CHR ''}'' # x)"
  by (simp_all add: delimited_def)

lemma number_split:
  assumes "set n \<subseteq> number_chars" and "set m \<subseteq> number_chars" and "delimited x" and "delimited y"
    and "n @ x = m @ y"
  shows "n = m \<and> x = y"
proof -
  have out: "takeWhile (\<lambda>c. c \<in> number_chars) x = []" if "delimited x" for x
    using that by (cases x) (auto simp: delimited_def number_chars_def)
  have tw: "takeWhile (\<lambda>c. c \<in> number_chars) (n @ x) = n"
    if "set n \<subseteq> number_chars" and "delimited x" for n x
    using that out [of x] by (simp add: takeWhile_append2 subset_iff)
  have "n = m" using tw [OF assms(1,3)] tw [OF assms(2,4)] assms(5) by simp
  then show ?thesis using assms(5) by simp
qed

text \<open>A separated list with a closing bracket decodes uniquely when its items do.\<close>

definition starts :: "string \<Rightarrow> bool" where
  "starts s \<longleftrightarrow> s \<noteq> [] \<and> hd s \<notin> set '',]}''"

lemma join_with_Cons:
  "join_with sep (x # xs) = x @ (if xs = [] then [] else sep @ join_with sep xs)"
  by (cases xs) simp_all

lemma join_decode:
  assumes "\<And>a b x y. a \<in> set as \<Longrightarrow> b \<in> set bs \<Longrightarrow> delimited x \<Longrightarrow> delimited y
             \<Longrightarrow> print a @ x = print b @ y \<Longrightarrow> a = b \<and> x = y"
    and "\<And>a. a \<in> set as \<union> set bs \<Longrightarrow> starts (print a)"
    and "c \<in> set '']}''"
    and "join_with '','' (map print as) @ c # x = join_with '','' (map print bs) @ c # y"
  shows "as = bs \<and> x = y"
  using assms(1,2,4)
proof (induction as arbitrary: bs)
  case Nil
  show ?case
  proof (cases bs)
    case (Cons b bs')
    have "starts (print b)" using Nil(2) Cons by simp
    then show ?thesis using Nil(3) assms(3) Cons by (cases "print b") (auto simp: join_with_Cons starts_def)
  qed (use Nil in simp)
next
  case (Cons a as)
  note as = Cons
  have del: "delimited ((if zs = [] then [] else '','' @ join_with '','' zs) @ c # z)" for zs z
    using assms(3) by (auto simp: delimited_def)
  show ?case
  proof (cases bs)
    case Nil
    have "starts (print a)" using as(3) by simp
    then show ?thesis using as(4) assms(3) Nil by (cases "print a") (auto simp: join_with_Cons starts_def)
  next
    case (Cons b bs')
    let ?r = "\<lambda>zs z. (if zs = [] then [] else '','' @ join_with '','' zs) @ c # z"
    have "print a @ ?r (map print as) x = print b @ ?r (map print bs') y"
      using as(4) Cons by (simp add: join_with_Cons)
    then have "a = b \<and> ?r (map print as) x = ?r (map print bs') y"
      using Cons by (intro as(2) del) simp_all
    then have ab: "a = b" and r: "?r (map print as) x = ?r (map print bs') y" by blast+
    show ?thesis
    proof (cases "as = [] \<or> bs' = []")
      case True
      then show ?thesis using r assms(3) ab Cons by (auto split: if_splits)
    next
      case False
      then have "join_with '','' (map print as) @ c # x = join_with '','' (map print bs') @ c # y"
        using r by simp
      then have "as = bs' \<and> x = y" using as(2,3) Cons by (intro as(1)) auto
      then show ?thesis using ab Cons by simp
    qed
  qed
qed

lemma print_value_starts:
  assumes "quoting quote" and "wf_json v"
  shows "starts (print_value quote v)"
proof (cases v)
  case (JNumber n)
  then show ?thesis using assms(2) by (auto simp: starts_def)
next
  case (JString s)
  then show ?thesis using quotingD(2) [OF assms(1), of s] by (auto simp: starts_def)
qed (auto simp: starts_def)

lemma entry_starts: "quoting quote \<Longrightarrow> starts (quote k @ z)"
  using quotingD(2) [of quote k] by (auto simp: starts_def)

text \<open>The first character tells the constructors apart.\<close>

fun json_kind :: "json \<Rightarrow> nat" where
  "json_kind JNull = 0"
| "json_kind (JBool b) = (if b then 1 else 2)"
| "json_kind (JNumber n) = 3"
| "json_kind (JString s) = 4"
| "json_kind (JArray vs) = 5"
| "json_kind (JObject es) = 6"

definition kind_of_char :: "char \<Rightarrow> nat" where
  "kind_of_char c =
     (if c = CHR ''n'' then 0 else if c = CHR ''t'' then 1 else if c = CHR ''f'' then 2
      else if c = CHR ''\"'' then 4 else if c = CHR ''['' then 5 else if c = CHR ''{'' then 6 else 3)"

lemma print_value_kind:
  assumes "quoting quote" and "wf_json v"
  shows "kind_of_char (hd (print_value quote v @ x)) = json_kind v"
proof (cases v)
  case (JNumber n)
  then show ?thesis using assms(2) by (auto simp: kind_of_char_def)
next
  case (JString s)
  then show ?thesis using quotingD(2) [OF assms(1), of s] by (auto simp: kind_of_char_def)
qed (auto simp: kind_of_char_def)

lemma print_value_same_kind:
  assumes "quoting quote" and "wf_json v" and "wf_json w"
    and "print_value quote v @ x = print_value quote w @ y"
  shows "json_kind w = json_kind v"
  using print_value_kind [OF assms(1,2), of x] print_value_kind [OF assms(1,3), of y] assms(4) by simp

text \<open>\<open>decodes quote v\<close>: the text of \<open>v\<close> determines it, whatever follows.\<close>

definition decodes :: "(string \<Rightarrow> string) \<Rightarrow> json \<Rightarrow> bool" where
  "decodes quote v \<longleftrightarrow>
     (\<forall>w x y. wf_json w \<longrightarrow> delimited x \<longrightarrow> delimited y
        \<longrightarrow> print_value quote v @ x = print_value quote w @ y \<longrightarrow> v = w \<and> x = y)"

lemma decodesD:
  assumes "decodes quote v" and "wf_json w" and "delimited x" and "delimited y"
    and "print_value quote v @ x = print_value quote w @ y"
  shows "v = w" and "x = y"
  using assms unfolding decodes_def by blast+

lemma array_decode:
  assumes "quoting quote" and "\<And>v. v \<in> set vs \<Longrightarrow> decodes quote v"
    and wf: "\<And>v. v \<in> set vs \<union> set ws \<Longrightarrow> wf_json v"
    and "print_value quote (JArray vs) @ x = print_value quote (JArray ws) @ y"
  shows "vs = ws \<and> x = y"
proof (rule join_decode [where print = "print_value quote" and c = "CHR '']''"])
  show "a = b \<and> x = y" if "a \<in> set vs" "b \<in> set ws" "delimited x" "delimited y"
    "print_value quote a @ x = print_value quote b @ y" for a b x y
    using decodesD [OF assms(2) [OF that(1)] wf that(3-5)] that(2) by blast
  show "starts (print_value quote a)" if "a \<in> set vs \<union> set ws" for a
    using print_value_starts [OF assms(1)] wf that by blast
qed (use assms(4) in simp_all)

lemma object_decode:
  assumes q: "quoting quote" and "\<And>e. e \<in> set es \<Longrightarrow> decodes quote (snd e)"
    and wf: "\<And>e. e \<in> set es \<union> set fs \<Longrightarrow> wf_json (snd e)"
    and "print_value quote (JObject es) @ x = print_value quote (JObject fs) @ y"
  shows "es = fs \<and> x = y"
proof (rule join_decode [where c = "CHR ''}''" and print = "\<lambda>(k, v). quote k @ '':'' @ print_value quote v"])
  let ?p = "\<lambda>(k, v). quote k @ '':'' @ print_value quote v"
  show "a = b \<and> x = y" if "a \<in> set es" "b \<in> set fs" "delimited x" "delimited y"
    "?p a @ x = ?p b @ y" for a b x y
  proof -
    obtain k v l u where ab: "a = (k, v)" "b = (l, u)" by (cases a; cases b)
    have "quote k @ ('':'' @ print_value quote v @ x) = quote l @ ('':'' @ print_value quote u @ y)"
      using that(5) by (simp add: ab)
    then have kl: "k = l" and eq: "print_value quote v @ x = print_value quote u @ y"
      unfolding quotingD(1) [OF q] by auto
    have "decodes quote v" "wf_json u" using assms(2) [OF that(1)] wf [of b] that(2) ab by auto
    from decodesD [OF this that(3,4) eq] show ?thesis using kl ab by simp
  qed
  show "starts (?p a)" for a by (cases a) (simp add: entry_starts [OF q])
qed (use assms(4) in simp_all)

lemma decodesI:
  assumes "quoting quote" and "wf_json v"
    and "\<And>w x y. json_kind w = json_kind v \<Longrightarrow> wf_json w \<Longrightarrow> delimited x \<Longrightarrow> delimited y
           \<Longrightarrow> print_value quote v @ x = print_value quote w @ y \<Longrightarrow> v = w \<and> x = y"
  shows "decodes quote v"
  using assms(3) print_value_same_kind [OF assms(1,2)] unfolding decodes_def by metis

lemma json_kind_inv:
  "json_kind w = json_kind JNull \<Longrightarrow> w = JNull"
  "json_kind w = json_kind (JBool b) \<Longrightarrow> w = JBool b"
  "json_kind w = json_kind (JNumber n) \<Longrightarrow> \<exists>m. w = JNumber m"
  "json_kind w = json_kind (JString s) \<Longrightarrow> \<exists>t. w = JString t"
  "json_kind w = json_kind (JArray vs) \<Longrightarrow> \<exists>ws. w = JArray ws"
  "json_kind w = json_kind (JObject es) \<Longrightarrow> \<exists>fs. w = JObject fs"
  by (cases w; simp split: if_splits)+

lemma print_value_decodes:
  assumes q: "quoting quote"
  shows "wf_json v \<Longrightarrow> decodes quote v"
proof (induction v)
  case (JArray vs)
  show ?case
  proof (rule decodesI [OF q JArray.prems])
    fix w x y
    assume w: "json_kind w = json_kind (JArray vs)" "wf_json w"
      and eq: "print_value quote (JArray vs) @ x = print_value quote w @ y"
    obtain ws where "w = JArray ws" using json_kind_inv(5) [OF w(1)] by blast
    then show "JArray vs = w \<and> x = y"
      using array_decode [OF q, of vs ws x y] JArray w(2) eq by (auto simp: list_all_iff)
  qed
next
  case (JObject es)
  show ?case
  proof (rule decodesI [OF q JObject.prems])
    fix w x y
    assume w: "json_kind w = json_kind (JObject es)" "wf_json w"
      and eq: "print_value quote (JObject es) @ x = print_value quote w @ y"
    obtain fs where fs: "w = JObject fs" using json_kind_inv(6) [OF w(1)] by blast
    have "es = fs \<and> x = y"
    proof (rule object_decode [OF q])
      show "decodes quote (snd e)" if "e \<in> set es" for e
        using JObject.IH [OF that] JObject.prems that by (auto simp: list_all_iff snds.simps)
      show "wf_json (snd e)" if "e \<in> set es \<union> set fs" for e
        using that JObject.prems w(2) fs by (auto simp: list_all_iff)
    qed (use eq fs in simp)
    then show "JObject es = w \<and> x = y" using fs by simp
  qed
next
  case (JNumber n)
  show ?case
  proof (rule decodesI [OF q JNumber])
    fix w x y
    assume w: "json_kind w = json_kind (JNumber n)" "wf_json w" "delimited x" "delimited y"
      and eq: "print_value quote (JNumber n) @ x = print_value quote w @ y"
    obtain m where "w = JNumber m" using json_kind_inv(3) [OF w(1)] by blast
    then show "JNumber n = w \<and> x = y" using number_split [of n m x y] JNumber w eq by simp
  qed
next
  case (JString s)
  show ?case
    by (rule decodesI [OF q JString], drule json_kind_inv(4)) (auto simp: quotingD(1) [OF q])
next
  case JNull
  show ?case by (rule decodesI [OF q JNull], drule json_kind_inv(1)) simp
next
  case (JBool b)
  show ?case by (rule decodesI [OF q JBool], drule json_kind_inv(2)) simp
qed

section \<open>Canonical text determines the value\<close>

lemma canonical_wf: "wf_json v \<Longrightarrow> wf_json (canonical v)"
proof (induction v)
  case (JArray vs)
  then show ?case by (auto simp: list_all_iff)
next
  case (JObject es)
  have "distinct (map (\<lambda>(k, v). utf16 k) (sort_key (\<lambda>(k, v). utf16 k) es))"
  proof -
    have "mset (map (\<lambda>(k, v). utf16 k) (sort_key (\<lambda>(k, v). utf16 k) es)) = mset (map (\<lambda>(k, v). utf16 k) es)"
      by (simp only: mset_map mset_sort)
    then show ?thesis using JObject.prems mset_eq_imp_distinct_iff by fastforce
  qed
  then have "distinct (map (\<lambda>(k, v). utf16 k)
      (map (\<lambda>(k, v). (k, canonical v)) (sort_key (\<lambda>(k, v). utf16 k) es)))"
    by (simp add: comp_def case_prod_unfold)
  moreover have "\<And>e. e \<in> set es \<Longrightarrow> wf_json (canonical (snd e))"
    using JObject by (auto simp: list_all_iff snds.simps)
  ultimately show ?case by (auto simp: list_all_iff)
qed simp_all

lemma write_value_eq_iff:
  assumes "quoting quote" and "wf_json v" and "wf_json w"
  shows "write_value quote v = write_value quote w \<longleftrightarrow> canonical v = canonical w"
  using decodesD(1) [OF print_value_decodes [OF assms(1) canonical_wf [OF assms(2)]]
      canonical_wf [OF assms(3)], of "[]" "[]"]
  by (auto simp: write_value_canonical)

text \<open>C34: canonical JSON is faithful: two values have the same canonical text exactly when they are equal
  up to the order of object members. So a canonical hash covers every field of a document, and does not
  depend on the order in which a map is iterated.\<close>

theorem canonical_json_faithful:
  assumes "quoting (json_quote env)" and "wf_json v" and "wf_json w"
  shows "canonical_json env (Inr v) = canonical_json env (Inr w) \<longleftrightarrow> canonical v = canonical w"
  using write_value_eq_iff [OF assms] by (simp add: canonical_json_def)

text \<open>A quoting function with backslash escapes, and an environment that uses it.\<close>

fun escape :: "string \<Rightarrow> string" where
  "escape [] = []"
| "escape (c # s) =
     (if c = CHR ''\"'' \<or> c = CHR 0x5C then CHR 0x5C # c # escape s else c # escape s)"

definition sample_quote :: "string \<Rightarrow> string" where
  "sample_quote s = CHR ''\"'' # escape s @ ''\"''"

lemma escape_decode: "escape s @ CHR ''\"'' # x = escape t @ CHR ''\"'' # y \<Longrightarrow> s = t \<and> x = y"
proof (induction s arbitrary: t)
  case Nil
  then show ?case by (cases t) (auto split: if_splits)
next
  case (Cons c s)
  then show ?case by (cases t) (auto split: if_splits)
qed

lemma sample_quote_quoting: "quoting sample_quote"
  by (simp add: quoting_def sample_quote_def) (blast dest: escape_decode)

definition sample_integrity_env :: integrity_env where
  "sample_integrity_env = \<lparr> json_quote = sample_quote, sha256_hex = (\<lambda>s. ''sha:'' @ s) \<rparr>"

theorem canonical_json_faithful_witness:
  "canonical_json sample_integrity_env (Inr (JObject [(''b'', JNumber ''1''), (''a'', JNull)])) =
   canonical_json sample_integrity_env (Inr (JObject [(''a'', JNull), (''b'', JNumber ''1'')]))
   \<and> canonical_json sample_integrity_env (Inr (JObject [(''a'', JNull)]))
     \<noteq> canonical_json sample_integrity_env (Inr (JObject [(''a'', JString ''null'')]))"
proof -
  have q: "quoting (json_quote sample_integrity_env)"
    by (simp add: sample_integrity_env_def sample_quote_quoting)
  have u: "utf16 ''a'' = [97]" "utf16 ''b'' = [98]" by (simp_all add: byte_def)
  have "wf_json (JObject [(''b'', JNumber ''1''), (''a'', JNull)])"
       "wf_json (JObject [(''a'', JNull), (''b'', JNumber ''1'')])"
       "wf_json (JObject [(''a'', JNull)])" "wf_json (JObject [(''a'', JString ''null'')])"
       "canonical (JObject [(''b'', JNumber ''1''), (''a'', JNull)]) =
        canonical (JObject [(''a'', JNull), (''b'', JNumber ''1'')])"
       "canonical (JObject [(''a'', JNull)]) \<noteq> canonical (JObject [(''a'', JString ''null'')])"
    by (simp_all add: u number_chars_def del: utf16.simps)
  then show ?thesis by (simp only: canonical_json_faithful [OF q] not_False_eq_True simp_thms)
qed

end
