(* ===== verification/Lifecycle.thy ===== *)
theory Lifecycle
  imports Prelude
begin

text \<open>
  The contract the three state machines of the domain crate share (\<open>TaskState\<close>, \<open>SessionState\<close> and
  \<open>TaskInstructionState\<close>): a terminal state has no successor, and every other state can reach a
  terminal one. The machines interpret the locale in their own theories.
\<close>

locale lifecycle =
  fixes step :: "'s \<Rightarrow> 's \<Rightarrow> bool" and terminal :: "'s \<Rightarrow> bool"
  assumes terminal_stuck: "terminal s \<Longrightarrow> \<not> step s t"
    and can_settle: "\<not> terminal s \<Longrightarrow> \<exists>t. step\<^sup>+\<^sup>+ s t \<and> terminal t"
begin

lemma stuck_iff_terminal: "(\<forall>t. \<not> step s t) \<longleftrightarrow> terminal s"
  using terminal_stuck can_settle by (metis tranclpD)

lemma terminal_absorbs:
  assumes "step\<^sup>*\<^sup>* s t" and "terminal s"
  shows "t = s"
  using assms terminal_stuck by (metis converse_rtranclpE)

lemma settles: "\<exists>t. step\<^sup>*\<^sup>* s t \<and> terminal t"
  using can_settle by (metis rtranclp.rtrancl_refl tranclp_into_rtranclp)

lemma one_terminal_state:
  assumes "step\<^sup>*\<^sup>* s t" "step\<^sup>*\<^sup>* t u" "terminal t"
  shows "u = t"
  using assms terminal_absorbs by blast

end

end
