(* ===== verification/Task_State.thy ===== *)
theory Task_State
  imports Lifecycle
begin

text \<open>
  \<open>crates/orchestrator-domain/src/state.rs\<close>: the task lifecycle, its transition matrix and the evidence
  guards; then histories of accepted transitions as runs of that machine.
\<close>

section \<open>States, guards and the transition check\<close>

datatype TaskState =
    Queued | Analyzing | Planned | Running | CheckpointRequested | Checkpointing | Checkpointed
  | HandoverRequested | HandingOver | Resuming | Verifying | Completed | Blocked | Failed | Cancelled

definition task_is_terminal :: "TaskState \<Rightarrow> bool" where
  "task_is_terminal s \<longleftrightarrow> s \<in> {Completed, Failed, Cancelled}"

record TransitionGuards =
  resume_point :: "TaskState option"
  checkpoint_integrity_verified :: bool
  handover_integrity_verified :: bool
  handover_acknowledged :: bool
  verification_passed :: bool
  independent_review_required :: bool
  independent_review_satisfied :: bool
  pending_approval :: bool
  process_tree_termination_unconfirmed :: bool

definition default_guards :: TransitionGuards where
  "default_guards =
     \<lparr> resume_point = None, checkpoint_integrity_verified = False,
       handover_integrity_verified = False, handover_acknowledged = False,
       verification_passed = False, independent_review_required = False,
       independent_review_satisfied = False, pending_approval = False,
       process_tree_termination_unconfirmed = False \<rparr>"

datatype TransitionError =
    NoOp TaskState
  | NotAllowed TaskState TaskState
  | CheckpointNotVerified
  | HandoverNotVerified
  | VerificationNotPassed
  | IndependentReviewMissing
  | PendingApproval

fun transition_allowed :: "TransitionGuards \<Rightarrow> TaskState \<Rightarrow> TaskState \<Rightarrow> bool" where
  "transition_allowed g Queued n = (n \<in> {Analyzing, Cancelled, Failed})"
| "transition_allowed g Analyzing n = (n \<in> {Planned, Blocked, Cancelled, Failed})"
| "transition_allowed g Planned n = (n \<in> {Running, CheckpointRequested, Blocked, Cancelled, Failed})"
| "transition_allowed g Running n =
     (n \<in> {CheckpointRequested, Verifying, Failed}
      \<or> (n = Blocked \<and> process_tree_termination_unconfirmed g))"
| "transition_allowed g CheckpointRequested n = (n \<in> {Checkpointing, Failed})"
| "transition_allowed g Checkpointing n = (n \<in> {Checkpointed, Blocked, Failed})"
| "transition_allowed g Checkpointed n =
     (n \<in> {HandoverRequested, Resuming, Verifying, Blocked, Cancelled, Failed})"
| "transition_allowed g HandoverRequested n =
     (n \<in> {HandingOver, Checkpointed, Blocked, Cancelled, Failed})"
| "transition_allowed g HandingOver n = (n \<in> {Resuming, Checkpointed, Blocked, Failed})"
| "transition_allowed g Resuming n =
     (n \<in> {Analyzing, Planned, Running, Verifying, Blocked, Cancelled, Failed})"
| "transition_allowed g Verifying n =
     (n \<in> {Completed, CheckpointRequested, Blocked, Cancelled, Failed})"
| "transition_allowed g Blocked n =
     (n \<in> {Cancelled, Failed} \<or> is_some_and (resume_point g) (\<lambda>p. p = n))"
| "transition_allowed g Completed n = False"
| "transition_allowed g Failed n = False"
| "transition_allowed g Cancelled n = False"

definition task_validate_transition ::
    "TaskState \<Rightarrow> TaskState \<Rightarrow> TransitionGuards \<Rightarrow> TransitionError + unit" where
  "task_validate_transition s n g =
     (if s = n then Inl (NoOp s)
      else if \<not> transition_allowed g s n then Inl (NotAllowed s n)
      else if n = Checkpointed \<and> \<not> checkpoint_integrity_verified g then Inl CheckpointNotVerified
      else if s = HandingOver \<and> n = Resuming
              \<and> \<not> (handover_integrity_verified g \<and> handover_acknowledged g)
        then Inl HandoverNotVerified
      else if n = Completed \<and> \<not> verification_passed g then Inl VerificationNotPassed
      else if n = Completed \<and> independent_review_required g \<and> \<not> independent_review_satisfied g
        then Inl IndependentReviewMissing
      else if n = Completed \<and> pending_approval g then Inl PendingApproval
      else Inr ())"

section \<open>Accepted transitions as a machine\<close>

text \<open>
  A history is a list of accepted steps, each with the guards it was accepted under, oldest first.
  \<open>task_run s h t\<close>: the steps of \<open>h\<close> lead from \<open>s\<close> to \<open>t\<close>.
\<close>

type_synonym task_step = "TransitionGuards \<times> TaskState"

inductive task_run :: "TaskState \<Rightarrow> task_step list \<Rightarrow> TaskState \<Rightarrow> bool" for s where
  start: "task_run s [] s"
| step: "task_run s h t \<Longrightarrow> task_validate_transition t u g = Inr () \<Longrightarrow> task_run s (h @ [(g, u)]) u"

inductive_cases task_run_NilE: "task_run s [] t"
inductive_cases task_run_snocE: "task_run s (h @ [x]) t"

text \<open>\<open>completion_evidence g\<close>: the evidence the completion gate asks for.\<close>

definition completion_evidence :: "TransitionGuards \<Rightarrow> bool" where
  "completion_evidence g \<longleftrightarrow>
     verification_passed g
   \<and> (independent_review_required g \<longrightarrow> independent_review_satisfied g)
   \<and> \<not> pending_approval g"

text \<open>
  \<open>resume_disciplined s h\<close>: wherever a step carries a resume point, the task has been in that
  state before, as the persistence layer records the point when it blocks the task.
\<close>

fun visited_from :: "TaskState \<Rightarrow> task_step list \<Rightarrow> TaskState list" where
  "visited_from s h = s # map snd h"

definition resume_disciplined :: "TaskState \<Rightarrow> task_step list \<Rightarrow> bool" where
  "resume_disciplined s h \<longleftrightarrow>
     (\<forall>a g u b. h = a @ (g, u) # b \<longrightarrow>
        (case resume_point g of None \<Rightarrow> True | Some p \<Rightarrow> p \<in> set (visited_from s a)))"

text \<open>Replaying a history: the executable form of \<open>task_run\<close>.\<close>

fun task_replay :: "TaskState \<Rightarrow> task_step list \<Rightarrow> TaskState option" where
  "task_replay s [] = Some s"
| "task_replay s ((g, u) # h) =
     (case task_validate_transition s u g of Inl _ \<Rightarrow> None | Inr _ \<Rightarrow> task_replay u h)"

section \<open>Lemmas\<close>

lemma task_run_Cons:
  assumes "task_run u h t" and "task_validate_transition s u g = Inr ()"
  shows "task_run s ((g, u) # h) t"
  using assms
proof (induction rule: task_run.induct)
  case start
  then show ?case using task_run.step [OF task_run.start] by fastforce
next
  case (step h t v g')
  then show ?case using task_run.step [of s "(g, u) # h" t v g'] by simp
qed

lemma task_replay_sound: "task_replay s h = Some t \<Longrightarrow> task_run s h t"
proof (induction s h rule: task_replay.induct)
  case (1 s)
  then show ?case by (simp add: task_run.start)
next
  case (2 s g u h)
  then show ?case by (auto split: sum.splits intro: task_run_Cons)
qed

lemma resume_disciplined_none:
  "\<forall>x \<in> set h. resume_point (fst x) = None \<Longrightarrow> resume_disciplined s h"
  by (auto simp: resume_disciplined_def)

lemma accepted_allowed:
  "task_validate_transition s n g = Inr () \<Longrightarrow> s \<noteq> n \<and> transition_allowed g s n"
  by (simp add: task_validate_transition_def split: if_splits)

lemma accepted_completed:
  "task_validate_transition s Completed g = Inr () \<Longrightarrow> completion_evidence g"
  by (auto simp: task_validate_transition_def completion_evidence_def split: if_splits)

lemma accepted_checkpointed:
  "task_validate_transition s Checkpointed g = Inr () \<Longrightarrow> checkpoint_integrity_verified g"
  by (auto simp: task_validate_transition_def split: if_splits)

lemma terminal_no_successor: "task_is_terminal s \<Longrightarrow> \<not> transition_allowed g s n"
  by (auto simp: task_is_terminal_def)

lemma resume_disciplined_snoc:
  assumes "resume_disciplined s (h @ [(g, u)])"
  shows "resume_disciplined s h"
    and "resume_point g = Some p \<Longrightarrow> p \<in> set (visited_from s h)"
proof -
  show "resume_disciplined s h"
    using assms unfolding resume_disciplined_def by (metis append.assoc append_Cons)
  show "resume_point g = Some p \<Longrightarrow> p \<in> set (visited_from s h)"
    using assms unfolding resume_disciplined_def by (auto dest!: spec [of _ h])
qed

lemma transition_allowed_HandoverRequested:
  "transition_allowed g s HandoverRequested \<Longrightarrow>
     s = Checkpointed \<or> (s = Blocked \<and> resume_point g = Some HandoverRequested)"
  by (cases s) (auto simp: is_some_and_iff)

lemma transition_allowed_HandingOver:
  "transition_allowed g s HandingOver \<Longrightarrow>
     s = HandoverRequested \<or> (s = Blocked \<and> resume_point g = Some HandingOver)"
  by (cases s) (auto simp: is_some_and_iff)

definition has_verified_checkpoint :: "task_step list \<Rightarrow> bool" where
  "has_verified_checkpoint h \<longleftrightarrow> (\<exists>g. (g, Checkpointed) \<in> set h \<and> checkpoint_integrity_verified g)"

lemma handover_states_checkpointed:
  assumes "task_run Queued h t" and "resume_disciplined Queued h"
    and "x \<in> set (visited_from Queued h)" and "x \<in> {Checkpointed, HandoverRequested, HandingOver}"
  shows "has_verified_checkpoint h"
  using assms
proof (induction arbitrary: x rule: task_run.induct)
  case start
  then show ?case by auto
next
  case (step h t u g)
  have disc: "resume_disciplined Queued h"
    by (rule resume_disciplined_snoc(1) [OF step.prems(1)])
  have last: "t \<in> set (visited_from Queued h)"
    using step.hyps(1) by (cases rule: task_run.cases) auto
  have lift: "has_verified_checkpoint h \<Longrightarrow> has_verified_checkpoint (h @ [(g, u)])"
    by (auto simp: has_verified_checkpoint_def)
  consider (old) "x \<in> set (visited_from Queued h)" | (new) "x = u" using step.prems(2) by auto
  then show ?case
  proof cases
    case old
    with step.IH [OF disc] step.prems(3) lift show ?thesis by blast
  next
    case new
    show ?thesis
    proof (cases "u = Checkpointed")
      case True
      with accepted_checkpointed step.hyps(2) show ?thesis
        by (auto simp: has_verified_checkpoint_def)
    next
      case False
      with new step.prems(3) have u: "u = HandoverRequested \<or> u = HandingOver" by auto
      have al: "transition_allowed g t u" using accepted_allowed [OF step.hyps(2)] by simp
      have "t \<in> {Checkpointed, HandoverRequested} \<or> resume_point g = Some u"
        using u al transition_allowed_HandoverRequested transition_allowed_HandingOver by blast
      then have "\<exists>y \<in> set (visited_from Queued h). y \<in> {Checkpointed, HandoverRequested, HandingOver}"
        using u last resume_disciplined_snoc(2) [OF step.prems(1)] by fast
      then show ?thesis using step.IH [OF disc] lift by blast
    qed
  qed
qed

text \<open>The task machine as a lifecycle; a step is an accepted transition under some guards.\<close>

definition task_step_to :: "TaskState \<Rightarrow> TaskState \<Rightarrow> bool" where
  "task_step_to s t \<longleftrightarrow> (\<exists>g. task_validate_transition s t g = Inr ())"

lemma task_fail_accepted:
  "\<not> task_is_terminal s \<Longrightarrow> task_validate_transition s Failed g = Inr ()"
  by (cases s) (auto simp: task_validate_transition_def task_is_terminal_def)

interpretation task: lifecycle task_step_to task_is_terminal
proof
  fix s t
  show "task_is_terminal s \<Longrightarrow> \<not> task_step_to s t"
    unfolding task_step_to_def by (metis accepted_allowed terminal_no_successor)
next
  fix s assume "\<not> task_is_terminal s"
  then have "task_step_to s Failed" by (auto simp: task_step_to_def task_fail_accepted)
  moreover have "task_is_terminal Failed" by (simp add: task_is_terminal_def)
  ultimately show "\<exists>t. task_step_to\<^sup>+\<^sup>+ s t \<and> task_is_terminal t" by blast
qed

lemma task_run_steps: "task_run s h t \<Longrightarrow> task_step_to\<^sup>*\<^sup>* s t"
  by (induction rule: task_run.induct)
    (auto simp: task_step_to_def intro: rtranclp.rtrancl_into_rtrancl)

lemma completed_predecessor:
  "task_validate_transition p Completed g = Inr () \<Longrightarrow> p = Verifying \<or> p = Blocked \<and> resume_point g = Some Completed"
  by (cases p; cases "resume_point g") (auto simp: task_validate_transition_def split: if_splits)

section \<open>Properties\<close>

text \<open>C1: a task reaches \<open>Completed\<close> only through a step whose guards carry passed verification, a
  satisfied independent review where one is required, and no pending approval, whatever the
  history before it. The step is made from \<open>Verifying\<close>, or from \<open>Blocked\<close> when the guards name \<open>Completed\<close> as the
  resume point.\<close>

theorem completed_only_with_evidence:
  assumes "task_run s h Completed" and "s \<noteq> Completed"
  shows "\<exists>h' g p. h = h' @ [(g, Completed)] \<and> task_run s h' p \<and> completion_evidence g
    \<and> (p = Verifying \<or> p = Blocked \<and> resume_point g = Some Completed)"
  using assms(1)
proof (cases rule: task_run.cases)
  case (step h' p g)
  then show ?thesis using accepted_completed [of p g] completed_predecessor [of p g] by auto
qed (use assms(2) in simp)

definition evidence_guards :: TransitionGuards where
  "evidence_guards = default_guards\<lparr> verification_passed := True, checkpoint_integrity_verified := True \<rparr>"

lemma example_run: "task_run Verifying [(evidence_guards, Completed)] Completed"
  by (rule task_replay_sound) code_simp

theorem completed_only_with_evidence_witness:
  "\<exists>h' g p. [(evidence_guards, Completed)] = h' @ [(g, Completed)] \<and> task_run Verifying h' p \<and> completion_evidence g
    \<and> (p = Verifying \<or> p = Blocked \<and> resume_point g = Some Completed)"
  by (rule completed_only_with_evidence [OF example_run]) simp

text \<open>terminal states are absorbing: no step is accepted from \<open>Completed\<close>, \<open>Failed\<close> or
  \<open>Cancelled\<close> under any guards, so every run from one is empty.\<close>

theorem terminal_states_absorb:
  assumes "task_run s h t" and "task_is_terminal s"
  shows "h = [] \<and> t = s"
proof -
  have "t = s" using task.terminal_absorbs [OF task_run_steps [OF assms(1)] assms(2)] .
  moreover have "h = []"
    using assms
  proof (cases rule: task_run.cases)
    case (step h' t' g)
    then have "t' = s" using task.terminal_absorbs [OF task_run_steps assms(2)] by blast
    then show ?thesis using step task.terminal_stuck [OF assms(2)] by (auto simp: task_step_to_def)
  qed simp
  ultimately show ?thesis by blast
qed

theorem terminal_states_absorb_witness:
  "task_run Failed [] Failed \<and> task_is_terminal Failed \<and> ([] :: task_step list) = []"
proof -
  have t: "task_is_terminal Failed" by (simp add: task_is_terminal_def)
  show ?thesis using terminal_states_absorb [OF task_run.start t] t task_run.start [of Failed] by blast
qed

text \<open>C2: no dead ends: from every non-terminal state, failing the task is accepted whatever evidence
  is present or missing.\<close>

theorem non_terminal_can_always_fail:
  assumes "\<not> task_is_terminal s"
  shows "task_validate_transition s Failed g = Inr ()"
  by (rule task_fail_accepted [OF assms])

theorem non_terminal_can_always_fail_witness:
  "\<not> task_is_terminal Blocked \<and> task_validate_transition Blocked Failed default_guards = Inr ()"
proof -
  have h: "\<not> task_is_terminal Blocked" by (simp add: task_is_terminal_def)
  show ?thesis using h non_terminal_can_always_fail [OF h] by simp
qed

text \<open>a handover never starts from unverified work: every run from \<open>Queued\<close> whose resume points
  were recorded from visited states and which reaches \<open>HandoverRequested\<close> or \<open>HandingOver\<close>
  contains a checkpoint step with verified integrity.\<close>

theorem handover_needs_verified_checkpoint:
  assumes "task_run Queued h t" and "resume_disciplined Queued h"
    and "t = HandoverRequested \<or> t = HandingOver"
  shows "has_verified_checkpoint h"
proof -
  have "t \<in> set (visited_from Queued h)"
    using assms(1) by (cases rule: task_run.cases) auto
  moreover have "t \<in> {Checkpointed, HandoverRequested, HandingOver}" using assms(3) by blast
  ultimately show ?thesis by (rule handover_states_checkpointed [OF assms(1,2)])
qed

text \<open>A task that is analysed, planned, checkpointed and asked to hand over.\<close>

definition handover_history :: "task_step list" where
  "handover_history =
     map (Pair evidence_guards)
       [Analyzing, Planned, CheckpointRequested, Checkpointing, Checkpointed, HandoverRequested]"

lemma handover_history_run: "task_run Queued handover_history HandoverRequested"
  by (rule task_replay_sound) code_simp

theorem handover_needs_verified_checkpoint_witness: "has_verified_checkpoint handover_history"
proof (rule handover_needs_verified_checkpoint [OF handover_history_run])
  show "resume_disciplined Queued handover_history"
    by (rule resume_disciplined_none)
      (simp add: handover_history_def evidence_guards_def default_guards_def)
qed simp

end
