(* ===== verification/Documents.thy ===== *)
theory Documents
  imports Usage Canonical Task_State
begin

text \<open>
  The sealed documents of the domain crate: checkpoints (\<open>checkpoint.rs\<close>), handover bundles and their
  acknowledgements (\<open>handover.rs\<close>), audit events (\<open>event.rs\<close>) and the verification result that gates
  completion (\<open>verification.rs\<close>). The \<open>Serialize\<close> implementations are generated by \<open>serde\<close>: the JSON
  value of a document is the parameter \<open>to_value\<close>. Each document interprets the interface
  \<open>sealed_document\<close>.
\<close>

section \<open>Checkpoints\<close>

definition SUPPORTED_CHECKPOINT_SCHEMA_VERSIONS :: "string list" where
  "SUPPORTED_CHECKPOINT_SCHEMA_VERSIONS = [SchemaVersion_V1]"

record UntrustedWorkerClaim =
  claim_provider :: ProviderId
  claim_summary :: string
  claim_claimed_files_changed :: "RepoPath list"
  claim_claimed_tests_passed :: "string list"

record Checkpoint =
  cp_schema_version :: SchemaVersion
  cp_checkpoint_id :: CheckpointId
  cp_task_id :: TaskId
  cp_attempt_id :: AttemptId
  cp_objective :: string
  cp_current_plan :: "PlanStep list"
  cp_completed_steps :: "CompletedStep list"
  cp_pending_steps :: "PlanStep list"
  cp_files_read :: "RepoPath list"
  cp_files_changed :: "RepoPath list"
  cp_git_base :: "string option"
  cp_diff_path :: "RepoPath option"
  cp_commands_run :: "CommandEvidence list"
  cp_tests :: "TestEvidence list"
  cp_decisions :: "DecisionRecord list"
  cp_unresolved_questions :: "string list"
  cp_known_failures :: "FailureRecord list"
  cp_worker_claim :: "UntrustedWorkerClaim option"
  cp_current_worker :: ProviderId
  cp_concise_context_summary :: string
  cp_created_at :: DateTime
  cp_integrity_hash :: string

definition checkpoint_has_supported_schema :: "Checkpoint \<Rightarrow> bool" where
  "checkpoint_has_supported_schema c =
     is_supported_by (cp_schema_version c) SUPPORTED_CHECKPOINT_SCHEMA_VERSIONS"

text \<open>\<open>refresh_integrity_hash\<close> updates the document in place; \<open>seal\<close> is the same on an owned value.\<close>

definition checkpoint_refresh_integrity_hash ::
    "integrity_env \<Rightarrow> (Checkpoint \<Rightarrow> string + json) \<Rightarrow> Checkpoint \<Rightarrow> IntegrityError + Checkpoint" where
  "checkpoint_refresh_integrity_hash env to_value =
     seal_with (\<lambda>c. canonical_sha256 env (to_value c)) (\<lambda>h c. c\<lparr>cp_integrity_hash := h\<rparr>)"

definition checkpoint_seal ::
    "integrity_env \<Rightarrow> (Checkpoint \<Rightarrow> string + json) \<Rightarrow> Checkpoint \<Rightarrow> IntegrityError + Checkpoint" where
  "checkpoint_seal env to_value c =
     and_then (checkpoint_refresh_integrity_hash env to_value c) Inr"

definition checkpoint_verify_integrity ::
    "integrity_env \<Rightarrow> (Checkpoint \<Rightarrow> string + json) \<Rightarrow> Checkpoint \<Rightarrow> IntegrityError + bool" where
  "checkpoint_verify_integrity env to_value =
     verify_with (\<lambda>c. canonical_sha256 env (to_value c)) cp_integrity_hash
       (\<lambda>h c. c\<lparr>cp_integrity_hash := h\<rparr>)"

section \<open>Handover bundles\<close>

definition SUPPORTED_HANDOVER_SCHEMA_VERSIONS :: "string list" where
  "SUPPORTED_HANDOVER_SCHEMA_VERSIONS = [SchemaVersion_V1]"

record HandoverBundle =
  hb_schema_version :: SchemaVersion
  hb_handover_id :: HandoverId
  hb_task_id :: TaskId
  hb_objective :: string
  hb_original_request :: string
  hb_constraints :: "string list"
  hb_acceptance_criteria :: "string list"
  hb_current_plan :: "PlanStep list"
  hb_completed_steps :: "CompletedStep list"
  hb_pending_steps :: "PlanStep list"
  hb_files_read :: "RepoPath list"
  hb_files_changed :: "RepoPath list"
  hb_git_base :: "string option"
  hb_diff_path :: "RepoPath option"
  hb_commands_run :: "CommandEvidence list"
  hb_tests :: "TestEvidence list"
  hb_decisions :: "DecisionRecord list"
  hb_unresolved_questions :: "string list"
  hb_known_failures :: "FailureRecord list"
  hb_current_worker :: ProviderId
  hb_recommended_next_worker :: ProviderId
  hb_usage_snapshots :: "UsageSnapshot list"
  hb_concise_context_summary :: string
  hb_created_at :: DateTime
  hb_integrity_hash :: string

definition bundle_has_supported_schema :: "HandoverBundle \<Rightarrow> bool" where
  "bundle_has_supported_schema b =
     is_supported_by (hb_schema_version b) SUPPORTED_HANDOVER_SCHEMA_VERSIONS"

definition bundle_refresh_integrity_hash ::
    "integrity_env \<Rightarrow> (HandoverBundle \<Rightarrow> string + json) \<Rightarrow> HandoverBundle
     \<Rightarrow> IntegrityError + HandoverBundle" where
  "bundle_refresh_integrity_hash env to_value =
     seal_with (\<lambda>b. canonical_sha256 env (to_value b)) (\<lambda>h b. b\<lparr>hb_integrity_hash := h\<rparr>)"

definition bundle_seal ::
    "integrity_env \<Rightarrow> (HandoverBundle \<Rightarrow> string + json) \<Rightarrow> HandoverBundle
     \<Rightarrow> IntegrityError + HandoverBundle" where
  "bundle_seal env to_value b = and_then (bundle_refresh_integrity_hash env to_value b) Inr"

definition bundle_verify_integrity ::
    "integrity_env \<Rightarrow> (HandoverBundle \<Rightarrow> string + json) \<Rightarrow> HandoverBundle \<Rightarrow> IntegrityError + bool" where
  "bundle_verify_integrity env to_value =
     verify_with (\<lambda>b. canonical_sha256 env (to_value b)) hb_integrity_hash
       (\<lambda>h b. b\<lparr>hb_integrity_hash := h\<rparr>)"

record HandoverAcknowledgement =
  ack_schema_version :: SchemaVersion
  ack_task_id :: TaskId
  ack_bundle_hash :: string
  ack_provider :: ProviderId
  ack_understood_objective :: string
  ack_understood_constraints :: "string list"
  ack_understood_acceptance_criteria :: "string list"
  ack_next_step_id :: "string option"
  ack_unresolved_questions :: "string list"
  ack_can_resume :: bool
  ack_acknowledged_at :: DateTime

definition ack_has_supported_schema :: "HandoverAcknowledgement \<Rightarrow> bool" where
  "ack_has_supported_schema a =
     is_supported_by (ack_schema_version a) SUPPORTED_HANDOVER_SCHEMA_VERSIONS"

definition ack_matches :: "HandoverAcknowledgement \<Rightarrow> HandoverBundle \<Rightarrow> bool" where
  "ack_matches a b \<longleftrightarrow>
     ack_has_supported_schema a
     \<and> bundle_has_supported_schema b
     \<and> ack_task_id a = hb_task_id b
     \<and> ack_bundle_hash a = hb_integrity_hash b
     \<and> ack_provider a = hb_recommended_next_worker b
     \<and> ack_understood_objective a = hb_objective b
     \<and> ack_understood_constraints a = hb_constraints b
     \<and> ack_understood_acceptance_criteria a = hb_acceptance_criteria b
     \<and> ack_can_resume a"

section \<open>Audit events\<close>

datatype EventType =
    SessionCreated | SessionStateTransitioned | MessageAppended | GraphRevisionRecorded
  | GraphApproved | TaskCreated | AssessmentCompleted | UsageCollected | RouteSelected
  | WorkerStarted | Event_WorkerEvent | CheckpointCreated | HandoverStarted | HandoverCompleted
  | VerificationStarted | VerificationCompleted | TaskCompleted | TaskBlocked | ProviderExhausted
  | CompatibilityWarning | MigrationStarted | MigrationCompleted | RollbackPlanned
  | StateTransitioned | ControlRequested

datatype EventActor =
  Actor_User | Actor_Administrator | Actor_Orchestrator | Actor_Provider ProviderId | Actor_System

record TaskEvent =
  ev_schema_version :: SchemaVersion
  ev_sequence :: u64
  ev_event_id :: EventId
  ev_session_id :: "SessionId option"
  ev_task_id :: "TaskId option"
  ev_occurred_at :: DateTime
  ev_event_type :: EventType
  ev_from_state :: "TaskState option"
  ev_to_state :: "TaskState option"
  ev_reason :: "string option"
  ev_actor :: EventActor
  ev_correlation_id :: CorrelationId
  ev_causation_id :: "EventId option"
  ev_payload :: json
  ev_previous_hash :: "string option"
  ev_event_hash :: string

definition refresh_event_hash ::
    "integrity_env \<Rightarrow> (TaskEvent \<Rightarrow> string + json) \<Rightarrow> TaskEvent \<Rightarrow> IntegrityError + TaskEvent" where
  "refresh_event_hash env to_value =
     seal_with (\<lambda>e. canonical_sha256 env (to_value e)) (\<lambda>h e. e\<lparr>ev_event_hash := h\<rparr>)"

definition event_seal ::
    "integrity_env \<Rightarrow> (TaskEvent \<Rightarrow> string + json) \<Rightarrow> TaskEvent \<Rightarrow> IntegrityError + TaskEvent" where
  "event_seal env to_value e = and_then (refresh_event_hash env to_value e) Inr"

definition verify_hash ::
    "integrity_env \<Rightarrow> (TaskEvent \<Rightarrow> string + json) \<Rightarrow> TaskEvent \<Rightarrow> IntegrityError + bool" where
  "verify_hash env to_value =
     verify_with (\<lambda>e. canonical_sha256 env (to_value e)) ev_event_hash
       (\<lambda>h e. e\<lparr>ev_event_hash := h\<rparr>)"

section \<open>Verification results\<close>

datatype VerificationStatus =
  Verification_Pass | Verification_Fail | Verification_NeedsApproval | Verification_Inconclusive

datatype VerificationCheckKind =
    GitDiff | ChangedFiles | Check_Scope | CommandExit | Check_Test | Lint | TypeCheck | Build
  | AcceptanceCriterion | UnresolvedTodo | SecretScan | IndependentReview

record VerificationCheck =
  vc_kind :: VerificationCheckKind
  vc_name :: string
  vc_status :: VerificationStatus
  vc_detail :: "string option"
  vc_evidence_paths :: "RepoPath list"

record AcceptanceEvidence =
  ae_criterion :: string
  ae_status :: VerificationStatus
  ae_evidence :: "string list"

record VerificationResult =
  ver_schema_version :: SchemaVersion
  ver_verification_id :: VerificationId
  ver_task_id :: TaskId
  ver_implementation_provider :: ProviderId
  ver_reviewer_provider :: "ProviderId option"
  ver_status :: VerificationStatus
  ver_checks :: "VerificationCheck list"
  ver_acceptance_criteria :: "AcceptanceEvidence list"
  ver_changed_files :: "RepoPath list"
  ver_out_of_scope_files :: "RepoPath list"
  ver_unresolved_todos :: "string list"
  ver_requires_approval :: bool
  ver_verified_at :: DateTime

definition passes_completion_gate :: "VerificationResult \<Rightarrow> bool \<Rightarrow> bool" where
  "passes_completion_gate v review_required \<longleftrightarrow>
     ver_status v = Verification_Pass
     \<and> \<not> ver_requires_approval v
     \<and> ver_out_of_scope_files v = []
     \<and> list_all (\<lambda>check. vc_status check = Verification_Pass) (ver_checks v)
     \<and> list_all (\<lambda>criterion. ae_status criterion = Verification_Pass) (ver_acceptance_criteria v)
     \<and> (\<not> review_required
        \<or> is_some_and (ver_reviewer_provider v) (\<lambda>reviewer.
             reviewer \<noteq> ver_implementation_provider v
             \<and> list_ex (\<lambda>check. vc_kind check = IndependentReview
                                 \<and> vc_status check = Verification_Pass) (ver_checks v)))"

section \<open>The documents implement the interface\<close>

interpretation checkpoint_doc: sealed_document
  "\<lambda>c. canonical_sha256 env (to_value c)" cp_integrity_hash "\<lambda>h c. c\<lparr>cp_integrity_hash := h\<rparr>"
  for env to_value
  by unfold_locales simp_all

interpretation bundle_doc: sealed_document
  "\<lambda>b. canonical_sha256 env (to_value b)" hb_integrity_hash "\<lambda>h b. b\<lparr>hb_integrity_hash := h\<rparr>"
  for env to_value
  by unfold_locales simp_all

interpretation event_doc: sealed_document
  "\<lambda>e. canonical_sha256 env (to_value e)" ev_event_hash "\<lambda>h e. e\<lparr>ev_event_hash := h\<rparr>"
  for env to_value
  by unfold_locales simp_all

lemma seal_is_refresh [simp]:
  "checkpoint_seal env to_value = checkpoint_refresh_integrity_hash env to_value"
  "bundle_seal env bundle_value = bundle_refresh_integrity_hash env bundle_value"
  "event_seal env event_value = refresh_event_hash env event_value"
  by (rule ext, simp add: checkpoint_seal_def bundle_seal_def event_seal_def and_then_def
      split: sum.split)+

lemmas document_defs =
  checkpoint_refresh_integrity_hash_def checkpoint_verify_integrity_def
  bundle_refresh_integrity_hash_def bundle_verify_integrity_def refresh_event_hash_def verify_hash_def

section \<open>Properties\<close>

text \<open>What the seals rely on of code outside the repository: the digest is not empty and separates the
  texts it is given, and strings are quoted unambiguously. The generated serializer of a document without floating-point numbers
  gives well-formed JSON values that determine it (\<open>faithful_serializer\<close>); of a document with such numbers the hash fixes the canonical
  text only.\<close>

definition ideal_digest :: "integrity_env \<Rightarrow> bool" where
  "ideal_digest env \<longleftrightarrow>
     quoting (json_quote env) \<and> (\<forall>t. sha256_hex env t \<noteq> [])
     \<and> (\<forall>s t. sha256_hex env s = sha256_hex env t \<longrightarrow> s = t)"

definition faithful_serializer :: "('d \<Rightarrow> string + json) \<Rightarrow> bool" where
  "faithful_serializer to_value \<longleftrightarrow>
     (\<forall>d j. to_value d = Inr j \<longrightarrow> wf_json j)
     \<and> (\<forall>d d' j j'. to_value d = Inr j \<longrightarrow> to_value d' = Inr j' \<longrightarrow> canonical j = canonical j' \<longrightarrow> d = d')"

lemma sample_ideal_digest: "ideal_digest sample_integrity_env"
  by (simp add: ideal_digest_def sample_integrity_env_def sample_quote_quoting)

lemma canonical_sha256_separates:
  assumes "ideal_digest env" and "faithful_serializer to_value"
    and "canonical_sha256 env (to_value d) = Inr h" and "canonical_sha256 env (to_value d') = Inr h"
  shows "d = d'"
proof -
  obtain j j' where j: "to_value d = Inr j" "to_value d' = Inr j'"
    and "sha256_hex env (write_value (json_quote env) j) = sha256_hex env (write_value (json_quote env) j')"
    using assms(3,4) by (auto simp: canonical_sha256_Inr)
  then have "write_value (json_quote env) j = write_value (json_quote env) j'"
    using assms(1) unfolding ideal_digest_def by blast
  moreover have "wf_json j" "wf_json j'" using assms(2) j unfolding faithful_serializer_def by blast+
  ultimately have "canonical j = canonical j'"
    using assms(1) write_value_eq_iff unfolding ideal_digest_def by blast
  then show ?thesis using assms(2) j unfolding faithful_serializer_def by blast
qed

lemma canonical_sha256_nonempty:
  "ideal_digest env \<Longrightarrow> canonical_sha256 env v = Inr h \<Longrightarrow> h \<noteq> []"
  by (auto simp: canonical_sha256_Inr ideal_digest_def)

lemma checkpoint_verified_hash:
  "checkpoint_verify_integrity env to_value c = Inr True \<longleftrightarrow>
     cp_integrity_hash c \<noteq> []
     \<and> canonical_sha256 env (to_value (c\<lparr>cp_integrity_hash := []\<rparr>)) = Inr (cp_integrity_hash c)"
  unfolding checkpoint_verify_integrity_def by (rule checkpoint_doc.verify_iff)

lemma bundle_verified_hash:
  "bundle_verify_integrity env to_value b = Inr True \<longleftrightarrow>
     hb_integrity_hash b \<noteq> []
     \<and> canonical_sha256 env (to_value (b\<lparr>hb_integrity_hash := []\<rparr>)) = Inr (hb_integrity_hash b)"
  unfolding bundle_verify_integrity_def by (rule bundle_doc.verify_iff)

lemma event_verified_hash:
  "verify_hash env to_value e = Inr True \<longleftrightarrow>
     ev_event_hash e \<noteq> []
     \<and> canonical_sha256 env (to_value (e\<lparr>ev_event_hash := []\<rparr>)) = Inr (ev_event_hash e)"
  unfolding verify_hash_def by (rule event_doc.verify_iff)

text \<open>Equal hashes are hashes of the same canonical text, whatever the serializer keeps of the document.\<close>

lemma same_hash_same_text:
  assumes "ideal_digest env" "canonical_sha256 env v = Inr h" "canonical_sha256 env w = Inr h"
  shows "canonical_json env v = canonical_json env w"
  using assms unfolding canonical_sha256_def and_then_eq_Inr ideal_digest_def by fastforce

end
