(* ===== verification/Scheduling.thy ===== *)
theory Scheduling
  imports Task_State Repo_Path Providers Lifecycle "HOL-Library.Product_Lexorder" "HOL-Library.Sublist"
begin

text \<open>
  \<open>crates/orchestrator-domain/src/scheduling.rs\<close>: when a task may start and which tasks one scheduling
  round starts. Counters are 64-bit words. \<open>select_ready_tasks\<close> returns an option whose \<open>None\<close> is the
  overflow panic of \<open>active_by_provider += 1\<close>.
\<close>

section \<open>Data\<close>

record ResourceScope =
  scope_paths :: "RepoPath list"
  scope_repository_wide :: bool

definition scope_overlaps :: "ResourceScope \<Rightarrow> ResourceScope \<Rightarrow> bool" where
  "scope_overlaps self other \<longleftrightarrow>
     scope_repository_wide self \<or> scope_repository_wide other
   \<or> list_ex (\<lambda>left. list_ex (\<lambda>right. repo_paths_overlap left right) (scope_paths other)) (scope_paths self)"

record DependencyState =
  dep_task_id :: TaskId
  dep_state :: TaskState
  dep_verification_passed :: bool

record ScheduleCandidate =
  cand_task_id :: TaskId
  cand_session_id :: SessionId
  cand_revision_id :: GraphRevisionId
  cand_graph_is_current :: bool
  cand_graph_order :: u64
  cand_ready_since :: DateTime
  cand_state :: TaskState
  cand_paused :: bool
  cand_provider :: ProviderId
  cand_dependencies :: "DependencyState list"
  cand_scope :: ResourceScope

record ActiveResourceClaim =
  claim_task_id :: TaskId
  claim_scope :: ResourceScope

record ScheduleCapacity =
  global_limit :: usize
  active_global :: usize
  provider_limits :: "ProviderId \<rightharpoonup> usize"
  active_by_provider :: "ProviderId \<rightharpoonup> usize"

definition provider_limit :: "ScheduleCapacity \<Rightarrow> ProviderId \<Rightarrow> usize" where
  "provider_limit capacity provider =
     (case provider_limits capacity provider of Some l \<Rightarrow> l | None \<Rightarrow> global_limit capacity)"

datatype ReadinessBlocker =
    SupersededGraph
  | TaskNotQueued TaskState
  | Blocker_Paused
  | DependencyNotVerified TaskId TaskState
  | GlobalCapacity
  | ProviderCapacity ProviderId
  | ResourceConflict TaskId

datatype SchedulingError =
    InvalidGlobalLimit
  | Scheduling_InvalidProviderLimit ProviderId

section \<open>Readiness\<close>

definition validate_capacity :: "ScheduleCapacity \<Rightarrow> SchedulingError + unit" where
  "validate_capacity capacity =
     (if global_limit capacity = 0 then Inl InvalidGlobalLimit
      else case find (\<lambda>p. provider_limits capacity p = Some 0) all_providers of
             Some p \<Rightarrow> Inl (Scheduling_InvalidProviderLimit p)
           | None \<Rightarrow> Inr ())"

definition active_for :: "ScheduleCapacity \<Rightarrow> ProviderId \<Rightarrow> usize" where
  "active_for capacity provider =
     (case active_by_provider capacity provider of Some n \<Rightarrow> n | None \<Rightarrow> 0)"

definition dependency_unverified :: "DependencyState \<Rightarrow> bool" where
  "dependency_unverified d \<longleftrightarrow> dep_state d \<noteq> Completed \<or> \<not> dep_verification_passed d"

definition readiness_blocker ::
    "ScheduleCandidate \<Rightarrow> ScheduleCapacity \<Rightarrow> ActiveResourceClaim list
     \<Rightarrow> SchedulingError + ReadinessBlocker option" where
  "readiness_blocker candidate capacity active_claims =
     and_then (validate_capacity capacity) (\<lambda>_.
       if \<not> cand_graph_is_current candidate then Inr (Some SupersededGraph)
       else if cand_state candidate \<noteq> Queued then Inr (Some (TaskNotQueued (cand_state candidate)))
       else if cand_paused candidate then Inr (Some Blocker_Paused)
       else case find dependency_unverified (cand_dependencies candidate) of
         Some d \<Rightarrow> Inr (Some (DependencyNotVerified (dep_task_id d) (dep_state d)))
       | None \<Rightarrow>
         if active_global capacity \<ge> global_limit capacity then Inr (Some GlobalCapacity)
         else if active_for capacity (cand_provider candidate)
                   \<ge> provider_limit capacity (cand_provider candidate)
           then Inr (Some (ProviderCapacity (cand_provider candidate)))
         else case find (\<lambda>claim. scope_overlaps (claim_scope claim) (cand_scope candidate)) active_claims of
           Some claim \<Rightarrow> Inr (Some (ResourceConflict (claim_task_id claim)))
         | None \<Rightarrow> Inr None)"

section \<open>One scheduling round\<close>

text \<open>\<open>usize::saturating_add(1)\<close> and the checked \<open>+= 1\<close>.\<close>

definition saturating_succ :: "usize \<Rightarrow> usize" where
  "saturating_succ n = (if n = -1 then -1 else n + 1)"

definition checked_succ :: "usize \<Rightarrow> usize option" where
  "checked_succ n = (if n = -1 then None else Some (n + 1))"

definition consume_capacity :: "ScheduleCandidate \<Rightarrow> ScheduleCapacity \<Rightarrow> ScheduleCapacity option" where
  "consume_capacity candidate capacity =
     map_option (\<lambda>n. capacity \<lparr> active_global := saturating_succ (active_global capacity),
                    active_by_provider := (active_by_provider capacity)(cand_provider candidate \<mapsto> n) \<rparr>)
       (checked_succ (active_for capacity (cand_provider candidate)))"

definition claim_of :: "ScheduleCandidate \<Rightarrow> ActiveResourceClaim" where
  "claim_of candidate = \<lparr> claim_task_id = cand_task_id candidate, claim_scope = cand_scope candidate \<rparr>"

fun select_loop ::
    "ScheduleCandidate list \<Rightarrow> ScheduleCapacity \<Rightarrow> ActiveResourceClaim list \<Rightarrow> TaskId list
     \<Rightarrow> (SchedulingError + TaskId list) option" where
  "select_loop [] capacity claims selected = Some (Inr selected)"
| "select_loop (candidate # ordered) capacity claims selected =
     (case readiness_blocker candidate capacity claims of
        Inl e \<Rightarrow> Some (Inl e)
      | Inr (Some _) \<Rightarrow> select_loop ordered capacity claims selected
      | Inr None \<Rightarrow>
          (case consume_capacity candidate capacity of
             None \<Rightarrow> None
           | Some capacity' \<Rightarrow>
               select_loop ordered capacity' (claims @ [claim_of candidate])
                 (selected @ [cand_task_id candidate])))"

definition schedule_order :: "ScheduleCandidate \<Rightarrow> DateTime \<times> u64 \<times> TaskId" where
  "schedule_order c = (cand_ready_since c, cand_graph_order c, cand_task_id c)"

definition select_ready_tasks ::
    "ScheduleCandidate list \<Rightarrow> ScheduleCapacity \<Rightarrow> ActiveResourceClaim list
     \<Rightarrow> (SchedulingError + TaskId list) option" where
  "select_ready_tasks candidates capacity active_claims =
     (case validate_capacity capacity of
        Inl e \<Rightarrow> Some (Inl e)
      | Inr _ \<Rightarrow> select_loop (sort_key schedule_order candidates) capacity active_claims [])"

section \<open>Instructions to a running task\<close>

datatype TaskInstructionState =
  Instr_Queued | Applying | Applied | Instr_Rejected | Instr_Interrupted

fun instruction_can_transition_to :: "TaskInstructionState \<Rightarrow> TaskInstructionState \<Rightarrow> bool" where
  "instruction_can_transition_to Instr_Queued Applying = True"
| "instruction_can_transition_to Instr_Queued Instr_Rejected = True"
| "instruction_can_transition_to Instr_Interrupted Applying = True"
| "instruction_can_transition_to Instr_Interrupted Instr_Rejected = True"
| "instruction_can_transition_to Applying Applied = True"
| "instruction_can_transition_to Applying Instr_Rejected = True"
| "instruction_can_transition_to Applying Instr_Interrupted = True"
| "instruction_can_transition_to _ _ = False"

fun instruction_is_terminal :: "TaskInstructionState \<Rightarrow> bool" where
  "instruction_is_terminal Applied = True"
| "instruction_is_terminal Instr_Rejected = True"
| "instruction_is_terminal _ = False"

lemma instruction_transition_from:
  "instruction_can_transition_to s t \<Longrightarrow> \<not> instruction_is_terminal s"
  by (cases s; cases t) simp_all

interpretation instruction: lifecycle instruction_can_transition_to instruction_is_terminal
proof
  fix s t
  show "instruction_is_terminal s \<Longrightarrow> \<not> instruction_can_transition_to s t"
    using instruction_transition_from by blast
next
  fix s assume "\<not> instruction_is_terminal s"
  then have "instruction_can_transition_to s Instr_Rejected" by (cases s) simp_all
  then show "\<exists>t. instruction_can_transition_to\<^sup>+\<^sup>+ s t \<and> instruction_is_terminal t"
    using instruction_is_terminal.simps(2) by blast
qed

section \<open>Correctness\<close>

text \<open>What makes a candidate eligible on its own, and what a round of chosen candidates has to respect.\<close>

definition runnable :: "ScheduleCandidate \<Rightarrow> bool" where
  "runnable c \<longleftrightarrow> cand_graph_is_current c \<and> cand_state c = Queued \<and> \<not> cand_paused c
   \<and> (\<forall>d \<in> set (cand_dependencies c). dep_state d = Completed \<and> dep_verification_passed d)"

definition startable ::
    "ScheduleCandidate \<Rightarrow> ScheduleCapacity \<Rightarrow> ActiveResourceClaim list \<Rightarrow> bool" where
  "startable c capacity claims \<longleftrightarrow>
     runnable c \<and> active_global capacity < global_limit capacity
   \<and> active_for capacity (cand_provider c) < provider_limit capacity (cand_provider c)
   \<and> (\<forall>claim \<in> set claims. \<not> scope_overlaps (claim_scope claim) (cand_scope c))"

definition provider_share :: "ScheduleCandidate list \<Rightarrow> ProviderId \<Rightarrow> nat" where
  "provider_share chosen p = length (filter (\<lambda>c. cand_provider c = p) chosen)"

definition admissible_round ::
    "ScheduleCapacity \<Rightarrow> ActiveResourceClaim list \<Rightarrow> ScheduleCandidate list \<Rightarrow> bool" where
  "admissible_round capacity claims chosen \<longleftrightarrow>
     (\<forall>c \<in> set chosen. runnable c
        \<and> (\<forall>claim \<in> set claims. \<not> scope_overlaps (claim_scope claim) (cand_scope c)))
   \<and> sorted_wrt (\<lambda>a b. \<not> scope_overlaps (cand_scope a) (cand_scope b)) chosen
   \<and> (chosen \<noteq> [] \<longrightarrow> unat (active_global capacity) + length chosen \<le> unat (global_limit capacity))
   \<and> (\<forall>p. provider_share chosen p \<noteq> 0 \<longrightarrow>
        unat (active_for capacity p) + provider_share chosen p \<le> unat (provider_limit capacity p))"

definition left_out ::
    "ScheduleCapacity \<Rightarrow> ActiveResourceClaim list \<Rightarrow> ScheduleCandidate list \<Rightarrow> ScheduleCandidate \<Rightarrow> bool" where
  "left_out capacity claims chosen c \<longleftrightarrow>
     \<not> runnable c
   \<or> unat (global_limit capacity) \<le> unat (active_global capacity) + length chosen
   \<or> unat (provider_limit capacity (cand_provider c))
       \<le> unat (active_for capacity (cand_provider c)) + provider_share chosen (cand_provider c)
   \<or> (\<exists>claim \<in> set claims. scope_overlaps (claim_scope claim) (cand_scope c))
   \<or> (\<exists>b \<in> set chosen. scope_overlaps (cand_scope b) (cand_scope c))"

lemma sorted_wrt_subseq:
  assumes "subseq xs ys" and "sorted_wrt P ys"
  shows "sorted_wrt P xs"
  using assms
proof (induction rule: list_emb.induct)
  case (list_emb_Cons2 x y xs ys)
  then show ?case using list_emb_set by fastforce
qed auto

lemma provider_share_simps [simp]:
  "provider_share [] p = 0"
  "provider_share (c # cs) p = (if cand_provider c = p then Suc (provider_share cs p) else provider_share cs p)"
  by (simp_all add: provider_share_def)

lemma find_unverified_None:
  "find dependency_unverified ds = None \<longleftrightarrow>
     (\<forall>d \<in> set ds. dep_state d = Completed \<and> dep_verification_passed d)"
  by (auto simp: find_None_iff dependency_unverified_def)

lemma readiness_blocker_iff:
  assumes "validate_capacity capacity = Inr ()"
  shows "readiness_blocker c capacity claims = Inr None \<longleftrightarrow> startable c capacity claims"
  using assms find_unverified_None [of "cand_dependencies c"]
  by (auto simp: readiness_blocker_def startable_def runnable_def find_None_iff find_Some_iff not_le
      split: option.splits)

lemma readiness_blocker_ok:
  assumes "validate_capacity capacity = Inr ()"
  shows "\<exists>b. readiness_blocker c capacity claims = Inr b"
  using assms by (auto simp: readiness_blocker_def split: option.splits)

lemma unat_succ_below:
  fixes n :: usize
  assumes "n < m"
  shows "n \<noteq> -1" "unat (n + 1) = Suc (unat n)"
proof -
  show "n \<noteq> -1" using assms word_order.extremum_strict by blast
  then have "1 + n \<noteq> 0" by (metis add_eq_0_iff)
  then show "unat (n + 1) = Suc (unat n)" by (simp add: unatSuc add.commute)
qed

lemma active_for_update:
  "active_for (capacity \<lparr> active_global := n, active_by_provider := (active_by_provider capacity)(p \<mapsto> m) \<rparr>) q
     = (if q = p then m else active_for capacity q)"
  "provider_limit (capacity \<lparr> active_global := n, active_by_provider := a \<rparr>) q = provider_limit capacity q"
  "validate_capacity (capacity \<lparr> active_global := n, active_by_provider := a \<rparr>) = validate_capacity capacity"
  by (simp_all add: active_for_def provider_limit_def validate_capacity_def split: option.splits)

text \<open>Capacity that a startable candidate consumes: no overflow, limits unchanged, counters one up.\<close>

lemma consume_startable:
  assumes "startable c capacity claims"
  obtains capacity' where "consume_capacity c capacity = Some capacity'"
    "validate_capacity capacity' = validate_capacity capacity"
    "global_limit capacity' = global_limit capacity"
    "\<And>p. provider_limit capacity' p = provider_limit capacity p"
    "unat (active_global capacity') = Suc (unat (active_global capacity))"
    "\<And>p. unat (active_for capacity' p)
        = (if cand_provider c = p then Suc (unat (active_for capacity p)) else unat (active_for capacity p))"
proof -
  have g: "active_global capacity < global_limit capacity"
    and p: "active_for capacity (cand_provider c) < provider_limit capacity (cand_provider c)"
    using assms by (simp_all add: startable_def)
  show ?thesis
    by (rule that [of "capacity \<lparr> active_global := active_global capacity + 1,
          active_by_provider := (active_by_provider capacity)
            (cand_provider c \<mapsto> active_for capacity (cand_provider c) + 1) \<rparr>"])
      (auto simp: consume_capacity_def checked_succ_def saturating_succ_def unat_succ_below [OF g]
        unat_succ_below [OF p] active_for_update)
qed

lemma select_loop_correct:
  assumes "validate_capacity capacity = Inr ()"
  shows "\<exists>chosen. select_loop cs capacity claims selected = Some (Inr (selected @ map cand_task_id chosen))
     \<and> subseq chosen cs \<and> admissible_round capacity claims chosen
     \<and> (\<forall>c \<in> set cs - set chosen. left_out capacity claims chosen c)"
  using assms
proof (induction cs arbitrary: capacity claims selected)
  case Nil
  then show ?case by (simp add: admissible_round_def)
next
  case (Cons c cs)
  show ?case
  proof (cases "startable c capacity claims")
    case True
    obtain capacity' where cap: "consume_capacity c capacity = Some capacity'"
      "validate_capacity capacity' = validate_capacity capacity"
      "global_limit capacity' = global_limit capacity"
      "\<And>p. provider_limit capacity' p = provider_limit capacity p"
      "unat (active_global capacity') = Suc (unat (active_global capacity))"
      "\<And>p. unat (active_for capacity' p)
        = (if cand_provider c = p then Suc (unat (active_for capacity p)) else unat (active_for capacity p))"
      using consume_startable [OF True] by metis
    obtain chosen where ih: "select_loop cs capacity' (claims @ [claim_of c]) (selected @ [cand_task_id c])
         = Some (Inr ((selected @ [cand_task_id c]) @ map cand_task_id chosen))"
      "subseq chosen cs" "admissible_round capacity' (claims @ [claim_of c]) chosen"
      "\<forall>d \<in> set cs - set chosen. left_out capacity' (claims @ [claim_of c]) chosen d"
      using Cons.IH [of capacity'] Cons.prems cap(2) by metis
    have step: "select_loop (c # cs) capacity claims selected
        = Some (Inr (selected @ map cand_task_id (c # chosen)))"
      using readiness_blocker_iff [OF Cons.prems, of c claims, THEN iffD2, OF True] cap(1) ih(1) by simp
    have bounds: "active_global capacity < global_limit capacity"
      "active_for capacity (cand_provider c) < provider_limit capacity (cand_provider c)"
      using True by (simp_all add: startable_def)
    have share: "unat (active_for capacity p) + provider_share (c # chosen) p
        \<le> unat (provider_limit capacity p)" if "provider_share (c # chosen) p \<noteq> 0" for p
    proof (cases "provider_share chosen p = 0")
      case True
      with that bounds(2) show ?thesis by (auto simp: word_less_nat_alt split: if_splits)
    next
      case False
      with ih(3) have "unat (active_for capacity' p) + provider_share chosen p
          \<le> unat (provider_limit capacity' p)" by (simp add: admissible_round_def)
      then show ?thesis by (simp add: cap split: if_splits)
    qed
    have "admissible_round capacity claims (c # chosen)"
      using ih(3) True bounds(1) share unfolding admissible_round_def
      by (cases chosen) (simp_all add: startable_def cap claim_of_def word_less_nat_alt Suc_le_eq)
    moreover have "\<forall>d \<in> set (c # cs) - set (c # chosen). left_out capacity claims (c # chosen) d"
      using ih(4) by (fastforce simp: left_out_def cap claim_of_def)
    ultimately show ?thesis using step ih(2) by (metis subseq_Cons2)
  next
    case False
    obtain b where "readiness_blocker c capacity claims = Inr (Some b)"
      using False readiness_blocker_iff [OF Cons.prems] readiness_blocker_ok [OF Cons.prems]
      by (metis option.exhaust)
    moreover obtain chosen where ih: "select_loop cs capacity claims selected
         = Some (Inr (selected @ map cand_task_id chosen))"
      "subseq chosen cs" "admissible_round capacity claims chosen"
      "\<forall>d \<in> set cs - set chosen. left_out capacity claims chosen d"
      using Cons.IH [OF Cons.prems] by metis
    moreover have "left_out capacity claims chosen c"
      using False by (auto simp: startable_def left_out_def word_less_nat_alt)
    ultimately show ?thesis by (intro exI [of _ chosen]) auto
  qed
qed

lemma select_ready_tasks_ok:
  assumes "validate_capacity capacity = Inr ()"
  obtains chosen where
    "select_ready_tasks candidates capacity claims = Some (Inr (map cand_task_id chosen))"
    "subseq chosen (sort_key schedule_order candidates)" "admissible_round capacity claims chosen"
    "\<forall>c \<in> set candidates - set chosen. left_out capacity claims chosen c"
  using assms select_loop_correct [OF assms, of "sort_key schedule_order candidates" claims "[]"]
  by (auto simp: select_ready_tasks_def)

text \<open>The task a round selects first could be started on its own.\<close>

lemma select_ready_first:
  assumes "validate_capacity capacity = Inr ()"
    and "select_ready_tasks candidates capacity claims = Some (Inr (task # tasks))"
  shows "\<exists>c \<in> set candidates. cand_task_id c = task \<and> startable c capacity claims"
proof -
  obtain chosen where ch: "map cand_task_id chosen = task # tasks"
    "subseq chosen (sort_key schedule_order candidates)" "admissible_round capacity claims chosen"
    using select_ready_tasks_ok [OF assms(1), of candidates claims] assms(2) by (metis option.inject sum.inject(2))
  then obtain c rest where c: "chosen = c # rest" "cand_task_id c = task" by auto
  have "c \<in> set candidates" using list_emb_set [OF ch(2)] c(1) by auto
  moreover have "startable c capacity claims"
    using ch(3) spec [OF conjunct2 [OF conjunct2 [OF conjunct2 [OF ch(3) [unfolded admissible_round_def]]]],
        of "cand_provider c"]
    unfolding c(1) by (simp add: admissible_round_def startable_def word_less_nat_alt)
  ultimately show ?thesis using c(2) by blast
qed

section \<open>A sample round\<close>

definition sample_scope :: "string \<Rightarrow> ResourceScope" where
  "sample_scope path = \<lparr> scope_paths = [RepoPath path], scope_repository_wide = False \<rparr>"

definition sample_candidate :: "TaskId \<Rightarrow> string \<Rightarrow> ScheduleCandidate" where
  "sample_candidate task path = \<lparr> cand_task_id = task, cand_session_id = 9, cand_revision_id = 8,
     cand_graph_is_current = True, cand_graph_order = 0, cand_ready_since = 5, cand_state = Queued,
     cand_paused = False, cand_provider = Claude,
     cand_dependencies = [\<lparr> dep_task_id = 7, dep_state = Completed, dep_verification_passed = True \<rparr>],
     cand_scope = sample_scope path \<rparr>"

definition sample_candidates :: "ScheduleCandidate list" where
  "sample_candidates = [sample_candidate 3 ''docs'', sample_candidate 2 ''src/a'', sample_candidate 1 ''src'']"

definition sample_capacity :: ScheduleCapacity where
  "sample_capacity = \<lparr> global_limit = 4, active_global = 1, provider_limits = [Claude \<mapsto> 3],
     active_by_provider = [Codex \<mapsto> 1] \<rparr>"

definition sample_claims :: "ActiveResourceClaim list" where
  "sample_claims = [\<lparr> claim_task_id = 6, claim_scope = sample_scope ''tests'' \<rparr>]"

lemma sample_capacity_valid: "validate_capacity sample_capacity = Inr ()"
  by code_simp

lemma sample_round: "select_ready_tasks sample_candidates sample_capacity sample_claims = Some (Inr [1, 3])"
  by code_simp

lemma sample_ready: "readiness_blocker (sample_candidate 3 ''docs'') sample_capacity sample_claims = Inr None"
  by code_simp

section \<open>Properties\<close>

text \<open>a candidate has no readiness blocker exactly when its graph is current, it is queued and not
  paused, every dependency is completed and verified, global and provider capacity remain, and its
  write scope is disjoint from every active claim.\<close>

theorem readiness_iff_startable:
  assumes "validate_capacity capacity = Inr ()"
  shows "readiness_blocker c capacity claims = Inr None \<longleftrightarrow> startable c capacity claims"
  by (rule readiness_blocker_iff [OF assms])

theorem readiness_iff_startable_witness:
  "startable (sample_candidate 3 ''docs'') sample_capacity sample_claims"
  using readiness_iff_startable [OF sample_capacity_valid] sample_ready by blast

text \<open>C11: one scheduling round never panics, selects candidates in the order of ready time, graph order
  and task id, starts only runnable tasks whose scopes are disjoint from the active claims and from
  each other, stays within the global and the provider limits, and leaves out only candidates that
  are not runnable or that the limits or a scope exclude.\<close>

theorem select_ready_tasks_correct:
  assumes "validate_capacity capacity = Inr ()"
  shows "\<exists>chosen. select_ready_tasks candidates capacity claims = Some (Inr (map cand_task_id chosen))
     \<and> set chosen \<subseteq> set candidates \<and> sorted (map schedule_order chosen)
     \<and> admissible_round capacity claims chosen
     \<and> (\<forall>c \<in> set candidates - set chosen. left_out capacity claims chosen c)"
proof -
  obtain chosen where c:
    "select_ready_tasks candidates capacity claims = Some (Inr (map cand_task_id chosen))"
    "subseq chosen (sort_key schedule_order candidates)" "admissible_round capacity claims chosen"
    "\<forall>c \<in> set candidates - set chosen. left_out capacity claims chosen c"
    by (rule select_ready_tasks_ok [OF assms])
  have "subseq (map schedule_order chosen) (map schedule_order (sort_key schedule_order candidates))"
    by (rule subseq_map [OF c(2)])
  then have "sorted (map schedule_order chosen)"
    using sorted_sort_key by (rule sorted_wrt_subseq)
  moreover have "set chosen \<subseteq> set candidates"
    using list_emb_set [OF c(2)] by auto
  ultimately show ?thesis using c by blast
qed

theorem select_ready_tasks_correct_witness:
  "\<exists>chosen. map cand_task_id chosen = [1, 3] \<and> admissible_round sample_capacity sample_claims chosen
     \<and> (\<forall>c \<in> set sample_candidates - set chosen. left_out sample_capacity sample_claims chosen c)"
proof -
  obtain chosen where "select_ready_tasks sample_candidates sample_capacity sample_claims
      = Some (Inr (map cand_task_id chosen))" "admissible_round sample_capacity sample_claims chosen"
    "\<forall>c \<in> set sample_candidates - set chosen. left_out sample_capacity sample_claims chosen c"
    using select_ready_tasks_correct [OF sample_capacity_valid] by metis
  then show ?thesis using sample_round by (metis option.inject sum.inject(2))
qed

end
