(* ===== verification/Assessment.thy ===== *)
theory Assessment
  imports F64 Providers Repo_Path
begin

text \<open>
  \<open>crates/orchestrator-domain/src/assessment.rs\<close> and \<open>task.rs\<close>: the difficulty assessment of a task, the
  invariants between score, difficulty, quality floor and review requirement, and the task envelope
  that carries it. Scores are 8-bit words.
\<close>

section \<open>Data\<close>

datatype Difficulty = Trivial | Simple | Moderate | Difficulty_Complex | Critical

definition difficulty_from_score :: "u8 \<Rightarrow> Difficulty option" where
  "difficulty_from_score score =
     (if score \<le> 2 then Some Trivial
      else if score \<le> 4 then Some Simple
      else if score \<le> 6 then Some Moderate
      else if score \<le> 8 then Some Difficulty_Complex
      else if score \<le> 10 then Some Critical
      else None)"

record AssessmentScores =
  score_scope_axis :: u8
  score_ambiguity_axis :: u8
  score_technical_axis :: u8
  score_failure_axis :: u8
  score_verification_axis :: u8

datatype AssessmentError =
    ScoreOutOfRange string u8
  | TotalOutOfRange u8
  | DifficultyMismatch
  | InvalidRange
  | QualityFloorViolation
  | ReviewRequirementViolation

definition scores_validate :: "AssessmentScores \<Rightarrow> AssessmentError + unit" where
  "scores_validate s =
     try_each (\<lambda>(name, v). if v > 2 then Inl (ScoreOutOfRange name v) else Inr ())
       [(''scope'', score_scope_axis s), (''ambiguity'', score_ambiguity_axis s),
        (''technical_complexity'', score_technical_axis s), (''failure_impact'', score_failure_axis s),
        (''verification_complexity'', score_verification_axis s)]"

definition AssessmentScores_new ::
    "u8 \<Rightarrow> u8 \<Rightarrow> u8 \<Rightarrow> u8 \<Rightarrow> u8 \<Rightarrow> AssessmentError + AssessmentScores" where
  "AssessmentScores_new scope ambiguity technical failure verification =
     (let scores = \<lparr> score_scope_axis = scope, score_ambiguity_axis = ambiguity,
                     score_technical_axis = technical, score_failure_axis = failure,
                     score_verification_axis = verification \<rparr>
      in and_then (scores_validate scores) (\<lambda>_. Inr scores))"

definition scores_total :: "AssessmentScores \<Rightarrow> u8" where
  "scores_total s = score_scope_axis s + score_ambiguity_axis s + score_technical_axis s
     + score_failure_axis s + score_verification_axis s"

datatype RiskTag =
    Security | Authentication | Production | Infrastructure | DestructiveMigration | DataLoss
  | Billing | Privacy | Compliance | Concurrency | LargeRepository | ExternalIntegration

fun risk_rank :: "RiskTag \<Rightarrow> nat" where
  "risk_rank Security = 0" | "risk_rank Authentication = 1" | "risk_rank Production = 2"
| "risk_rank Infrastructure = 3" | "risk_rank DestructiveMigration = 4" | "risk_rank DataLoss = 5"
| "risk_rank Billing = 6" | "risk_rank Privacy = 7" | "risk_rank Compliance = 8"
| "risk_rank Concurrency = 9" | "risk_rank LargeRepository = 10" | "risk_rank ExternalIntegration = 11"

lemma risk_rank_inj: "risk_rank a = risk_rank b \<Longrightarrow> a = b"
  by (cases a; cases b) simp_all

instantiation RiskTag :: linorder
begin

definition less_eq_RiskTag :: "RiskTag \<Rightarrow> RiskTag \<Rightarrow> bool" where
  "less_eq_RiskTag a b \<longleftrightarrow> risk_rank a \<le> risk_rank b"

definition less_RiskTag :: "RiskTag \<Rightarrow> RiskTag \<Rightarrow> bool" where
  "less_RiskTag a b \<longleftrightarrow> risk_rank a < risk_rank b"

instance
  by standard (auto simp: less_eq_RiskTag_def less_RiskTag_def dest: risk_rank_inj)

end

definition forces_premium :: "RiskTag \<Rightarrow> bool" where
  "forces_premium r \<longleftrightarrow>
     r \<in> {Security, Authentication, Production, Infrastructure, DestructiveMigration, DataLoss,
          Billing, Privacy, Compliance}"

datatype QualityTier = Tier_Economy | Tier_Standard | Tier_Premium

fun tier_rank :: "QualityTier \<Rightarrow> nat" where
  "tier_rank Tier_Economy = 0" | "tier_rank Tier_Standard = 1" | "tier_rank Tier_Premium = 2"

lemma tier_rank_inj: "tier_rank a = tier_rank b \<Longrightarrow> a = b"
  by (cases a; cases b) simp_all

instantiation QualityTier :: linorder
begin

definition less_eq_QualityTier :: "QualityTier \<Rightarrow> QualityTier \<Rightarrow> bool" where
  "less_eq_QualityTier a b \<longleftrightarrow> tier_rank a \<le> tier_rank b"

definition less_QualityTier :: "QualityTier \<Rightarrow> QualityTier \<Rightarrow> bool" where
  "less_QualityTier a b \<longleftrightarrow> tier_rank a < tier_rank b"

instance
  by standard (auto simp: less_eq_QualityTier_def less_QualityTier_def dest: tier_rank_inj)

end

text \<open>\<open>UsageRange<T>\<close>; \<open>new\<close> is generic over \<open>PartialOrd\<close>, here with the \<open>>\<close> of the element type.\<close>

record 'a UsageRange =
  range_min :: 'a
  range_max :: 'a

definition UsageRange_new :: "('a \<Rightarrow> 'a \<Rightarrow> bool) \<Rightarrow> 'a \<Rightarrow> 'a \<Rightarrow> AssessmentError + 'a UsageRange" where
  "UsageRange_new gt lo hi = (if gt lo hi then Inl InvalidRange else Inr \<lparr> range_min = lo, range_max = hi \<rparr>)"

record TaskAssessment =
  total_score :: u8
  difficulty :: Difficulty
  risk_tags :: "RiskTag list"
  estimated_turns :: "u32 UsageRange"
  estimated_usage_units :: "f64 UsageRange"
  requires_independent_review :: bool
  minimum_quality_tier :: QualityTier
  rationale :: "string list"

section \<open>Construction and revalidation\<close>

definition usage_units_invalid :: "f64 UsageRange \<Rightarrow> bool" where
  "usage_units_invalid r \<longleftrightarrow>
     \<not> f64_is_finite (range_min r) \<or> \<not> f64_is_finite (range_max r)
   \<or> f64_lt (range_min r) f64_zero \<or> f64_lt (range_max r) (range_min r)"

definition quality_floor :: "Difficulty \<Rightarrow> RiskTag list \<Rightarrow> QualityTier" where
  "quality_floor d risks =
     (if d = Critical \<or> list_ex forces_premium risks then Tier_Premium
      else if d \<in> {Moderate, Difficulty_Complex} then Tier_Standard
      else Tier_Economy)"

definition TaskAssessment_from_scores ::
    "AssessmentScores \<Rightarrow> RiskTag list \<Rightarrow> u32 UsageRange \<Rightarrow> f64 UsageRange \<Rightarrow> string list
     \<Rightarrow> AssessmentError + TaskAssessment" where
  "TaskAssessment_from_scores scores risks turns usage reasons =
     and_then (scores_validate scores) (\<lambda>_.
       if usage_units_invalid usage then Inl InvalidRange
       else let risks = remdups_adj (sort risks); total = scores_total scores in
         and_then (ok_or (TotalOutOfRange total) (difficulty_from_score total)) (\<lambda>d.
           Inr \<lparr> total_score = total, difficulty = d, risk_tags = risks, estimated_turns = turns,
                 estimated_usage_units = usage, requires_independent_review = (total \<ge> 7),
                 minimum_quality_tier = quality_floor d risks, rationale = reasons \<rparr>))"

definition assessment_validate :: "TaskAssessment \<Rightarrow> AssessmentError + unit" where
  "assessment_validate a =
     and_then (ok_or (TotalOutOfRange (total_score a)) (difficulty_from_score (total_score a))) (\<lambda>expected.
       if expected \<noteq> difficulty a then Inl DifficultyMismatch
       else if range_min (estimated_turns a) > range_max (estimated_turns a)
            \<or> usage_units_invalid (estimated_usage_units a)
         then Inl InvalidRange
       else if minimum_quality_tier a < quality_floor (difficulty a) (risk_tags a)
         then Inl QualityFloorViolation
       else if total_score a \<ge> 7 \<and> \<not> requires_independent_review a then Inl ReviewRequirementViolation
       else Inr ())"

section \<open>The task envelope\<close>

record TaskEnvelope =
  env_schema_version :: SchemaVersion
  env_task_id :: TaskId
  env_objective :: string
  env_original_request_redacted :: string
  env_constraints :: "string list"
  env_acceptance_criteria :: "string list"
  env_allowed_write_paths :: "RepoPath list"
  env_repository_wide_write_scope :: bool
  env_assessment :: "TaskAssessment option"
  env_created_at :: DateTime

definition SUPPORTED_TASK_ENVELOPE_SCHEMA_VERSIONS :: "string list" where
  "SUPPORTED_TASK_ENVELOPE_SCHEMA_VERSIONS = [SchemaVersion_V1]"

definition envelope_has_supported_schema :: "TaskEnvelope \<Rightarrow> bool" where
  "envelope_has_supported_schema e =
     is_supported_by (env_schema_version e) SUPPORTED_TASK_ENVELOPE_SCHEMA_VERSIONS"

text \<open>\<open>fresh\<close> is the identifier that \<open>TaskId::new\<close> draws.\<close>

definition TaskEnvelope_new :: "TaskId \<Rightarrow> string \<Rightarrow> string \<Rightarrow> DateTime \<Rightarrow> TaskEnvelope" where
  "TaskEnvelope_new fresh objective original_request_redacted now =
     \<lparr> env_schema_version = schema_v1, env_task_id = fresh, env_objective = objective,
       env_original_request_redacted = original_request_redacted, env_constraints = [],
       env_acceptance_criteria = [], env_allowed_write_paths = [],
       env_repository_wide_write_scope = False, env_assessment = None, env_created_at = now \<rparr>"

section \<open>Lemmas\<close>

lemma scores_validate_ok:
  "scores_validate s = Inr () \<longleftrightarrow>
     score_scope_axis s \<le> 2 \<and> score_ambiguity_axis s \<le> 2 \<and> score_technical_axis s \<le> 2
   \<and> score_failure_axis s \<le> 2 \<and> score_verification_axis s \<le> 2"
  by (auto simp: scores_validate_def not_le)

text \<open>A validated score vector never overflows its 8-bit sum.\<close>

lemma unat_add_small:
  fixes a b :: u8
  assumes "unat a \<le> m" "unat b \<le> n" "m + n < 256"
  shows "unat (a + b) = unat a + unat b" "unat (a + b) \<le> m + n"
  using assms by (simp_all add: unat_word_ariths)

lemma scores_total_exact:
  assumes "scores_validate s = Inr ()"
  shows "unat (scores_total s) = unat (score_scope_axis s) + unat (score_ambiguity_axis s)
      + unat (score_technical_axis s) + unat (score_failure_axis s) + unat (score_verification_axis s)"
    and "unat (scores_total s) \<le> 10"
proof -
  have le: "unat (score_scope_axis s) \<le> 2" "unat (score_ambiguity_axis s) \<le> 2"
    "unat (score_technical_axis s) \<le> 2" "unat (score_failure_axis s) \<le> 2"
    "unat (score_verification_axis s) \<le> 2"
    using assms by (simp_all add: scores_validate_ok word_le_nat_alt)
  note s2 = unat_add_small [OF le(1,2)]
  note s3 = unat_add_small [OF s2(2) le(3)]
  note s4 = unat_add_small [OF s3(2) le(4)]
  note s5 = unat_add_small [OF s4(2) le(5)]
  show "unat (scores_total s) = unat (score_scope_axis s) + unat (score_ambiguity_axis s)
      + unat (score_technical_axis s) + unat (score_failure_axis s) + unat (score_verification_axis s)"
    unfolding scores_total_def using s2 s3 s4 s5 by simp
  show "unat (scores_total s) \<le> 10" unfolding scores_total_def using s5(2) by simp
qed

lemma difficulty_from_score_Some: "(\<exists>d. difficulty_from_score score = Some d) \<longleftrightarrow> score \<le> 10"
  by (auto simp: difficulty_from_score_def intro: order_trans)

lemma from_scores_ok:
  "TaskAssessment_from_scores scores risks turns usage reasons = Inr a \<longleftrightarrow>
     scores_validate scores = Inr () \<and> \<not> usage_units_invalid usage
   \<and> (\<exists>d. difficulty_from_score (scores_total scores) = Some d
        \<and> a = \<lparr> total_score = scores_total scores, difficulty = d, risk_tags = remdups_adj (sort risks),
                estimated_turns = turns, estimated_usage_units = usage,
                requires_independent_review = (scores_total scores \<ge> 7),
                minimum_quality_tier = quality_floor d (remdups_adj (sort risks)), rationale = reasons \<rparr>)"
  by (auto simp: TaskAssessment_from_scores_def Let_def and_then_eq_Inr)

lemma from_scores_validates:
  assumes "TaskAssessment_from_scores scores risks turns usage reasons = Inr a"
  shows "assessment_validate a = (if range_min turns \<le> range_max turns then Inr () else Inl InvalidRange)"
proof -
  obtain d where ok: "\<not> usage_units_invalid usage" "difficulty_from_score (scores_total scores) = Some d"
    "a = \<lparr> total_score = scores_total scores, difficulty = d, risk_tags = remdups_adj (sort risks),
           estimated_turns = turns, estimated_usage_units = usage,
           requires_independent_review = (scores_total scores \<ge> 7),
           minimum_quality_tier = quality_floor d (remdups_adj (sort risks)), rationale = reasons \<rparr>"
    using assms by (auto simp: from_scores_ok)
  then show ?thesis by (auto simp: assessment_validate_def ok_or_def)
qed

lemma quality_floor_premium:
  "quality_floor d risks = Tier_Premium \<longleftrightarrow> d = Critical \<or> (\<exists>r \<in> set risks. forces_premium r)"
  by (auto simp: quality_floor_def list_ex_iff)

section \<open>Properties\<close>

text \<open>an assessment built from scores whose turn estimate is ordered passes revalidation, its total
  is the exact sum of the five axes with no 8-bit overflow, review is required exactly from a total
  of seven on, and any risk tag that forces premium quality is honoured.\<close>

theorem from_scores_establishes_invariants:
  assumes "TaskAssessment_from_scores scores risks turns usage reasons = Inr a"
    and "range_min turns \<le> range_max turns"
  shows "assessment_validate a = Inr ()
       \<and> unat (total_score a) = unat (score_scope_axis scores) + unat (score_ambiguity_axis scores)
           + unat (score_technical_axis scores) + unat (score_failure_axis scores)
           + unat (score_verification_axis scores)
       \<and> unat (total_score a) \<le> 10
       \<and> (requires_independent_review a \<longleftrightarrow> 7 \<le> unat (total_score a))
       \<and> set (risk_tags a) = set risks
       \<and> ((\<exists>r \<in> set risks. forces_premium r) \<longrightarrow> minimum_quality_tier a = Tier_Premium)"
proof -
  have v: "scores_validate scores = Inr ()" and t: "total_score a = scores_total scores"
    and r: "requires_independent_review a \<longleftrightarrow> scores_total scores \<ge> 7"
    and q: "set (risk_tags a) = set risks"
      "minimum_quality_tier a = quality_floor (difficulty a) (risk_tags a)"
    using assms(1) by (auto simp: from_scores_ok)
  show ?thesis
    using from_scores_validates [OF assms(1)] assms(2) scores_total_exact [OF v] t r q
    by (auto simp: word_le_nat_alt quality_floor_premium)
qed

definition sample_scores :: AssessmentScores where
  "sample_scores = \<lparr> score_scope_axis = 2, score_ambiguity_axis = 1, score_technical_axis = 2,
     score_failure_axis = 2, score_verification_axis = 1 \<rparr>"

definition sample_assess :: "u32 \<Rightarrow> u32 \<Rightarrow> AssessmentError + TaskAssessment" where
  "sample_assess lo hi = TaskAssessment_from_scores sample_scores [Billing, Concurrency, Billing]
     \<lparr> range_min = lo, range_max = hi \<rparr> \<lparr> range_min = f64_zero, range_max = f64_one \<rparr> [''r'']"

definition sample_assessment :: "u32 \<Rightarrow> u32 \<Rightarrow> TaskAssessment" where
  "sample_assessment lo hi = \<lparr> total_score = 8, difficulty = Difficulty_Complex,
     risk_tags = [Billing, Concurrency], estimated_turns = \<lparr> range_min = lo, range_max = hi \<rparr>,
     estimated_usage_units = \<lparr> range_min = f64_zero, range_max = f64_one \<rparr>,
     requires_independent_review = True, minimum_quality_tier = Tier_Premium, rationale = [''r''] \<rparr>"

lemma sample_assess_ok: "sample_assess 8 16 = Inr (sample_assessment 8 16)"
  by code_simp

lemma sample_assess_inverted: "sample_assess 9 3 = Inr (sample_assessment 9 3)"
  by code_simp

theorem from_scores_establishes_invariants_witness:
  "assessment_validate (sample_assessment 8 16) = Inr ()"
  using from_scores_establishes_invariants [OF sample_assess_ok [unfolded sample_assess_def]] by simp

text \<open>the constructor does not check the order of the turn estimate: an assessment that it builds
  from an inverted estimate is exactly one that revalidation rejects as an invalid range.\<close>

theorem from_scores_inverted_turns_rejected_later:
  assumes "TaskAssessment_from_scores scores risks turns usage reasons = Inr a"
    and "range_max turns < range_min turns"
  shows "assessment_validate a = Inl InvalidRange"
  using from_scores_validates [OF assms(1)] assms(2) by simp

theorem from_scores_inverted_turns_rejected_later_witness:
  "sample_assess 9 3 = Inr (sample_assessment 9 3) \<and> assessment_validate (sample_assessment 9 3) = Inl InvalidRange"
  using from_scores_inverted_turns_rejected_later [OF sample_assess_inverted [unfolded sample_assess_def]]
    sample_assess_inverted by simp

end
