(* ===== verification/Task_Graph.thy ===== *)
theory Task_Graph
  imports Assessment Integrity
begin

text \<open>
  \<open>crates/orchestrator-domain/src/graph.rs\<close>: the task graph proposal, its validation against a policy, cycle
  detection, write-scope isolation, the topological summary and the seal. A slice or map index that
  is out of range panics in the source; the functions that index return an option whose \<open>None\<close> is that
  panic. The theories \<open>Graph_Search\<close> and \<open>Graph_Order\<close> prove that it never happens.
\<close>

section \<open>Data\<close>

record TaskGraphNode =
  node_key :: string
  node_title :: string
  node_objective :: string
  node_dependencies :: "string list"
  node_constraints :: "string list"
  node_acceptance_criteria :: "string list"
  node_provider :: "ProviderId option"
  node_profile :: ModelProfile
  node_write_scopes :: "RepoPath list"
  node_repository_wide_write_scope :: bool
  node_risks :: "RiskTag list"
  node_parallel_safety :: string

record TaskGraphProposal =
  graph_schema_version :: SchemaVersion
  graph_revision_id :: GraphRevisionId
  graph_session_id :: SessionId
  graph_goal_message_id :: MessageId
  graph_planner_provider :: ProviderId
  graph_proposed_at :: DateTime
  graph_nodes :: "TaskGraphNode list"

record GraphValidationPolicy =
  eligible_providers :: "ProviderId set"
  eligible_profiles :: "ModelProfile set"
  max_parallel_workers :: usize
  per_provider_limits :: "ProviderId \<rightharpoonup> usize"

record GraphValidationAuthority =
  auth_requirement_revision_id :: RequirementRevisionId
  auth_validation_hash :: string
  auth_base_commit :: string
  auth_git_root_redacted :: string
  auth_validation_checks :: "string list"

record GraphValidationSummary =
  node_count :: nat
  edge_count :: nat
  summary_topological_order :: "string list"
  maximum_parallel_width :: nat
  configured_parallel_workers :: usize
  summary_authority :: "GraphValidationAuthority option"

record GraphAuthorityPromotion =
  promo_schema_version :: SchemaVersion
  promo_graph_revision_id :: GraphRevisionId
  promo_proposal_hash :: string
  promo_prior_authority :: GraphValidationAuthority
  promo_git_root_redacted :: string
  promo_base_commit :: string
  promo_validation_policy :: GraphValidationPolicy

record ValidatedTaskGraph =
  validated_proposal :: TaskGraphProposal
  validated_topological_order :: "string list"
  validated_validation :: GraphValidationSummary
  validated_proposal_hash :: string

datatype GraphValidationError =
    UnsupportedSchema string
  | EmptyGraph
  | InvalidMaxParallelWorkers
  | InvalidProviderLimit ProviderId
  | BlankNodeKey nat
  | DuplicateNodeKey string
  | MissingWriteScope string
  | MixedWriteScope string
  | IneligibleProvider string ProviderId
  | IneligibleProfile string ModelProfile
  | SelfDependency string
  | MissingDependency string string
  | DuplicateDependency string string
  | Cycle "string list"
  | IndependentWriteScopeOverlap string string string string
  | Integrity string
  | InvalidAuthority

text \<open>The generated serializers of the two sealed documents of this module.\<close>

record graph_env = integrity_env +
  seal_to_value :: "TaskGraphProposal \<times> GraphValidationSummary \<Rightarrow> string + json"
  promotion_to_value :: "GraphAuthorityPromotion \<Rightarrow> string + json"

fun integrity_message :: "IntegrityError \<Rightarrow> string" where
  "integrity_message (Serialization e) = ''cannot serialize integrity-protected value: '' @ e"

definition TASK_GRAPH_SCHEMA_VERSION :: string where
  "TASK_GRAPH_SCHEMA_VERSION = SchemaVersion_V1"

definition SUPPORTED_TASK_GRAPH_SCHEMA_VERSIONS :: "string list" where
  "SUPPORTED_TASK_GRAPH_SCHEMA_VERSIONS = [TASK_GRAPH_SCHEMA_VERSION]"

section \<open>Policy, nodes and dependencies\<close>

definition validate_policy :: "GraphValidationPolicy \<Rightarrow> GraphValidationError + unit" where
  "validate_policy policy =
     (if max_parallel_workers policy = 0 then Inl InvalidMaxParallelWorkers
      else case find (\<lambda>p. per_provider_limits policy p = Some 0) all_providers of
             Some p \<Rightarrow> Inl (InvalidProviderLimit p)
           | None \<Rightarrow> Inr ())"

definition validate_node ::
    "TaskGraphProposal \<Rightarrow> GraphValidationPolicy \<Rightarrow> nat \<Rightarrow> (string \<rightharpoonup> nat) \<Rightarrow> TaskGraphNode
     \<Rightarrow> GraphValidationError + (string \<rightharpoonup> nat)" where
  "validate_node proposal policy index indexes node =
     (let key = node_key node;
          provider = (case node_provider node of Some p \<Rightarrow> p | None \<Rightarrow> graph_planner_provider proposal)
      in if is_blank key then Inl (BlankNodeKey index)
      else if indexes key \<noteq> None then Inl (DuplicateNodeKey key)
      else if node_write_scopes node = [] \<and> \<not> node_repository_wide_write_scope node
        then Inl (MissingWriteScope key)
      else if node_write_scopes node \<noteq> [] \<and> node_repository_wide_write_scope node
        then Inl (MixedWriteScope key)
      else if provider \<notin> eligible_providers policy then Inl (IneligibleProvider key provider)
      else if node_profile node \<notin> eligible_profiles policy
        then Inl (IneligibleProfile key (node_profile node))
      else Inr (indexes(key \<mapsto> index)))"

fun validate_nodes ::
    "TaskGraphProposal \<Rightarrow> GraphValidationPolicy \<Rightarrow> nat \<Rightarrow> (string \<rightharpoonup> nat) \<Rightarrow> TaskGraphNode list
     \<Rightarrow> GraphValidationError + (string \<rightharpoonup> nat)" where
  "validate_nodes proposal policy index indexes [] = Inr indexes"
| "validate_nodes proposal policy index indexes (node # nodes) =
     (case validate_node proposal policy index indexes node of
        Inl e \<Rightarrow> Inl e
      | Inr indexes' \<Rightarrow> validate_nodes proposal policy (Suc index) indexes' nodes)"

fun validate_dependencies_of ::
    "(string \<rightharpoonup> nat) \<Rightarrow> string \<Rightarrow> string set \<Rightarrow> string list \<Rightarrow> GraphValidationError + unit" where
  "validate_dependencies_of indexes key seen [] = Inr ()"
| "validate_dependencies_of indexes key seen (dependency # rest) =
     (if dependency = key then Inl (SelfDependency key)
      else if indexes dependency = None then Inl (MissingDependency key dependency)
      else if dependency \<in> seen then Inl (DuplicateDependency key dependency)
      else validate_dependencies_of indexes key (insert dependency seen) rest)"

definition validate_dependencies ::
    "(string \<rightharpoonup> nat) \<Rightarrow> TaskGraphNode list \<Rightarrow> GraphValidationError + unit" where
  "validate_dependencies indexes nodes =
     try_each (\<lambda>node. validate_dependencies_of indexes (node_key node) {} (node_dependencies node)) nodes"

section \<open>Cycle detection\<close>

text \<open>
  The depth-first search of \<open>find_cycle\<close> and \<open>visit_cycle\<close>. Marks: 0 unvisited, 1 on the stack, 2 done.
  \<open>visit_dependencies\<close> is the \<open>for\<close> loop of \<open>visit_cycle\<close>; its first result is \<open>None\<close> when the loop runs to
  its end and \<open>Some r\<close> when the source returns \<open>r\<close> from inside it. The outer option is \<open>None\<close> for a
  panicking index or exhausted fuel; fuel bounds the recursion depth, and the number of nodes is
  always enough.
\<close>

definition deps_at :: "TaskGraphProposal \<Rightarrow> nat \<Rightarrow> string list option" where
  "deps_at proposal i =
     (if i < length (graph_nodes proposal) then Some (node_dependencies (graph_nodes proposal ! i))
      else None)"

definition key_at :: "TaskGraphProposal \<Rightarrow> nat \<Rightarrow> string" where
  "key_at proposal i = node_key (graph_nodes proposal ! i)"

definition cycle_path :: "TaskGraphProposal \<Rightarrow> nat list \<Rightarrow> nat \<Rightarrow> nat \<Rightarrow> string list" where
  "cycle_path proposal stack cycle_start j =
     map (key_at proposal) (drop cycle_start stack) @ [key_at proposal j]"

type_synonym marks = "nat list"

function (sequential)
  visit_cycle ::
    "nat \<Rightarrow> TaskGraphProposal \<Rightarrow> (string \<rightharpoonup> nat) \<Rightarrow> nat \<Rightarrow> marks \<Rightarrow> nat list
     \<Rightarrow> (string list option \<times> marks \<times> nat list) option"
and
  visit_dependencies ::
    "nat \<Rightarrow> TaskGraphProposal \<Rightarrow> (string \<rightharpoonup> nat) \<Rightarrow> string list \<Rightarrow> marks \<Rightarrow> nat list
     \<Rightarrow> (string list option option \<times> marks \<times> nat list) option"
where
  "visit_cycle 0 proposal indexes index state stack = None"
| "visit_cycle (Suc fuel) proposal indexes index state stack =
     (case deps_at proposal index of
        None \<Rightarrow> None
      | Some dependencies \<Rightarrow>
          (case visit_dependencies fuel proposal indexes dependencies (state[index := 1]) (stack @ [index]) of
             None \<Rightarrow> None
           | Some (Some r, state', stack') \<Rightarrow> Some (r, state', stack')
           | Some (None, state', stack') \<Rightarrow> Some (None, state'[index := 2], butlast stack')))"
| "visit_dependencies fuel proposal indexes [] state stack = Some (None, state, stack)"
| "visit_dependencies fuel proposal indexes (dependency # rest) state stack =
     (case indexes dependency of
        None \<Rightarrow> None
      | Some j \<Rightarrow>
          if j \<ge> length state then None
          else if state ! j = 0 then
            (case visit_cycle fuel proposal indexes j state stack of
               None \<Rightarrow> None
             | Some (Some path, state', stack') \<Rightarrow> Some (Some (Some path), state', stack')
             | Some (None, state', stack') \<Rightarrow>
                 visit_dependencies fuel proposal indexes rest state' stack')
          else if state ! j = 1 then
            (case position (\<lambda>candidate. candidate = j) stack of
               None \<Rightarrow> Some (Some None, state, stack)
             | Some cycle_start \<Rightarrow>
                 Some (Some (Some (cycle_path proposal stack cycle_start j)), state, stack))
          else visit_dependencies fuel proposal indexes rest state stack)"
  by pat_completeness auto
termination
  by (relation "measures [\<lambda>x. case x of Inl (fuel, _) \<Rightarrow> 2 * fuel | Inr (fuel, _) \<Rightarrow> 2 * fuel + 1,
                          \<lambda>x. case x of Inl _ \<Rightarrow> 0 | Inr (_, _, _, ds, _) \<Rightarrow> length ds]")
    auto

fun find_cycle_from ::
    "TaskGraphProposal \<Rightarrow> (string \<rightharpoonup> nat) \<Rightarrow> nat list \<Rightarrow> marks \<Rightarrow> nat list
     \<Rightarrow> string list option option" where
  "find_cycle_from proposal indexes [] state stack = Some None"
| "find_cycle_from proposal indexes (index # rest) state stack =
     (if state ! index = 0 then
        (case visit_cycle (length (graph_nodes proposal)) proposal indexes index state stack of
           None \<Rightarrow> None
         | Some (Some path, _, _) \<Rightarrow> Some (Some path)
         | Some (None, state', stack') \<Rightarrow> find_cycle_from proposal indexes rest state' stack')
      else find_cycle_from proposal indexes rest state stack)"

definition find_cycle ::
    "TaskGraphProposal \<Rightarrow> (string \<rightharpoonup> nat) \<Rightarrow> string list option option" where
  "find_cycle proposal indexes =
     (let n = length (graph_nodes proposal) in
      find_cycle_from proposal indexes [0..<n] (replicate n 0) [])"

section \<open>Write-scope isolation\<close>

text \<open>The worklist search of \<open>transitively_depends\<close>. \<open>pending\<close> is the vector with its end first.\<close>

fun push_dependencies ::
    "(string \<rightharpoonup> nat) \<Rightarrow> nat \<Rightarrow> string list \<Rightarrow> nat list \<Rightarrow> nat list option option" where
  "push_dependencies indexes target [] pending = Some (Some pending)"
| "push_dependencies indexes target (d # ds) pending =
     (case indexes d of
        None \<Rightarrow> None
      | Some j \<Rightarrow> if j = target then Some None else push_dependencies indexes target ds (j # pending))"

function transitively_depends_from ::
    "TaskGraphProposal \<Rightarrow> (string \<rightharpoonup> nat) \<Rightarrow> nat \<Rightarrow> nat list \<Rightarrow> nat set \<Rightarrow> bool option" where
  "transitively_depends_from proposal indexes target pending visited =
     (case pending of
        [] \<Rightarrow> Some False
      | index # rest \<Rightarrow>
          if index \<in> visited then transitively_depends_from proposal indexes target rest visited
          else (case deps_at proposal index of
                  None \<Rightarrow> None
                | Some ds \<Rightarrow>
                    (case push_dependencies indexes target ds rest of
                       None \<Rightarrow> None
                     | Some None \<Rightarrow> Some True
                     | Some (Some pending') \<Rightarrow>
                         transitively_depends_from proposal indexes target pending' (insert index visited))))"
  by pat_completeness auto
termination
proof (relation "inv_image (less_than <*lex*> less_than)
    (\<lambda>(proposal, _, _, pending, visited).
       (card ({..<length (graph_nodes proposal)} - visited), length pending))", goal_cases)
  case 1
  show ?case by auto
next
  case (2 proposal indexes target pending visited index rest)
  then show ?case by auto
next
  case (3 proposal indexes target pending visited index rest ds p' p'')
  then have "index < length (graph_nodes proposal)" by (simp add: deps_at_def split: if_splits)
  with 3 have "{..<length (graph_nodes proposal)} - insert index visited
      \<subset> {..<length (graph_nodes proposal)} - visited" by auto
  then have "card ({..<length (graph_nodes proposal)} - insert index visited)
      < card ({..<length (graph_nodes proposal)} - visited)" by (intro psubset_card_mono) auto
  then show ?case by simp
qed

declare transitively_depends_from.simps [simp del]

definition transitively_depends ::
    "nat \<Rightarrow> nat \<Rightarrow> TaskGraphProposal \<Rightarrow> (string \<rightharpoonup> nat) \<Rightarrow> bool option" where
  "transitively_depends start target proposal indexes =
     transitively_depends_from proposal indexes target [start] {}"

definition scope_label :: "bool \<Rightarrow> string" where
  "scope_label repository_wide = (if repository_wide then ''<repository>'' else ''<path-scoped>'')"

definition overlapping_scope :: "TaskGraphNode \<Rightarrow> TaskGraphNode \<Rightarrow> (string \<times> string) option" where
  "overlapping_scope left right =
     (if node_repository_wide_write_scope left \<or> node_repository_wide_write_scope right
      then Some (scope_label (node_repository_wide_write_scope left),
                 scope_label (node_repository_wide_write_scope right))
      else map_option (\<lambda>(l, r). (RepoPath_to_string l, RepoPath_to_string r))
        (find (\<lambda>(l, r). repo_paths_overlap l r)
          (List.product (node_write_scopes left) (node_write_scopes right))))"

definition validate_pair ::
    "TaskGraphProposal \<Rightarrow> (string \<rightharpoonup> nat) \<Rightarrow> nat \<times> nat \<Rightarrow> (GraphValidationError + unit) option" where
  "validate_pair proposal indexes pair =
     (case pair of (l, r) \<Rightarrow>
        (case transitively_depends l r proposal indexes of
           None \<Rightarrow> None
         | Some True \<Rightarrow> Some (Inr ())
         | Some False \<Rightarrow>
             (case transitively_depends r l proposal indexes of
                None \<Rightarrow> None
              | Some True \<Rightarrow> Some (Inr ())
              | Some False \<Rightarrow>
                  (let left = graph_nodes proposal ! l; right = graph_nodes proposal ! r in
                   case overlapping_scope left right of
                     None \<Rightarrow> Some (Inr ())
                   | Some (ls, rs) \<Rightarrow>
                       Some (Inl (IndependentWriteScopeOverlap (node_key left) (node_key right) ls rs))))))"

fun validate_pairs ::
    "TaskGraphProposal \<Rightarrow> (string \<rightharpoonup> nat) \<Rightarrow> (nat \<times> nat) list \<Rightarrow> (GraphValidationError + unit) option" where
  "validate_pairs proposal indexes [] = Some (Inr ())"
| "validate_pairs proposal indexes (pair # pairs) =
     (case validate_pair proposal indexes pair of
        None \<Rightarrow> None
      | Some (Inl e) \<Rightarrow> Some (Inl e)
      | Some (Inr _) \<Rightarrow> validate_pairs proposal indexes pairs)"

text \<open>The pairs \<open>left < right\<close> in the order of the two nested loops.\<close>

definition index_pairs :: "nat \<Rightarrow> (nat \<times> nat) list" where
  "index_pairs n = concat (map (\<lambda>l. map (Pair l) [Suc l..<n]) [0..<n])"

definition validate_independent_scopes ::
    "TaskGraphProposal \<Rightarrow> (string \<rightharpoonup> nat) \<Rightarrow> (GraphValidationError + unit) option" where
  "validate_independent_scopes proposal indexes =
     validate_pairs proposal indexes (index_pairs (length (graph_nodes proposal)))"

section \<open>Topological summary\<close>

fun depends_directly :: "(string \<rightharpoonup> nat) \<Rightarrow> nat \<Rightarrow> string list \<Rightarrow> bool option" where
  "depends_directly indexes completed [] = Some False"
| "depends_directly indexes completed (d # ds) =
     (case indexes d of
        None \<Rightarrow> None
      | Some j \<Rightarrow> if j = completed then Some True else depends_directly indexes completed ds)"

text \<open>The loop over all candidates for one completed node; \<open>remaining[candidate] -= 1\<close> panics at zero.\<close>

fun release_candidates ::
    "(string \<rightharpoonup> nat) \<Rightarrow> nat \<Rightarrow> (nat \<times> TaskGraphNode) list \<Rightarrow> nat list \<Rightarrow> nat list
     \<Rightarrow> (nat list \<times> nat list) option" where
  "release_candidates indexes completed [] remaining ready = Some (remaining, ready)"
| "release_candidates indexes completed ((candidate, node) # rest) remaining ready =
     (case depends_directly indexes completed (node_dependencies node) of
        None \<Rightarrow> None
      | Some False \<Rightarrow> release_candidates indexes completed rest remaining ready
      | Some True \<Rightarrow>
          if remaining ! candidate = 0 then None
          else let remaining' = remaining[candidate := remaining ! candidate - 1] in
            release_candidates indexes completed rest remaining'
              (if remaining' ! candidate = 0 then ready @ [candidate] else ready))"

fun release_layer ::
    "TaskGraphProposal \<Rightarrow> (string \<rightharpoonup> nat) \<Rightarrow> nat list \<Rightarrow> nat list \<Rightarrow> nat list
     \<Rightarrow> (nat list \<times> nat list) option" where
  "release_layer proposal indexes [] remaining ready = Some (remaining, ready)"
| "release_layer proposal indexes (completed # current) remaining ready =
     (case release_candidates indexes completed
             (zip [0..<length (graph_nodes proposal)] (graph_nodes proposal)) remaining ready of
        None \<Rightarrow> None
      | Some (remaining', ready') \<Rightarrow> release_layer proposal indexes current remaining' ready')"

text \<open>The \<open>while !ready.is_empty()\<close> loop; each round completes at least one node, so the number of
  nodes plus one bounds the rounds.\<close>

fun topological_rounds ::
    "nat \<Rightarrow> TaskGraphProposal \<Rightarrow> (string \<rightharpoonup> nat) \<Rightarrow> nat list \<Rightarrow> nat list \<Rightarrow> string list \<Rightarrow> nat
     \<Rightarrow> (string list \<times> nat) option" where
  "topological_rounds 0 proposal indexes remaining ready order width = None"
| "topological_rounds (Suc fuel) proposal indexes remaining ready order width =
     (if ready = [] then Some (order, width)
      else case release_layer proposal indexes ready remaining [] of
             None \<Rightarrow> None
           | Some (remaining', ready') \<Rightarrow>
               topological_rounds fuel proposal indexes remaining' (remdups_adj (sort ready'))
                 (order @ map (key_at proposal) ready) (max width (length ready)))"

definition topological_summary ::
    "TaskGraphProposal \<Rightarrow> (string \<rightharpoonup> nat) \<Rightarrow> (string list \<times> nat) option" where
  "topological_summary proposal indexes =
     (let remaining = map (\<lambda>node. length (node_dependencies node)) (graph_nodes proposal);
          ready = filter (\<lambda>i. remaining ! i = 0) [0..<length remaining]
      in topological_rounds (Suc (length remaining)) proposal indexes remaining ready [] 0)"

section \<open>Sealing and the entry points\<close>

definition task_graph_proposal_hash ::
    "'x graph_env_scheme \<Rightarrow> TaskGraphProposal \<Rightarrow> GraphValidationSummary
     \<Rightarrow> GraphValidationError + string" where
  "task_graph_proposal_hash env proposal validation =
     map_err (\<lambda>e. Integrity (integrity_message e))
       (canonical_sha256 (integrity_env.truncate env) (seal_to_value env (proposal, validation)))"

definition validate_task_graph_with_optional_authority ::
    "'x graph_env_scheme \<Rightarrow> TaskGraphProposal \<Rightarrow> GraphValidationPolicy
     \<Rightarrow> GraphValidationAuthority option \<Rightarrow> (GraphValidationError + ValidatedTaskGraph) option" where
  "validate_task_graph_with_optional_authority env proposal policy authority =
     (case validate_policy policy of Inl e \<Rightarrow> Some (Inl e) | Inr _ \<Rightarrow>
      if \<not> is_supported_by (graph_schema_version proposal) SUPPORTED_TASK_GRAPH_SCHEMA_VERSIONS
        then Some (Inl (UnsupportedSchema (graph_schema_version proposal)))
      else if graph_nodes proposal = [] then Some (Inl EmptyGraph)
      else case validate_nodes proposal policy 0 Map.empty (graph_nodes proposal) of
        Inl e \<Rightarrow> Some (Inl e)
      | Inr indexes \<Rightarrow>
       (case validate_dependencies indexes (graph_nodes proposal) of
          Inl e \<Rightarrow> Some (Inl e)
        | Inr _ \<Rightarrow>
         (case find_cycle proposal indexes of
            None \<Rightarrow> None
          | Some (Some path) \<Rightarrow> Some (Inl (Cycle path))
          | Some None \<Rightarrow>
           (case validate_independent_scopes proposal indexes of
              None \<Rightarrow> None
            | Some (Inl e) \<Rightarrow> Some (Inl e)
            | Some (Inr _) \<Rightarrow>
             (case topological_summary proposal indexes of
                None \<Rightarrow> None
              | Some (order, width) \<Rightarrow>
                  (let validation =
                     \<lparr> node_count = length (graph_nodes proposal),
                       edge_count = sum_list (map (\<lambda>node. length (node_dependencies node)) (graph_nodes proposal)),
                       summary_topological_order = order, maximum_parallel_width = width,
                       configured_parallel_workers = max_parallel_workers policy,
                       summary_authority = authority \<rparr>
                   in Some (and_then (task_graph_proposal_hash env proposal validation)
                        (\<lambda>hash. Inr \<lparr> validated_proposal = proposal,
                           validated_topological_order = order, validated_validation = validation,
                           validated_proposal_hash = hash \<rparr>))))))))"

definition validate_task_graph ::
    "'x graph_env_scheme \<Rightarrow> TaskGraphProposal \<Rightarrow> GraphValidationPolicy
     \<Rightarrow> (GraphValidationError + ValidatedTaskGraph) option" where
  "validate_task_graph env proposal policy =
     validate_task_graph_with_optional_authority env proposal policy None"

definition authority_well_formed :: "GraphValidationAuthority \<Rightarrow> bool" where
  "authority_well_formed a \<longleftrightarrow>
     is_sha256 (auth_validation_hash a) \<and> is_git_object_id (auth_base_commit a)
   \<and> \<not> is_blank (auth_git_root_redacted a) \<and> auth_validation_checks a \<noteq> []
   \<and> all_non_blank (auth_validation_checks a)"

definition validate_task_graph_with_authority ::
    "'x graph_env_scheme \<Rightarrow> TaskGraphProposal \<Rightarrow> GraphValidationPolicy \<Rightarrow> GraphValidationAuthority
     \<Rightarrow> (GraphValidationError + ValidatedTaskGraph) option" where
  "validate_task_graph_with_authority env proposal policy authority =
     (if \<not> authority_well_formed authority then Some (Inl InvalidAuthority)
      else validate_task_graph_with_optional_authority env proposal policy (Some authority))"

definition VALIDATION_CHECKS :: "string list" where
  "VALIDATION_CHECKS =
     [''git_ready'', ''head_resolved'', ''current_policy_validated'', ''exact_graph_approval'']"

definition promoted_authority ::
    "'x graph_env_scheme \<Rightarrow> GraphAuthorityPromotion \<Rightarrow> GraphValidationError + GraphValidationAuthority" where
  "promoted_authority env promo =
     (if promo_schema_version promo \<noteq> schema_v1
         \<or> \<not> is_sha256 (promo_proposal_hash promo)
         \<or> \<not> is_sha256 (auth_validation_hash (promo_prior_authority promo))
         \<or> \<not> is_git_object_id (promo_base_commit promo)
         \<or> is_blank (promo_git_root_redacted promo)
      then Inl InvalidAuthority
      else and_then
        (map_err (\<lambda>e. Integrity (integrity_message e))
          (canonical_sha256 (integrity_env.truncate env) (promotion_to_value env promo)))
        (\<lambda>hash. Inr \<lparr> auth_requirement_revision_id =
                         auth_requirement_revision_id (promo_prior_authority promo),
                      auth_validation_hash = hash,
                      auth_base_commit = promo_base_commit promo,
                      auth_git_root_redacted = promo_git_root_redacted promo,
                      auth_validation_checks = VALIDATION_CHECKS \<rparr>))"

end
