(* ===== verification/State_Store.thy ===== *)
theory State_Store
  imports Scheduling Task_Graph
begin

text \<open>
  Vocabulary of the \<open>orchestrator-state\<close> crate: its error type and the rows of the SQLite tables that the
  scheduling operations read and write. A table is a list of rows; a row carries its workspace, and an
  unqualified table name in a query is the temporary view \<open>rows_of\<close> of the current workspace
  (\<open>database.rs\<close>, \<open>apply_workspace_scope\<close>).

  Columns hold decoded values: identifiers, times and the enumerations whose texts the schema's
  \<open>CHECK\<close> constraints list always decode; the text forms of times in the years 0 to 9999 order like
  the times. The task envelope and the graph proposal are JSON texts that may fail to decode, so their columns are sums.
\<close>

type_synonym WorkspaceId = uuid

datatype StateError =
    Sqlite string
  | Json string
  | InvalidConfig string
  | InvalidRecord string
  | OptimisticConflict string uuid
  | LeaseConflict uuid string
  | LeaseOwnership uuid
  | Io string
  | UnsafeArtifactPath
  | SymlinkEscape "Component list"
  | ArtifactConflict "Component list"
  | InvalidEventChain int string
  | TornEventLogTail
  | FutureSchema u32 u32

record task_row =
  t_workspace :: WorkspaceId
  t_task_id :: TaskId
  t_state :: TaskState
  t_paused :: bool
  t_envelope :: "string + TaskEnvelope"
  t_created_at :: DateTime
  t_archived_at :: "DateTime option"

record session_task_row =
  st_workspace :: WorkspaceId
  st_session_id :: SessionId
  st_revision_id :: GraphRevisionId
  st_task_id :: TaskId
  st_node_key :: string
  st_display_order :: int
  st_provider_id :: string
  st_provider_id_v2 :: "string option"
  st_model_profile :: ModelProfile

record graph_revision_row =
  gr_workspace :: WorkspaceId
  gr_revision_id :: GraphRevisionId
  gr_session_id :: SessionId
  gr_goal_message_id :: MessageId
  gr_ordinal :: int
  gr_status :: string
  gr_proposal_hash :: "string option"
  gr_proposal :: "(string + TaskGraphProposal) option"
  gr_validation :: json
  gr_planner_provider :: "string option"
  gr_planner_provider_v2 :: "string option"
  gr_created_at :: DateTime
  gr_completed_at :: "DateTime option"
  gr_requirement_revision_id :: "RequirementRevisionId option"
  gr_validation_hash :: "string option"
  gr_base_commit :: "string option"

record graph_head_row =
  gh_workspace :: WorkspaceId
  gh_session_id :: SessionId
  gh_revision_id :: GraphRevisionId
  gh_updated_at :: DateTime

record graph_approval_row =
  ga_workspace :: WorkspaceId
  ga_revision_id :: GraphRevisionId
  ga_proposal_hash :: string
  ga_approved_by :: string
  ga_approved_at :: DateTime
  ga_session_id :: "SessionId option"
  ga_requirement_revision_id :: "RequirementRevisionId option"
  ga_validation_hash :: "string option"
  ga_base_commit :: "string option"

record task_dependency_row =
  td_workspace :: WorkspaceId
  td_session_id :: SessionId
  td_revision_id :: GraphRevisionId
  td_task_id :: TaskId
  td_depends_on :: TaskId

record verification_row =
  vr_workspace :: WorkspaceId
  vr_verification_id :: VerificationId
  vr_task_id :: TaskId
  vr_completed_at :: DateTime
  vr_outcome :: string

text \<open>\<open>daemon_instances\<close> is not partitioned by workspace.\<close>

record daemon_row =
  di_instance_id :: DaemonInstanceId
  di_lease_expires_at :: DateTime
  di_stop_requested_at :: "DateTime option"
  di_released_at :: "DateTime option"

record schedule_claim_row =
  sc_workspace :: WorkspaceId
  sc_schedule_claim_id :: ScheduleClaimId
  sc_daemon_instance_id :: DaemonInstanceId
  sc_session_id :: SessionId
  sc_revision_id :: GraphRevisionId
  sc_task_id :: TaskId
  sc_provider_id :: string
  sc_acquired_at :: DateTime
  sc_expires_at :: DateTime
  sc_released_at :: "DateTime option"
  sc_release_reason :: "string option"

record resource_claim_row =
  rc_workspace :: WorkspaceId
  rc_resource_claim_id :: ResourceClaimId
  rc_schedule_claim_id :: ScheduleClaimId
  rc_session_id :: SessionId
  rc_revision_id :: GraphRevisionId
  rc_task_id :: TaskId
  rc_path :: "string option"
  rc_repository_wide :: bool
  rc_acquired_at :: DateTime
  rc_expires_at :: DateTime
  rc_released_at :: "DateTime option"
  rc_release_reason :: "string option"

record schedule_db =
  db_daemons :: "daemon_row list"
  db_tasks :: "task_row list"
  db_session_tasks :: "session_task_row list"
  db_graph_revisions :: "graph_revision_row list"
  db_graph_heads :: "graph_head_row list"
  db_graph_approvals :: "graph_approval_row list"
  db_task_dependencies :: "task_dependency_row list"
  db_verification_results :: "verification_row list"
  db_schedule_claims :: "schedule_claim_row list"
  db_resource_claims :: "resource_claim_row list"

definition rows_of :: "('r \<Rightarrow> WorkspaceId) \<Rightarrow> WorkspaceId \<Rightarrow> 'r list \<Rightarrow> 'r list" where
  "rows_of workspace ws = filter (\<lambda>r. workspace r = ws)"

text \<open>\<open>UPDATE ... SET f WHERE p\<close>, and the number of rows it changes.\<close>

definition update_rows :: "('r \<Rightarrow> bool) \<Rightarrow> ('r \<Rightarrow> 'r) \<Rightarrow> 'r list \<Rightarrow> 'r list" where
  "update_rows p f = map (\<lambda>r. if p r then f r else r)"

definition matching :: "('r \<Rightarrow> bool) \<Rightarrow> 'r list \<Rightarrow> nat" where
  "matching p rows = length (filter p rows)"

text \<open>An immediate transaction: a body that fails is rolled back.\<close>

definition transact :: "('d \<Rightarrow> StateError + 'a \<times> 'd) \<Rightarrow> 'd \<Rightarrow> (StateError + 'a) \<times> 'd" where
  "transact body db = (case body db of Inl e \<Rightarrow> (Inl e, db) | Inr (a, db') \<Rightarrow> (Inr a, db'))"

text \<open>SQLite's \<open>length(trim(x)) > 0\<close>: something other than spaces.\<close>

definition sql_non_blank :: "string \<Rightarrow> bool" where
  "sql_non_blank s \<longleftrightarrow> list_ex (\<lambda>c. c \<noteq> CHR '' '') s"

lemma set_rows_of [simp]: "set (rows_of workspace ws rows) = {r \<in> set rows. workspace r = ws}"
  by (auto simp: rows_of_def)

lemma set_update_rows:
  "set (update_rows p f rows) = {r \<in> set rows. \<not> p r} \<union> f ` {r \<in> set rows. p r}"
  by (auto simp: update_rows_def)

text \<open>An update whose result no longer satisfies \<open>q\<close> removes its rows from a query for \<open>q\<close>.\<close>

lemma update_rows_drops:
  assumes "\<And>r. p r \<Longrightarrow> \<not> q (f r)"
  shows "r \<in> set (update_rows p f rows) \<and> q r \<longleftrightarrow> r \<in> set rows \<and> \<not> p r \<and> q r"
  using assms by (auto simp: update_rows_def)

lemma map_update_rows:
  assumes "\<And>r. key (f r) = key r"
  shows "map key (update_rows p f rows) = map key rows"
  using assms by (simp add: update_rows_def)

lemma rows_of_update_other:
  assumes "\<And>r. p r \<Longrightarrow> workspace r \<noteq> ws" "\<And>r. workspace (f r) = workspace r"
  shows "rows_of workspace ws (update_rows p f rows) = rows_of workspace ws rows"
  using assms by (induction rows) (auto simp: rows_of_def update_rows_def)

lemma transact_cases:
  assumes "transact body db = (r, db')"
  obtains "db' = db" | a where "r = Inr a" "body db = Inr (a, db')"
  using assms unfolding transact_def by (auto split: sum.splits)

lemma map_update_rows_cond:
  "(\<And>r. r \<in> set rows \<Longrightarrow> p r \<Longrightarrow> k (f r) = k r) \<Longrightarrow> map k (update_rows p f rows) = map k rows"
  by (simp add: update_rows_def)

lemma list_all2_update_rows:
  "(\<And>r. r \<in> set rows \<Longrightarrow> p r \<Longrightarrow> R r (f r)) \<Longrightarrow> (\<And>r. R r r) \<Longrightarrow> list_all2 R rows (update_rows p f rows)"
  by (simp add: update_rows_def list_all2_conv_all_nth)

lemma matching_unique:
  assumes "distinct rows" "r0 \<in> set rows" "\<And>r. r \<in> set rows \<Longrightarrow> p r \<longleftrightarrow> r = r0"
  shows "matching p rows = 1"
proof -
  have "filter p rows = filter (\<lambda>r. r = r0) rows" using assms(3) by (intro filter_cong) simp_all
  moreover have "distinct (filter (\<lambda>r. r = r0) rows)" "set (filter (\<lambda>r. r = r0) rows) = {r0}" using assms(1,2) by auto
  ultimately show ?thesis unfolding matching_def using distinct_card by fastforce
qed

end
