(* ===== verification/Event_Log.thy ===== *)
theory Event_Log
  imports Documents State_Store
begin

text \<open>
  The audit trail: the workspace event outbox of \<open>database.rs\<close> (\<open>append_event\<close>, \<open>outbox_after\<close>,
  \<open>event_at\<close>, \<open>mark_exported\<close>) with the constraints of the tables \<open>task_events\<close> and \<open>event_log_state\<close>, and
  the reconciliation of the outbox with the JSONL file in \<open>event_log.rs\<close>. The text form of an event and
  its parser (\<open>serde_json\<close>) and SQLite's \<open>json_valid\<close> are parameters; file locking and device errors are
  not modelled. Sequences are \<open>i64\<close>: the addition that may overflow is written out.
\<close>

section \<open>Tables\<close>

record event_row =
  er_workspace :: WorkspaceId
  er_sequence :: int
  er_event_id :: EventId
  er_task_id :: "TaskId option"
  er_event_type :: EventType
  er_schema_version :: SchemaVersion
  er_occurred_at :: DateTime
  er_event_json :: string
  er_previous_hash :: "string option"
  er_event_hash :: string
  er_exported_at :: "DateTime option"
  er_session_id :: "SessionId option"

record export_row =
  xr_workspace :: WorkspaceId
  xr_last_exported_sequence :: int
  xr_last_exported_hash :: "string option"
  xr_updated_at :: DateTime

text \<open>The known identifiers stand for the tables that foreign keys refer to.\<close>

record event_db =
  db_events :: "event_row list"
  db_exports :: "export_row list"
  db_known_workspaces :: "WorkspaceId list"
  db_known_tasks :: "(WorkspaceId \<times> TaskId) list"
  db_known_sessions :: "(WorkspaceId \<times> SessionId) list"

record event_env = integrity_env +
  event_value :: "TaskEvent \<Rightarrow> string + json"
  event_text :: "TaskEvent \<Rightarrow> string + string"
  event_parse :: "string \<Rightarrow> string + TaskEvent"
  json_valid :: "string \<Rightarrow> bool"

definition workspace_events :: "WorkspaceId \<Rightarrow> event_db \<Rightarrow> event_row list" where
  "workspace_events ws db = sort_key er_sequence (rows_of er_workspace ws (db_events db))"

definition I64_MAX :: int where "I64_MAX = 2 ^ 63 - 1"

text \<open>\<open>value + 1\<close> on \<open>i64\<close> in a release build, and \<open>u64::try_from\<close>.\<close>

definition i64_succ :: "int \<Rightarrow> int" where
  "i64_succ v = (if v = I64_MAX then - (2 ^ 63) else v + 1)"

section \<open>Appending\<close>

definition event_constraints :: "event_env \<Rightarrow> event_row \<Rightarrow> event_db \<Rightarrow> bool" where
  "event_constraints env r db \<longleftrightarrow>
     er_sequence r > 0
     \<and> json_valid env (er_event_json r)
     \<and> length (er_event_hash r) = 64
     \<and> list_all (\<lambda>s. \<not> (er_workspace s = er_workspace r \<and> er_sequence s = er_sequence r)
                      \<and> \<not> (er_workspace s = er_workspace r \<and> er_event_id s = er_event_id r)) (db_events db)
     \<and> er_workspace r \<in> set (db_known_workspaces db)
     \<and> (case er_task_id r of None \<Rightarrow> True | Some t \<Rightarrow> (er_workspace r, t) \<in> set (db_known_tasks db))
     \<and> (case er_session_id r of None \<Rightarrow> True | Some s \<Rightarrow> (er_workspace r, s) \<in> set (db_known_sessions db))"

definition row_of_event :: "WorkspaceId \<Rightarrow> int \<Rightarrow> string \<Rightarrow> TaskEvent \<Rightarrow> event_row" where
  "row_of_event ws sequence json event =
     \<lparr> er_workspace = ws, er_sequence = sequence, er_event_id = ev_event_id event,
       er_task_id = ev_task_id event, er_event_type = ev_event_type event,
       er_schema_version = ev_schema_version event, er_occurred_at = ev_occurred_at event,
       er_event_json = json, er_previous_hash = ev_previous_hash event,
       er_event_hash = ev_event_hash event, er_exported_at = None,
       er_session_id = ev_session_id event \<rparr>"

definition append_workspace_event_in_transaction ::
    "event_env \<Rightarrow> WorkspaceId \<Rightarrow> TaskEvent \<Rightarrow> event_db \<Rightarrow> StateError + TaskEvent \<times> event_db" where
  "append_workspace_event_in_transaction env ws event db =
     (let rows = workspace_events ws db;
          previous = (if rows = [] then None else Some (er_sequence (last rows), er_event_hash (last rows)));
          sequence = (case previous of None \<Rightarrow> 1 | Some (v, _) \<Rightarrow> i64_succ v)
      in
      if sequence < 0 then Inl (InvalidEventChain sequence ''negative sequence generated by SQLite'')
      else
        and_then
          (map_err (\<lambda>_. InvalidEventChain sequence ''serialization'')
             (refresh_event_hash (integrity_env.truncate env) (event_value env)
                (event\<lparr>ev_sequence := word_of_int sequence, ev_previous_hash := map_option snd previous\<rparr>)))
          (\<lambda>sealed.
             and_then (map_err Json (event_text env sealed)) (\<lambda>json.
               let r = row_of_event ws sequence json sealed in
               if event_constraints env r db then Inr (sealed, db\<lparr>db_events := db_events db @ [r]\<rparr>)
               else Inl (Sqlite ''constraint''))))"

definition append_event ::
    "event_env \<Rightarrow> WorkspaceId \<Rightarrow> TaskEvent \<Rightarrow> event_db \<Rightarrow> (StateError + TaskEvent) \<times> event_db" where
  "append_event env ws event db =
     (case append_workspace_event_in_transaction env ws event db of
        Inl e \<Rightarrow> (Inl e, db)
      | Inr (sealed, db') \<Rightarrow> (Inr sealed, db'))"

section \<open>Reading and marking the outbox\<close>

record OutboxRecord =
  out_sequence :: int
  out_event :: TaskEvent

definition outbox_after ::
    "event_env \<Rightarrow> WorkspaceId \<Rightarrow> int \<Rightarrow> nat \<Rightarrow> event_db \<Rightarrow> StateError + OutboxRecord list" where
  "outbox_after env ws sequence limit db =
     try_map (\<lambda>r. and_then (map_err Sqlite (event_parse env (er_event_json r)))
                    (\<lambda>event. Inr \<lparr> out_sequence = er_sequence r, out_event = event \<rparr>))
       (take limit (filter (\<lambda>r. er_sequence r > sequence) (workspace_events ws db)))"

definition latest_outbox_sequence :: "WorkspaceId \<Rightarrow> event_db \<Rightarrow> int" where
  "latest_outbox_sequence ws db =
     (let rows = workspace_events ws db in if rows = [] then 0 else er_sequence (last rows))"

definition event_at ::
    "event_env \<Rightarrow> WorkspaceId \<Rightarrow> int \<Rightarrow> event_db \<Rightarrow> StateError + TaskEvent option" where
  "event_at env ws sequence db =
     (case find (\<lambda>r. er_sequence r = sequence) (rows_of er_workspace ws (db_events db)) of
        None \<Rightarrow> Inr None
      | Some r \<Rightarrow> and_then (map_err Json (event_parse env (er_event_json r))) (\<lambda>e. Inr (Some e)))"

text \<open>The upsert keeps a later position.\<close>

definition upsert_export :: "export_row \<Rightarrow> export_row list \<Rightarrow> export_row list" where
  "upsert_export x xs =
     (if list_ex (\<lambda>y. xr_workspace y = xr_workspace x) xs
      then update_rows (\<lambda>y. xr_workspace y = xr_workspace x
                             \<and> xr_last_exported_sequence y \<le> xr_last_exported_sequence x) (\<lambda>_. x) xs
      else xs @ [x])"

definition mark_exported ::
    "WorkspaceId \<Rightarrow> DateTime \<Rightarrow> int \<Rightarrow> string \<Rightarrow> event_db \<Rightarrow> (StateError + unit) \<times> event_db" where
  "mark_exported ws now sequence event_hash db =
     (case find (\<lambda>r. er_sequence r = sequence) (rows_of er_workspace ws (db_events db)) of
        None \<Rightarrow> (Inl (Sqlite ''no rows''), db)
      | Some r \<Rightarrow>
          (if er_event_hash r \<noteq> event_hash
           then (Inl (InvalidEventChain sequence ''export marker hash does not match database''), db)
           else
             (Inr (),
              db\<lparr>db_events :=
                   update_rows (\<lambda>r. er_workspace r = ws \<and> er_sequence r \<le> sequence)
                     (\<lambda>r. r\<lparr>er_exported_at := (case er_exported_at r of None \<Rightarrow> Some now | Some t \<Rightarrow> Some t)\<rparr>)
                     (db_events db),
                 db_exports :=
                   upsert_export
                     \<lparr> xr_workspace = ws, xr_last_exported_sequence = sequence,
                       xr_last_exported_hash = Some event_hash, xr_updated_at = now \<rparr> (db_exports db)\<rparr>)))"

section \<open>Reconciliation with the log file\<close>

record ReconciliationReport =
  rr_verified_events :: u64
  rr_appended_events :: u64
  rr_last_sequence :: int
  rr_last_hash :: "string option"

definition default_report :: ReconciliationReport where
  "default_report =
     \<lparr> rr_verified_events = 0, rr_appended_events = 0, rr_last_sequence = 0, rr_last_hash = None \<rparr>"

text \<open>The non-empty lines of the file.\<close>

fun split_lines :: "string \<Rightarrow> string list" where
  "split_lines [] = [[]]"
| "split_lines (c # s) =
     (if c = CHR ''\<newline>'' then [] # split_lines s
      else (case split_lines s of [] \<Rightarrow> [[c]] | l # ls \<Rightarrow> (c # l) # ls))"

definition log_lines :: "string \<Rightarrow> string list" where
  "log_lines bytes = filter (\<lambda>line. line \<noteq> []) (split_lines bytes)"

text \<open>Equality of events: payloads are compared as \<open>serde_json::Value\<close>s.\<close>

definition event_same :: "TaskEvent \<Rightarrow> TaskEvent \<Rightarrow> bool" where
  "event_same a b \<longleftrightarrow> a\<lparr>ev_payload := JNull\<rparr> = b\<lparr>ev_payload := JNull\<rparr> \<and> json_same (ev_payload a) (ev_payload b)"

lemma event_same_refl [simp]: "event_same e e"
  by (simp add: event_same_def)

text \<open>One line of the verification loop. The previous hash it compares with is \<open>report.last_hash\<close>: both
  start as \<open>None\<close> and are set together.\<close>

definition verify_line ::
    "event_env \<Rightarrow> WorkspaceId \<Rightarrow> event_db \<Rightarrow> ReconciliationReport \<Rightarrow> string
     \<Rightarrow> StateError + ReconciliationReport" where
  "verify_line env ws db report line =
     and_then (map_err Json (event_parse env line)) (\<lambda>event.
       let sequence = uint (ev_sequence event) in
       if sequence > I64_MAX
       then Inl (InvalidEventChain I64_MAX ''event sequence exceeds SQLite range'')
       else if sequence \<noteq> i64_succ (rr_last_sequence report)
       then Inl (InvalidEventChain sequence ''JSONL sequence is not contiguous'')
       else if ev_previous_hash event \<noteq> rr_last_hash report
       then Inl (InvalidEventChain sequence ''JSONL previous_hash does not match predecessor'')
       else
         and_then (map_err (\<lambda>_. InvalidEventChain sequence ''serialization'')
                     (verify_hash (integrity_env.truncate env) (event_value env) event)) (\<lambda>verified.
           if \<not> verified then Inl (InvalidEventChain sequence ''JSONL event hash verification failed'')
           else
             and_then (event_at env ws sequence db) (\<lambda>found.
               case found of
                 None \<Rightarrow> Inl (InvalidEventChain sequence ''JSONL contains an event not present in SQLite'')
               | Some stored \<Rightarrow>
                   if \<not> event_same stored event
                   then Inl (InvalidEventChain sequence ''JSONL event differs from SQLite outbox'')
                   else Inr (report\<lparr>rr_verified_events := rr_verified_events report + 1,
                                    rr_last_sequence := sequence,
                                    rr_last_hash := Some (ev_event_hash event)\<rparr>))))"

fun verify_lines ::
    "event_env \<Rightarrow> WorkspaceId \<Rightarrow> event_db \<Rightarrow> ReconciliationReport \<Rightarrow> string list
     \<Rightarrow> StateError + ReconciliationReport" where
  "verify_lines env ws db report [] = Inr report"
| "verify_lines env ws db report (line # rest) =
     and_then (verify_line env ws db report line) (\<lambda>report'. verify_lines env ws db report' rest)"

text \<open>The inner loop of the export: the file grows line by line, also when a later record is refused.\<close>

fun export_batch ::
    "event_env \<Rightarrow> ReconciliationReport \<Rightarrow> string \<Rightarrow> OutboxRecord list
     \<Rightarrow> (StateError + ReconciliationReport) \<times> string" where
  "export_batch env report bytes [] = (Inr report, bytes)"
| "export_batch env report bytes (rec # pending) =
     (if out_sequence rec \<noteq> i64_succ (rr_last_sequence report)
         \<or> ev_previous_hash (out_event rec) \<noteq> rr_last_hash report
      then (Inl (InvalidEventChain (out_sequence rec) ''SQLite outbox chain is not contiguous''), bytes)
      else
        case verify_hash (integrity_env.truncate env) (event_value env) (out_event rec) of
          Inl _ \<Rightarrow> (Inl (InvalidEventChain (out_sequence rec) ''serialization''), bytes)
        | Inr False \<Rightarrow>
            (Inl (InvalidEventChain (out_sequence rec) ''SQLite event hash verification failed''), bytes)
        | Inr True \<Rightarrow>
            (case event_text env (out_event rec) of
               Inl e \<Rightarrow> (Inl (Json e), bytes)
             | Inr line \<Rightarrow>
                 export_batch env
                   (report\<lparr>rr_last_sequence := out_sequence rec,
                           rr_last_hash := Some (ev_event_hash (out_event rec)),
                           rr_appended_events := rr_appended_events report + 1\<rparr>)
                   (bytes @ line @ [CHR ''\<newline>'']) pending))"

definition mark_report ::
    "WorkspaceId \<Rightarrow> DateTime \<Rightarrow> ReconciliationReport \<Rightarrow> event_db \<Rightarrow> (StateError + unit) \<times> event_db" where
  "mark_report ws now report db =
     (case rr_last_hash report of
        None \<Rightarrow> (Inr (), db)
      | Some hash \<Rightarrow> mark_exported ws now (rr_last_sequence report) hash db)"

text \<open>Rows of the workspace after a position; marking does not change them.\<close>

definition pending_count :: "WorkspaceId \<Rightarrow> int \<Rightarrow> event_db \<Rightarrow> nat" where
  "pending_count ws sequence db = matching (\<lambda>r. er_workspace r = ws \<and> er_sequence r > sequence) (db_events db)"

lemma mark_exported_keys:
  assumes "mark_exported ws now sequence hash db = (r, db')"
  shows "map (\<lambda>r. r\<lparr>er_exported_at := None\<rparr>) (db_events db') = map (\<lambda>r. r\<lparr>er_exported_at := None\<rparr>) (db_events db)"
  using assms by (auto simp: mark_exported_def update_rows_def split: option.splits if_splits)

lemma mark_report_keys:
  assumes "mark_report ws now report db = (r, db')"
  shows "map (\<lambda>r. r\<lparr>er_exported_at := None\<rparr>) (db_events db') = map (\<lambda>r. r\<lparr>er_exported_at := None\<rparr>) (db_events db)"
  using assms mark_exported_keys by (auto simp: mark_report_def split: option.splits)

text \<open>A query that does not read \<open>exported_at\<close> has the same result after marking.\<close>

lemma same_keys_matching:
  assumes "map (\<lambda>r. r\<lparr>er_exported_at := None\<rparr>) rows' = map (\<lambda>r. r\<lparr>er_exported_at := None\<rparr>) rows"
    and "\<And>r. p (r\<lparr>er_exported_at := None\<rparr>) = p r"
  shows "matching p rows' = matching p rows"
proof -
  have "length (filter p rows) = length (filter p (map (\<lambda>r. r\<lparr>er_exported_at := None\<rparr>) rows))" for rows
    by (induction rows) (simp_all add: assms(2))
  then show ?thesis using assms(1) unfolding matching_def by metis
qed

lemma pending_count_mark:
  "mark_report ws now report db = (r, db') \<Longrightarrow> pending_count ws sequence db' = pending_count ws sequence db"
  unfolding pending_count_def by (rule same_keys_matching [OF mark_report_keys]) simp_all

lemma try_map_set: "try_map f xs = Inr ys \<Longrightarrow> y \<in> set ys \<Longrightarrow> \<exists>x \<in> set xs. f x = Inr y"
  using list_all2_iff [of _ xs ys] try_map_ok [of f xs ys] by (fastforce simp: in_set_conv_nth set_zip)

lemma set_workspace_events: "set (workspace_events ws db) = {r \<in> set (db_events db). er_workspace r = ws}"
  by (simp add: workspace_events_def)

lemma outbox_after_rows:
  assumes "outbox_after env ws sequence limit db = Inr ps" and "p \<in> set ps"
  shows "\<exists>r \<in> set (db_events db). er_workspace r = ws \<and> er_sequence r = out_sequence p \<and> out_sequence p > sequence"
proof -
  obtain r where "r \<in> set (take limit (filter (\<lambda>r. er_sequence r > sequence) (workspace_events ws db)))"
    "er_sequence r = out_sequence p"
    using try_map_set [OF assms(1) [unfolded outbox_after_def] assms(2)] by (auto simp: and_then_eq_Inr)
  then show ?thesis using set_take_subset by (fastforce simp: set_workspace_events)
qed

definition advance :: "OutboxRecord \<Rightarrow> ReconciliationReport \<Rightarrow> ReconciliationReport" where
  "advance rec report =
     report\<lparr>rr_last_sequence := out_sequence rec, rr_last_hash := Some (ev_event_hash (out_event rec)),
            rr_appended_events := rr_appended_events report + 1\<rparr>"

lemma export_batch_Cons:
  "export_batch env report bytes (rec # pending) = (Inr report', bytes') \<longleftrightarrow>
     out_sequence rec = i64_succ (rr_last_sequence report)
     \<and> ev_previous_hash (out_event rec) = rr_last_hash report
     \<and> verify_hash (integrity_env.truncate env) (event_value env) (out_event rec) = Inr True
     \<and> (\<exists>line. event_text env (out_event rec) = Inr line
          \<and> export_batch env (advance rec report) (bytes @ line @ [CHR ''\<newline>'']) pending = (Inr report', bytes'))"
  by (auto simp: advance_def split: if_splits sum.splits bool.splits)

declare export_batch.simps(2) [simp del]

lemma advance_simps [simp]:
  "rr_last_sequence (advance rec report) = out_sequence rec"
  "rr_last_hash (advance rec report) = Some (ev_event_hash (out_event rec))"
  "rr_appended_events (advance rec report) = rr_appended_events report + 1"
  "rr_verified_events (advance rec report) = rr_verified_events report"
  by (simp_all add: advance_def)

lemma export_batch_last:
  "export_batch env report bytes ps = (Inr report', bytes') \<Longrightarrow>
     rr_last_sequence report' = (if ps = [] then rr_last_sequence report else out_sequence (last ps))"
proof (induction ps arbitrary: report bytes)
  case (Cons p ps)
  then obtain line where
    "export_batch env (advance p report) (bytes @ line @ [CHR ''\<newline>'']) ps = (Inr report', bytes')"
    by (auto simp: export_batch_Cons)
  from Cons(1) [OF this] show ?case by simp
qed simp

lemma length_filter_strict:
  assumes "\<And>x. P x \<Longrightarrow> Q x" and "x \<in> set xs" and "Q x" and "\<not> P x"
  shows "length (filter P xs) < length (filter Q xs)"
proof -
  have "filter P xs = filter P (filter Q xs)" using assms(1) by (auto intro: filter_cong)
  then show ?thesis using length_filter_less [of x "filter Q xs" P] assms(2-4) by simp
qed

lemma pending_count_less:
  assumes "r \<in> set (db_events db)" and "er_workspace r = ws" and "er_sequence r > a" and "er_sequence r = b"
  shows "pending_count ws b db < pending_count ws a db"
  unfolding pending_count_def matching_def
  using assms by (intro length_filter_strict [of _ _ r]) auto

function export_loop ::
    "event_env \<Rightarrow> WorkspaceId \<Rightarrow> DateTime \<Rightarrow> ReconciliationReport \<Rightarrow> event_db \<Rightarrow> string
     \<Rightarrow> (StateError + ReconciliationReport) \<times> event_db \<times> string" where
  "export_loop env ws now report db bytes =
     (case outbox_after env ws (rr_last_sequence report) 256 db of
        Inl e \<Rightarrow> (Inl e, db, bytes)
      | Inr pending \<Rightarrow>
          if pending = [] then (Inr report, db, bytes)
          else
            (case export_batch env report bytes pending of
               (Inl e, bytes') \<Rightarrow> (Inl e, db, bytes')
             | (Inr report', bytes') \<Rightarrow>
                 (case mark_report ws now report' db of
                    (Inl e, db') \<Rightarrow> (Inl e, db', bytes')
                  | (Inr _, db') \<Rightarrow> export_loop env ws now report' db' bytes')))"
  by pat_completeness auto
termination
proof (relation "measure (\<lambda>(env, ws, now, report, db, bytes). pending_count ws (rr_last_sequence report) db)")
  fix env ws now report db bytes pending x bytes' report' y db' u
  assume out: "outbox_after env ws (rr_last_sequence report) 256 db = Inr pending" and ne: "pending \<noteq> []"
    and batch: "(x, bytes') = export_batch env report bytes pending" "x = Inr report'"
    and mark: "(y, db') = mark_report ws now report' db" "y = Inr u"
  have "rr_last_sequence report' = out_sequence (last pending)"
    using export_batch_last [of env report bytes pending report' bytes'] ne batch by simp
  moreover obtain r where "r \<in> set (db_events db)" "er_workspace r = ws"
    "er_sequence r = out_sequence (last pending)" "out_sequence (last pending) > rr_last_sequence report"
    using outbox_after_rows [OF out] ne last_in_set by blast
  ultimately have "pending_count ws (rr_last_sequence report') db < pending_count ws (rr_last_sequence report) db"
    using pending_count_less by simp
  then show "((env, ws, now, report', db', bytes'), env, ws, now, report, db, bytes)
      \<in> measure (\<lambda>(env, ws, now, report, db, bytes). pending_count ws (rr_last_sequence report) db)"
    using pending_count_mark [OF mark(1) [symmetric]] by simp
qed simp

declare export_loop.simps [simp del]

definition reconcile_locked ::
    "event_env \<Rightarrow> WorkspaceId \<Rightarrow> DateTime \<Rightarrow> event_db \<Rightarrow> string
     \<Rightarrow> (StateError + ReconciliationReport) \<times> event_db \<times> string" where
  "reconcile_locked env ws now db bytes =
     (if bytes \<noteq> [] \<and> last bytes \<noteq> CHR ''\<newline>'' then (Inl TornEventLogTail, db, bytes)
      else
        case verify_lines env ws db default_report (log_lines bytes) of
          Inl e \<Rightarrow> (Inl e, db, bytes)
        | Inr report \<Rightarrow>
            (case mark_report ws now report db of
               (Inl e, db') \<Rightarrow> (Inl e, db', bytes)
             | (Inr _, db') \<Rightarrow> export_loop env ws now report db' bytes))"

end
