(* ===== verification/Audit_Chain.thy ===== *)
theory Audit_Chain
  imports Event_Log
begin

text \<open>
  Correctness of the audit trail: the events of a workspace form a hash chain that appending extends and
  marking keeps; reconciliation verifies the log against that chain, exports what is missing and accepts
  nothing else. That parsing the text of an event gives the event is never assumed of the parser: completeness states it of the events that
  were stored, and soundness follows from the hashes alone.
\<close>

section \<open>The chain\<close>

definition hash_at :: "TaskEvent list \<Rightarrow> nat \<Rightarrow> string option" where
  "hash_at es k = (if k = 0 then None else Some (ev_event_hash (es ! (k - 1))))"

definition chained :: "event_env \<Rightarrow> TaskEvent list \<Rightarrow> bool" where
  "chained env es \<longleftrightarrow>
     (\<forall>i < length es. uint (ev_sequence (es ! i)) = int i + 1 \<and> int i + 1 \<le> I64_MAX
        \<and> ev_previous_hash (es ! i) = hash_at es i
        \<and> verify_hash (integrity_env.truncate env) (event_value env) (es ! i) = Inr True)"

text \<open>The rows of a workspace, in the order they were inserted, hold the events.\<close>

definition row_holds :: "event_env \<Rightarrow> event_row \<Rightarrow> TaskEvent \<Rightarrow> bool" where
  "row_holds env r e \<longleftrightarrow>
     event_text env e = Inr (er_event_json r) \<and> er_sequence r = uint (ev_sequence e)
     \<and> er_event_hash r = ev_event_hash e"

definition audit_ok :: "event_env \<Rightarrow> WorkspaceId \<Rightarrow> event_db \<Rightarrow> TaskEvent list \<Rightarrow> bool" where
  "audit_ok env ws db es \<longleftrightarrow>
     list_all2 (row_holds env) (rows_of er_workspace ws (db_events db)) es \<and> chained env es"

text \<open>What the log relies on of \<open>serde_json\<close>: the compact text of an event is one non-empty line; and the JSON value of an event is an
  object with its previous hash as a member, as \<open>derive(Serialize)\<close> builds it.\<close>

definition single_line :: "event_env \<Rightarrow> bool" where
  "single_line env \<longleftrightarrow> (\<forall>e t. event_text env e = Inr t \<longrightarrow> t \<noteq> [] \<and> CHR ''\<newline>'' \<notin> set t)"

definition previous_hash_value :: "TaskEvent \<Rightarrow> json" where
  "previous_hash_value e = (case ev_previous_hash e of None \<Rightarrow> JNull | Some h \<Rightarrow> JString h)"

definition event_object :: "event_env \<Rightarrow> bool" where
  "event_object env \<longleftrightarrow>
     (\<forall>e j. event_value env e = Inr j \<longrightarrow>
        wf_json j \<and> (\<exists>members. j = JObject members \<and> (''previous_hash'', previous_hash_value e) \<in> set members))"

lemma chainedD:
  assumes "chained env es" and "i < length es"
  shows "uint (ev_sequence (es ! i)) = int i + 1" and "int i + 1 \<le> I64_MAX"
    and "ev_previous_hash (es ! i) = hash_at es i"
    and "verify_hash (integrity_env.truncate env) (event_value env) (es ! i) = Inr True"
  using assms by (simp_all add: chained_def)

lemma audit_okD:
  assumes "audit_ok env ws db es"
  shows "chained env es" and "length (rows_of er_workspace ws (db_events db)) = length es"
    and "\<And>i. i < length es \<Longrightarrow> row_holds env (rows_of er_workspace ws (db_events db) ! i) (es ! i)"
    and "\<And>i. i < length es \<Longrightarrow> er_sequence (rows_of er_workspace ws (db_events db) ! i) = int i + 1"
  using assms chainedD(1) by (auto simp: audit_ok_def list_all2_conv_all_nth row_holds_def)

lemma workspace_events_sorted:
  assumes "audit_ok env ws db es"
  shows "workspace_events ws db = rows_of er_workspace ws (db_events db)"
proof -
  let ?rows = "rows_of er_workspace ws (db_events db)"
  have "sorted (map er_sequence ?rows)"
    using audit_okD(2,4) [OF assms] by (simp add: sorted_iff_nth_mono)
  then show ?thesis unfolding workspace_events_def by (rule sort_key_id_if_sorted)
qed

lemma chained_snoc:
  assumes "chained env es" and "uint (ev_sequence e) = int (length es) + 1"
    and "int (length es) + 1 \<le> I64_MAX" and "ev_previous_hash e = hash_at es (length es)"
    and "verify_hash (integrity_env.truncate env) (event_value env) e = Inr True"
  shows "chained env (es @ [e])"
  unfolding chained_def
proof (intro allI impI)
  fix i assume "i < length (es @ [e])"
  then consider "i < length es" | "i = length es" by fastforce
  then show "uint (ev_sequence ((es @ [e]) ! i)) = int i + 1 \<and> int i + 1 \<le> I64_MAX
      \<and> ev_previous_hash ((es @ [e]) ! i) = hash_at (es @ [e]) i
      \<and> verify_hash (integrity_env.truncate env) (event_value env) ((es @ [e]) ! i) = Inr True"
  proof cases
    case 1
    then show ?thesis using chainedD [OF assms(1) 1] by (auto simp: hash_at_def nth_append)
  next
    case 2
    then show ?thesis using assms(2-5) by (auto simp: hash_at_def nth_append)
  qed
qed

section \<open>Appending extends the chain\<close>

text \<open>The digest is never the empty text.\<close>

definition digest_nonempty :: "integrity_env \<Rightarrow> bool" where
  "digest_nonempty env \<longleftrightarrow> (\<forall>t. sha256_hex env t \<noteq> [])"

lemma refresh_event_hash_ok:
  assumes "digest_nonempty env" and "refresh_event_hash env to_value e = Inr e'"
  shows "verify_hash env to_value e' = Inr True" and "ev_sequence e' = ev_sequence e"
    and "ev_previous_hash e' = ev_previous_hash e"
proof -
  have seal: "seal_with (\<lambda>e. canonical_sha256 env (to_value e)) (\<lambda>h e. e\<lparr>ev_event_hash := h\<rparr>) e = Inr e'"
    using assms(2) by (simp add: refresh_event_hash_def)
  then have "ev_event_hash e' \<noteq> []"
    using assms(1) by (auto simp: event_doc.seal_iff canonical_sha256_Inr digest_nonempty_def)
  then show "verify_hash env to_value e' = Inr True"
    unfolding verify_hash_def by (rule event_doc.seal_verifies [OF seal])
  show "ev_sequence e' = ev_sequence e" "ev_previous_hash e' = ev_previous_hash e"
    using seal by (auto simp: event_doc.seal_iff)
qed

lemma append_Inr:
  assumes "append_workspace_event_in_transaction env ws event db = Inr (sealed, db')"
  obtains previous sequence json where
    "previous = (if workspace_events ws db = [] then None
       else Some (er_sequence (last (workspace_events ws db)), er_event_hash (last (workspace_events ws db))))"
    "sequence = (case previous of None \<Rightarrow> 1 | Some (v, _) \<Rightarrow> i64_succ v)" "0 \<le> sequence"
    "refresh_event_hash (integrity_env.truncate env) (event_value env)
       (event\<lparr>ev_sequence := word_of_int sequence, ev_previous_hash := map_option snd previous\<rparr>) = Inr sealed"
    "event_text env sealed = Inr json"
    "db' = db\<lparr>db_events := db_events db @ [row_of_event ws sequence json sealed]\<rparr>"
  using assms unfolding append_workspace_event_in_transaction_def Let_def
  by (auto simp: and_then_eq_Inr split: if_splits)

lemma row_of_event_simps [simp]:
  "er_workspace (row_of_event ws sequence json e) = ws" "er_sequence (row_of_event ws sequence json e) = sequence"
  "er_event_json (row_of_event ws sequence json e) = json"
  "er_event_hash (row_of_event ws sequence json e) = ev_event_hash e"
  by (simp_all add: row_of_event_def)

lemma uint_sequence: "0 \<le> sequence \<Longrightarrow> sequence \<le> I64_MAX \<Longrightarrow> uint (word_of_int sequence :: u64) = sequence"
  unfolding I64_MAX_def by (simp add: uint_word_of_int)

lemma append_extends_chain:
  assumes "digest_nonempty (integrity_env.truncate env)" and "audit_ok env ws db es"
    and "append_workspace_event_in_transaction env ws event db = Inr (sealed, db')"
  shows "audit_ok env ws db' (es @ [sealed])"
proof -
  let ?rows = "rows_of er_workspace ws (db_events db)"
  obtain previous sequence json where
    prev: "previous = (if workspace_events ws db = [] then None
       else Some (er_sequence (last (workspace_events ws db)), er_event_hash (last (workspace_events ws db))))"
    and seq: "sequence = (case previous of None \<Rightarrow> 1 | Some (v, _) \<Rightarrow> i64_succ v)" "0 \<le> sequence"
    and seal: "refresh_event_hash (integrity_env.truncate env) (event_value env)
       (event\<lparr>ev_sequence := word_of_int sequence, ev_previous_hash := map_option snd previous\<rparr>) = Inr sealed"
    and json: "event_text env sealed = Inr json"
    and db': "db' = db\<lparr>db_events := db_events db @ [row_of_event ws sequence json sealed]\<rparr>"
    using assms(3) by (rule append_Inr)
  note ok = audit_okD [OF assms(2)] and events = workspace_events_sorted [OF assms(2)]
  note sealed = refresh_event_hash_ok [OF assms(1) seal]
  have rows: "er_sequence (last ?rows) = int (length es)" "er_event_hash (last ?rows) = ev_event_hash (last es)"
    "?rows \<noteq> []" "int (length es) \<le> I64_MAX" if "es \<noteq> []"
  proof -
    have n: "length es - 1 < length es" using that by simp
    have "?rows \<noteq> []" using ok(2) that by (metis length_0_conv)
    moreover have "last ?rows = ?rows ! (length es - 1)" using calculation ok(2) by (simp add: last_conv_nth)
    moreover have "last es = es ! (length es - 1)" using that by (simp add: last_conv_nth)
    ultimately show "er_sequence (last ?rows) = int (length es)"
      "er_event_hash (last ?rows) = ev_event_hash (last es)" "?rows \<noteq> []" "int (length es) \<le> I64_MAX"
      using ok(3) [OF n] ok(4) [OF n] chainedD(2) [OF ok(1) n] n by (auto simp: row_holds_def)
  qed
  have empty: "?rows = [] \<longleftrightarrow> es = []" using ok(2) by auto
  have sequence: "sequence = int (length es) + 1" "int (length es) + 1 \<le> I64_MAX"
    using seq prev rows empty unfolding events by (auto simp: i64_succ_def I64_MAX_def split: if_splits)
  have hash: "map_option snd previous = hash_at es (length es)"
    using prev rows empty unfolding events by (auto simp: hash_at_def last_conv_nth)
  have uint: "uint (word_of_int sequence :: u64) = int (length es) + 1"
    using uint_sequence [of sequence] sequence by simp
  have "chained env (es @ [sealed])"
    using sealed uint hash sequence ok(1) by (intro chained_snoc) simp_all
  moreover have "row_holds env (row_of_event ws sequence json sealed) sealed"
    using sealed(2) uint sequence json by (simp add: row_holds_def)
  ultimately show ?thesis
    using assms(2) by (auto simp: audit_ok_def db' rows_of_def intro!: list_all2_appendI)
qed

lemma append_other_workspace:
  assumes "append_workspace_event_in_transaction env ws event db = Inr (sealed, db')" and "ws' \<noteq> ws"
  shows "audit_ok env ws' db' es = audit_ok env ws' db es"
  using assms by (auto elim!: append_Inr simp: audit_ok_def rows_of_def)

lemma append_event_keeps:
  assumes "digest_nonempty (integrity_env.truncate env)" and "audit_ok env ws db es"
  shows "\<exists>es'. audit_ok env ws (snd (append_event env ws' event db)) (es @ es')"
proof (cases "append_workspace_event_in_transaction env ws' event db")
  case (Inl e)
  then show ?thesis using assms(2) by (intro exI [of _ "[]"]) (simp add: append_event_def)
next
  case (Inr x)
  obtain sealed db' where x: "x = (sealed, db')" by (cases x)
  show ?thesis
  proof (cases "ws' = ws")
    case True
    then show ?thesis
      using append_extends_chain [OF assms] Inr x by (intro exI [of _ "[sealed]"]) (simp add: append_event_def)
  next
    case False
    then show ?thesis
      using append_other_workspace [of env ws' event db sealed db' ws es] Inr x assms(2)
      by (intro exI [of _ "[]"]) (simp add: append_event_def)
  qed
qed

section \<open>Verifying the log\<close>

definition text_of :: "event_env \<Rightarrow> TaskEvent \<Rightarrow> string" where
  "text_of env e = (case event_text env e of Inl _ \<Rightarrow> [] | Inr t \<Rightarrow> t)"

text \<open>Parsing the text of an event need not give the event: numbers with a fraction are parsed with some rounding.\<close>

definition reads_back :: "event_env \<Rightarrow> TaskEvent list \<Rightarrow> bool" where
  "reads_back env es \<longleftrightarrow> (\<forall>e \<in> set es. event_parse env (text_of env e) = Inr e)"

lemma reads_back_nth: "reads_back env es \<Longrightarrow> i < length es \<Longrightarrow> event_parse env (text_of env (es ! i)) = Inr (es ! i)"
  by (simp add: reads_back_def)

definition log_text :: "event_env \<Rightarrow> TaskEvent list \<Rightarrow> string" where
  "log_text env es = concat (map (\<lambda>e. text_of env e @ [CHR ''\<newline>'']) es)"

definition report_at :: "u64 \<Rightarrow> u64 \<Rightarrow> nat \<Rightarrow> TaskEvent list \<Rightarrow> ReconciliationReport" where
  "report_at v a k es =
     \<lparr> rr_verified_events = v, rr_appended_events = a, rr_last_sequence = int k, rr_last_hash = hash_at es k \<rparr>"

lemma report_at_simps [simp]:
  "rr_verified_events (report_at v a k es) = v" "rr_appended_events (report_at v a k es) = a"
  "rr_last_sequence (report_at v a k es) = int k" "rr_last_hash (report_at v a k es) = hash_at es k"
  by (simp_all add: report_at_def)

lemma default_report_at: "default_report = report_at 0 0 0 es"
  by (simp add: default_report_def report_at_def hash_at_def)

lemma audit_text:
  assumes "audit_ok env ws db es" and "i < length es"
  shows "event_text env (es ! i) = Inr (text_of env (es ! i))"
    and "er_event_json (rows_of er_workspace ws (db_events db) ! i) = text_of env (es ! i)"
  using audit_okD(3) [OF assms] by (auto simp: row_holds_def text_of_def)

lemma split_lines_line: "CHR ''\<newline>'' \<notin> set t \<Longrightarrow> split_lines (t @ CHR ''\<newline>'' # s) = t # split_lines s"
  by (induction t) auto

lemma log_lines_log_text:
  assumes "single_line env" and "\<And>e. e \<in> set es \<Longrightarrow> event_text env e = Inr (text_of env e)"
  shows "log_lines (log_text env es) = map (text_of env) es"
  using assms(2)
proof (induction es)
  case (Cons e es)
  have "text_of env e \<noteq> [] \<and> CHR ''\<newline>'' \<notin> set (text_of env e)"
    using assms(1) Cons(2) [of e] unfolding single_line_def by auto
  then show ?case
    using Cons by (simp add: log_lines_def log_text_def split_lines_line)
qed (simp add: log_lines_def log_text_def)

lemma find_sequence:
  assumes "audit_ok env ws db es" and "i < length es"
  shows "find (\<lambda>r. er_sequence r = int i + 1) (rows_of er_workspace ws (db_events db))
         = Some (rows_of er_workspace ws (db_events db) ! i)"
  using audit_okD(2,4) [OF assms(1)] assms(2) by (auto simp: find_Some_iff intro!: exI [of _ i])

lemma event_at_chain:
  assumes "reads_back env es" and "audit_ok env ws db es" and "i < length es"
  shows "event_at env ws (int i + 1) db = Inr (Some (es ! i))"
  using find_sequence [OF assms(2,3)] audit_text [OF assms(2,3)] reads_back_nth [OF assms(1,3)]
  by (simp add: event_at_def map_err_def)

lemma i64_succ_chain: "chained env es \<Longrightarrow> i < length es \<Longrightarrow> i64_succ (int i) = int i + 1"
  using chainedD(2) [of env es i] by (auto simp: i64_succ_def)

lemma verify_line_next:
  assumes "reads_back env es" and "audit_ok env ws db es" and "k < length es"
  shows "verify_line env ws db (report_at v a k es) (text_of env (es ! k)) = Inr (report_at (v + 1) a (Suc k) es)"
proof -
  note ok = audit_okD(1) [OF assms(2)]
  have parse: "event_parse env (text_of env (es ! k)) = Inr (es ! k)"
    using reads_back_nth [OF assms(1,3)] .
  show ?thesis
    using chainedD [OF ok assms(3)] event_at_chain [OF assms] parse i64_succ_chain [OF ok assms(3)]
    by (simp add: verify_line_def map_err_def Let_def report_at_def hash_at_def)
qed

lemma verify_lines_prefix:
  assumes "reads_back env es" and "audit_ok env ws db es" and "k + m \<le> length es"
  shows "verify_lines env ws db (report_at v a k es) (map (text_of env) (take m (drop k es)))
         = Inr (report_at (v + of_nat m) a (k + m) es)"
  using assms(3)
proof (induction m arbitrary: k v)
  case (Suc m)
  have "take (Suc m) (drop k es) = es ! k # take m (drop (Suc k) es)"
    using Suc(2) by (simp add: Cons_nth_drop_Suc [symmetric])
  then show ?case
    using Suc verify_line_next [OF assms(1,2), of k v a] by (simp add: add.assoc)
qed simp

section \<open>Exporting the rest\<close>

definition record_of :: "TaskEvent \<Rightarrow> OutboxRecord" where
  "record_of e = \<lparr> out_sequence = uint (ev_sequence e), out_event = e \<rparr>"

lemma record_of_simps [simp]: "out_sequence (record_of e) = uint (ev_sequence e)" "out_event (record_of e) = e"
  by (simp_all add: record_of_def)

lemma filter_drop:
  assumes "\<And>i. i < length xs \<Longrightarrow> P (xs ! i) \<longleftrightarrow> k \<le> i"
  shows "filter P xs = drop k xs"
proof -
  have "filter P (take k xs) = []" using assms by (auto simp: filter_empty_conv in_set_conv_nth)
  moreover have "filter P (drop k xs) = drop k xs" using assms by (auto simp: filter_id_conv in_set_conv_nth)
  ultimately show ?thesis by (metis append_Nil append_take_drop_id filter_append)
qed

lemma try_map_list_all2: "list_all2 (\<lambda>x y. f x = Inr (g y)) xs ys \<Longrightarrow> try_map f xs = Inr (map g ys)"
  by (induction rule: list_all2_induct) simp_all

lemma outbox_after_chain:
  assumes "reads_back env es" and "audit_ok env ws db es"
  shows "outbox_after env ws (int k) limit db = Inr (map record_of (take limit (drop k es)))"
proof -
  let ?rows = "rows_of er_workspace ws (db_events db)"
  have rows: "filter (\<lambda>r. er_sequence r > int k) (workspace_events ws db) = drop k ?rows"
    unfolding workspace_events_sorted [OF assms(2)] using audit_okD(2,4) [OF assms(2)] by (intro filter_drop) auto
  have parse: "event_parse env (er_event_json r) = Inr e" if "row_holds env r e \<and> e \<in> set es" for r e
    using that assms(1) by (auto simp: row_holds_def reads_back_def text_of_def)
  have "list_all2 (\<lambda>r e. row_holds env r e \<and> e \<in> set es) ?rows es"
    using assms(2) by (auto simp: audit_ok_def list_all2_conv_all_nth)
  then have "list_all2 (\<lambda>r e. row_holds env r e \<and> e \<in> set es) (take limit (drop k ?rows)) (take limit (drop k es))"
    by (simp add: list_all2_takeI list_all2_dropI)
  then have "list_all2 (\<lambda>r e. and_then (map_err Sqlite (event_parse env (er_event_json r)))
      (\<lambda>event. Inr \<lparr> out_sequence = er_sequence r, out_event = event \<rparr>) = Inr (record_of e))
      (take limit (drop k ?rows)) (take limit (drop k es))"
    by (rule list_all2_mono) (simp add: parse map_err_def record_of_def, simp add: row_holds_def)
  then show ?thesis unfolding outbox_after_def rows by (rule try_map_list_all2)
qed

lemma export_batch_chain:
  assumes "audit_ok env ws db es" and "k + m \<le> length es"
  shows "export_batch env (report_at v a k es) bytes (map record_of (take m (drop k es)))
         = (Inr (report_at v (a + of_nat m) (k + m) es), bytes @ log_text env (take m (drop k es)))"
  using assms(2)
proof (induction m arbitrary: k a bytes)
  case 0
  then show ?case by (simp add: log_text_def)
next
  case (Suc m)
  have k: "k < length es" using Suc(2) by simp
  note ok = audit_okD(1) [OF assms(1)]
  have cons: "take (Suc m) (drop k es) = es ! k # take m (drop (Suc k) es)"
    using k by (simp add: Cons_nth_drop_Suc [symmetric])
  have adv: "advance (record_of (es ! k)) (report_at v a k es) = report_at v (a + 1) (Suc k) es"
    using chainedD(1) [OF ok k] by (simp add: advance_def record_of_def report_at_def hash_at_def)
  show ?case
    unfolding cons list.map export_batch_Cons
    using Suc(1) [of "Suc k" "a + 1"] Suc(2) chainedD [OF ok k] i64_succ_chain [OF ok k] audit_text(1) [OF assms(1) k]
    by (simp add: adv add.assoc log_text_def)
qed

text \<open>Marking keeps the chain of every workspace.\<close>

lemma row_holds_clear: "row_holds env (r\<lparr>er_exported_at := t\<rparr>) e = row_holds env r e"
  by (simp add: row_holds_def)

lemma audit_ok_mark:
  assumes "mark_report ws now report db = (r, db')"
  shows "audit_ok env ws' db' es = audit_ok env ws' db es"
proof -
  let ?clear = "\<lambda>r. r\<lparr>er_exported_at := None\<rparr>"
  have clear: "list_all2 (row_holds env) (rows_of er_workspace ws' rows) es
      \<longleftrightarrow> list_all2 (row_holds env) (rows_of er_workspace ws' (map ?clear rows)) es" for rows
  proof -
    have "rows_of er_workspace ws' (map ?clear rows) = map ?clear (rows_of er_workspace ws' rows)"
      by (induction rows) (simp_all add: rows_of_def)
    then show ?thesis by (simp add: list_all2_map1 row_holds_clear)
  qed
  show ?thesis
    unfolding audit_ok_def clear [of "db_events db'"] clear [of "db_events db"] mark_report_keys [OF assms] ..
qed

lemma mark_report_chain:
  assumes "audit_ok env ws db es" and "k \<le> length es"
  shows "\<exists>db'. mark_report ws now (report_at v a k es) db = (Inr (), db')"
proof (cases k)
  case (Suc i)
  then have "i < length es" using assms(2) by simp
  then show ?thesis
    using find_sequence [OF assms(1), of i] audit_okD(3) [OF assms(1), of i] Suc
    by (simp add: mark_report_def mark_exported_def hash_at_def row_holds_def add.commute)
qed (simp add: mark_report_def hash_at_def)

lemma log_text_append: "log_text env (xs @ ys) = log_text env xs @ log_text env ys"
  by (simp add: log_text_def)

lemma export_loop_chain:
  assumes "reads_back env es" and "audit_ok env ws db es" and "k \<le> length es"
  shows "\<exists>db'. export_loop env ws now (report_at v a k es) db bytes
           = (Inr (report_at v (a + of_nat (length es - k)) (length es) es), db', bytes @ log_text env (drop k es))
         \<and> (\<forall>ws' es'. audit_ok env ws' db' es' = audit_ok env ws' db es')"
  using assms(2,3)
proof (induction "length es - k" arbitrary: k a db bytes rule: less_induct)
  case less
  define m where "m = min 256 (length es - k)"
  have out: "outbox_after env ws (int k) 256 db = Inr (map record_of (take m (drop k es)))"
    using outbox_after_chain [OF assms(1) less(2), of k 256] by (simp add: min_def m_def)
  show ?case
  proof (cases "k = length es")
    case True
    then show ?thesis using out by (simp add: export_loop.simps [of env ws now] log_text_def)
  next
    case False
    then have m: "0 < m" "k + m \<le> length es" using less(3) by (auto simp: m_def)
    have smaller: "length es - (k + m) < length es - k" using m by linarith
    obtain db1 where mark: "mark_report ws now (report_at v (a + of_nat m) (k + m) es) db = (Inr (), db1)"
      using mark_report_chain [OF less(2) m(2)] by blast
    have keep: "\<And>ws' es'. audit_ok env ws' db1 es' = audit_ok env ws' db es'" by (rule audit_ok_mark [OF mark])
    obtain db' where loop: "export_loop env ws now (report_at v (a + of_nat m) (k + m) es) db1
        (bytes @ log_text env (take m (drop k es)))
        = (Inr (report_at v (a + of_nat m + of_nat (length es - (k + m))) (length es) es), db',
           (bytes @ log_text env (take m (drop k es))) @ log_text env (drop (k + m) es))"
      and "\<forall>ws' es'. audit_ok env ws' db' es' = audit_ok env ws' db1 es'"
      using less(1) [of "k + m" db1 "a + of_nat m" "bytes @ log_text env (take m (drop k es))"] smaller m(2) less(2) keep
      by blast
    moreover have "log_text env (take m (drop k es)) @ log_text env (drop (k + m) es) = log_text env (drop k es)"
      using append_take_drop_id [of m "drop k es"] by (simp add: log_text_append [symmetric] add.commute)
    moreover have "(of_nat m :: u64) + of_nat (length es - (k + m)) = of_nat (length es - k)"
      using m(2) by (simp add: of_nat_diff)
    moreover have "map record_of (take m (drop k es)) \<noteq> []" using m by simp
    ultimately show ?thesis
      using keep out export_batch_chain [OF less(2) m(2), of v a bytes] mark
      by (simp add: export_loop.simps [of env ws now "report_at v a k es"] add.assoc del: map_is_Nil_conv)
  qed
qed

lemma reconcile_prefix:
  assumes "reads_back env es" and "audit_ok env ws db es" and "k \<le> length es" and "single_line env"
  shows "\<exists>db'. reconcile_locked env ws now db (log_text env (take k es))
           = (Inr (report_at (of_nat k) (of_nat (length es - k)) (length es) es), db', log_text env es)
         \<and> (\<forall>ws' es'. audit_ok env ws' db' es' = audit_ok env ws' db es')"
proof -
  let ?bytes = "log_text env (take k es)"
  have lines: "log_lines ?bytes = map (text_of env) (take k (drop 0 es))"
  proof -
    have "event_text env e = Inr (text_of env e)" if "e \<in> set (take k es)" for e
      using that audit_text(1) [OF assms(2)] by (metis in_set_conv_nth in_set_takeD)
    then show ?thesis using log_lines_log_text [OF assms(4), of "take k es"] by simp
  qed
  have tail: "?bytes = [] \<or> last ?bytes = CHR ''\<newline>''"
    by (cases "take k es" rule: rev_cases) (auto simp: log_text_def)
  have verified: "verify_lines env ws db default_report (log_lines ?bytes) = Inr (report_at (of_nat k) 0 k es)"
    unfolding lines default_report_at [of es]
    using verify_lines_prefix [OF assms(1,2), of 0 k] assms(3) by simp
  obtain db1 where mark: "mark_report ws now (report_at (of_nat k) 0 k es) db = (Inr (), db1)"
    using mark_report_chain [OF assms(2,3)] by blast
  obtain db' where "export_loop env ws now (report_at (of_nat k) 0 k es) db1 ?bytes
      = (Inr (report_at (of_nat k) (0 + of_nat (length es - k)) (length es) es), db', ?bytes @ log_text env (drop k es))"
    "\<forall>ws' es'. audit_ok env ws' db' es' = audit_ok env ws' db1 es'"
    using export_loop_chain [OF assms(1) _ assms(3)] audit_ok_mark [OF mark] assms(2) by blast
  then show ?thesis
    using tail verified mark audit_ok_mark [OF mark]
    by (simp add: reconcile_locked_def log_text_append [symmetric])
qed

section \<open>Keeping the chain\<close>

text \<open>Reconciliation changes export marks only, whether or not it succeeds.\<close>

lemma export_loop_keeps: "export_loop env ws now report db bytes = (result, db', bytes') \<Longrightarrow> audit_ok env ws' db' es = audit_ok env ws' db es"
proof (induction env ws now report db bytes rule: export_loop.induct)
  case (1 env ws now report db bytes)
  show ?case
  proof (cases "\<exists>pending report' bytes1 db1. outbox_after env ws (rr_last_sequence report) 256 db = Inr pending \<and> pending \<noteq> []
      \<and> export_batch env report bytes pending = (Inr report', bytes1) \<and> mark_report ws now report' db = (Inr (), db1)")
    case True
    then obtain pending report' bytes1 db1 where p: "outbox_after env ws (rr_last_sequence report) 256 db = Inr pending" "pending \<noteq> []"
      "export_batch env report bytes pending = (Inr report', bytes1)" "mark_report ws now report' db = (Inr (), db1)" by blast
    then have "export_loop env ws now report' db1 bytes1 = (result, db', bytes')"
      using "1.prems" by (simp add: export_loop.simps [of env ws now report])
    then show ?thesis using "1.IH" [OF p(1,2) p(3) [symmetric] refl p(4) [symmetric] refl] audit_ok_mark [OF p(4)] by simp
  next
    case False
    then show ?thesis using "1.prems" audit_ok_mark
      by (fastforce simp: export_loop.simps [of env ws now report] split: sum.splits if_split_asm prod.splits)
  qed
qed

lemma reconcile_keeps:
  assumes "reconcile_locked env ws now db bytes = (result, db', bytes')"
  shows "audit_ok env ws' db' es = audit_ok env ws' db es"
  using assms audit_ok_mark export_loop_keeps unfolding reconcile_locked_def
  by (fastforce split: sum.splits if_split_asm prod.splits)

section \<open>What a successful reconciliation has seen\<close>

text \<open>Events that follow each other from a given hash on, each with its own hash verified.\<close>

fun linked :: "event_env \<Rightarrow> string option \<Rightarrow> TaskEvent list \<Rightarrow> bool" where
  "linked env h [] = True"
| "linked env h (e # es) =
     (ev_previous_hash e = h \<and> verify_hash (integrity_env.truncate env) (event_value env) e = Inr True \<and> linked env (Some (ev_event_hash e)) es)"

definition end_hash :: "string option \<Rightarrow> TaskEvent list \<Rightarrow> string option" where
  "end_hash h es = (if es = [] then h else Some (ev_event_hash (last es)))"

lemma end_hash_simps [simp]:
  "end_hash h [] = h" "end_hash h (e # es) = end_hash (Some (ev_event_hash e)) es" "end_hash h (es @ [e]) = Some (ev_event_hash e)"
  by (simp_all add: end_hash_def)

lemma end_hash_append: "end_hash h (xs @ ys) = end_hash (end_hash h xs) ys"
  by (simp add: end_hash_def)

lemma linked_append: "linked env h (xs @ ys) \<longleftrightarrow> linked env h xs \<and> linked env (end_hash h xs) ys"
  by (induction xs arbitrary: h) auto

lemma chained_linked:
  assumes "chained env es"
  shows "linked env None es" "hash_at es (length es) = end_hash None es"
proof -
  have "linked env None (take k es) \<and> end_hash None (take k es) = hash_at es k" if "k \<le> length es" for k
    using that
  proof (induction k)
    case (Suc k)
    then have k: "k < length es" by simp
    show ?case using Suc.IH k chainedD(3,4) [OF assms k]
      by (simp add: take_Suc_conv_app_nth linked_append) (simp add: hash_at_def)
  qed (simp add: hash_at_def)
  from this [of "length es"] show "linked env None es" "hash_at es (length es) = end_hash None es" by simp_all
qed

lemma verify_line_sound:
  assumes "audit_ok env ws db es" "rr_last_sequence report = int k" "k \<le> length es" "verify_line env ws db report line = Inr report'"
  obtains e where "k < length es" "event_parse env line = Inr e" "linked env (rr_last_hash report) [e]"
    "report' = report\<lparr>rr_verified_events := rr_verified_events report + 1, rr_last_sequence := int (Suc k), rr_last_hash := Some (ev_event_hash e)\<rparr>"
proof -
  obtain e where e: "event_parse env line = Inr e" "uint (ev_sequence e) = i64_succ (int k)" "linked env (rr_last_hash report) [e]"
    and found: "event_at env ws (uint (ev_sequence e)) db \<noteq> Inr None"
    and report: "report' = report\<lparr>rr_verified_events := rr_verified_events report + 1, rr_last_sequence := uint (ev_sequence e),
      rr_last_hash := Some (ev_event_hash e)\<rparr>"
    using assms(2,4) by (auto simp: verify_line_def and_then_eq_Inr map_err_eq_Inr Let_def split: if_split_asm option.split_asm)
  have k: "i64_succ (int k) = int k + 1"
    using e(2) uint_nonnegative [of "ev_sequence e"] by (auto simp: i64_succ_def split: if_splits)
  have "k < length es"
  proof (rule ccontr)
    assume "\<not> k < length es"
    then have "er_sequence r \<noteq> int k + 1" if "r \<in> set (rows_of er_workspace ws (db_events db))" for r
      using that audit_okD(2,4) [OF assms(1)] unfolding in_set_conv_nth by fastforce
    then have "find (\<lambda>r. er_sequence r = int k + 1) (rows_of er_workspace ws (db_events db)) = None"
      unfolding find_None_iff by blast
    then show False using found e(2) k by (simp add: event_at_def)
  qed
  then show ?thesis using that e report k by (simp add: add.commute)
qed

lemma verify_lines_sound:
  assumes "audit_ok env ws db es" "rr_last_sequence report = int k" "k \<le> length es" "verify_lines env ws db report lines = Inr report'"
  shows "\<exists>vs. k + length vs \<le> length es \<and> map (event_parse env) lines = map Inr vs \<and> linked env (rr_last_hash report) vs
    \<and> report' = report\<lparr>rr_verified_events := rr_verified_events report + of_nat (length vs), rr_last_sequence := int (k + length vs),
        rr_last_hash := end_hash (rr_last_hash report) vs\<rparr>"
  using assms(2-4)
proof (induction lines arbitrary: k report)
  case Nil
  then show ?case by (intro exI [of _ "[]"]) simp
next
  case (Cons line lines)
  obtain r where r: "verify_line env ws db report line = Inr r" and rest: "verify_lines env ws db r lines = Inr report'"
    using Cons.prems(3) by (auto simp: and_then_eq_Inr)
  obtain e where e: "k < length es" "event_parse env line = Inr e" "linked env (rr_last_hash report) [e]"
    "r = report\<lparr>rr_verified_events := rr_verified_events report + 1, rr_last_sequence := int (Suc k), rr_last_hash := Some (ev_event_hash e)\<rparr>"
    using verify_line_sound [OF assms(1) Cons.prems(1,2) r] .
  obtain vs where vs: "Suc k + length vs \<le> length es" "map (event_parse env) lines = map Inr vs" "linked env (Some (ev_event_hash e)) vs"
    "report' = r\<lparr>rr_verified_events := rr_verified_events r + of_nat (length vs), rr_last_sequence := int (Suc k + length vs),
        rr_last_hash := end_hash (Some (ev_event_hash e)) vs\<rparr>"
    using Cons.IH [of r "Suc k"] e rest by auto
  then show ?case using e by (intro exI [of _ "e # vs"]) (simp add: add.assoc)
qed

lemma export_batch_sound:
  "export_batch env report bytes ps = (Inr report', bytes') \<Longrightarrow>
     linked env (rr_last_hash report) (map out_event ps) \<and> bytes' = bytes @ log_text env (map out_event ps)
     \<and> report' = report\<lparr>rr_last_sequence := (if ps = [] then rr_last_sequence report else out_sequence (last ps)),
          rr_last_hash := end_hash (rr_last_hash report) (map out_event ps), rr_appended_events := rr_appended_events report + of_nat (length ps)\<rparr>"
proof (induction ps arbitrary: report bytes)
  case Nil
  then show ?case by (simp add: log_text_def)
next
  case (Cons p ps)
  then obtain line where line: "event_text env (out_event p) = Inr line" "ev_previous_hash (out_event p) = rr_last_hash report"
      "verify_hash (integrity_env.truncate env) (event_value env) (out_event p) = Inr True"
    and rest: "export_batch env (advance p report) (bytes @ line @ [CHR ''\<newline>'']) ps = (Inr report', bytes')"
    by (auto simp: export_batch_Cons)
  then show ?case using Cons.IH [OF rest] by (simp add: log_text_def text_of_def advance_def add.assoc)
qed

lemma mark_report_checks:
  assumes "audit_ok env ws db es" "rr_last_sequence report = int k" "k \<le> length es" "mark_report ws now report db = (Inr u, db')"
    and "rr_last_hash report = None \<Longrightarrow> k = 0"
  shows "rr_last_hash report = hash_at es k"
proof (cases "rr_last_hash report")
  case None
  then show ?thesis using assms(5) by (simp add: hash_at_def)
next
  case (Some h)
  let ?rows = "rows_of er_workspace ws (db_events db)"
  obtain r where r: "find (\<lambda>r. er_sequence r = int k) ?rows = Some r" "er_event_hash r = h"
    using assms(2,4) Some by (auto simp: mark_report_def mark_exported_def split: option.splits if_split_asm)
  obtain i where i: "i < length es" "r = ?rows ! i" "er_sequence r = int k"
    using r(1) audit_okD(2) [OF assms(1)] unfolding find_Some_iff by auto
  then have "k = Suc i" using audit_okD(4) [OF assms(1) i(1)] by simp
  then show ?thesis using audit_okD(3) [OF assms(1) i(1)] i r(2) Some by (simp add: hash_at_def row_holds_def)
qed

lemma outbox_after_sequences:
  assumes "audit_ok env ws db es" "outbox_after env ws (int k) limit db = Inr ps"
  shows "length ps = min limit (length es - k)" "ps \<noteq> [] \<Longrightarrow> out_sequence (last ps) = int (k + length ps)"
proof -
  let ?rows = "rows_of er_workspace ws (db_events db)"
  note len = audit_okD(2) [OF assms(1)]
  have "filter (\<lambda>r. er_sequence r > int k) (workspace_events ws db) = drop k ?rows"
    unfolding workspace_events_sorted [OF assms(1)] using audit_okD(2,4) [OF assms(1)] by (intro filter_drop) auto
  then have all: "list_all2 (\<lambda>r p. out_sequence p = er_sequence r) (take limit (drop k ?rows)) ps"
    using try_map_ok [OF assms(2) [unfolded outbox_after_def]] by (auto simp: and_then_eq_Inr elim!: list_all2_mono)
  then show n: "length ps = min limit (length es - k)" using len by (auto dest: list_all2_lengthD)
  show "out_sequence (last ps) = int (k + length ps)" if "ps \<noteq> []"
  proof -
    let ?i = "length ps - 1"
    have "0 < length ps" using that by simp
    then have i: "?i < length ps" "k + ?i < length es" "?i < limit" using n by linarith+
    have "out_sequence (last ps) = er_sequence (take limit (drop k ?rows) ! ?i)"
      using list_all2_nthD2 [OF all i(1)] that by (simp add: last_conv_nth)
    also have "\<dots> = int (k + ?i) + 1" using i len audit_okD(4) [OF assms(1) i(2)] by simp
    finally show ?thesis using that by (cases ps) simp_all
  qed
qed

lemma export_loop_sound:
  assumes "audit_ok env ws db es" "rr_last_sequence report = int k" "k \<le> length es" "rr_last_hash report = hash_at es k"
    and "export_loop env ws now report db bytes = (Inr report', db', bytes')"
  shows "\<exists>us. length us = length es - k \<and> linked env (hash_at es k) us \<and> end_hash (hash_at es k) us = hash_at es (length es)
    \<and> bytes' = bytes @ log_text env us
    \<and> report' = report\<lparr>rr_last_sequence := int (length es), rr_last_hash := hash_at es (length es),
        rr_appended_events := rr_appended_events report + of_nat (length es - k)\<rparr>"
  using assms
proof (induction "length es - k" arbitrary: k report db bytes rule: less_induct)
  case less
  obtain ps where ps: "outbox_after env ws (int k) 256 db = Inr ps"
    using less.prems by (auto simp: export_loop.simps [of env ws now report] split: sum.split_asm)
  note n = outbox_after_sequences [OF less.prems(1) ps]
  show ?case
  proof (cases "ps = []")
    case True
    then have "k = length es" using n(1) less.prems(3) by (simp add: min_def split: if_split_asm)
    moreover have "report' = report" "bytes' = bytes" using less.prems(2,5) ps True by (simp_all add: export_loop.simps [of env ws now report])
    ultimately show ?thesis using less.prems(2,4) by (intro exI [of _ "[]"]) (simp add: log_text_def)
  next
    case False
    obtain r1 bytes1 db1 where batch: "export_batch env report bytes ps = (Inr r1, bytes1)" and mark: "mark_report ws now r1 db = (Inr (), db1)"
      and loop: "export_loop env ws now r1 db1 bytes1 = (Inr report', db', bytes')"
      using less.prems(2,5) ps False by (auto simp: export_loop.simps [of env ws now report] split: sum.split_asm prod.split_asm)
    let ?us = "map out_event ps" and ?k = "k + length ps"
    have b: "linked env (hash_at es k) ?us" "bytes1 = bytes @ log_text env ?us"
      "r1 = report\<lparr>rr_last_sequence := int ?k, rr_last_hash := end_hash (hash_at es k) ?us,
        rr_appended_events := rr_appended_events report + of_nat (length ps)\<rparr>"
      using export_batch_sound [OF batch] n(2) False less.prems(4) by simp_all
    have k: "?k \<le> length es" "length es - ?k < length es - k" using n(1) less.prems(3) False by (cases ps; simp add: min_def split: if_split_asm)+
    have "rr_last_hash r1 = hash_at es ?k"
      using mark_report_checks [OF less.prems(1) _ k(1) mark] b(3) False by (simp add: end_hash_def)
    moreover have "audit_ok env ws db1 es" using audit_ok_mark [OF mark] less.prems(1) by simp
    ultimately obtain us where "length us = length es - ?k" "linked env (hash_at es ?k) us" "end_hash (hash_at es ?k) us = hash_at es (length es)"
        "bytes' = bytes1 @ log_text env us" "report' = r1\<lparr>rr_last_sequence := int (length es), rr_last_hash := hash_at es (length es),
        rr_appended_events := rr_appended_events r1 + of_nat (length es - ?k)\<rparr>" "end_hash (hash_at es k) ?us = hash_at es ?k"
      using less.hyps [OF k(2) _ _ k(1) _ loop] b(3) by auto
    moreover have "(of_nat (length ps) :: u64) + of_nat (length es - ?k) = of_nat (length es - k)" using k(1) by (simp add: of_nat_diff)
    ultimately show ?thesis using b k(1)
      by (intro exI [of _ "?us @ us"]) (simp add: linked_append end_hash_append log_text_append add.assoc)
  qed
qed

text \<open>Two events sealed to the same content: their hashes agree, and so does the canonical JSON of everything else.\<close>

definition same_sealed :: "event_env \<Rightarrow> TaskEvent \<Rightarrow> TaskEvent \<Rightarrow> bool" where
  "same_sealed env a b \<longleftrightarrow> ev_event_hash a = ev_event_hash b
     \<and> (\<exists>t. canonical_json (integrity_env.truncate env) (event_value env (a\<lparr>ev_event_hash := []\<rparr>)) = Inr t
          \<and> canonical_json (integrity_env.truncate env) (event_value env (b\<lparr>ev_event_hash := []\<rparr>)) = Inr t)"

lemma object_member:
  assumes "canonical (JObject es) = canonical (JObject es')" "(k, v) \<in> set es" "(k, w) \<in> set es'" "wf_json (JObject es')"
  shows "canonical v = canonical w"
proof -
  let ?f = "\<lambda>(k, v). (k, canonical v)"
  have "map ?f (sort_key (\<lambda>(k, v). utf16 k) es) = map ?f (sort_key (\<lambda>(k, v). utf16 k) es')" using assms(1) by simp
  from arg_cong [OF this, of set] have "?f ` set es = ?f ` set es'" by (simp only: set_map set_sort)
  moreover have "(k, canonical v) \<in> ?f ` set es" using assms(2) by (rule rev_image_eqI) simp
  ultimately obtain w' where "(k, w') \<in> set es'" "canonical w' = canonical v" by auto
  moreover have inj: "inj_on (\<lambda>(k, v). utf16 k) (set es')" using assms(4) by (simp add: distinct_map)
  ultimately have "(k, w') = (k, w)" using inj_onD [OF inj _ _ assms(3), of "(k, w')"] by simp
  then show ?thesis using \<open>canonical w' = canonical v\<close> by simp
qed

lemma same_hash_same_sealed:
  assumes "ideal_digest (integrity_env.truncate env)" "event_object env" "ev_event_hash a = ev_event_hash b"
    and "verify_hash (integrity_env.truncate env) (event_value env) a = Inr True"
    and "verify_hash (integrity_env.truncate env) (event_value env) b = Inr True"
  shows "same_sealed env a b" "ev_previous_hash a = ev_previous_hash b"
proof -
  let ?env = "integrity_env.truncate env"
  have hash: "canonical_sha256 ?env (event_value env (e\<lparr>ev_event_hash := []\<rparr>)) = Inr (ev_event_hash e)"
    if "verify_hash ?env (event_value env) e = Inr True" for e
    using that unfolding verify_hash_def event_doc.verify_iff by simp
  obtain i j where i: "event_value env (a\<lparr>ev_event_hash := []\<rparr>) = Inr i" and j: "event_value env (b\<lparr>ev_event_hash := []\<rparr>) = Inr j"
    and "sha256_hex ?env (write_value (json_quote ?env) i) = sha256_hex ?env (write_value (json_quote ?env) j)"
    using hash [OF assms(4)] hash [OF assms(5)] assms(3) by (auto simp: canonical_sha256_Inr)
  then have same: "write_value (json_quote ?env) i = write_value (json_quote ?env) j" using assms(1) unfolding ideal_digest_def by blast
  then show "same_sealed env a b" using i j assms(3) by (simp add: same_sealed_def canonical_json_def)
  have object: "wf_json v \<and> (\<exists>ms. v = JObject ms \<and> (''previous_hash'', previous_hash_value e) \<in> set ms)"
    if "event_value env (e\<lparr>ev_event_hash := []\<rparr>) = Inr v" for e v
  proof -
    have "previous_hash_value (e\<lparr>ev_event_hash := []\<rparr>) = previous_hash_value e" by (simp add: previous_hash_value_def)
    then show ?thesis using assms(2) that unfolding event_object_def by metis
  qed
  obtain ms ns where o: "wf_json i" "wf_json j" "i = JObject ms" "j = JObject ns"
    "(''previous_hash'', previous_hash_value a) \<in> set ms" "(''previous_hash'', previous_hash_value b) \<in> set ns"
    using object [OF i] object [OF j] by blast
  have "canonical i = canonical j" using same o(1,2) assms(1) write_value_eq_iff unfolding ideal_digest_def by blast
  then have "canonical (previous_hash_value a) = canonical (previous_hash_value b)" using object_member o by blast
  then show "ev_previous_hash a = ev_previous_hash b" by (auto simp: previous_hash_value_def split: option.splits)
qed

text \<open>The last hash determines the chain.\<close>

lemma linked_same:
  assumes "ideal_digest (integrity_env.truncate env)" "event_object env"
    and "linked env h xs" "linked env h' ys" "length xs = length ys" "end_hash h xs = end_hash h' ys"
  shows "list_all2 (same_sealed env) xs ys"
  using assms(3-6)
proof (induction xs arbitrary: ys rule: rev_induct)
  case (snoc x xs)
  then obtain y ys' where ys: "ys = ys' @ [y]" by (cases ys rule: rev_cases) auto
  have "ev_event_hash x = ev_event_hash y" "verify_hash (integrity_env.truncate env) (event_value env) x = Inr True"
    "verify_hash (integrity_env.truncate env) (event_value env) y = Inr True"
    using snoc.prems ys by (simp_all add: linked_append)
  note same = same_hash_same_sealed [OF assms(1,2) this]
  have "list_all2 (same_sealed env) xs ys'" using snoc.prems same(2) ys by (intro snoc.IH) (simp_all add: linked_append)
  then show ?case using same(1) ys by (simp add: list_all2_appendI)
qed simp

section \<open>Properties\<close>

text \<open>Appends and reconciliations in any order and in any workspaces; each workspace has its own log.\<close>

datatype audit_action = Append WorkspaceId TaskEvent | Reconcile WorkspaceId DateTime

fun audit_act :: "event_env \<Rightarrow> event_db \<times> (WorkspaceId \<Rightarrow> string) \<Rightarrow> audit_action
    \<Rightarrow> event_db \<times> (WorkspaceId \<Rightarrow> string)" where
  "audit_act env (db, logs) (Append ws event) = (snd (append_event env ws event db), logs)"
| "audit_act env (db, logs) (Reconcile ws now) =
     (case reconcile_locked env ws now db (logs ws) of (_, db', bytes) \<Rightarrow> (db', logs(ws := bytes)))"

definition trail_ok :: "event_env \<Rightarrow> event_db \<times> (WorkspaceId \<Rightarrow> string) \<Rightarrow> bool" where
  "trail_ok env s \<longleftrightarrow>
     (\<forall>ws. \<exists>es. audit_ok env ws (fst s) es
        \<and> (reads_back env es \<longrightarrow> (\<exists>k \<le> length es. snd s ws = log_text env (take k es))))"

lemma trail_ok_act:
  assumes "single_line env" and "digest_nonempty (integrity_env.truncate env)" and "trail_ok env s"
  shows "trail_ok env (audit_act env s action)"
proof -
  obtain db logs where s: "s = (db, logs)" by (cases s)
  have ok: "\<exists>es. audit_ok env ws db es \<and> (reads_back env es \<longrightarrow> (\<exists>k \<le> length es. logs ws = log_text env (take k es)))" for ws
    using assms(3) unfolding trail_ok_def s by simp
  show ?thesis
  proof (cases action)
    case (Append ws' event)
    have "\<exists>es. audit_ok env ws (snd (append_event env ws' event db)) es
        \<and> (reads_back env es \<longrightarrow> (\<exists>k \<le> length es. logs ws = log_text env (take k es)))" for ws
    proof -
      obtain es where e: "audit_ok env ws db es" "reads_back env es \<longrightarrow> (\<exists>k \<le> length es. logs ws = log_text env (take k es))"
        using ok by blast
      obtain es' where "audit_ok env ws (snd (append_event env ws' event db)) (es @ es')"
        using append_event_keeps [OF assms(2) e(1)] by blast
      moreover have "\<exists>k \<le> length (es @ es'). logs ws = log_text env (take k (es @ es'))" if "reads_back env (es @ es')"
      proof -
        have "reads_back env es" using that by (simp add: reads_back_def)
        then obtain k where "k \<le> length es" "logs ws = log_text env (take k es)" using e(2) by blast
        then show ?thesis by (intro exI [of _ k]) simp
      qed
      ultimately show ?thesis by blast
    qed
    then show ?thesis by (simp add: trail_ok_def s Append)
  next
    case (Reconcile ws' now)
    obtain result db' bytes where r: "reconcile_locked env ws' now db (logs ws') = (result, db', bytes)" by (metis prod_cases3)
    have "\<exists>es. audit_ok env ws db' es \<and> (reads_back env es \<longrightarrow> (\<exists>k \<le> length es. (logs(ws' := bytes)) ws = log_text env (take k es)))" for ws
    proof -
      obtain es where e: "audit_ok env ws db es" "reads_back env es \<longrightarrow> (\<exists>k \<le> length es. logs ws = log_text env (take k es))"
        using ok by blast
      have "\<exists>k \<le> length es. (logs(ws' := bytes)) ws = log_text env (take k es)" if rb: "reads_back env es"
      proof (cases "ws = ws'")
        case True
        obtain k where "k \<le> length es" "logs ws = log_text env (take k es)" using rb e(2) by blast
        then have "bytes = log_text env es" using reconcile_prefix [OF rb e(1) _ assms(1), of k now] r True by auto
        then show ?thesis using True by (intro exI [of _ "length es"]) simp
      qed (use rb e(2) in simp)
      then show ?thesis using e(1) reconcile_keeps [OF r] by blast
    qed
    then show ?thesis by (simp add: trail_ok_def s Reconcile r)
  qed
qed

lemma trail_ok_run:
  assumes "single_line env" and "digest_nonempty (integrity_env.truncate env)" and "trail_ok env s"
  shows "trail_ok env (foldl (audit_act env) s actions)"
  using assms(3) trail_ok_act [OF assms(1,2)] by (induction actions arbitrary: s) simp_all

text \<open>C29: the audit trail is complete. Start from an empty outbox and empty logs and let appends and
  reconciliations happen in any order in any workspaces, some of them failing. Then the events of every
  workspace form a hash chain (sequences 1, 2, \<dots>, each naming the hash of its predecessor, each hash
  verified); and as long as each of these events is what its own text parses to, reconciling succeeds and leaves a log with exactly these
  events in order. The condition is needed: an event with a fraction that the parser rounds is not what its text parses to.\<close>

theorem audit_trail_complete:
  assumes "single_line env" and "digest_nonempty (integrity_env.truncate env)"
    and "db_events db0 = []" and "foldl (audit_act env) (db0, \<lambda>_. []) actions = (db, logs)"
  shows "\<exists>es. audit_ok env ws db es
           \<and> ((\<forall>e \<in> set es. event_parse env (text_of env e) = Inr e) \<longrightarrow>
                (\<exists>report db'. reconcile_locked env ws now db (logs ws) = (Inr report, db', log_text env es)
                   \<and> rr_last_sequence report = int (length es)))"
proof -
  have "audit_ok env ws db0 []" for ws using assms(3) by (simp add: audit_ok_def chained_def rows_of_def)
  then have "trail_ok env (db0, \<lambda>_. [])"
    unfolding trail_ok_def by (auto intro!: exI [of _ "[]"] simp: log_text_def)
  then have "trail_ok env (db, logs)" using trail_ok_run [OF assms(1,2)] assms(4) by metis
  then obtain es where e: "audit_ok env ws db es" "reads_back env es \<longrightarrow> (\<exists>k \<le> length es. logs ws = log_text env (take k es))"
    unfolding trail_ok_def by fastforce
  have "\<exists>report db'. reconcile_locked env ws now db (logs ws) = (Inr report, db', log_text env es) \<and> rr_last_sequence report = int (length es)"
    if rb: "reads_back env es"
  proof -
    obtain k where "k \<le> length es" "logs ws = log_text env (take k es)" using rb e(2) by blast
    then show ?thesis using reconcile_prefix [OF rb e(1) _ assms(1), of k now] by fastforce
  qed
  then show ?thesis using e(1) unfolding reads_back_def by blast
qed

text \<open>C30: reconciliation accepts nothing but the chain. If it succeeds on some file, whatever its bytes, then the lines of the file and
  the lines it appended hold, one by one and in order, the content that was sealed when the events of the workspace were appended: none is
  altered, missing or out of place. It rests on the digest only, not on what the parser makes of the text: the hash of the last row is
  checked against the table, and each event names the hash of the one before.\<close>

theorem reconcile_accepts_only_chain:
  assumes "ideal_digest (integrity_env.truncate env)" "event_object env" "audit_ok env ws db es"
    and "reconcile_locked env ws now db bytes = (Inr report, db', bytes')"
  shows "\<exists>vs us. map (event_parse env) (log_lines bytes) = map Inr vs \<and> bytes' = bytes @ log_text env us
    \<and> list_all2 (same_sealed env) (vs @ us) es
    \<and> report = report_at (of_nat (length vs)) (of_nat (length us)) (length es) es"
proof -
  obtain r db1 where v: "verify_lines env ws db default_report (log_lines bytes) = Inr r" and mark: "mark_report ws now r db = (Inr (), db1)"
    and loop: "export_loop env ws now r db1 bytes = (Inr report, db', bytes')"
    using assms(4) by (auto simp: reconcile_locked_def split: if_split_asm sum.split_asm prod.split_asm)
  obtain vs where vs: "length vs \<le> length es" "map (event_parse env) (log_lines bytes) = map Inr vs" "linked env None vs"
    "r = \<lparr> rr_verified_events = of_nat (length vs), rr_appended_events = 0, rr_last_sequence = int (length vs), rr_last_hash = end_hash None vs \<rparr>"
    using verify_lines_sound [OF assms(3) _ _ v, of 0] by (auto simp: default_report_def)
  have hash: "end_hash None vs = hash_at es (length vs)"
    using mark_report_checks [OF assms(3) _ vs(1) mark] vs(4) by (cases vs) (simp_all add: end_hash_def)
  have "audit_ok env ws db1 es" using audit_ok_mark [OF mark] assms(3) by simp
  from export_loop_sound [OF this _ vs(1) _ loop] obtain us where us: "length us = length es - length vs"
    "linked env (hash_at es (length vs)) us" "end_hash (hash_at es (length vs)) us = hash_at es (length es)" "bytes' = bytes @ log_text env us"
    "report = r\<lparr>rr_last_sequence := int (length es), rr_last_hash := hash_at es (length es), rr_appended_events := of_nat (length us)\<rparr>"
    using vs(4) hash by auto
  have "list_all2 (same_sealed env) (vs @ us) es"
    by (rule linked_same [OF assms(1,2), of None _ None])
      (use chained_linked [OF audit_okD(1) [OF assms(3)]] vs us hash in \<open>simp_all add: linked_append end_hash_append\<close>)
  then show ?thesis using vs us by (intro exI [of _ vs] exI [of _ us]) (simp add: report_at_def)
qed

section \<open>A sample trail\<close>

text \<open>A workspace with one event, whose digest has the right length, and a codec that knows this event.\<close>

definition sample_event :: TaskEvent where
  "sample_event =
     \<lparr> ev_schema_version = schema_state_current, ev_sequence = 0, ev_event_id = 1, ev_session_id = None,
       ev_task_id = None, ev_occurred_at = 0, ev_event_type = CompatibilityWarning, ev_from_state = None,
       ev_to_state = None, ev_reason = None, ev_actor = Actor_System, ev_correlation_id = 2,
       ev_causation_id = None, ev_payload = JNull, ev_previous_hash = None, ev_event_hash = [] \<rparr>"

definition sample_sealed_event :: TaskEvent where
  "sample_sealed_event = sample_event\<lparr>ev_sequence := 1, ev_event_hash := replicate 64 CHR ''a''\<rparr>"

definition sample_event_value :: "TaskEvent \<Rightarrow> json" where
  "sample_event_value e = JObject [(''previous_hash'', previous_hash_value e)]"

definition sample_event_digest :: "string \<Rightarrow> string" where
  "sample_event_digest t =
     (if t = write_value sample_quote (sample_event_value sample_event) then replicate 64 CHR ''a'' else CHR ''b'' # t)"

definition sample_event_env :: event_env where
  "sample_event_env =
     \<lparr> json_quote = sample_quote, sha256_hex = sample_event_digest,
       event_value = (\<lambda>e. Inr (sample_event_value e)),
       event_text = (\<lambda>e. if e = sample_sealed_event then Inr ''{}'' else Inl ''unsupported''),
       event_parse = (\<lambda>t. if t = ''{}'' then Inr sample_sealed_event else Inl ''unsupported''),
       json_valid = (\<lambda>t. True) \<rparr>"

definition sample_event_db :: event_db where
  "sample_event_db =
     \<lparr> db_events = [], db_exports = [], db_known_workspaces = [1], db_known_tasks = [], db_known_sessions = [] \<rparr>"

lemma replicate_numeral_head: "replicate (numeral n) c = d # t \<Longrightarrow> c = d" "d # t = replicate (numeral n) c \<Longrightarrow> c = d"
  by (simp_all add: numeral_eq_Suc)

lemma sample_single_line: "single_line sample_event_env"
  by (simp add: single_line_def sample_event_env_def)

lemma sample_digest: "ideal_digest (integrity_env.truncate sample_event_env)" "digest_nonempty (integrity_env.truncate sample_event_env)"
  by (auto simp: ideal_digest_def digest_nonempty_def sample_event_digest_def sample_event_env_def integrity_env.defs sample_quote_quoting
      dest: replicate_numeral_head)

lemma sample_object: "event_object sample_event_env"
  by (simp add: event_object_def sample_event_env_def sample_event_value_def previous_hash_value_def split: option.split)

lemma sample_append:
  "append_event sample_event_env 1 sample_event sample_event_db =
     (Inr sample_sealed_event,
      sample_event_db\<lparr>db_events := [row_of_event 1 1 ''{}'' sample_sealed_event]\<rparr>)"
proof -
  have hash: "canonical_sha256 (integrity_env.truncate sample_event_env) (event_value sample_event_env e)
      = Inr (replicate 64 CHR ''a'')" if "ev_previous_hash e = None" for e
    using that by (simp add: canonical_sha256_Inr sample_event_env_def integrity_env.defs sample_event_digest_def sample_event_value_def
        previous_hash_value_def sample_event_def)
  have seal: "refresh_event_hash (integrity_env.truncate sample_event_env) (event_value sample_event_env)
      (sample_event\<lparr>ev_sequence := word_of_int 1, ev_previous_hash := map_option snd None\<rparr>) = Inr sample_sealed_event"
    unfolding refresh_event_hash_def
    by (simp add: hash seal_with_def sample_sealed_event_def sample_event_def)
  have printed: "event_text sample_event_env sample_sealed_event = Inr ''{}''"
    by (simp add: sample_event_env_def)
  have rows: "workspace_events 1 sample_event_db = []"
    by (simp add: workspace_events_def rows_of_def sample_event_db_def)
  have ok: "event_constraints sample_event_env (row_of_event 1 1 ''{}'' sample_sealed_event) sample_event_db"
    by (simp add: event_constraints_def row_of_event_def sample_event_env_def sample_event_db_def
        sample_sealed_event_def sample_event_def)
  show ?thesis
    using seal printed ok
    by (simp add: append_event_def append_workspace_event_in_transaction_def rows map_err_def)
       (simp add: sample_event_db_def)
qed

lemma sample_run:
  "foldl (audit_act sample_event_env) (sample_event_db, \<lambda>_. []) [Append 1 sample_event] =
     (sample_event_db\<lparr>db_events := [row_of_event 1 1 ''{}'' sample_sealed_event]\<rparr>, \<lambda>_. [])"
  by (simp add: sample_append)

lemma sample_audit_ok:
  "audit_ok sample_event_env 1 (sample_event_db\<lparr>db_events := [row_of_event 1 1 ''{}'' sample_sealed_event]\<rparr>)
     [sample_sealed_event]"
proof -
  have none: "audit_ok sample_event_env 1 sample_event_db []"
    by (simp add: audit_ok_def chained_def rows_of_def sample_event_db_def)
  have "append_workspace_event_in_transaction sample_event_env 1 sample_event sample_event_db
      = Inr (sample_sealed_event, sample_event_db\<lparr>db_events := [row_of_event 1 1 ''{}'' sample_sealed_event]\<rparr>)"
    using sample_append by (simp add: append_event_def split: sum.splits prod.splits)
  from append_extends_chain [OF sample_digest(2) none this] show ?thesis by simp
qed

lemma sample_reads_back: "reads_back sample_event_env [sample_sealed_event]"
  by (simp add: reads_back_def text_of_def sample_event_env_def)

lemma sample_chain_unique:
  assumes "audit_ok sample_event_env 1 (sample_event_db\<lparr>db_events := [row_of_event 1 1 ''{}'' sample_sealed_event]\<rparr>) es"
  shows "es = [sample_sealed_event]"
proof -
  have "length es = 1" using audit_okD(2) [OF assms] by (simp add: rows_of_def)
  then obtain e where e: "es = [e]" by (cases es) auto
  then have "event_text sample_event_env e = Inr ''{}''" using audit_okD(3) [OF assms, of 0] by (simp add: rows_of_def row_holds_def)
  then show ?thesis using e by (simp add: sample_event_env_def split: if_split_asm)
qed

theorem audit_trail_complete_witness:
  "\<exists>report db'. reconcile_locked sample_event_env 1 5
         (sample_event_db\<lparr>db_events := [row_of_event 1 1 ''{}'' sample_sealed_event]\<rparr>) []
       = (Inr report, db', log_text sample_event_env [sample_sealed_event])
     \<and> rr_last_sequence report = 1"
proof -
  have "db_events sample_event_db = []" by (simp add: sample_event_db_def)
  from audit_trail_complete [OF sample_single_line sample_digest(2) this sample_run, of 1 5]
  show ?thesis using sample_chain_unique sample_reads_back by (fastforce simp: reads_back_def)
qed

theorem reconcile_accepts_only_chain_witness:
  "\<exists>report db' bytes' us. reconcile_locked sample_event_env 1 5
       (sample_event_db\<lparr>db_events := [row_of_event 1 1 ''{}'' sample_sealed_event]\<rparr>) []
     = (Inr report, db', bytes')
   \<and> bytes' = log_text sample_event_env us \<and> list_all2 (same_sealed sample_event_env) us [sample_sealed_event]"
proof -
  obtain report db' bytes' where r: "reconcile_locked sample_event_env 1 5
       (sample_event_db\<lparr>db_events := [row_of_event 1 1 ''{}'' sample_sealed_event]\<rparr>) [] = (Inr report, db', bytes')"
    using reconcile_prefix [OF sample_reads_back sample_audit_ok _ sample_single_line, of 0 5] by (auto simp: log_text_def)
  from reconcile_accepts_only_chain [OF sample_digest(1) sample_object sample_audit_ok r]
  show ?thesis using r by (auto simp: log_lines_def)
qed

end
