(* ===== verification/Schedule_Claims.thy ===== *)
theory Schedule_Claims
  imports State_Store
begin

text \<open>
  \<open>crates/orchestrator-state/src/scheduling.rs\<close>: claiming the next ready task, renewing and releasing
  claims. An operation takes the database and returns its result with the database it commits; an
  error rolls back, so the database is then the one it was given. The outer option of
  \<open>claim_next_ready_task\<close> is \<open>None\<close> for a panic. Parameters: \<open>checked_add_signed\<close> of the chrono crate and
  the identifiers that the uuid crate draws. Error messages leave out the identifiers the source
  formats into them.
\<close>

section \<open>Requests and results\<close>

record ClaimReadyTaskRequest =
  req_daemon_instance_id :: DaemonInstanceId
  req_global_limit :: usize
  req_provider_limits :: "ProviderId \<rightharpoonup> usize"
  req_now :: DateTime
  req_ttl :: TimeDelta

record CandidateRecord =
  cr_workspace_id :: WorkspaceId
  cr_candidate :: ScheduleCandidate
  cr_node_key :: string
  cr_profile :: ModelProfile
  cr_envelope :: TaskEnvelope
  cr_approved_base_commit :: string

record ClaimedTask =
  ct_workspace_id :: WorkspaceId
  ct_schedule_claim_id :: ScheduleClaimId
  ct_daemon_instance_id :: DaemonInstanceId
  ct_session_id :: SessionId
  ct_revision_id :: GraphRevisionId
  ct_task_id :: TaskId
  ct_node_key :: string
  ct_display_order :: u64
  ct_provider :: ProviderId
  ct_profile :: ModelProfile
  ct_envelope :: TaskEnvelope
  ct_scope :: ResourceScope
  ct_approved_base_commit :: string
  ct_acquired_at :: DateTime
  ct_expires_at :: DateTime

type_synonym add_signed = "DateTime \<Rightarrow> TimeDelta \<Rightarrow> DateTime option"

definition validate_request :: "ClaimReadyTaskRequest \<Rightarrow> StateError + unit" where
  "validate_request request =
     (if req_global_limit request = 0
        then Inl (InvalidConfig ''global scheduling limit must be greater than zero'')
      else if list_ex (\<lambda>p. req_provider_limits request p = Some 0) all_providers
        then Inl (InvalidConfig ''provider scheduling limits must be greater than zero'')
      else if req_ttl request \<le> 0
        then Inl (InvalidRecord ''schedule claim TTL must be greater than zero'')
      else Inr ())"

definition schedule_claim_expiry :: "add_signed \<Rightarrow> DateTime \<Rightarrow> TimeDelta \<Rightarrow> StateError + DateTime" where
  "schedule_claim_expiry checked_add_signed now ttl =
     ok_or (InvalidRecord ''schedule claim expiry overflow'') (checked_add_signed now ttl)"

definition parse_provider :: "string \<Rightarrow> StateError + ProviderId" where
  "parse_provider value = map_err (\<lambda>_. InvalidRecord (''invalid provider: unknown provider `'' @ value @ ''`''))
     (provider_from_str value)"

fun scheduling_error_message :: "SchedulingError \<Rightarrow> string" where
  "scheduling_error_message InvalidGlobalLimit = ''global scheduling limit must be greater than zero''"
| "scheduling_error_message (Scheduling_InvalidProviderLimit p) =
     ''parallel limit for provider `'' @ provider_as_str p @ ''` must be greater than zero''"

section \<open>Queries\<close>

text \<open>The rows of the join in \<open>load_candidates\<close> and \<open>queued_schedule_candidate_exists\<close>: a task of the
  current approved graph of its session, with its approval if there is one.\<close>

definition joined_tasks :: "WorkspaceId \<Rightarrow> schedule_db \<Rightarrow> (session_task_row \<times> task_row) list" where
  "joined_tasks ws db =
     concat (map (\<lambda>st. concat (map (\<lambda>t. concat (map (\<lambda>gr. concat (map (\<lambda>gh. [(st, t)])
         (filter (\<lambda>gh. gh_session_id gh = st_session_id st \<and> gh_revision_id gh = st_revision_id st)
           (rows_of gh_workspace ws (db_graph_heads db)))))
         (filter (\<lambda>gr. gr_revision_id gr = st_revision_id st \<and> gr_status gr = ''approved'')
           (rows_of gr_workspace ws (db_graph_revisions db)))))
         (filter (\<lambda>t. t_task_id t = st_task_id st \<and> t_archived_at t = None)
           (rows_of t_workspace ws (db_tasks db)))))
       (rows_of st_workspace ws (db_session_tasks db)))"

definition queued_schedule_candidate_exists :: "WorkspaceId \<Rightarrow> schedule_db \<Rightarrow> bool" where
  "queued_schedule_candidate_exists ws db \<longleftrightarrow>
     list_ex (\<lambda>(st, t). t_state t = Queued \<and> \<not> t_paused t) (joined_tasks ws db)"

definition approval_base :: "WorkspaceId \<Rightarrow> schedule_db \<Rightarrow> GraphRevisionId \<Rightarrow> string option" where
  "approval_base ws db revision =
     (case find (\<lambda>ga. ga_revision_id ga = revision) (rows_of ga_workspace ws (db_graph_approvals db)) of
        None \<Rightarrow> None
      | Some ga \<Rightarrow> ga_base_commit ga)"

definition latest_verification_passed :: "WorkspaceId \<Rightarrow> schedule_db \<Rightarrow> TaskId \<Rightarrow> bool" where
  "latest_verification_passed ws db task =
     (let vs = sort_key (\<lambda>v. (vr_completed_at v, vr_verification_id v))
                 (filter (\<lambda>v. vr_task_id v = task) (rows_of vr_workspace ws (db_verification_results db)))
      in vs \<noteq> [] \<and> vr_outcome (last vs) = ''pass'')"

definition load_dependencies :: "WorkspaceId \<Rightarrow> schedule_db \<Rightarrow> TaskId \<Rightarrow> DependencyState list" where
  "load_dependencies ws db task =
     map (\<lambda>d. \<lparr> dep_task_id = t_task_id d, dep_state = t_state d,
               dep_verification_passed = latest_verification_passed ws db (t_task_id d) \<rparr>)
       (concat (map (\<lambda>edge. filter (\<lambda>d. t_task_id d = td_depends_on edge) (rows_of t_workspace ws (db_tasks db)))
         (sort_key td_depends_on
           (filter (\<lambda>edge. td_task_id edge = task) (rows_of td_workspace ws (db_task_dependencies db))))))"

definition candidate_record ::
    "WorkspaceId \<Rightarrow> schedule_db \<Rightarrow> session_task_row \<times> task_row \<Rightarrow> StateError + CandidateRecord" where
  "candidate_record ws db row =
     (let st = fst row; t = snd row in
      case approval_base ws db (st_revision_id st) of
        None \<Rightarrow> Inl (InvalidRecord ''approved graph revision has no sealed approval base'')
      | Some base \<Rightarrow>
        if \<not> is_git_object_id base
          then Inl (InvalidRecord ''approved graph revision has an invalid sealed approval base'')
        else and_then (map_err Json (t_envelope t)) (\<lambda>envelope.
          if st_display_order st < 0 then Inl (InvalidRecord ''negative graph display order'')
          else and_then (parse_provider (case st_provider_id_v2 st of Some p \<Rightarrow> p | None \<Rightarrow> st_provider_id st))
            (\<lambda>provider.
            Inr \<lparr> cr_workspace_id = ws,
                  cr_candidate = \<lparr> cand_task_id = t_task_id t, cand_session_id = st_session_id st,
                    cand_revision_id = st_revision_id st, cand_graph_is_current = True,
                    cand_graph_order = of_int (st_display_order st), cand_ready_since = t_created_at t,
                    cand_state = t_state t, cand_paused = t_paused t, cand_provider = provider,
                    cand_dependencies = load_dependencies ws db (t_task_id t),
                    cand_scope = \<lparr> scope_paths = env_allowed_write_paths envelope,
                                   scope_repository_wide = env_repository_wide_write_scope envelope \<rparr> \<rparr>,
                  cr_node_key = st_node_key st, cr_profile = st_model_profile st, cr_envelope = envelope,
                  cr_approved_base_commit = base \<rparr>)))"

definition load_candidates :: "WorkspaceId \<Rightarrow> schedule_db \<Rightarrow> StateError + CandidateRecord list" where
  "load_candidates ws db =
     try_map (candidate_record ws db)
       (sort_key (\<lambda>(st, t). (t_created_at t, st_display_order st, st_task_id st)) (joined_tasks ws db))"

definition ensure_daemon_owner :: "schedule_db \<Rightarrow> DaemonInstanceId \<Rightarrow> DateTime \<Rightarrow> StateError + unit" where
  "ensure_daemon_owner db daemon now =
     (if list_ex (\<lambda>d. di_instance_id d = daemon \<and> di_released_at d = None
                      \<and> di_stop_requested_at d = None \<and> di_lease_expires_at d > now) (db_daemons db)
      then Inr () else Inl (OptimisticConflict ''active daemon instance'' daemon))"

text \<open>Claims that are neither released nor expired.\<close>

definition active_schedule_claims :: "WorkspaceId \<Rightarrow> schedule_db \<Rightarrow> DateTime \<Rightarrow> schedule_claim_row list" where
  "active_schedule_claims ws db now =
     filter (\<lambda>s. sc_released_at s = None \<and> sc_expires_at s > now)
       (rows_of sc_workspace ws (db_schedule_claims db))"

text \<open>\<open>usize::try_from\<close> on an SQLite row count.\<close>

definition count_usize :: "string \<Rightarrow> nat \<Rightarrow> StateError + usize" where
  "count_usize label n = (if n < 2 ^ 63 then Inr (of_nat n) else Inl (InvalidRecord label))"

text \<open>The \<open>GROUP BY provider_id\<close> query: one entry per provider text.\<close>

fun provider_counts ::
    "schedule_claim_row list \<Rightarrow> string list \<Rightarrow> (ProviderId \<rightharpoonup> usize) \<Rightarrow> StateError + (ProviderId \<rightharpoonup> usize)" where
  "provider_counts rows [] acc = Inr acc"
| "provider_counts rows (name # names) acc =
     and_then (parse_provider name) (\<lambda>provider.
       and_then (count_usize ''negative active provider count'' (matching (\<lambda>s. sc_provider_id s = name) rows))
         (\<lambda>n. provider_counts rows names (acc(provider \<mapsto> n))))"

definition active_by_provider_query ::
    "schedule_claim_row list \<Rightarrow> StateError + (ProviderId \<rightharpoonup> usize)" where
  "active_by_provider_query rows = provider_counts rows (remdups (map sc_provider_id rows)) Map.empty"

definition active_resource_rows ::
    "WorkspaceId \<Rightarrow> schedule_db \<Rightarrow> DateTime \<Rightarrow> resource_claim_row list" where
  "active_resource_rows ws db now =
     sort_key (\<lambda>r. (rc_task_id r, rc_resource_claim_id r))
       (concat (map (\<lambda>r. map (\<lambda>_. r)
           (filter (\<lambda>s. sc_schedule_claim_id s = rc_schedule_claim_id r \<and> sc_released_at s = None
                        \<and> sc_expires_at s > now) (rows_of sc_workspace ws (db_schedule_claims db))))
         (filter (\<lambda>r. rc_released_at r = None \<and> rc_expires_at r > now)
           (rows_of rc_workspace ws (db_resource_claims db)))))"

definition resource_path :: "resource_claim_row \<Rightarrow> StateError + RepoPath option" where
  "resource_path r =
     (case rc_path r of
        None \<Rightarrow> Inr None
      | Some p \<Rightarrow> and_then (map_err (\<lambda>_. InvalidRecord ''invalid resource claim path'') (RepoPath_try_from p))
                   (\<lambda>path. Inr (Some path)))"

text \<open>Rows grouped by task, in task order: the \<open>BTreeMap\<close> of \<open>load_active_resource_claims\<close>.\<close>

definition task_claim :: "(resource_claim_row \<times> RepoPath option) list \<Rightarrow> TaskId \<Rightarrow> ActiveResourceClaim" where
  "task_claim rows task =
     (let mine = filter (\<lambda>(r, p). rc_task_id r = task) rows in
      \<lparr> claim_task_id = task,
        claim_scope = \<lparr> scope_paths = List.map_filter snd mine,
                        scope_repository_wide = list_ex (\<lambda>(r, p). rc_repository_wide r) mine \<rparr> \<rparr>)"

definition group_claims :: "(resource_claim_row \<times> RepoPath option) list \<Rightarrow> ActiveResourceClaim list" where
  "group_claims rows = map (task_claim rows) (remdups_adj (map (\<lambda>(r, p). rc_task_id r) rows))"

definition load_active_resource_claims ::
    "WorkspaceId \<Rightarrow> schedule_db \<Rightarrow> DateTime \<Rightarrow> StateError + ActiveResourceClaim list" where
  "load_active_resource_claims ws db now =
     (let rows = active_resource_rows ws db now in
      and_then (try_map resource_path rows) (\<lambda>paths. Inr (group_claims (zip rows paths))))"

section \<open>Updates\<close>

definition expire_claims :: "WorkspaceId \<Rightarrow> DateTime \<Rightarrow> schedule_db \<Rightarrow> schedule_db" where
  "expire_claims ws now db = db
     \<lparr> db_resource_claims :=
         update_rows (\<lambda>r. rc_workspace r = ws \<and> rc_released_at r = None \<and> rc_expires_at r \<le> now)
           (\<lambda>r. r \<lparr> rc_released_at := Some now, rc_release_reason := Some ''schedule claim expired'' \<rparr>)
           (db_resource_claims db),
       db_schedule_claims :=
         update_rows (\<lambda>s. sc_workspace s = ws \<and> sc_released_at s = None \<and> sc_expires_at s \<le> now)
           (\<lambda>s. s \<lparr> sc_released_at := Some now, sc_release_reason := Some ''schedule claim expired'' \<rparr>)
           (db_schedule_claims db) \<rparr>"

text \<open>The constraints of \<open>task_schedule_claims\<close> (\<open>migrations/0013\<close>): primary key, one unreleased claim per
  task, listed providers, expiry not before acquisition. Foreign keys hold by the joins above.\<close>

definition schedule_row_admissible :: "schedule_claim_row \<Rightarrow> schedule_claim_row list \<Rightarrow> bool" where
  "schedule_row_admissible s rows \<longleftrightarrow>
     (\<forall>e \<in> set rows. \<not> (sc_workspace e = sc_workspace s \<and> sc_schedule_claim_id e = sc_schedule_claim_id s))
   \<and> (\<forall>e \<in> set rows. \<not> (sc_workspace e = sc_workspace s \<and> sc_task_id e = sc_task_id s \<and> sc_released_at e = None))
   \<and> sc_provider_id s \<in> {''gemini'', ''codex'', ''claude''}
   \<and> sc_acquired_at s \<le> sc_expires_at s"

definition resource_row_admissible :: "resource_claim_row \<Rightarrow> resource_claim_row list \<Rightarrow> bool" where
  "resource_row_admissible r rows \<longleftrightarrow>
     (\<forall>e \<in> set rows. \<not> (rc_workspace e = rc_workspace r \<and> rc_resource_claim_id e = rc_resource_claim_id r))
   \<and> (case rc_path r of None \<Rightarrow> rc_repository_wide r | Some p \<Rightarrow> \<not> rc_repository_wide r \<and> sql_non_blank p)
   \<and> rc_acquired_at r \<le> rc_expires_at r"

definition insert_schedule_row ::
    "schedule_claim_row \<Rightarrow> schedule_db \<Rightarrow> StateError + schedule_db" where
  "insert_schedule_row s db =
     (if schedule_row_admissible s (db_schedule_claims db)
      then Inr (db \<lparr> db_schedule_claims := db_schedule_claims db @ [s] \<rparr>)
      else Inl (Sqlite ''constraint failed: task_schedule_claims''))"

fun insert_resource_rows ::
    "resource_claim_row list \<Rightarrow> schedule_db \<Rightarrow> StateError + schedule_db" where
  "insert_resource_rows [] db = Inr db"
| "insert_resource_rows (r # rs) db =
     (if resource_row_admissible r (db_resource_claims db)
      then insert_resource_rows rs (db \<lparr> db_resource_claims := db_resource_claims db @ [r] \<rparr>)
      else Inl (Sqlite ''constraint failed: resource_claims''))"

definition scope_rows :: "ResourceScope \<Rightarrow> string option list" where
  "scope_rows scope =
     (if scope_repository_wide scope then [None]
      else map (\<lambda>p. Some (RepoPath_to_string p)) (scope_paths scope))"

definition resource_rows ::
    "WorkspaceId \<Rightarrow> ScheduleClaimId \<Rightarrow> (nat \<Rightarrow> ResourceClaimId) \<Rightarrow> ScheduleCandidate \<Rightarrow> DateTime \<Rightarrow> DateTime
     \<Rightarrow> resource_claim_row list" where
  "resource_rows ws claim fresh candidate acquired_at expires_at =
     map (\<lambda>(i, path). \<lparr> rc_workspace = ws, rc_resource_claim_id = fresh i, rc_schedule_claim_id = claim,
            rc_session_id = cand_session_id candidate, rc_revision_id = cand_revision_id candidate,
            rc_task_id = cand_task_id candidate, rc_path = path,
            rc_repository_wide = scope_repository_wide (cand_scope candidate),
            rc_acquired_at = acquired_at, rc_expires_at = expires_at,
            rc_released_at = None, rc_release_reason = None \<rparr>)
       (enumerate 0 (scope_rows (cand_scope candidate)))"

definition insert_resource_claims ::
    "WorkspaceId \<Rightarrow> ScheduleClaimId \<Rightarrow> (nat \<Rightarrow> ResourceClaimId) \<Rightarrow> ScheduleCandidate \<Rightarrow> DateTime \<Rightarrow> DateTime
     \<Rightarrow> schedule_db \<Rightarrow> StateError + schedule_db" where
  "insert_resource_claims ws claim fresh candidate acquired_at expires_at db =
     (if \<not> scope_repository_wide (cand_scope candidate) \<and> scope_paths (cand_scope candidate) = []
      then Inl (InvalidRecord ''scheduled task has no writable resource scope'')
      else insert_resource_rows (resource_rows ws claim fresh candidate acquired_at expires_at) db)"

definition claimed_task ::
    "CandidateRecord \<Rightarrow> ClaimReadyTaskRequest \<Rightarrow> ScheduleClaimId \<Rightarrow> DateTime \<Rightarrow> ClaimedTask" where
  "claimed_task record request claim expires_at =
     (let c = cr_candidate record in
      \<lparr> ct_workspace_id = cr_workspace_id record, ct_schedule_claim_id = claim,
        ct_daemon_instance_id = req_daemon_instance_id request, ct_session_id = cand_session_id c,
        ct_revision_id = cand_revision_id c, ct_task_id = cand_task_id c, ct_node_key = cr_node_key record,
        ct_display_order = cand_graph_order c, ct_provider = cand_provider c, ct_profile = cr_profile record,
        ct_envelope = cr_envelope record, ct_scope = cand_scope c,
        ct_approved_base_commit = cr_approved_base_commit record,
        ct_acquired_at = req_now request, ct_expires_at = expires_at \<rparr>)"

section \<open>Operations\<close>

text \<open>\<open>claim_next_ready_task\<close> in parts: what the transaction reads, the capacity it computes, the row
  it writes for the selected candidate (whose task is the selected one), and the writes.\<close>

definition claim_snapshot ::
    "WorkspaceId \<Rightarrow> ClaimReadyTaskRequest \<Rightarrow> schedule_db
     \<Rightarrow> StateError + (ProviderId \<rightharpoonup> usize) \<times> ActiveResourceClaim list \<times> CandidateRecord list \<times> usize" where
  "claim_snapshot ws request db =
     (let now = req_now request; active = active_schedule_claims ws db now in
      and_then (ensure_daemon_owner db (req_daemon_instance_id request) now) (\<lambda>_.
      and_then (active_by_provider_query active) (\<lambda>by_provider.
      and_then (load_active_resource_claims ws db now) (\<lambda>active_claims.
      and_then (load_candidates ws db) (\<lambda>candidates.
      and_then (count_usize ''negative active schedule count'' (length active)) (\<lambda>active_count.
        Inr (by_provider, active_claims, candidates, active_count)))))))"

definition claim_capacity ::
    "ClaimReadyTaskRequest \<Rightarrow> (ProviderId \<rightharpoonup> usize) \<Rightarrow> usize \<Rightarrow> ScheduleCapacity" where
  "claim_capacity request by_provider active_count =
     \<lparr> global_limit = req_global_limit request, active_global = active_count,
       provider_limits = req_provider_limits request, active_by_provider = by_provider \<rparr>"

definition claim_row ::
    "WorkspaceId \<Rightarrow> ScheduleClaimId \<Rightarrow> ClaimReadyTaskRequest \<Rightarrow> ScheduleCandidate \<Rightarrow> DateTime
     \<Rightarrow> schedule_claim_row" where
  "claim_row ws claim request c expires_at =
     \<lparr> sc_workspace = ws, sc_schedule_claim_id = claim,
       sc_daemon_instance_id = req_daemon_instance_id request, sc_session_id = cand_session_id c,
       sc_revision_id = cand_revision_id c, sc_task_id = cand_task_id c,
       sc_provider_id = provider_as_str (cand_provider c), sc_acquired_at = req_now request,
       sc_expires_at = expires_at, sc_released_at = None, sc_release_reason = None \<rparr>"

definition claim_write ::
    "WorkspaceId \<Rightarrow> ScheduleClaimId \<Rightarrow> (nat \<Rightarrow> ResourceClaimId) \<Rightarrow> ClaimReadyTaskRequest \<Rightarrow> DateTime
     \<Rightarrow> CandidateRecord \<Rightarrow> schedule_db \<Rightarrow> StateError + ClaimedTask option \<times> schedule_db" where
  "claim_write ws claim fresh request expires_at cr db =
     and_then (insert_schedule_row (claim_row ws claim request (cr_candidate cr) expires_at) db) (\<lambda>db'.
     and_then (insert_resource_claims ws claim fresh (cr_candidate cr) (req_now request) expires_at db') (\<lambda>db''.
       Inr (Some (claimed_task cr request claim expires_at), db'')))"

definition claim_in_transaction ::
    "WorkspaceId \<Rightarrow> ScheduleClaimId \<Rightarrow> (nat \<Rightarrow> ResourceClaimId) \<Rightarrow> ClaimReadyTaskRequest \<Rightarrow> DateTime
     \<Rightarrow> schedule_db \<Rightarrow> (StateError + ClaimedTask option \<times> schedule_db) option" where
  "claim_in_transaction ws claim fresh request expires_at db =
     (case claim_snapshot ws request db of
        Inl e \<Rightarrow> Some (Inl e)
      | Inr (by_provider, active_claims, candidates, active_count) \<Rightarrow>
          (case select_ready_tasks (map cr_candidate candidates)
                  (claim_capacity request by_provider active_count) active_claims of
             None \<Rightarrow> None
           | Some (Inl e) \<Rightarrow> Some (Inl (InvalidConfig (scheduling_error_message e)))
           | Some (Inr []) \<Rightarrow> Some (Inr (None, db))
           | Some (Inr (task # _)) \<Rightarrow>
               (case find (\<lambda>cr. cand_task_id (cr_candidate cr) = task) candidates of
                  None \<Rightarrow> Some (Inl (InvalidRecord ''selected schedule task is missing''))
                | Some cr \<Rightarrow> Some (claim_write ws claim fresh request expires_at cr db))))"

definition claim_next_ready_task ::
    "add_signed \<Rightarrow> WorkspaceId \<Rightarrow> ScheduleClaimId \<Rightarrow> (nat \<Rightarrow> ResourceClaimId) \<Rightarrow> ClaimReadyTaskRequest
     \<Rightarrow> schedule_db \<Rightarrow> ((StateError + ClaimedTask option) \<times> schedule_db) option" where
  "claim_next_ready_task checked_add_signed ws claim fresh request db =
     (case and_then (validate_request request)
             (\<lambda>_. schedule_claim_expiry checked_add_signed (req_now request) (req_ttl request)) of
        Inl e \<Rightarrow> Some (Inl e, db)
      | Inr expires_at \<Rightarrow>
          if \<not> queued_schedule_candidate_exists ws db then Some (Inr None, db)
          else case claim_in_transaction ws claim fresh request expires_at
                      (expire_claims ws (req_now request) db) of
                 None \<Rightarrow> None
               | Some (Inl e) \<Rightarrow> Some (Inl e, db)
               | Some (Inr (claimed, db')) \<Rightarrow> Some (Inr claimed, db'))"

text \<open>The \<open>WHERE\<close> clauses of renewing and releasing.\<close>

definition renewable :: "WorkspaceId \<Rightarrow> ScheduleClaimId \<Rightarrow> DaemonInstanceId \<Rightarrow> DateTime \<Rightarrow> schedule_claim_row \<Rightarrow> bool" where
  "renewable ws claim daemon now s \<longleftrightarrow> sc_workspace s = ws \<and> sc_schedule_claim_id s = claim
     \<and> sc_daemon_instance_id s = daemon \<and> sc_released_at s = None \<and> sc_expires_at s > now"

definition releasable :: "WorkspaceId \<Rightarrow> ScheduleClaimId \<Rightarrow> DaemonInstanceId \<Rightarrow> schedule_claim_row \<Rightarrow> bool" where
  "releasable ws claim daemon s \<longleftrightarrow> sc_workspace s = ws \<and> sc_schedule_claim_id s = claim
     \<and> sc_daemon_instance_id s = daemon \<and> sc_released_at s = None"

definition held_by :: "WorkspaceId \<Rightarrow> ScheduleClaimId \<Rightarrow> resource_claim_row \<Rightarrow> bool" where
  "held_by ws claim r \<longleftrightarrow> rc_workspace r = ws \<and> rc_schedule_claim_id r = claim \<and> rc_released_at r = None"

definition renew_schedule_claim ::
    "add_signed \<Rightarrow> WorkspaceId \<Rightarrow> ScheduleClaimId \<Rightarrow> DaemonInstanceId \<Rightarrow> DateTime \<Rightarrow> TimeDelta
     \<Rightarrow> schedule_db \<Rightarrow> (StateError + DateTime) \<times> schedule_db" where
  "renew_schedule_claim checked_add_signed ws claim daemon now ttl db =
     (if ttl \<le> 0 then (Inl (InvalidRecord ''schedule claim TTL must be greater than zero''), db)
      else case checked_add_signed now ttl of
        None \<Rightarrow> (Inl (InvalidRecord ''schedule claim expiry overflow''), db)
      | Some expires_at \<Rightarrow>
        (case ensure_daemon_owner db daemon now of
           Inl e \<Rightarrow> (Inl e, db)
         | Inr _ \<Rightarrow>
           (let mine = renewable ws claim daemon now; held = held_by ws claim in
            if list_ex (\<lambda>s. mine s \<and> expires_at < sc_acquired_at s) (db_schedule_claims db)
                 then (Inl (Sqlite ''constraint failed: task_schedule_claims''), db)
               else if matching mine (db_schedule_claims db) \<noteq> 1
                 then (Inl (OptimisticConflict ''active schedule claim'' claim), db)
               else if list_ex (\<lambda>r. held r \<and> expires_at < rc_acquired_at r) (db_resource_claims db)
                 then (Inl (Sqlite ''constraint failed: resource_claims''), db)
               else (Inr expires_at, db
                 \<lparr> db_schedule_claims := update_rows mine (\<lambda>s. s \<lparr> sc_expires_at := expires_at \<rparr>)
                     (db_schedule_claims db),
                   db_resource_claims := update_rows held (\<lambda>r. r \<lparr> rc_expires_at := expires_at \<rparr>)
                     (db_resource_claims db) \<rparr>))))"

definition release_schedule_claim ::
    "WorkspaceId \<Rightarrow> ScheduleClaimId \<Rightarrow> DaemonInstanceId \<Rightarrow> DateTime \<Rightarrow> string
     \<Rightarrow> schedule_db \<Rightarrow> (StateError + bool) \<times> schedule_db" where
  "release_schedule_claim ws claim daemon released_at reason db =
     (let reason = trim reason in
      if reason = [] then (Inl (InvalidRecord ''schedule release reason must not be blank''), db)
      else
        let mine = releasable ws claim daemon; held = held_by ws claim;
            changed = matching mine (db_schedule_claims db);
            db' = db \<lparr> db_schedule_claims := update_rows mine
                      (\<lambda>s. s \<lparr> sc_released_at := Some released_at, sc_release_reason := Some reason \<rparr>)
                      (db_schedule_claims db) \<rparr>
        in (Inr (changed = 1),
            if changed = 1 then db' \<lparr> db_resource_claims := update_rows held
                 (\<lambda>r. r \<lparr> rc_released_at := Some released_at, rc_release_reason := Some reason \<rparr>)
                 (db_resource_claims db) \<rparr>
            else db'))"

end
