(* ===== verification/Partitioned_Store.thy ===== *)
theory Partitioned_Store
  imports Main
begin

text \<open>
  The contract behind the workspace partitions of the state database: an operation runs in one workspace,
  keeps that workspace's invariant and leaves what every other workspace sees unchanged. The stores of
  the \<open>orchestrator-state\<close> crate interpret it.
\<close>

locale partitioned_store =
  fixes run_in :: "'w \<Rightarrow> 'd \<Rightarrow> 'd \<Rightarrow> bool" and view :: "'w \<Rightarrow> 'd \<Rightarrow> 'v" and inv :: "'w \<Rightarrow> 'd \<Rightarrow> bool"
  assumes run_keeps: "run_in w d d' \<Longrightarrow> inv w d \<Longrightarrow> inv w d'"
    and run_frame: "run_in w d d' \<Longrightarrow> v \<noteq> w \<Longrightarrow> view v d' = view v d"
    and inv_view: "view w d' = view w d \<Longrightarrow> inv w d \<Longrightarrow> inv w d'"
begin

definition any_run :: "'d \<Rightarrow> 'd \<Rightarrow> bool" where
  "any_run d d' \<longleftrightarrow> (\<exists>w. run_in w d d')"

definition run_outside :: "'w \<Rightarrow> 'd \<Rightarrow> 'd \<Rightarrow> bool" where
  "run_outside v d d' \<longleftrightarrow> (\<exists>w. w \<noteq> v \<and> run_in w d d')"

lemma any_run_keeps: "any_run d d' \<Longrightarrow> inv v d \<Longrightarrow> inv v d'"
  unfolding any_run_def using run_keeps run_frame inv_view by metis

lemma reachable_keeps: "any_run\<^sup>*\<^sup>* d d' \<Longrightarrow> inv v d \<Longrightarrow> inv v d'"
  by (induction rule: rtranclp_induct) (auto intro: any_run_keeps)

lemma isolated: "(run_outside v)\<^sup>*\<^sup>* d d' \<Longrightarrow> view v d' = view v d"
proof (induction rule: rtranclp_induct)
  case (step y z)
  then show ?case using run_frame unfolding run_outside_def by metis
qed simp

end

end
