(* ===== verification/Claim_Safety.thy ===== *)
theory Claim_Safety
  imports Schedule_Claims Partitioned_Store
begin

text \<open>
  Safety of the claim tables: the invariant that unreleased claims of a workspace never overlap, kept
  by every operation of \<open>Schedule_Claims\<close> at any time and in any order, and the capacity limits.
\<close>

section \<open>The invariant\<close>

definition live_claim :: "WorkspaceId \<Rightarrow> schedule_db \<Rightarrow> schedule_claim_row \<Rightarrow> bool" where
  "live_claim ws db s \<longleftrightarrow> s \<in> set (db_schedule_claims db) \<and> sc_workspace s = ws \<and> sc_released_at s = None"

definition live_resource :: "WorkspaceId \<Rightarrow> schedule_db \<Rightarrow> resource_claim_row \<Rightarrow> bool" where
  "live_resource ws db r \<longleftrightarrow> r \<in> set (db_resource_claims db) \<and> rc_workspace r = ws \<and> rc_released_at r = None"

definition row_scope :: "resource_claim_row \<Rightarrow> ResourceScope" where
  "row_scope r = \<lparr> scope_paths = (case rc_path r of None \<Rightarrow> [] | Some p \<Rightarrow> [RepoPath p]),
                   scope_repository_wide = rc_repository_wide r \<rparr>"

definition claim_ids_distinct :: "WorkspaceId \<Rightarrow> schedule_db \<Rightarrow> bool" where
  "claim_ids_distinct ws db \<longleftrightarrow> distinct (map sc_schedule_claim_id (rows_of sc_workspace ws (db_schedule_claims db)))"

definition resources_backed :: "WorkspaceId \<Rightarrow> schedule_db \<Rightarrow> bool" where
  "resources_backed ws db \<longleftrightarrow>
     (\<forall>r. live_resource ws db r \<longrightarrow> (\<exists>s. live_claim ws db s
        \<and> sc_schedule_claim_id s = rc_schedule_claim_id r \<and> sc_expires_at s = rc_expires_at r))"

definition claims_hold_resources :: "WorkspaceId \<Rightarrow> schedule_db \<Rightarrow> bool" where
  "claims_hold_resources ws db \<longleftrightarrow>
     (\<forall>s. live_claim ws db s \<longrightarrow>
        (\<exists>r. live_resource ws db r \<and> rc_schedule_claim_id r = sc_schedule_claim_id s))"

definition no_overlapping_claims :: "WorkspaceId \<Rightarrow> schedule_db \<Rightarrow> bool" where
  "no_overlapping_claims ws db \<longleftrightarrow>
     (\<forall>r r'. live_resource ws db r \<longrightarrow> live_resource ws db r'
        \<longrightarrow> rc_schedule_claim_id r \<noteq> rc_schedule_claim_id r' \<longrightarrow> \<not> scope_overlaps (row_scope r) (row_scope r'))"

definition claims_invariant :: "WorkspaceId \<Rightarrow> schedule_db \<Rightarrow> bool" where
  "claims_invariant ws db \<longleftrightarrow>
     claim_ids_distinct ws db \<and> resources_backed ws db \<and> claims_hold_resources ws db
   \<and> no_overlapping_claims ws db"

text \<open>What the schema declares: unique keys of the tables of the candidate query, and the providers that
  \<open>task_schedule_claims\<close> lists.\<close>

definition schema_keys :: "WorkspaceId \<Rightarrow> schedule_db \<Rightarrow> bool" where
  "schema_keys ws db \<longleftrightarrow>
     distinct (map st_task_id (rows_of st_workspace ws (db_session_tasks db)))
   \<and> distinct (map t_task_id (rows_of t_workspace ws (db_tasks db)))
   \<and> distinct (map gr_revision_id (rows_of gr_workspace ws (db_graph_revisions db)))
   \<and> distinct (map gh_session_id (rows_of gh_workspace ws (db_graph_heads db)))
   \<and> sc_provider_id ` set (rows_of sc_workspace ws (db_schedule_claims db)) \<subseteq> {''gemini'', ''codex'', ''claude''}"

section \<open>Row updates\<close>

lemma rows_of_update:
  assumes "\<And>r. workspace (f r) = workspace r"
  shows "rows_of workspace ws (update_rows p f rows) = update_rows p f (rows_of workspace ws rows)"
  using assms by (induction rows) (auto simp: rows_of_def update_rows_def)

lemma rows_of_append [simp]: "rows_of workspace ws (xs @ ys) = rows_of workspace ws xs @ rows_of workspace ws ys"
  by (simp add: rows_of_def)

text \<open>What the invariant of a workspace reads.\<close>

lemma claims_invariant_cong:
  assumes "rows_of sc_workspace ws (db_schedule_claims db') = rows_of sc_workspace ws (db_schedule_claims db)"
    and "rows_of rc_workspace ws (db_resource_claims db') = rows_of rc_workspace ws (db_resource_claims db)"
  shows "claims_invariant ws db' \<longleftrightarrow> claims_invariant ws db"
proof -
  have "live_claim ws db' s \<longleftrightarrow> live_claim ws db s" for s
    using arg_cong [OF assms(1), of set] by (auto simp: live_claim_def)
  moreover have "live_resource ws db' r \<longleftrightarrow> live_resource ws db r" for r
    using arg_cong [OF assms(2), of set] by (auto simp: live_resource_def)
  ultimately show ?thesis
    by (simp add: claims_invariant_def claim_ids_distinct_def resources_backed_def
        claims_hold_resources_def no_overlapping_claims_def assms(1))
qed

lemma live_claim_unique:
  assumes "claim_ids_distinct ws db" "live_claim ws db s" "live_claim ws db s'"
    and "sc_schedule_claim_id s = sc_schedule_claim_id s'"
  shows "s = s'"
  using assms by (auto simp: claim_ids_distinct_def live_claim_def distinct_map inj_on_def)

section \<open>Expiry\<close>

lemma expire_live_claim:
  "live_claim ws (expire_claims ws now db) s \<longleftrightarrow> live_claim ws db s \<and> now < sc_expires_at s"
  using update_rows_drops [of "\<lambda>s. sc_workspace s = ws \<and> sc_released_at s = None \<and> sc_expires_at s \<le> now"
      "\<lambda>s. sc_workspace s = ws \<and> sc_released_at s = None"
      "\<lambda>s. s \<lparr> sc_released_at := Some now, sc_release_reason := Some ''schedule claim expired'' \<rparr>" s
      "db_schedule_claims db"]
  unfolding live_claim_def expire_claims_def by (simp add: not_le) auto

lemma expire_live_resource:
  "live_resource ws (expire_claims ws now db) r \<longleftrightarrow> live_resource ws db r \<and> now < rc_expires_at r"
  using update_rows_drops [of "\<lambda>r. rc_workspace r = ws \<and> rc_released_at r = None \<and> rc_expires_at r \<le> now"
      "\<lambda>r. rc_workspace r = ws \<and> rc_released_at r = None"
      "\<lambda>r. r \<lparr> rc_released_at := Some now, rc_release_reason := Some ''schedule claim expired'' \<rparr>" r
      "db_resource_claims db"]
  unfolding live_resource_def expire_claims_def by (simp add: not_le) auto

lemma expire_claim_ids:
  "claim_ids_distinct ws (expire_claims ws now db) \<longleftrightarrow> claim_ids_distinct ws db"
  by (simp add: claim_ids_distinct_def expire_claims_def rows_of_update map_update_rows)

lemma expire_invariant:
  assumes "claims_invariant ws db"
  shows "claims_invariant ws (expire_claims ws now db)"
proof -
  have i: "claim_ids_distinct ws db" "resources_backed ws db" "claims_hold_resources ws db"
    "no_overlapping_claims ws db" using assms by (simp_all add: claims_invariant_def)
  have "resources_backed ws (expire_claims ws now db)"
    using i(2) by (fastforce simp: resources_backed_def expire_live_claim expire_live_resource)
  moreover have "claims_hold_resources ws (expire_claims ws now db)"
    unfolding claims_hold_resources_def
  proof (intro allI impI)
    fix s assume s: "live_claim ws (expire_claims ws now db) s"
    then have l: "live_claim ws db s" "now < sc_expires_at s" by (simp_all add: expire_live_claim)
    then obtain r where r: "live_resource ws db r" "rc_schedule_claim_id r = sc_schedule_claim_id s"
      using i(3) by (auto simp: claims_hold_resources_def)
    then obtain s' where "live_claim ws db s'" "sc_schedule_claim_id s' = rc_schedule_claim_id r"
      "sc_expires_at s' = rc_expires_at r" using i(2) by (auto simp: resources_backed_def)
    with r l live_claim_unique [OF i(1)] have "rc_expires_at r = sc_expires_at s" by metis
    with r l show "\<exists>r. live_resource ws (expire_claims ws now db) r
        \<and> rc_schedule_claim_id r = sc_schedule_claim_id s" by (auto simp: expire_live_resource)
  qed
  ultimately show ?thesis
    using i(1,4) by (auto simp: claims_invariant_def expire_claim_ids no_overlapping_claims_def
        expire_live_resource)
qed

section \<open>What a claim sees\<close>

lemma active_resource_rows_live:
  assumes "resources_backed ws db" "live_resource ws db r" "now < rc_expires_at r"
  shows "r \<in> set (active_resource_rows ws db now)"
proof -
  obtain s where s: "live_claim ws db s" "sc_schedule_claim_id s = rc_schedule_claim_id r"
    "sc_expires_at s = rc_expires_at r" using assms(1,2) by (auto simp: resources_backed_def)
  then show ?thesis using assms(2,3)
    by (force simp: active_resource_rows_def live_resource_def live_claim_def)
qed

lemma group_claims_covers:
  assumes "(r, p) \<in> set rows"
  shows "\<exists>claim \<in> set (group_claims rows). claim_task_id claim = rc_task_id r
     \<and> (rc_repository_wide r \<longrightarrow> scope_repository_wide (claim_scope claim))
     \<and> (\<forall>q. p = Some q \<longrightarrow> q \<in> set (scope_paths (claim_scope claim)))"
proof
  have "rc_task_id r \<in> set (remdups_adj (map (\<lambda>(r, p). rc_task_id r) rows))" using assms by force
  then show "task_claim rows (rc_task_id r) \<in> set (group_claims rows)" by (simp add: group_claims_def)
  have "(r, p) \<in> set (filter (\<lambda>(r', p). rc_task_id r' = rc_task_id r) rows)" using assms by simp
  then show "claim_task_id (task_claim rows (rc_task_id r)) = rc_task_id r
     \<and> (rc_repository_wide r \<longrightarrow> scope_repository_wide (claim_scope (task_claim rows (rc_task_id r))))
     \<and> (\<forall>q. p = Some q \<longrightarrow> q \<in> set (scope_paths (claim_scope (task_claim rows (rc_task_id r)))))"
    by (auto simp: task_claim_def Let_def list_ex_iff map_filter_def intro!: rev_image_eqI)
qed

lemma resource_path_ok:
  "resource_path r = Inr p \<Longrightarrow> p = map_option RepoPath (rc_path r)"
  by (auto simp: resource_path_def and_then_eq_Inr RepoPath_try_from_def RepoPath_new_def
      split: option.splits if_splits)

lemma load_active_covers:
  assumes "load_active_resource_claims ws db now = Inr claims" and "r \<in> set (active_resource_rows ws db now)"
  shows "\<exists>claim \<in> set claims. \<forall>x. scope_overlaps (row_scope r) x \<longrightarrow> scope_overlaps (claim_scope claim) x"
proof -
  let ?rows = "active_resource_rows ws db now"
  obtain paths where p: "try_map resource_path ?rows = Inr paths" "claims = group_claims (zip ?rows paths)"
    using assms(1) by (auto simp: load_active_resource_claims_def Let_def and_then_eq_Inr)
  have all: "list_all2 (\<lambda>r p. resource_path r = Inr p) ?rows paths" by (rule try_map_ok [OF p(1)])
  obtain i where i: "i < length ?rows" "r = ?rows ! i" using assms(2) by (auto simp: in_set_conv_nth)
  with all have "(r, paths ! i) \<in> set (zip ?rows paths)"
    and path: "paths ! i = map_option RepoPath (rc_path r)"
    by (auto simp: list_all2_conv_all_nth in_set_zip intro!: resource_path_ok)
  from group_claims_covers [OF this(1)] show ?thesis
    unfolding p(2) path
    by (rule bexE) (rule bexI, auto simp: scope_overlaps_def row_scope_def list_ex_iff split: option.splits)
qed

lemma resource_rows_within:
  assumes "r \<in> set (resource_rows ws claim fresh c acquired expires)" and "scope_overlaps x (row_scope r)"
  shows "scope_overlaps x (cand_scope c)"
proof (cases "scope_repository_wide (cand_scope c)")
  case True
  then show ?thesis by (simp add: scope_overlaps_def)
next
  case False
  with assms(1) obtain p where "p \<in> set (scope_paths (cand_scope c))"
    "row_scope r = \<lparr> scope_paths = [p], scope_repository_wide = False \<rparr>"
    by (auto simp: resource_rows_def scope_rows_def row_scope_def RepoPath_to_string_def in_set_enumerate_eq)
      (metis as_path.simps RepoPath.exhaust nth_mem)
  then show ?thesis using assms(2) by (auto simp: scope_overlaps_def list_ex_iff)
qed

lemma scope_overlaps_sym: "scope_overlaps a b \<longleftrightarrow> scope_overlaps b a"
  unfolding scope_overlaps_def list_ex_iff using repo_paths_overlap_sym by blast

lemma resource_rows_fields:
  assumes "r \<in> set (resource_rows ws claim fresh c acquired expires)"
  shows "rc_workspace r = ws" "rc_schedule_claim_id r = claim" "rc_expires_at r = expires" "rc_released_at r = None"
  using assms by (auto simp: resource_rows_def)

lemma insert_resource_rows_ok:
  "insert_resource_rows rows db = Inr db' \<Longrightarrow> db' = db \<lparr> db_resource_claims := db_resource_claims db @ rows \<rparr>"
  by (induction rows db arbitrary: db' rule: insert_resource_rows.induct) (auto split: if_splits)

section \<open>Candidates\<close>

lemma length_filter_key:
  assumes "distinct (map key xs)"
  shows "length (filter (\<lambda>x. key x = k \<and> q x) xs) \<le> 1"
  using assms
proof (induction xs)
  case (Cons x xs)
  have "filter (\<lambda>x. key x = k \<and> q x) xs = []" if "key x = k"
    using Cons.prems that by (auto simp: filter_empty_conv image_iff)
  then show ?case using Cons by auto
qed simp

lemma length_concat_singleton:
  assumes "length xs \<le> 1" "\<And>x. x \<in> set xs \<Longrightarrow> length (g x) \<le> 1"
  shows "length (concat (map g xs)) \<le> 1"
  using assms by (cases xs) (auto simp: le_Suc_eq)

lemma distinct_concat_map:
  assumes "distinct (map f xs)" "\<And>x. x \<in> set xs \<Longrightarrow> length (g x) \<le> 1"
    "\<And>x y. x \<in> set xs \<Longrightarrow> y \<in> set (g x) \<Longrightarrow> h y = f x"
  shows "distinct (map h (concat (map g xs)))"
  using assms
proof (induction xs)
  case (Cons x xs)
  have "distinct (map h (g x))" using Cons.prems(2) [of x] by (cases "g x") auto
  moreover have "h ` set (g x) \<inter> h ` set (concat (map g xs)) = {}"
  proof -
    have 1: "h ` set (g x) \<subseteq> {f x}" using Cons.prems(3) [of x] by auto
    have 2: "h ` set (concat (map g xs)) \<subseteq> f ` set xs" using Cons.prems(3) by fastforce
    have "{f x} \<inter> f ` set xs = {}" using Cons.prems(1) by simp
    then show ?thesis using Int_mono [OF 1 2] by (metis subset_empty)
  qed
  ultimately show ?case using Cons by (auto simp: image_Un)
qed simp

lemma joined_tasks_member:
  assumes "(st, t) \<in> set (joined_tasks ws db)"
  shows "t_task_id t = st_task_id st \<and> t \<in> set (db_tasks db) \<and> st \<in> set (db_session_tasks db)"
  using assms by (auto simp: joined_tasks_def)

lemma joined_tasks_distinct:
  assumes "schema_keys ws db"
  shows "distinct (map (\<lambda>(st, t). st_task_id st) (joined_tasks ws db))"
  unfolding joined_tasks_def
proof (rule distinct_concat_map)
  show "distinct (map st_task_id (rows_of st_workspace ws (db_session_tasks db)))"
    using assms by (simp add: schema_keys_def)
next
  fix st assume "st \<in> set (rows_of st_workspace ws (db_session_tasks db))"
  show "length (concat (map (\<lambda>t. concat (map (\<lambda>gr. concat (map (\<lambda>gh. [(st, t)])
         (filter (\<lambda>gh. gh_session_id gh = st_session_id st \<and> gh_revision_id gh = st_revision_id st)
           (rows_of gh_workspace ws (db_graph_heads db)))))
         (filter (\<lambda>gr. gr_revision_id gr = st_revision_id st \<and> gr_status gr = ''approved'')
           (rows_of gr_workspace ws (db_graph_revisions db)))))
         (filter (\<lambda>t. t_task_id t = st_task_id st \<and> t_archived_at t = None)
           (rows_of t_workspace ws (db_tasks db))))) \<le> 1"
    using assms unfolding schema_keys_def
    by (intro length_concat_singleton length_filter_key) auto
qed auto

lemma candidate_record_task:
  "candidate_record ws db row = Inr record \<Longrightarrow> cand_task_id (cr_candidate record) = t_task_id (snd row)"
  by (auto simp: candidate_record_def Let_def and_then_eq_Inr split: option.splits if_splits)

lemma load_candidates_distinct:
  assumes "load_candidates ws db = Inr records" and "schema_keys ws db"
  shows "distinct (map (\<lambda>r. cand_task_id (cr_candidate r)) records)"
proof -
  let ?rows = "sort_key (\<lambda>(st, t). (t_created_at t, st_display_order st, st_task_id st)) (joined_tasks ws db)"
  have all: "list_all2 (\<lambda>row r. candidate_record ws db row = Inr r) ?rows records"
    using try_map_ok assms(1) unfolding load_candidates_def by blast
  have "map (\<lambda>r. cand_task_id (cr_candidate r)) records = map (\<lambda>row. t_task_id (snd row)) ?rows"
    using all by (induction rule: list_all2_induct) (auto dest: candidate_record_task)
  also have "\<dots> = map (\<lambda>(st, t). st_task_id st) ?rows"
    using joined_tasks_member by (fastforce intro!: map_cong)
  also have "distinct \<dots>"
    using joined_tasks_distinct [OF assms(2)] by (simp add: distinct_map)
  finally show ?thesis .
qed

lemma find_unique_key:
  assumes "distinct (map key xs)" "x \<in> set xs"
  shows "find (\<lambda>y. key y = key x) xs = Some x"
  using assms by (induction xs) auto

section \<open>Claiming\<close>

lemma claim_capacity_valid:
  assumes "validate_request request = Inr ()"
  shows "validate_capacity (claim_capacity request by_provider n) = Inr ()"
  using assms
  by (auto simp: validate_request_def validate_capacity_def claim_capacity_def list_ex_iff find_Some_iff
      split: if_splits option.splits)

lemma claim_in_transaction_panic_free:
  assumes "validate_request request = Inr ()"
  shows "\<exists>r. claim_in_transaction ws claim fresh request expires_at db = Some r"
proof (cases "claim_snapshot ws request db")
  case (Inr q)
  obtain bp ac cs n where q: "q = (bp, ac, cs, n)" by (metis prod_cases4)
  obtain tasks where "select_ready_tasks (map cr_candidate cs) (claim_capacity request bp n) ac = Some (Inr tasks)"
    using select_ready_tasks_ok [OF claim_capacity_valid [OF assms]] by metis
  then show ?thesis by (cases tasks) (auto simp: claim_in_transaction_def Inr q split: option.splits)
qed (simp add: claim_in_transaction_def)

lemma claim_write_ok:
  assumes "claim_write ws claim fresh request expires_at cr db = Inr (claimed, db')"
  shows "claimed = Some (claimed_task cr request claim expires_at)"
    and "schedule_row_admissible (claim_row ws claim request (cr_candidate cr) expires_at) (db_schedule_claims db)"
    and "scope_rows (cand_scope (cr_candidate cr)) \<noteq> []"
    and "db' = db \<lparr> db_schedule_claims := db_schedule_claims db @ [claim_row ws claim request (cr_candidate cr) expires_at],
               db_resource_claims := db_resource_claims db
                 @ resource_rows ws claim fresh (cr_candidate cr) (req_now request) expires_at \<rparr>"
  using assms
  by (auto simp: claim_write_def and_then_eq_Inr insert_schedule_row_def insert_resource_claims_def
      scope_rows_def dest!: insert_resource_rows_ok split: if_splits)

text \<open>A committed claim: which candidate it is for, and what it adds to the tables.\<close>

lemma claim_in_transaction_commits:
  assumes "claim_in_transaction ws claim fresh request expires_at db = Some (Inr (claimed, db'))"
    and "validate_request request = Inr ()" and "schema_keys ws db"
  obtains (idle) "claimed = None" "db' = db"
  | (claimed) cr by_provider active_claims where
      "claim_write ws claim fresh request expires_at cr db = Inr (claimed, db')"
      "active_by_provider_query (active_schedule_claims ws db (req_now request)) = Inr by_provider"
      "load_active_resource_claims ws db (req_now request) = Inr active_claims"
      "length (active_schedule_claims ws db (req_now request)) < 2 ^ 63"
      "startable (cr_candidate cr) (claim_capacity request by_provider
         (of_nat (length (active_schedule_claims ws db (req_now request))))) active_claims"
proof -
  let ?active = "active_schedule_claims ws db (req_now request)"
  obtain bp ac candidates n where snap: "claim_snapshot ws request db = Inr (bp, ac, candidates, n)"
    using assms(1) by (auto simp: claim_in_transaction_def split: sum.splits)
  then have q: "active_by_provider_query ?active = Inr bp" "load_active_resource_claims ws db (req_now request) = Inr ac"
      "load_candidates ws db = Inr candidates" "n = of_nat (length ?active)" "length ?active < 2 ^ 63"
    by (auto simp: claim_snapshot_def Let_def and_then_eq_Inr count_usize_def split: if_splits)
  have valid: "validate_capacity (claim_capacity request bp n) = Inr ()"
    by (rule claim_capacity_valid [OF assms(2)])
  obtain tasks where sel: "select_ready_tasks (map cr_candidate candidates) (claim_capacity request bp n) ac = Some (Inr tasks)"
    using select_ready_tasks_ok [OF valid] by metis
  show ?thesis
  proof (cases tasks)
    case Nil
    with assms(1) sel snap idle show ?thesis by (simp add: claim_in_transaction_def)
  next
    case (Cons task more)
    then obtain cr where cr: "cr \<in> set candidates" "cand_task_id (cr_candidate cr) = task"
      "startable (cr_candidate cr) (claim_capacity request bp n) ac"
      using select_ready_first [OF valid sel [unfolded Cons]] by auto
    have "find (\<lambda>r. cand_task_id (cr_candidate r) = task) candidates = Some cr"
      using find_unique_key [OF load_candidates_distinct [OF q(3) assms(3)] cr(1)] cr(2) by simp
    with assms(1) sel snap Cons
    have "claim_write ws claim fresh request expires_at cr db = Inr (claimed, db')"
      by (simp add: claim_in_transaction_def)
    with claimed q cr(3) show ?thesis by blast
  qed
qed

text \<open>Adding a claim whose scope the loaded claims do not cover keeps the invariant.\<close>

lemma claim_write_invariant:
  assumes inv: "claims_invariant ws db"
    and unexpired: "\<And>r. live_resource ws db r \<Longrightarrow> req_now request < rc_expires_at r"
    and w: "claim_write ws claim fresh request expires_at cr db = Inr (claimed, db')"
    and ac: "load_active_resource_claims ws db (req_now request) = Inr active_claims"
    and free: "\<forall>c \<in> set active_claims. \<not> scope_overlaps (claim_scope c) (cand_scope (cr_candidate cr))"
  shows "claims_invariant ws db'"
proof -
  let ?row = "claim_row ws claim request (cr_candidate cr) expires_at"
  let ?new = "resource_rows ws claim fresh (cr_candidate cr) (req_now request) expires_at"
  note fields = resource_rows_fields
  have i: "claim_ids_distinct ws db" "resources_backed ws db" "claims_hold_resources ws db"
    "no_overlapping_claims ws db" using inv by (simp_all add: claims_invariant_def)
  have db': "db_schedule_claims db' = db_schedule_claims db @ [?row]"
    "db_resource_claims db' = db_resource_claims db @ ?new"
    using claim_write_ok(4) [OF w] by simp_all
  have claims': "live_claim ws db' s \<longleftrightarrow> live_claim ws db s \<or> s = ?row" for s
    by (auto simp: live_claim_def db' claim_row_def)
  have res': "live_resource ws db' r \<longleftrightarrow> live_resource ws db r \<or> r \<in> set ?new" for r
    using fields by (auto simp: live_resource_def db')
  have fresh_id: "\<And>s. s \<in> set (db_schedule_claims db) \<Longrightarrow> sc_workspace s = ws \<Longrightarrow> sc_schedule_claim_id s \<noteq> claim"
    using claim_write_ok(2) [OF w] by (auto simp: schedule_row_admissible_def claim_row_def)
  have ids: "claim_ids_distinct ws db'"
    using i(1) fresh_id by (auto simp: claim_ids_distinct_def db' rows_of_def claim_row_def)
  have backed: "resources_backed ws db'"
    unfolding resources_backed_def
  proof (intro allI impI)
    fix r assume "live_resource ws db' r"
    then consider "live_resource ws db r" | "r \<in> set ?new" unfolding res' by blast
    then show "\<exists>s. live_claim ws db' s \<and> sc_schedule_claim_id s = rc_schedule_claim_id r \<and> sc_expires_at s = rc_expires_at r"
    proof cases
      case 1
      with i(2) show ?thesis unfolding claims' resources_backed_def by blast
    next
      case 2
      with fields(2,3) [of r] show ?thesis unfolding claims' by (intro exI [of _ ?row]) (simp add: claim_row_def)
    qed
  qed
  have "length ?new = length (scope_rows (cand_scope (cr_candidate cr)))" by (simp add: resource_rows_def)
  with claim_write_ok(3) [OF w] have "?new \<noteq> []" by (metis length_0_conv)
  then obtain n where "n \<in> set ?new" by (cases ?new) auto
  then have "rc_schedule_claim_id n = sc_schedule_claim_id ?row" and n: "n \<in> set ?new"
    using fields(2) [of n] by (simp_all add: claim_row_def)
  then have holds: "claims_hold_resources ws db'"
    using i(3) unfolding claims_hold_resources_def res' claims' by metis
  have cross: "\<not> scope_overlaps (row_scope r) (row_scope r')" if "live_resource ws db r" "r' \<in> set ?new" for r r'
  proof
    assume "scope_overlaps (row_scope r) (row_scope r')"
    then have "scope_overlaps (row_scope r) (cand_scope (cr_candidate cr))"
      by (rule resource_rows_within [OF that(2)])
    moreover have "r \<in> set (active_resource_rows ws db (req_now request))"
      by (rule active_resource_rows_live [OF i(2) that(1) unexpired [OF that(1)]])
    ultimately show False using load_active_covers [OF ac] free by blast
  qed
  have "no_overlapping_claims ws db'"
    unfolding no_overlapping_claims_def res'
    using i(4) cross fields(2) scope_overlaps_sym unfolding no_overlapping_claims_def by metis
  with ids backed holds show ?thesis by (simp add: claims_invariant_def)
qed

lemma schema_keys_expire [simp]: "schema_keys ws (expire_claims ws' now db) \<longleftrightarrow> schema_keys ws db"
proof -
  have "map sc_provider_id (rows_of sc_workspace ws (db_schedule_claims (expire_claims ws' now db)))
      = map sc_provider_id (rows_of sc_workspace ws (db_schedule_claims db))"
    by (simp add: expire_claims_def rows_of_update map_update_rows)
  from arg_cong [OF this, of set] show ?thesis by (simp add: schema_keys_def expire_claims_def)
qed

lemma claim_invariant:
  assumes "claims_invariant ws db" and "schema_keys ws db"
    and "claim_next_ready_task add ws claim fresh request db = Some (result, db')"
  shows "claims_invariant ws db'"
proof (cases "db' = db")
  case False
  let ?db = "expire_claims ws (req_now request) db"
  obtain expires_at claimed where v: "validate_request request = Inr ()"
    and c: "claim_in_transaction ws claim fresh request expires_at ?db = Some (Inr (claimed, db'))"
    using assms(3) False unfolding claim_next_ready_task_def
    by (auto simp: and_then_eq_Inr split: sum.splits option.splits if_splits prod.splits)
  have inv: "claims_invariant ws ?db" by (rule expire_invariant [OF assms(1)])
  have "schema_keys ws ?db" using assms(2) by simp
  from c v this show ?thesis
  proof (cases rule: claim_in_transaction_commits)
    case idle
    with inv show ?thesis by simp
  next
    case (claimed cr bp ac)
    show ?thesis
      by (rule claim_write_invariant [OF inv _ claimed(1) claimed(3)])
        (use claimed(5) in \<open>auto simp: expire_live_resource startable_def\<close>)
  qed
qed (simp add: assms)

section \<open>Renewing and releasing\<close>

lemma matching_one:
  assumes "matching p rows = 1" obtains s where "s \<in> set rows" "p s"
proof -
  have "filter p rows \<noteq> []" using assms by (auto simp: matching_def)
  then show ?thesis using that by (auto simp: filter_empty_conv)
qed

lemma matching_le_one:
  assumes "distinct (map key (filter q rows))" "\<And>r. p r \<Longrightarrow> q r \<and> key r = k"
  shows "matching p rows \<le> 1"
proof -
  have "filter p rows = filter (\<lambda>r. key r = k \<and> p r) (filter q rows)"
    using assms(2) by (auto intro!: filter_cong)
  then show ?thesis using length_filter_key [OF assms(1)] by (simp add: matching_def)
qed

lemma update_rows_none: "matching p rows = 0 \<Longrightarrow> update_rows p f rows = rows"
  unfolding matching_def update_rows_def by (simp add: filter_empty_conv map_idI)

lemma renew_commits:
  assumes "renew_schedule_claim add ws claim daemon now ttl db = (Inr e, db')"
  shows "db' = db
       \<lparr> db_schedule_claims := update_rows (renewable ws claim daemon now) (\<lambda>s. s \<lparr> sc_expires_at := e \<rparr>)
           (db_schedule_claims db),
         db_resource_claims := update_rows (held_by ws claim) (\<lambda>r. r \<lparr> rc_expires_at := e \<rparr>)
           (db_resource_claims db) \<rparr>"
    and "\<exists>s. live_claim ws db s \<and> renewable ws claim daemon now s"
proof -
  have one: "matching (renewable ws claim daemon now) (db_schedule_claims db) = 1"
    and "db' = db
       \<lparr> db_schedule_claims := update_rows (renewable ws claim daemon now) (\<lambda>s. s \<lparr> sc_expires_at := e \<rparr>)
           (db_schedule_claims db),
         db_resource_claims := update_rows (held_by ws claim) (\<lambda>r. r \<lparr> rc_expires_at := e \<rparr>)
           (db_resource_claims db) \<rparr>"
    using assms unfolding renew_schedule_claim_def
    by (auto simp: Let_def split: if_splits option.splits sum.splits)
  then show "db' = db
       \<lparr> db_schedule_claims := update_rows (renewable ws claim daemon now) (\<lambda>s. s \<lparr> sc_expires_at := e \<rparr>)
           (db_schedule_claims db),
         db_resource_claims := update_rows (held_by ws claim) (\<lambda>r. r \<lparr> rc_expires_at := e \<rparr>)
           (db_resource_claims db) \<rparr>" by blast
  show "\<exists>s. live_claim ws db s \<and> renewable ws claim daemon now s"
    using matching_one [OF one] by (metis live_claim_def renewable_def)
qed

lemma renew_error: "renew_schedule_claim add ws claim daemon now ttl db = (Inl err, db') \<Longrightarrow> db' = db"
  by (auto simp: renew_schedule_claim_def Let_def split: if_splits option.splits sum.splits)

lemma update_rows_keeps:
  assumes "\<And>r. q (f r) \<longleftrightarrow> q r"
  shows "r' \<in> set (update_rows p f rows) \<and> q r' \<longleftrightarrow> (\<exists>r. r \<in> set rows \<and> q r \<and> r' = (if p r then f r else r))"
  using assms by (auto simp: update_rows_def)

lemma renew_invariant:
  assumes inv: "claims_invariant ws db"
    and rn: "renew_schedule_claim add ws claim daemon now ttl db = (Inr e, db')"
  shows "claims_invariant ws db'"
proof -
  define f where "f r = (if held_by ws claim r then r \<lparr> rc_expires_at := e \<rparr> else r)" for r :: resource_claim_row
  define g where "g s = (if renewable ws claim daemon now s then s \<lparr> sc_expires_at := e \<rparr> else s)" for s :: schedule_claim_row
  note db' = renew_commits(1) [OF rn]
  obtain s0 where s0: "live_claim ws db s0" "renewable ws claim daemon now s0" using renew_commits(2) [OF rn] by blast
  have i: "claim_ids_distinct ws db" "resources_backed ws db" "claims_hold_resources ws db"
    "no_overlapping_claims ws db" using inv by (simp_all add: claims_invariant_def)
  have same: "rc_schedule_claim_id (f r) = rc_schedule_claim_id r" "row_scope (f r) = row_scope r"
    "sc_schedule_claim_id (g s) = sc_schedule_claim_id s" for r s
    by (simp_all add: f_def g_def row_scope_def)
  have res': "live_resource ws db' r' \<longleftrightarrow> (\<exists>r. live_resource ws db r \<and> r' = f r)" for r'
    using update_rows_keeps [of "\<lambda>r. rc_workspace r = ws \<and> rc_released_at r = None" "\<lambda>r. r \<lparr> rc_expires_at := e \<rparr>"
        r' "held_by ws claim" "db_resource_claims db"]
    by (simp add: live_resource_def db' f_def conj_assoc)
  have claims': "live_claim ws db' s' \<longleftrightarrow> (\<exists>s. live_claim ws db s \<and> s' = g s)" for s'
    using update_rows_keeps [of "\<lambda>s. sc_workspace s = ws \<and> sc_released_at s = None" "\<lambda>s. s \<lparr> sc_expires_at := e \<rparr>"
        s' "renewable ws claim daemon now" "db_schedule_claims db"]
    by (simp add: live_claim_def db' g_def conj_assoc)
  have ids: "claim_ids_distinct ws db'"
    using i(1) by (simp add: claim_ids_distinct_def db' rows_of_update map_update_rows)
  have expiry: "sc_expires_at (g s) = rc_expires_at (f r)"
    if "live_claim ws db s" "live_resource ws db r" "sc_schedule_claim_id s = rc_schedule_claim_id r"
      "sc_expires_at s = rc_expires_at r" for s r
  proof (cases "rc_schedule_claim_id r = claim")
    case True
    then have "s = s0" using live_claim_unique [OF i(1) that(1) s0(1)] that(3) s0(2) by (simp add: renewable_def)
    with s0(2) that(2) True show ?thesis by (simp add: f_def g_def held_by_def live_resource_def)
  next
    case False
    with that show ?thesis by (simp add: f_def g_def held_by_def renewable_def)
  qed
  have "resources_backed ws db'"
    unfolding resources_backed_def res' claims' using i(2) expiry same(1,3)
    unfolding resources_backed_def by metis
  moreover have "claims_hold_resources ws db'"
    unfolding claims_hold_resources_def res' claims' using i(3) same(1,3)
    unfolding claims_hold_resources_def by metis
  moreover have "no_overlapping_claims ws db'"
    unfolding no_overlapping_claims_def res' using i(4) same(1,2)
    unfolding no_overlapping_claims_def by metis
  ultimately show ?thesis using ids by (simp add: claims_invariant_def)
qed

lemma release_invariant:
  assumes inv: "claims_invariant ws db"
    and rl: "release_schedule_claim ws claim daemon released_at reason db = (result, db')"
  shows "claims_invariant ws db'"
proof -
  have i: "claim_ids_distinct ws db" "resources_backed ws db" "claims_hold_resources ws db"
    "no_overlapping_claims ws db" using inv by (simp_all add: claims_invariant_def)
  have le: "matching (releasable ws claim daemon) (db_schedule_claims db) \<le> 1"
    using i(1) unfolding claim_ids_distinct_def rows_of_def
    by (rule matching_le_one [where k = claim]) (simp add: releasable_def)
  show ?thesis
  proof (cases "trim reason = [] \<or> matching (releasable ws claim daemon) (db_schedule_claims db) = 0")
    case True
    then have "db' = db" using rl by (auto simp: release_schedule_claim_def Let_def update_rows_none split: if_splits)
    with inv show ?thesis by simp
  next
    case False
    then have one: "matching (releasable ws claim daemon) (db_schedule_claims db) = 1" using le by linarith
    then obtain s0 where s0: "live_claim ws db s0" "releasable ws claim daemon s0"
      by (rule matching_one) (auto simp: releasable_def live_claim_def)
    define g where "g = (\<lambda>s :: schedule_claim_row. s \<lparr> sc_released_at := Some released_at, sc_release_reason := Some (trim reason) \<rparr>)"
    define f where "f = (\<lambda>r :: resource_claim_row. r \<lparr> rc_released_at := Some released_at, rc_release_reason := Some (trim reason) \<rparr>)"
    have db': "db' = db \<lparr> db_schedule_claims := update_rows (releasable ws claim daemon) g (db_schedule_claims db),
        db_resource_claims := update_rows (held_by ws claim) f (db_resource_claims db) \<rparr>"
      using rl False one by (auto simp: release_schedule_claim_def Let_def f_def g_def)
    have claims': "live_claim ws db' s \<longleftrightarrow> live_claim ws db s \<and> sc_schedule_claim_id s \<noteq> claim" for s
    proof -
      have "live_claim ws db' s \<longleftrightarrow> live_claim ws db s \<and> \<not> releasable ws claim daemon s"
        using update_rows_drops [of "releasable ws claim daemon" "\<lambda>s. sc_workspace s = ws \<and> sc_released_at s = None" g s
            "db_schedule_claims db"]
        by (simp add: live_claim_def db' g_def) blast
      then show ?thesis using live_claim_unique [OF i(1) _ s0(1)] s0(2)
        by (metis live_claim_def releasable_def)
    qed
    have res': "live_resource ws db' r \<longleftrightarrow> live_resource ws db r \<and> rc_schedule_claim_id r \<noteq> claim" for r
      using update_rows_drops [of "held_by ws claim" "\<lambda>r. rc_workspace r = ws \<and> rc_released_at r = None" f r
          "db_resource_claims db"]
      by (simp add: live_resource_def db' f_def held_by_def) auto
    have "claim_ids_distinct ws db'"
      using i(1) by (simp add: claim_ids_distinct_def db' g_def rows_of_update map_update_rows)
    moreover have "resources_backed ws db'"
      unfolding resources_backed_def res' claims' using i(2) unfolding resources_backed_def by metis
    moreover have "claims_hold_resources ws db'"
      unfolding claims_hold_resources_def res' claims' using i(3) unfolding claims_hold_resources_def by metis
    moreover have "no_overlapping_claims ws db'"
      unfolding no_overlapping_claims_def res' using i(4) unfolding no_overlapping_claims_def by metis
    ultimately show ?thesis by (simp add: claims_invariant_def)
  qed
qed

end
