(* ===== verification/Claim_Store.thy ===== *)
theory Claim_Store
  imports Claim_Safety
begin

text \<open>
  The claim store as a whole: its operations as steps of a partitioned store, the limits a claim
  respects, and the properties of \<open>scheduling.rs\<close> in the state crate.
\<close>

section \<open>All operations together\<close>

text \<open>One step of the claim store in a workspace: one of its operations, or any change that leaves both
  claim tables alone (tasks moving on, graphs being approved, daemons coming and going).\<close>

inductive claims_step :: "add_signed \<Rightarrow> WorkspaceId \<Rightarrow> schedule_db \<Rightarrow> schedule_db \<Rightarrow> bool" for add ws where
  claim: "schema_keys ws db \<Longrightarrow> claim_next_ready_task add ws claim fresh request db = Some (result, db')
    \<Longrightarrow> claims_step add ws db db'"
| renew: "renew_schedule_claim add ws claim daemon now ttl db = (renewed, db') \<Longrightarrow> claims_step add ws db db'"
| release: "release_schedule_claim ws claim daemon released_at reason db = (released, db')
    \<Longrightarrow> claims_step add ws db db'"
| other: "db_schedule_claims db' = db_schedule_claims db \<Longrightarrow> db_resource_claims db' = db_resource_claims db
    \<Longrightarrow> claims_step add ws db db'"

definition claims_view :: "WorkspaceId \<Rightarrow> schedule_db \<Rightarrow> schedule_claim_row list \<times> resource_claim_row list" where
  "claims_view ws db = (rows_of sc_workspace ws (db_schedule_claims db), rows_of rc_workspace ws (db_resource_claims db))"

lemma expire_view: "v \<noteq> ws \<Longrightarrow> claims_view v (expire_claims ws now db) = claims_view v db"
  by (auto simp: claims_view_def expire_claims_def intro!: rows_of_update_other)

lemma claim_write_view:
  assumes "claim_write ws claim fresh request expires_at cr db = Inr (claimed, db')" "v \<noteq> ws"
  shows "claims_view v db' = claims_view v db"
  using claim_write_ok(4) [OF assms(1)] assms(2) resource_rows_fields(1)
  by (auto simp: claims_view_def rows_of_def filter_empty_conv claim_row_def)

lemma claim_in_transaction_view:
  assumes "claim_in_transaction ws claim fresh request expires_at db = Some (Inr (claimed, db'))" "v \<noteq> ws"
  shows "claims_view v db' = claims_view v db"
  using assms claim_write_view
  by (auto simp: claim_in_transaction_def split: sum.splits option.splits list.splits prod.splits)

lemma claim_view:
  assumes "claim_next_ready_task add ws claim fresh request db = Some (result, db')" "v \<noteq> ws"
  shows "claims_view v db' = claims_view v db"
  using assms claim_in_transaction_view expire_view unfolding claim_next_ready_task_def
  by (auto split: sum.splits option.splits if_splits prod.splits)

lemma renew_view:
  assumes "renew_schedule_claim add ws claim daemon now ttl db = (result, db')" "v \<noteq> ws"
  shows "claims_view v db' = claims_view v db"
proof (cases result)
  case (Inr e)
  with renew_commits(1) [of add ws claim daemon now ttl db e db'] assms show ?thesis
    by (auto simp: claims_view_def renewable_def held_by_def intro!: rows_of_update_other)
next
  case (Inl err)
  with assms(1) have "db' = db" by (auto dest: renew_error)
  then show ?thesis by simp
qed

lemma release_view:
  assumes "release_schedule_claim ws claim daemon released_at reason db = (result, db')" "v \<noteq> ws"
  shows "claims_view v db' = claims_view v db"
  using assms unfolding release_schedule_claim_def
  by (auto simp: claims_view_def releasable_def held_by_def Let_def intro!: rows_of_update_other split: if_splits)

interpretation claim_store: partitioned_store "claims_step add" claims_view claims_invariant for add
proof
  fix w db db'
  assume "claims_step add w db db'" "claims_invariant w db"
  then show "claims_invariant w db'"
  proof (cases rule: claims_step.cases)
    case (renew claim daemon now ttl renewed)
    with \<open>claims_invariant w db\<close> show ?thesis by (cases renewed) (auto dest: renew_error intro: renew_invariant)
  next
    case other
    with \<open>claims_invariant w db\<close> show ?thesis using claims_invariant_cong [of w db' db] by simp
  qed (auto intro: claim_invariant release_invariant)
next
  fix w v db db'
  assume "claims_step add w db db'" "v \<noteq> w"
  then show "claims_view v db' = claims_view v db"
  proof (cases rule: claims_step.cases)
    case other
    then show ?thesis by (simp add: claims_view_def)
  qed (auto dest: claim_view renew_view release_view)
next
  fix w db db'
  assume "claims_view w db' = claims_view w db" "claims_invariant w db"
  then show "claims_invariant w db'"
    unfolding claims_view_def prod.inject using claims_invariant_cong by blast
qed

section \<open>Capacity\<close>

definition live_claims :: "WorkspaceId \<Rightarrow> schedule_db \<Rightarrow> schedule_claim_row list" where
  "live_claims ws db = filter (\<lambda>s. sc_released_at s = None) (rows_of sc_workspace ws (db_schedule_claims db))"

lemma active_after_expire:
  "active_schedule_claims ws (expire_claims ws now db) now = live_claims ws (expire_claims ws now db)"
proof -
  have "sc_expires_at s > now" if "s \<in> set (live_claims ws (expire_claims ws now db))" for s
  proof -
    have "live_claim ws (expire_claims ws now db) s" using that by (auto simp: live_claims_def live_claim_def)
    then show ?thesis by (simp add: expire_live_claim)
  qed
  then show ?thesis unfolding active_schedule_claims_def live_claims_def
    by (metis (mono_tags, lifting) filter_cong filter_filter mem_Collect_eq set_filter)
qed

lemma provider_counts_lookup:
  assumes "provider_counts rows names acc = Inr m" "distinct names" "set names \<subseteq> range provider_as_str"
  shows "m p = (if provider_as_str p \<in> set names
     then Some (of_nat (matching (\<lambda>s. sc_provider_id s = provider_as_str p) rows)) else acc p)
   \<and> (provider_as_str p \<in> set names \<longrightarrow> matching (\<lambda>s. sc_provider_id s = provider_as_str p) rows < 2 ^ 63)"
  using assms
proof (induction names arbitrary: acc)
  case (Cons name names)
  obtain q where q: "name = provider_as_str q" using Cons.prems(3) by auto
  have parse: "parse_provider name = Inr q"
    by (cases q) (simp_all add: q parse_provider_def provider_from_str_def to_ascii_lowercase_def ascii_lower_def Let_def map_err_def)
  have inj: "provider_as_str p = name \<longleftrightarrow> p = q" by (cases p; cases q) (simp_all add: q)
  from Cons.prems(1) parse have c: "matching (\<lambda>s. sc_provider_id s = name) rows < 2 ^ 63"
    "provider_counts rows names (acc(q \<mapsto> of_nat (matching (\<lambda>s. sc_provider_id s = name) rows))) = Inr m"
    by (auto simp: and_then_eq_Inr count_usize_def split: if_splits)
  from Cons.IH [OF c(2)] Cons.prems(2,3) c(1) inj q show ?case by (auto split: if_splits)
qed simp

text \<open>A successful claim stays within the limits of its request.\<close>

lemma live_claims_write:
  assumes "claim_write ws claim fresh request expires_at cr db = Inr (claimed, db')"
  shows "live_claims ws db' = live_claims ws db @ [claim_row ws claim request (cr_candidate cr) expires_at]"
  using claim_write_ok(4) [OF assms] by (simp add: live_claims_def rows_of_def claim_row_def)

lemma provider_as_str_inj: "provider_as_str p = provider_as_str q \<longleftrightarrow> p = q"
  by (cases p; cases q) simp_all

lemma listed_providers: "{''gemini'', ''codex'', ''claude''} \<subseteq> range provider_as_str"
  by (auto intro: range_eqI [of _ _ Gemini] range_eqI [of _ _ Codex] range_eqI [of _ _ Claude])

lemma active_for_claims:
  assumes "active_by_provider_query rows = Inr m" and "sc_provider_id ` set rows \<subseteq> {''gemini'', ''codex'', ''claude''}"
  shows "unat (active_for (claim_capacity request m n) p) = matching (\<lambda>s. sc_provider_id s = provider_as_str p) rows"
proof -
  have sub: "set (remdups (map sc_provider_id rows)) \<subseteq> range provider_as_str"
    using assms(2) listed_providers by (simp only: set_remdups set_map)
  have look: "m p = (if provider_as_str p \<in> set (remdups (map sc_provider_id rows))
       then Some (of_nat (matching (\<lambda>s. sc_provider_id s = provider_as_str p) rows)) else None)"
    "provider_as_str p \<in> set (remdups (map sc_provider_id rows))
       \<longrightarrow> matching (\<lambda>s. sc_provider_id s = provider_as_str p) rows < 2 ^ 63"
    using provider_counts_lookup [OF assms(1) [unfolded active_by_provider_query_def] distinct_remdups sub, of p]
    by auto
  show ?thesis
  proof (cases "provider_as_str p \<in> set (remdups (map sc_provider_id rows))")
    case True
    with look show ?thesis by (simp add: active_for_def claim_capacity_def unat_of_nat)
  next
    case False
    then have "matching (\<lambda>s. sc_provider_id s = provider_as_str p) rows = 0"
      by (auto simp: matching_def filter_empty_conv image_iff)
    with look False show ?thesis by (simp add: active_for_def claim_capacity_def)
  qed
qed

lemma claim_within_limits:
  assumes "schema_keys ws db"
    and "claim_next_ready_task add ws claim fresh request db = Some (Inr (Some task), db')"
  shows "length (live_claims ws db') \<le> unat (req_global_limit request)"
    and "req_provider_limits request (ct_provider task) = Some limit
      \<Longrightarrow> matching (\<lambda>s. sc_provider_id s = provider_as_str (ct_provider task)) (live_claims ws db') \<le> unat limit"
proof -
  let ?db = "expire_claims ws (req_now request) db"
  obtain expires_at where v: "validate_request request = Inr ()"
    and c: "claim_in_transaction ws claim fresh request expires_at ?db = Some (Inr (Some task, db'))"
    using assms(2) unfolding claim_next_ready_task_def
    by (auto simp: and_then_eq_Inr split: sum.splits option.splits if_splits prod.splits)
  have k: "schema_keys ws ?db" using assms(1) by simp
  from c v k obtain cr bp ac where w: "claim_write ws claim fresh request expires_at cr ?db = Inr (Some task, db')"
    and bp: "active_by_provider_query (live_claims ws ?db) = Inr bp"
    and n: "length (live_claims ws ?db) < 2 ^ 63"
    and st: "startable (cr_candidate cr) (claim_capacity request bp (of_nat (length (live_claims ws ?db)))) ac"
    by (cases rule: claim_in_transaction_commits) (auto simp: active_after_expire)
  note row = live_claims_write [OF w]
  have task: "ct_provider task = cand_provider (cr_candidate cr)"
    using claim_write_ok(1) [OF w] by (simp add: claimed_task_def Let_def)
  have "length (live_claims ws ?db) < unat (req_global_limit request)"
    using st n by (simp add: startable_def claim_capacity_def word_less_nat_alt unat_of_nat)
  then show "length (live_claims ws db') \<le> unat (req_global_limit request)" by (simp add: row)
  assume lim: "req_provider_limits request (ct_provider task) = Some limit"
  have "sc_provider_id ` set (live_claims ws ?db) \<subseteq> {''gemini'', ''codex'', ''claude''}"
    using k by (auto simp: schema_keys_def live_claims_def)
  from active_for_claims [OF bp this] st lim task
  have "matching (\<lambda>s. sc_provider_id s = provider_as_str (ct_provider task)) (live_claims ws ?db) < unat limit"
    by (simp add: startable_def provider_limit_def word_less_nat_alt) (simp add: claim_capacity_def)
  then show "matching (\<lambda>s. sc_provider_id s = provider_as_str (ct_provider task)) (live_claims ws db') \<le> unat limit"
    by (simp add: row matching_def claim_row_def)
qed

lemma claim_panic_free:
  "\<exists>result. claim_next_ready_task add ws claim fresh request db = Some result"
proof (cases "validate_request request")
  case (Inr u)
  then have "validate_request request = Inr ()" by simp
  from claim_in_transaction_panic_free [OF this] show ?thesis unfolding claim_next_ready_task_def
    by (auto split: sum.splits option.splits) (metis option.distinct(1))
qed (simp add: claim_next_ready_task_def)

lemma claim_write_not_agy:
  assumes "claim_write ws claim fresh request expires_at cr db = Inr (claimed, db')"
  shows "cand_provider (cr_candidate cr) \<noteq> Agy"
  using claim_write_ok(2) [OF assms] by (auto simp: schedule_row_admissible_def claim_row_def)

section \<open>A sample database\<close>

definition sample_add :: add_signed where
  "sample_add now ttl = Some (now + ttl)"

definition sample_task :: "TaskId \<Rightarrow> string \<Rightarrow> task_row" where
  "sample_task task path = \<lparr> t_workspace = 1, t_task_id = task, t_state = Queued, t_paused = False,
     t_envelope = Inr ((TaskEnvelope_new task ''o'' ''o'' 0) \<lparr> env_allowed_write_paths := [RepoPath path] \<rparr>),
     t_created_at = 0, t_archived_at = None \<rparr>"

definition sample_session_task :: "TaskId \<Rightarrow> string \<Rightarrow> session_task_row" where
  "sample_session_task task provider = \<lparr> st_workspace = 1, st_session_id = 5, st_revision_id = 6, st_task_id = task,
     st_node_key = ''n'', st_display_order = 1, st_provider_id = ''codex'', st_provider_id_v2 = Some provider,
     st_model_profile = Standard \<rparr>"

text \<open>Two queued tasks with overlapping scopes in an approved graph; the first runs on \<open>provider\<close>.\<close>

definition sample_db :: "string \<Rightarrow> schedule_db" where
  "sample_db provider = \<lparr>
     db_daemons = [\<lparr> di_instance_id = 3, di_lease_expires_at = 1000, di_stop_requested_at = None, di_released_at = None \<rparr>],
     db_tasks = [sample_task 1 ''src/a'', sample_task 2 ''src''],
     db_session_tasks = [sample_session_task 1 provider, sample_session_task 2 ''claude''],
     db_graph_revisions = [\<lparr> gr_workspace = 1, gr_revision_id = 6, gr_session_id = 5, gr_goal_message_id = 31, gr_ordinal = 1,
         gr_status = ''approved'', gr_proposal_hash = None, gr_proposal = None, gr_validation = JNull, gr_planner_provider = None,
         gr_planner_provider_v2 = None, gr_created_at = 0, gr_completed_at = None, gr_requirement_revision_id = None,
         gr_validation_hash = None, gr_base_commit = None \<rparr>],
     db_graph_heads = [\<lparr> gh_workspace = 1, gh_session_id = 5, gh_revision_id = 6, gh_updated_at = 0 \<rparr>],
     db_graph_approvals = [\<lparr> ga_workspace = 1, ga_revision_id = 6, ga_proposal_hash = [], ga_approved_by = ''user'', ga_approved_at = 0,
         ga_session_id = Some 5, ga_requirement_revision_id = None, ga_validation_hash = None, ga_base_commit = Some (replicate 40 CHR ''a'') \<rparr>],
     db_task_dependencies = [], db_verification_results = [],
     db_schedule_claims = [], db_resource_claims = [] \<rparr>"

definition sample_request :: ClaimReadyTaskRequest where
  "sample_request = \<lparr> req_daemon_instance_id = 3, req_global_limit = 2, req_provider_limits = [Claude \<mapsto> 1],
     req_now = 100, req_ttl = 60 \<rparr>"

definition sample_claim :: "string \<Rightarrow> ((StateError + ClaimedTask option) \<times> schedule_db) option" where
  "sample_claim provider = claim_next_ready_task sample_add 1 10 (\<lambda>i. 20 + of_nat i) sample_request (sample_db provider)"

definition sample_record :: "TaskId \<Rightarrow> ProviderId \<Rightarrow> string \<Rightarrow> CandidateRecord" where
  "sample_record task provider path = \<lparr> cr_workspace_id = 1,
     cr_candidate = \<lparr> cand_task_id = task, cand_session_id = 5, cand_revision_id = 6, cand_graph_is_current = True,
       cand_graph_order = 1, cand_ready_since = 0, cand_state = Queued, cand_paused = False,
       cand_provider = provider, cand_dependencies = [],
       cand_scope = \<lparr> scope_paths = [RepoPath path], scope_repository_wide = False \<rparr> \<rparr>,
     cr_node_key = ''n'', cr_profile = Standard,
     cr_envelope = (TaskEnvelope_new task ''o'' ''o'' 0) \<lparr> env_allowed_write_paths := [RepoPath path] \<rparr>,
     cr_approved_base_commit = replicate 40 CHR ''a'' \<rparr>"

lemmas sample_defs = sample_db_def sample_task_def sample_session_task_def sample_record_def sample_request_def

lemma sample_joined: "joined_tasks 1 (sample_db provider)
   = [(sample_session_task 1 provider, sample_task 1 ''src/a''), (sample_session_task 2 ''claude'', sample_task 2 ''src'')]"
  by (simp add: joined_tasks_def rows_of_def sample_defs)

lemma sample_base: "is_git_object_id (replicate 40 CHR ''a'')"
  by code_simp

lemma sample_candidate_record:
  assumes "parse_provider provider = Inr p"
  shows "candidate_record 1 (sample_db q) (sample_session_task task provider, sample_task task path)
     = Inr (sample_record task p path)"
proof -
  have "approval_base 1 (sample_db q) 6 = Some (replicate 40 CHR ''a'')"
    by (simp only: approval_base_def rows_of_def sample_db_def) simp
  moreover have "load_dependencies 1 (sample_db q) task = []"
    by (simp add: load_dependencies_def rows_of_def sample_db_def)
  ultimately show ?thesis using assms sample_base
    by (simp add: candidate_record_def sample_task_def sample_session_task_def sample_record_def map_err_def
        TaskEnvelope_new_def)
qed

lemma sample_parse: "parse_provider ''claude'' = Inr Claude" "parse_provider ''agy'' = Inr Agy"
  by (simp_all add: parse_provider_def provider_from_str_def to_ascii_lowercase_def ascii_lower_def Let_def map_err_def)

lemma sample_load:
  assumes "parse_provider provider = Inr p"
  shows "load_candidates 1 (sample_db provider) = Inr [sample_record 1 p ''src/a'', sample_record 2 Claude ''src'']"
proof -
  have "sort_key (\<lambda>(st, t). (t_created_at t, st_display_order st, st_task_id st)) (joined_tasks 1 (sample_db provider))
      = joined_tasks 1 (sample_db provider)"
    by (simp add: sample_joined) (simp add: sample_task_def sample_session_task_def)
  then show ?thesis using assms sample_parse by (simp add: load_candidates_def sample_joined sample_candidate_record)
qed

lemma sample_snapshot:
  assumes "parse_provider provider = Inr p"
  shows "claim_snapshot 1 sample_request (sample_db provider)
     = Inr (Map.empty, [], [sample_record 1 p ''src/a'', sample_record 2 Claude ''src''], 0)"
proof -
  have a: "active_schedule_claims 1 (sample_db provider) now = []" "active_resource_rows 1 (sample_db provider) now = []" for now
    by (simp_all add: active_schedule_claims_def active_resource_rows_def rows_of_def sample_db_def)
  have "ensure_daemon_owner (sample_db provider) 3 100 = Inr ()"
    by (simp add: ensure_daemon_owner_def sample_db_def)
  then show ?thesis
    by (simp add: claim_snapshot_def sample_request_def a active_by_provider_query_def count_usize_def
        load_active_resource_claims_def group_claims_def sample_load [OF assms])
qed

lemma sample_select:
  "select_ready_tasks [cr_candidate (sample_record 1 Claude ''src/a''), cr_candidate (sample_record 2 Claude ''src'')]
     (claim_capacity sample_request Map.empty 0) [] = Some (Inr [1])"
  "select_ready_tasks [cr_candidate (sample_record 1 Agy ''src/a''), cr_candidate (sample_record 2 Claude ''src'')]
     (claim_capacity sample_request Map.empty 0) [] = Some (Inr [1])"
  by code_simp+

lemma sample_expire: "expire_claims 1 100 (sample_db provider) = sample_db provider"
  by (simp add: expire_claims_def sample_db_def update_rows_def)

lemma sample_claim_eq:
  assumes "parse_provider provider = Inr p" "p = Claude \<or> p = Agy"
  shows "sample_claim provider =
    (case claim_write 1 10 (\<lambda>i. 20 + of_nat i) sample_request 160 (sample_record 1 p ''src/a'') (sample_db provider) of
       Inl e \<Rightarrow> Some (Inl e, sample_db provider) | Inr (t, db') \<Rightarrow> Some (Inr t, db'))"
proof -
  have v: "validate_request sample_request = Inr ()"
    by code_simp
  have e: "queued_schedule_candidate_exists 1 (sample_db provider)"
    by (simp add: queued_schedule_candidate_exists_def sample_joined sample_task_def)
  have "claim_in_transaction 1 10 (\<lambda>i. 20 + of_nat i) sample_request 160 (sample_db provider)
      = Some (claim_write 1 10 (\<lambda>i. 20 + of_nat i) sample_request 160 (sample_record 1 p ''src/a'') (sample_db provider))"
    using assms(2) sample_select by (auto simp: claim_in_transaction_def sample_snapshot [OF assms(1)] sample_record_def)
  then show ?thesis using v e
    by (simp add: sample_claim_def claim_next_ready_task_def schedule_claim_expiry_def sample_add_def
        sample_expire sample_request_def [THEN arg_cong [of _ _ req_now], simplified]
        sample_request_def [THEN arg_cong [of _ _ req_ttl], simplified] ok_or_def split: sum.splits)
qed

lemma sample_claimed:
  obtains t db' where "sample_claim ''claude'' = Some (Inr (Some t), db')" "ct_provider t = Claude"
    "map sc_task_id (db_schedule_claims db') = [1]" "map rc_path (db_resource_claims db') = [Some ''src/a'']"
proof -
  let ?cr = "sample_record 1 Claude ''src/a''"
  let ?row = "claim_row 1 10 sample_request (cr_candidate ?cr) 160"
  let ?db1 = "(sample_db ''claude'') \<lparr> db_schedule_claims := [?row] \<rparr>"
  let ?rows = "resource_rows 1 10 (\<lambda>i. 20 + of_nat i) (cr_candidate ?cr) 100 160"
  have 1: "insert_schedule_row ?row (sample_db ''claude'') = Inr ?db1"
    by (simp add: insert_schedule_row_def schedule_row_admissible_def claim_row_def sample_defs)
  have rows: "map rc_path ?rows = [Some ''src/a'']" "\<forall>r \<in> set ?rows. resource_row_admissible r []" "length ?rows = 1"
    by (simp_all add: resource_rows_def scope_rows_def sample_record_def RepoPath_to_string_def
        resource_row_admissible_def sql_non_blank_def)
  then have "insert_resource_rows ?rows ?db1 = Inr (?db1 \<lparr> db_resource_claims := ?rows \<rparr>)"
    by (cases ?rows) (auto simp: sample_db_def)
  then have 2: "insert_resource_claims 1 10 (\<lambda>i. 20 + of_nat i) (cr_candidate ?cr) 100 160 ?db1
      = Inr (?db1 \<lparr> db_resource_claims := ?rows \<rparr>)"
    by (simp add: insert_resource_claims_def sample_record_def)
  have "claim_write 1 10 (\<lambda>i. 20 + of_nat i) sample_request 160 ?cr (sample_db ''claude'')
      = Inr (Some (claimed_task ?cr sample_request 10 160), ?db1 \<lparr> db_resource_claims := ?rows \<rparr>)"
    using 1 2 by (simp add: claim_write_def sample_request_def)
  then show ?thesis
    using that [of "claimed_task ?cr sample_request 10 160" "?db1 \<lparr> db_resource_claims := ?rows \<rparr>"]
      sample_claim_eq [OF sample_parse(1)] rows(1)
    by (simp add: claimed_task_def sample_record_def claim_row_def)
qed

lemma sample_claim_agy:
  "sample_claim ''agy'' = Some (Inl (Sqlite ''constraint failed: task_schedule_claims''), sample_db ''agy'')"
proof -
  have "claim_write 1 10 (\<lambda>i. 20 + of_nat i) sample_request 160 (sample_record 1 Agy ''src/a'') (sample_db ''agy'')
      = Inl (Sqlite ''constraint failed: task_schedule_claims'')"
    by (simp add: claim_write_def insert_schedule_row_def schedule_row_admissible_def claim_row_def sample_record_def)
  then show ?thesis using sample_claim_eq [OF sample_parse(2)] by simp
qed

lemma sample_schema: "schema_keys 1 (sample_db ''claude'')"
  by (simp add: schema_keys_def rows_of_def sample_defs)

lemma sample_step:
  assumes "sample_claim ''claude'' = Some (result, db')"
  shows "claims_step sample_add 1 (sample_db ''claude'') db'"
  using claims_step.claim [OF sample_schema] assms by (auto simp: sample_claim_def)

section \<open>Properties\<close>

text \<open>C10: whatever sequence of claims, renewals and releases runs in any workspaces, by any daemons and at
  any times, starting from empty claim tables and interleaved with any other changes of the database,
  two unreleased claims of a workspace never hold overlapping write scopes, and every unreleased
  claim holds a resource.\<close>

theorem claims_never_overlap:
  assumes "(\<lambda>db db'. \<exists>w. claims_step add w db db')\<^sup>*\<^sup>* db0 db"
    and "db_schedule_claims db0 = []" and "db_resource_claims db0 = []"
  shows "no_overlapping_claims ws db \<and> claims_hold_resources ws db \<and> resources_backed ws db"
proof -
  have "claims_invariant ws db0"
    using assms(2,3) by (simp add: claims_invariant_def claim_ids_distinct_def rows_of_def resources_backed_def
        claims_hold_resources_def no_overlapping_claims_def live_claim_def live_resource_def)
  then have "claims_invariant ws db"
    using claim_store.reachable_keeps [of add db0 db ws] assms(1)
    by (simp add: claim_store.any_run_def [abs_def])
  then show ?thesis by (simp add: claims_invariant_def)
qed

theorem claims_never_overlap_witness:
  "\<exists>db'. claims_step sample_add 1 (sample_db ''claude'') db' \<and> map sc_task_id (db_schedule_claims db') = [1]
     \<and> no_overlapping_claims 1 db' \<and> claims_hold_resources 1 db'"
proof -
  obtain t db' where c: "sample_claim ''claude'' = Some (Inr (Some t), db')" "map sc_task_id (db_schedule_claims db') = [1]"
    by (rule sample_claimed)
  have st: "claims_step sample_add 1 (sample_db ''claude'') db'" by (rule sample_step [OF c(1)])
  then have "(\<lambda>db db'. \<exists>w. claims_step sample_add w db db')\<^sup>*\<^sup>* (sample_db ''claude'') db'" by blast
  from claims_never_overlap [OF this, of 1] st c(2) show ?thesis by (auto simp: sample_db_def)
qed

text \<open>a successful claim leaves at most the requested global number of unreleased claims in the
  workspace, and at most the provider's limit for the provider of the claimed task.\<close>

theorem claims_respect_limits:
  assumes "schema_keys ws db"
    and "claim_next_ready_task add ws claim fresh request db = Some (Inr (Some task), db')"
  shows "length (live_claims ws db') \<le> unat (req_global_limit request)
       \<and> (case req_provider_limits request (ct_provider task) of None \<Rightarrow> True
          | Some limit \<Rightarrow> matching (\<lambda>s. sc_provider_id s = provider_as_str (ct_provider task)) (live_claims ws db')
              \<le> unat limit)"
  using claim_within_limits [OF assms] by (auto split: option.splits)

theorem claims_respect_limits_witness:
  "\<exists>db'. length (live_claims 1 db') \<le> 2 \<and> map sc_task_id (db_schedule_claims db') = [1]"
proof -
  obtain t db' where c: "sample_claim ''claude'' = Some (Inr (Some t), db')" "map sc_task_id (db_schedule_claims db') = [1]"
    by (rule sample_claimed)
  from claims_respect_limits [OF sample_schema c(1) [unfolded sample_claim_def]] c(2) show ?thesis
    by (auto simp: sample_request_def)
qed

text \<open>claim operations in other workspaces never change what a workspace sees of the claim tables.\<close>

theorem claims_isolated_by_workspace:
  assumes "(\<lambda>db db'. \<exists>w. w \<noteq> ws \<and> claims_step add w db db')\<^sup>*\<^sup>* db db'"
  shows "claims_view ws db' = claims_view ws db"
  using claim_store.isolated [of add ws db db'] assms by (simp add: claim_store.run_outside_def [abs_def])

theorem claims_isolated_by_workspace_witness:
  "\<exists>db'. claims_step sample_add 1 (sample_db ''claude'') db' \<and> claims_view 2 db' = claims_view 2 (sample_db ''claude'')"
proof -
  obtain t db' where "sample_claim ''claude'' = Some (Inr (Some t), db')" by (rule sample_claimed)
  then have st: "claims_step sample_add 1 (sample_db ''claude'') db'" by (rule sample_step)
  then have "(\<lambda>db db'. \<exists>w. w \<noteq> 2 \<and> claims_step sample_add w db db')\<^sup>*\<^sup>* (sample_db ''claude'') db'"
    by (intro r_into_rtranclp) (auto intro!: exI [of _ 1])
  from claims_isolated_by_workspace [OF this] st show ?thesis by blast
qed

text \<open>Claiming never panics: whatever the database holds and whatever the request, it returns a result
  or an error, and an error leaves the database as it was.\<close>

theorem claim_returns_and_errors_roll_back:
  "\<exists>result db'. claim_next_ready_task add ws claim fresh request db = Some (result, db')
     \<and> (isl result \<longrightarrow> db' = db)"
proof -
  obtain result db' where r: "claim_next_ready_task add ws claim fresh request db = Some (result, db')"
    using claim_panic_free by fastforce
  then have "isl result \<longrightarrow> db' = db"
    by (auto simp: claim_next_ready_task_def split: sum.splits option.splits if_splits prod.splits)
  with r show ?thesis by blast
qed

theorem claim_returns_and_errors_roll_back_witness:
  "\<exists>result db'. sample_claim ''agy'' = Some (result, db') \<and> isl result \<and> db' = sample_db ''agy''"
  using claim_returns_and_errors_roll_back [of sample_add 1 10 "\<lambda>i. 20 + of_nat i" sample_request "sample_db ''agy''"]
  unfolding sample_claim_def [symmetric] by (auto simp: sample_claim_agy)

text \<open>a task routed to the \<open>agy\<close> provider is never claimed, although graphs may assign it: the table's
  provider check refuses the row. An \<open>agy\<close> task at the head of the queue fails every claim, so a
  ready task behind it is not claimed either.\<close>

theorem agy_tasks_are_never_claimed:
  assumes "claim_next_ready_task add ws claim fresh request db = Some (Inr (Some task), db')"
  shows "ct_provider task \<noteq> Agy"
proof -
  obtain expires_at db1 where
    "claim_in_transaction ws claim fresh request expires_at db1 = Some (Inr (Some task, db'))"
    using assms unfolding claim_next_ready_task_def
    by (auto simp: and_then_eq_Inr split: sum.splits option.splits if_splits prod.splits)
  then obtain cr where w: "claim_write ws claim fresh request expires_at cr db1 = Inr (Some task, db')"
    by (auto simp: claim_in_transaction_def split: sum.splits option.splits list.splits prod.splits)
  show ?thesis using claim_write_not_agy [OF w] claim_write_ok(1) [OF w] by (simp add: claimed_task_def Let_def)
qed

theorem agy_tasks_are_never_claimed_witness:
  "(\<exists>t db'. sample_claim ''claude'' = Some (Inr (Some t), db') \<and> ct_provider t \<noteq> Agy)
 \<and> sample_claim ''agy'' = Some (Inl (Sqlite ''constraint failed: task_schedule_claims''), sample_db ''agy'')"
proof -
  obtain t db' where c: "sample_claim ''claude'' = Some (Inr (Some t), db')" by (rule sample_claimed)
  from agy_tasks_are_never_claimed [OF c [unfolded sample_claim_def]] c sample_claim_agy show ?thesis by blast
qed

end
