(* ===== verification/Session.thy ===== *)
theory Session
  imports Providers Integrity Lifecycle
begin

text \<open>
  \<open>crates/orchestrator-domain/src/session.rs\<close>: the session lifecycle, conversation messages, durable
  client commands and the validation of their payloads.
\<close>

section \<open>Session lifecycle\<close>

datatype SessionState =
    Drafting | Planning | Validating | AwaitingApproval | Session_Running | NeedsAttention
  | Integrating | Session_Verifying | Session_Completed | Stopping | Session_Cancelled

datatype SessionTransitionError =
    Session_NoOp SessionState
  | Session_NotAllowed SessionState SessionState

definition session_is_terminal :: "SessionState \<Rightarrow> bool" where
  "session_is_terminal s \<longleftrightarrow> s \<in> {Session_Completed, Session_Cancelled}"

fun session_allowed :: "SessionState \<Rightarrow> SessionState \<Rightarrow> bool" where
  "session_allowed Drafting n = (n \<in> {Planning, Stopping})"
| "session_allowed Planning n = (n \<in> {Validating, AwaitingApproval, NeedsAttention, Stopping})"
| "session_allowed Validating n =
     (n \<in> {AwaitingApproval, NeedsAttention, Planning, Drafting, Stopping})"
| "session_allowed AwaitingApproval n = (n \<in> {Drafting, Planning, Session_Running, Stopping})"
| "session_allowed Session_Running n = (n \<in> {NeedsAttention, Integrating, Stopping})"
| "session_allowed NeedsAttention n =
     (n \<in> {Drafting, Planning, Session_Running, Integrating, Stopping})"
| "session_allowed Integrating n = (n \<in> {NeedsAttention, Session_Verifying, Stopping})"
| "session_allowed Session_Verifying n = (n \<in> {Session_Completed, NeedsAttention, Stopping})"
| "session_allowed Stopping n = (n = Session_Cancelled)"
| "session_allowed Session_Completed n = False"
| "session_allowed Session_Cancelled n = False"

definition session_validate_transition ::
    "SessionState \<Rightarrow> SessionState \<Rightarrow> SessionTransitionError + unit" where
  "session_validate_transition s n =
     (if s = n then Inl (Session_NoOp s)
      else if session_allowed s n then Inr ()
      else Inl (Session_NotAllowed s n))"

section \<open>Sessions, messages and commands\<close>

datatype SessionValidationError =
    BlankTitle | BlankFinalMessage | StreamingMessageFinalized | MissingMessageFinalizedAt
  | BlankIdempotencyKey | BlankRequester | InvalidProposalHash | InvalidGraphValidationHash
  | InvalidGraphBaseCommit | BlankApprover | InvalidIntegrationPreviewHash | InvalidCommandLifecycle

record Session =
  session_schema_version :: SchemaVersion
  session_session_id :: SessionId
  session_revision :: u64
  session_title :: string
  session_state :: SessionState
  session_created_at :: DateTime
  session_updated_at :: DateTime
  session_archived_at :: "DateTime option"

text \<open>\<open>fresh\<close> is the identifier that \<open>SessionId::new\<close> draws.\<close>

definition Session_new ::
    "SessionId \<Rightarrow> string \<Rightarrow> DateTime \<Rightarrow> SessionValidationError + Session" where
  "Session_new fresh title created_at =
     (let title = trim title in
      if title = [] then Inl BlankTitle
      else Inr \<lparr> session_schema_version = schema_v1, session_session_id = fresh, session_revision = 0,
                 session_title = title, session_state = Drafting, session_created_at = created_at,
                 session_updated_at = created_at, session_archived_at = None \<rparr>)"

datatype MessageRole = User | Orchestrator | Agent | System

datatype MessageKind =
    UserMessage | OrchestratorMessage | AgentMessage | Plan | ToolSummary | StateChange
  | ApprovalRequest | Warning | Error

datatype MessageState = Streaming | Final | Interrupted | Rejected

record ConversationMessage =
  msg_message_id :: MessageId
  msg_session_id :: SessionId
  msg_task_id :: "TaskId option"
  msg_role :: MessageRole
  msg_kind :: MessageKind
  msg_state :: MessageState
  msg_content_redacted :: string
  msg_created_at :: DateTime
  msg_finalized_at :: "DateTime option"

definition message_validate :: "ConversationMessage \<Rightarrow> SessionValidationError + unit" where
  "message_validate m =
     (if msg_state m = Streaming \<and> msg_finalized_at m \<noteq> None then Inl StreamingMessageFinalized
      else if msg_state m = Final \<and> is_blank (msg_content_redacted m) then Inl BlankFinalMessage
      else if msg_state m \<in> {Final, Interrupted, Rejected} \<and> msg_finalized_at m = None
        then Inl MissingMessageFinalizedAt
      else Inr ())"

record CreateSessionCommandPayload =
  create_session_id :: SessionId
  create_title :: string

definition create_session_validate :: "CreateSessionCommandPayload \<Rightarrow> SessionValidationError + unit" where
  "create_session_validate p = (if is_blank (create_title p) then Inl BlankTitle else Inr ())"

record AppendMessageCommandPayload =
  append_message_id :: MessageId
  append_content :: string
  append_requested_provider :: "ProviderId option"

definition append_message_validate :: "AppendMessageCommandPayload \<Rightarrow> SessionValidationError + unit" where
  "append_message_validate p = (if is_blank (append_content p) then Inl BlankFinalMessage else Inr ())"

record RequestPlanCommandPayload =
  plan_goal_message_id :: MessageId

record RequestConversationTurnCommandPayload =
  turn_source_message_id :: MessageId
  turn_requested_provider :: "ProviderId option"

record ApproveGraphCommandPayload =
  approve_revision_id :: GraphRevisionId
  approve_requirement_revision_id :: RequirementRevisionId
  approve_validation_hash :: string
  approve_base_commit :: string
  approve_proposal_hash :: string
  approve_approved_by :: string

definition approve_graph_validate :: "ApproveGraphCommandPayload \<Rightarrow> SessionValidationError + unit" where
  "approve_graph_validate p =
     (if \<not> is_hex_with_len (approve_validation_hash p) 64 64 then Inl InvalidGraphValidationHash
      else if \<not> is_hex_with_len (approve_base_commit p) 40 64 then Inl InvalidGraphBaseCommit
      else if \<not> is_sha256 (approve_proposal_hash p) then Inl InvalidProposalHash
      else if is_blank (approve_approved_by p) then Inl BlankApprover
      else Inr ())"

record ApproveIntegrationCommandPayload =
  approve_batch_id :: IntegrationBatchId
  approve_preview_hash :: string
  approve_integration_approved_by :: string

definition approve_integration_validate ::
    "ApproveIntegrationCommandPayload \<Rightarrow> SessionValidationError + unit" where
  "approve_integration_validate p =
     (if \<not> is_sha256 (approve_preview_hash p) then Inl InvalidIntegrationPreviewHash
      else if is_blank (approve_integration_approved_by p) then Inl BlankApprover
      else Inr ())"

record CreateResolutionTaskCommandPayload =
  resolution_batch_id :: IntegrationBatchId

datatype ClientCommandAction =
    CreateSession | AppendMessage | RequestConversationTurn | StopDaemon | RequestPlan | ApproveGraph
  | ReviseGraph | CancelPlan | RequestIntegration | ApproveIntegration | CreateResolutionTask

datatype ClientCommandState = Command_Pending | Command_Claimed | Command_Completed | Command_Failed

record ClientCommand =
  command_command_id :: ClientCommandId
  command_session_id :: "SessionId option"
  command_task_id :: "TaskId option"
  command_action :: ClientCommandAction
  command_payload :: json
  command_idempotency_key :: string
  command_state :: ClientCommandState
  command_requested_by :: string
  command_requested_at :: DateTime
  command_claimed_at :: "DateTime option"
  command_completed_at :: "DateTime option"
  command_outcome :: "string option"

definition client_command_validate :: "ClientCommand \<Rightarrow> SessionValidationError + unit" where
  "client_command_validate c =
     (if is_blank (command_idempotency_key c) then Inl BlankIdempotencyKey
      else if is_blank (command_requested_by c) then Inl BlankRequester
      else case command_state c of
        Command_Pending \<Rightarrow>
          if command_claimed_at c = None \<and> command_completed_at c = None \<and> command_outcome c = None
          then Inr () else Inl InvalidCommandLifecycle
      | Command_Claimed \<Rightarrow>
          if command_claimed_at c \<noteq> None \<and> command_completed_at c = None \<and> command_outcome c = None
          then Inr () else Inl InvalidCommandLifecycle
      | _ \<Rightarrow>
          if command_claimed_at c \<noteq> None \<and> command_completed_at c \<noteq> None
             \<and> is_some_and (command_outcome c) (\<lambda>outcome. \<not> is_blank outcome)
          then Inr () else Inl InvalidCommandLifecycle)"

section \<open>Lemmas\<close>

lemma session_step_iff:
  "session_validate_transition s t = Inr () \<longleftrightarrow> session_allowed s t \<and> s \<noteq> t"
  by (simp add: session_validate_transition_def)

lemma session_allowed_stop:
  "\<not> session_is_terminal s \<Longrightarrow> s \<noteq> Stopping \<Longrightarrow> session_allowed s Stopping"
  by (cases s) (simp_all add: session_is_terminal_def)

lemma session_allowed_into:
  "session_allowed s Session_Completed \<longleftrightarrow> s = Session_Verifying"
  "session_allowed s Session_Verifying \<longleftrightarrow> s = Integrating"
  "session_allowed s Session_Cancelled \<longleftrightarrow> s = Stopping"
  by (cases s; simp)+

abbreviation session_step :: "SessionState \<Rightarrow> SessionState \<Rightarrow> bool" where
  "session_step s t \<equiv> session_validate_transition s t = Inr ()"

interpretation session: lifecycle session_step session_is_terminal
proof
  fix s t
  show "session_is_terminal s \<Longrightarrow> \<not> session_step s t"
    by (auto simp: session_is_terminal_def session_step_iff)
next
  fix s assume nt: "\<not> session_is_terminal s"
  have stop: "session_step\<^sup>+\<^sup>+ Stopping Session_Cancelled" by (auto simp: session_step_iff)
  have "session_step\<^sup>+\<^sup>+ s Session_Cancelled"
  proof (cases "s = Stopping")
    case False
    with nt have "session_step s Stopping" by (simp add: session_step_iff session_allowed_stop)
    with stop show ?thesis by (rule tranclp_into_tranclp2 [rotated])
  qed (simp add: stop)
  then show "\<exists>t. session_step\<^sup>+\<^sup>+ s t \<and> session_is_terminal t"
    by (auto simp: session_is_terminal_def)
qed

text \<open>A session history: the states in order, each step accepted.\<close>

definition session_history :: "SessionState list \<Rightarrow> bool" where
  "session_history xs \<longleftrightarrow> xs \<noteq> [] \<and> hd xs = Drafting \<and> successively session_step xs"

lemma session_history_snoc:
  assumes "session_history (xs @ [t])" and "t \<noteq> Drafting"
  obtains ys s where "xs = ys @ [s]" "session_step s t" "session_history (ys @ [s])"
proof (cases xs rule: rev_cases)
  case Nil
  with assms show ?thesis by (simp add: session_history_def)
next
  case (snoc ys s)
  with assms(1) that show ?thesis
    by (auto simp: session_history_def successively_append_iff hd_append split: if_splits)
qed

section \<open>Properties\<close>

text \<open>a session completes only by integrating and then verifying: in every history from
  \<open>Drafting\<close>, \<open>Completed\<close> is preceded by \<open>Integrating\<close> and \<open>Verifying\<close>, and \<open>Cancelled\<close> by
  \<open>Stopping\<close>.\<close>

theorem session_completes_through_verification:
  assumes "session_history xs"
  shows "(last xs = Session_Completed
            \<longrightarrow> (\<exists>ys. xs = ys @ [Integrating, Session_Verifying, Session_Completed]))
       \<and> (last xs = Session_Cancelled \<longrightarrow> (\<exists>ys. xs = ys @ [Stopping, Session_Cancelled]))"
proof (intro conjI impI)
  have ne: "xs \<noteq> []" using assms by (simp add: session_history_def)
  {
    assume "last xs = Session_Completed"
    then have "session_history (butlast xs @ [Session_Completed])" using assms ne by (metis append_butlast_last_id)
    then obtain ys s where 1: "butlast xs = ys @ [s]" "session_step s Session_Completed"
      "session_history (ys @ [s])" by (rule session_history_snoc) simp
    then have s: "s = Session_Verifying" by (simp add: session_step_iff session_allowed_into)
    with 1(3) obtain zs r where 2: "ys = zs @ [r]" "session_step r Session_Verifying"
      by (auto elim: session_history_snoc)
    then have "r = Integrating" by (simp add: session_step_iff session_allowed_into)
    then have "xs = zs @ [Integrating, Session_Verifying, Session_Completed]"
      using ne 1(1) 2(1) s \<open>last xs = Session_Completed\<close> append_butlast_last_id [OF ne] by simp
    then show "\<exists>ys. xs = ys @ [Integrating, Session_Verifying, Session_Completed]" ..
  }
  assume "last xs = Session_Cancelled"
  then have "session_history (butlast xs @ [Session_Cancelled])" using assms ne by (metis append_butlast_last_id)
  then obtain ys s where 1: "butlast xs = ys @ [s]" "session_step s Session_Cancelled"
    by (rule session_history_snoc) simp
  then have "xs = ys @ [Stopping, Session_Cancelled]"
    using append_butlast_last_id [OF ne] \<open>last xs = Session_Cancelled\<close>
    by (simp add: session_step_iff session_allowed_into)
  then show "\<exists>ys. xs = ys @ [Stopping, Session_Cancelled]" ..
qed

definition sample_session_history :: "SessionState list" where
  "sample_session_history =
     [Drafting, Planning, AwaitingApproval, Session_Running, Integrating, Session_Verifying, Session_Completed]"

theorem session_completes_through_verification_witness:
  "\<exists>ys. sample_session_history = ys @ [Integrating, Session_Verifying, Session_Completed]"
proof -
  have "session_history sample_session_history" by code_simp
  from session_completes_through_verification [OF this] show ?thesis
    by (simp add: sample_session_history_def)
qed

text \<open>a client command passes validation exactly when it names a requester and an idempotency
  key and its timestamps and outcome are those of its state: a claim time from claiming on, and a
  completion time with a non-blank outcome exactly in the final states.\<close>

theorem client_command_validate_iff:
  "client_command_validate c = Inr () \<longleftrightarrow>
     \<not> is_blank (command_idempotency_key c) \<and> \<not> is_blank (command_requested_by c)
   \<and> (command_claimed_at c = None \<longleftrightarrow> command_state c = Command_Pending)
   \<and> (command_completed_at c \<noteq> None \<longleftrightarrow> command_state c \<in> {Command_Completed, Command_Failed})
   \<and> (command_outcome c \<noteq> None \<longleftrightarrow> command_state c \<in> {Command_Completed, Command_Failed})
   \<and> (case command_outcome c of None \<Rightarrow> True | Some outcome \<Rightarrow> \<not> is_blank outcome)"
  by (cases "command_state c"; cases "command_outcome c") (auto simp: client_command_validate_def)

end
