(* ===== verification/Growing_Table.thy ===== *)
theory Growing_Table
  imports Main
begin

text \<open>
  The contract behind the durable queues of the state database: a table whose rows are never removed. An operation
  may change existing rows only along a relation \<open>evolve\<close> and may append new ones. The stores of
  client commands, task instructions, daemon instances and sessions interpret it.
\<close>

locale growing_table =
  fixes step :: "'d \<Rightarrow> 'd \<Rightarrow> bool" and rows :: "'d \<Rightarrow> 'r list" and evolve :: "'r \<Rightarrow> 'r \<Rightarrow> bool" and inv :: "'d \<Rightarrow> bool"
  assumes step_rows: "inv d \<Longrightarrow> step d d' \<Longrightarrow> \<exists>old new. rows d' = old @ new \<and> list_all2 evolve (rows d) old"
    and step_inv: "inv d \<Longrightarrow> step d d' \<Longrightarrow> inv d'"
    and evolve_refl: "evolve r r"
    and evolve_trans: "evolve r s \<Longrightarrow> evolve s t \<Longrightarrow> evolve r t"
begin

lemma run_inv: "step\<^sup>*\<^sup>* d d' \<Longrightarrow> inv d \<Longrightarrow> inv d'"
  by (induction rule: rtranclp_induct) (auto intro: step_inv)

lemma step_row:
  assumes "step d d'" and "inv d" and "r \<in> set (rows d)"
  shows "\<exists>r' \<in> set (rows d'). evolve r r'"
proof -
  obtain old new where rows: "rows d' = old @ new" "list_all2 evolve (rows d) old" using step_rows assms(1,2) by blast
  obtain i where "i < length (rows d)" "r = rows d ! i" using assms(3) by (auto simp: in_set_conv_nth)
  then have "evolve r (old ! i)" "old ! i \<in> set old"
    using list_all2_nthD [OF rows(2)] list_all2_lengthD [OF rows(2)] by auto
  then show ?thesis using rows(1) by auto
qed

lemma row_persists:
  assumes "step\<^sup>*\<^sup>* d d'" and "inv d" and "r \<in> set (rows d)"
  shows "\<exists>r' \<in> set (rows d'). evolve r r'"
  using assms
proof (induction rule: rtranclp_induct)
  case base
  then show ?case using evolve_refl by blast
next
  case (step y z)
  then show ?case using step_row [of y z] run_inv [of d y] evolve_trans by blast
qed

lemma never_shrinks: "step\<^sup>*\<^sup>* d d' \<Longrightarrow> inv d \<Longrightarrow> length (rows d) \<le> length (rows d')"
proof (induction rule: rtranclp_induct)
  case (step y z)
  then obtain old new where "rows z = old @ new" "list_all2 evolve (rows y) old"
    using step_rows [of y z] run_inv [of d y] by blast
  with step show ?case by (auto dest: list_all2_lengthD)
qed simp

end

end
