(* ===== verification/White_Space.thy ===== *)
theory White_Space
  imports Rust_Str "HOL-Library.Sublist"
begin

text \<open>
  The tests of \<open>Rust_Str\<close> on the bytes of a string, against the characters they stand for: \<open>utf8\<close> encodes a code point, and the sets are
  those of \<open>char::is_whitespace\<close> (the property White\_Space) and \<open>char::is_control\<close> (the category Cc). A string is blank exactly when it is
  a sequence of white space, and trimming it again changes nothing.
\<close>

section \<open>Code points\<close>

definition utf8 :: "nat \<Rightarrow> string" where
  "utf8 p =
     (if p < 128 then [char_of p]
      else if p < 2048 then [char_of (192 + p div 64), char_of (128 + p mod 64)]
      else [char_of (224 + p div 4096), char_of (128 + p div 64 mod 64), char_of (128 + p mod 64)])"

definition white_space_points :: "nat list" where
  "white_space_points = [9, 10, 11, 12, 13, 32, 133, 160, 5760, 8192, 8193, 8194, 8195, 8196, 8197, 8198, 8199, 8200, 8201, 8202, 8232, 8233,
     8239, 8287, 12288]"

definition control_points :: "nat set" where
  "control_points = {0..31} \<union> {127..159}"

lemma byte_less: "byte c < 256"
  using range_nat_of_char by (auto simp: byte_def)

lemma byte_char_of: "n < 256 \<Longrightarrow> byte (char_of n) = n"
  by (simp add: byte_def)

lemma byte_inject: "byte c = byte d \<longleftrightarrow> c = d"
  by (simp add: byte_def)

section \<open>White space\<close>

definition white_space_bytes :: "nat list set" where
  "white_space_bytes = (map byte \<circ> utf8) ` set white_space_points"

lemma white_space_bytes_eq:
  "white_space_bytes = {[9], [10], [11], [12], [13], [32], [194, 133], [194, 160], [225, 154, 128], [226, 128, 128], [226, 128, 129],
     [226, 128, 130], [226, 128, 131], [226, 128, 132], [226, 128, 133], [226, 128, 134], [226, 128, 135], [226, 128, 136], [226, 128, 137],
     [226, 128, 138], [226, 128, 168], [226, 128, 169], [226, 128, 175], [226, 129, 159], [227, 128, 128]}"
  by (simp add: white_space_bytes_def white_space_points_def utf8_def byte_char_of)

lemma ascii_whitespace_iff: "ascii_whitespace a \<longleftrightarrow> [a] \<in> white_space_bytes"
  unfolding white_space_bytes_eq ascii_whitespace_def by auto

lemma whitespace2_iff: "whitespace2 a b \<longleftrightarrow> [a, b] \<in> white_space_bytes"
  unfolding white_space_bytes_eq whitespace2_def by auto

lemma range_128_138: "128 \<le> c \<and> c \<le> 138 \<longleftrightarrow> c \<in> {128, 129, 130, 131, 132, 133, 134, 135, 136, 137, 138 :: nat}"
  unfolding insert_iff empty_iff by presburger

lemma whitespace3_iff: "whitespace3 a b c \<longleftrightarrow> [a, b, c] \<in> white_space_bytes"
  unfolding white_space_bytes_eq whitespace3_def range_128_138 by auto

lemma white_space_bytes_length: "bs \<in> white_space_bytes \<Longrightarrow> length bs \<in> {1, 2, 3}"
  unfolding white_space_bytes_eq by auto

lemma white_space_first:
  "[a] \<in> white_space_bytes \<Longrightarrow> a # b # bs \<notin> white_space_bytes" "[a, b] \<in> white_space_bytes \<Longrightarrow> a # b # c # bs \<notin> white_space_bytes"
  unfolding white_space_bytes_eq by auto

lemma white_space_last:
  "[a] \<in> white_space_bytes \<Longrightarrow> [b, a] \<notin> white_space_bytes" "[a] \<in> white_space_bytes \<Longrightarrow> [c, b, a] \<notin> white_space_bytes"
  "[b, a] \<in> white_space_bytes \<Longrightarrow> [c, b, a] \<notin> white_space_bytes"
  unfolding white_space_bytes_eq by auto

lemma encoded_iff: "(\<exists>p \<in> set white_space_points. s = utf8 p @ t) \<longleftrightarrow> (\<exists>bs \<in> white_space_bytes. \<exists>u. map byte u = bs \<and> s = u @ t)"
proof -
  have "inj (map byte)" by (intro inj_mapI) (simp add: inj_on_def byte_inject)
  then show ?thesis unfolding white_space_bytes_def by (auto simp: inj_eq)
qed

text \<open>\<open>strip_ws_start\<close> removes the encoding of one white-space character, and \<open>strip_ws_end_rev\<close> one at the end.\<close>

lemma strip_ws_start_iff: "strip_ws_start s = Some t \<longleftrightarrow> (\<exists>p \<in> set white_space_points. s = utf8 p @ t)"
  unfolding encoded_iff
proof
  assume "strip_ws_start s = Some t"
  then show "\<exists>bs \<in> white_space_bytes. \<exists>u. map byte u = bs \<and> s = u @ t"
    by (cases s rule: strip_ws_start.cases)
      (auto simp: ascii_whitespace_iff whitespace2_iff whitespace3_iff split: if_split_asm
        intro: bexI [of _ "[byte _]"] bexI [of _ "[byte _, byte _]"] bexI [of _ "[byte _, byte _, byte _]"])
next
  assume "\<exists>bs \<in> white_space_bytes. \<exists>u. map byte u = bs \<and> s = u @ t"
  then obtain u where u: "map byte u \<in> white_space_bytes" "s = u @ t" by blast
  from white_space_bytes_length [OF u(1)] consider a where "u = [a]" | a b where "u = [a, b]" | a b c where "u = [a, b, c]"
    by (auto simp: length_Suc_conv numeral_eq_Suc)
  then show "strip_ws_start s = Some t"
  proof cases
    case 1
    then show ?thesis using u by (cases t rule: strip_ws_start.cases) (simp_all add: ascii_whitespace_iff)
  next
    case 2
    then have "[byte a] \<notin> white_space_bytes" using u white_space_first(1) by force
    then show ?thesis using u 2 by (cases t) (simp_all add: ascii_whitespace_iff whitespace2_iff)
  next
    case 3
    then have "[byte a] \<notin> white_space_bytes" "[byte a, byte b] \<notin> white_space_bytes" using u white_space_first by force+
    then show ?thesis using u 3 by (simp add: ascii_whitespace_iff whitespace2_iff whitespace3_iff)
  qed
qed

lemma strip_ws_end_rev_Some:
  assumes "strip_ws_end_rev s = Some t"
  shows "\<exists>p \<in> set white_space_points. rev s = rev t @ utf8 p"
proof -
  have "\<exists>u. map byte u \<in> white_space_bytes \<and> rev s = rev t @ u"
    using assms by (cases s rule: strip_ws_end_rev.cases)
      (auto simp: ascii_whitespace_iff whitespace2_iff whitespace3_iff split: if_split_asm)
  moreover have "\<exists>p \<in> set white_space_points. u = utf8 p" if "map byte u \<in> white_space_bytes" for u
    using encoded_iff [of u "[]"] that by auto
  ultimately show ?thesis by auto
qed

section \<open>Blank strings\<close>

definition white_space :: "string \<Rightarrow> bool" where
  "white_space s \<longleftrightarrow> (\<exists>ps. set ps \<subseteq> set white_space_points \<and> s = concat (map utf8 ps))"

lemma white_space_Nil: "white_space []"
  unfolding white_space_def by (rule exI [of _ "[]"]) simp

lemma white_space_append: "white_space s \<Longrightarrow> white_space t \<Longrightarrow> white_space (s @ t)"
proof -
  assume "white_space s" "white_space t"
  then obtain ps qs where "set ps \<subseteq> set white_space_points" "s = concat (map utf8 ps)"
      "set qs \<subseteq> set white_space_points" "t = concat (map utf8 qs)" unfolding white_space_def by blast
  then show ?thesis unfolding white_space_def by (intro exI [of _ "ps @ qs"]) simp
qed

lemma white_space_one: "p \<in> set white_space_points \<Longrightarrow> white_space (utf8 p)"
  unfolding white_space_def by (rule exI [of _ "[p]"]) simp

lemma white_space_start: "white_space s \<Longrightarrow> s \<noteq> [] \<Longrightarrow> strip_ws_start s \<noteq> None"
proof -
  assume "white_space s" "s \<noteq> []"
  then obtain ps where ps: "set ps \<subseteq> set white_space_points" "s = concat (map utf8 ps)" unfolding white_space_def by blast
  then obtain p qs where "ps = p # qs" using \<open>s \<noteq> []\<close> by (cases ps) simp_all
  then have "\<exists>p \<in> set white_space_points. s = utf8 p @ concat (map utf8 qs)" using ps by auto
  then show ?thesis using strip_ws_start_iff [of s "concat (map utf8 qs)"] by auto
qed

lemma trim_start_split: "\<exists>w. white_space w \<and> s = w @ trim_start s"
proof (induction s rule: trim_start.induct)
  case (1 s)
  show ?case
  proof (cases "strip_ws_start s")
    case None
    then show ?thesis by (intro exI [of _ "[]"]) (simp add: trim_start_id white_space_Nil)
  next
    case (Some t)
    then obtain p where p: "p \<in> set white_space_points" "s = utf8 p @ t" using strip_ws_start_iff by blast
    obtain w where w: "white_space w" "t = w @ trim_start t" using 1 Some by blast
    have "trim_start s = trim_start t" using Some by (simp add: trim_start.simps [of s])
    then show ?thesis using white_space_append [OF white_space_one [OF p(1)] w(1)] p(2) w(2)
      by (intro exI [of _ "utf8 p @ w"]) simp
  qed
qed

lemma trim_end_split: "\<exists>w. white_space w \<and> rev s = rev (trim_end_rev s) @ w"
proof (induction s rule: trim_end_rev.induct)
  case (1 s)
  show ?case
  proof (cases "strip_ws_end_rev s")
    case None
    then show ?thesis by (intro exI [of _ "[]"]) (simp add: trim_end_rev_id white_space_Nil)
  next
    case (Some t)
    then obtain p where p: "p \<in> set white_space_points" "rev s = rev t @ utf8 p" using strip_ws_end_rev_Some by blast
    obtain w where w: "white_space w" "rev t = rev (trim_end_rev t) @ w" using 1 Some by blast
    have "trim_end_rev s = trim_end_rev t" using Some by (simp add: trim_end_rev.simps [of s])
    then show ?thesis using white_space_append [OF w(1) white_space_one [OF p(1)]] p(2) w(2)
      by (intro exI [of _ "w @ utf8 p"]) simp
  qed
qed

lemma trim_split: "\<exists>v w. white_space v \<and> white_space w \<and> s = v @ trim s @ w \<and> trim_start s = trim s @ w"
proof -
  obtain v where v: "white_space v" "s = v @ trim_start s" using trim_start_split by blast
  obtain w where w: "white_space w" "trim_start s = trim s @ w"
    using trim_end_split [of "rev (trim_start s)"] by (auto simp: trim_def)
  have "s = v @ trim s @ w" using v(2) w(2) by simp
  then show ?thesis using v(1) w by blast
qed

lemma white_space_trim_start: "white_space s \<Longrightarrow> trim_start s = []"
proof -
  assume "white_space s"
  then obtain ps where "set ps \<subseteq> set white_space_points" "s = concat (map utf8 ps)" unfolding white_space_def by blast
  then show ?thesis
  proof (induction ps arbitrary: s)
    case (Cons p ps)
    then have "strip_ws_start s = Some (concat (map utf8 ps))" using strip_ws_start_iff by auto
    then have "trim_start s = trim_start (concat (map utf8 ps))" by (subst trim_start.simps) simp
    then show ?case using Cons by simp
  qed (simp add: trim_start_id)
qed

lemma is_blank_iff: "is_blank s \<longleftrightarrow> white_space s"
proof
  assume "is_blank s"
  then have "trim s = []" by (simp add: is_blank_def)
  with trim_split [of s] obtain v w where "white_space v" "white_space w" "s = v @ w" by auto
  then show "white_space s" using white_space_append by blast
next
  assume "white_space s"
  then show "is_blank s" by (simp add: is_blank_def trim_def white_space_trim_start trim_end_rev_id)
qed

text \<open>A trimmed string has no white space at its ends, so it is not blank unless it is empty, and trimming it changes nothing.\<close>

lemma strip_ws_start_append: "strip_ws_start s \<noteq> None \<Longrightarrow> strip_ws_start (s @ t) \<noteq> None"
proof -
  assume "strip_ws_start s \<noteq> None"
  then obtain u where "strip_ws_start s = Some u" by blast
  then obtain p where "p \<in> set white_space_points" "s @ t = utf8 p @ (u @ t)" using strip_ws_start_iff by auto
  then have "strip_ws_start (s @ t) = Some (u @ t)" using strip_ws_start_iff by blast
  then show ?thesis by simp
qed

lemma trim_no_start: "strip_ws_start (trim s) = None"
proof (rule ccontr)
  assume "strip_ws_start (trim s) \<noteq> None"
  moreover obtain w where "trim_start s = trim s @ w" using trim_split by blast
  ultimately have "strip_ws_start (trim_start s) \<noteq> None" using strip_ws_start_append by simp
  then show False using trim_start_fixed by simp
qed

lemma trim_not_blank: "trim s \<noteq> [] \<Longrightarrow> \<not> is_blank (trim s)"
  using white_space_start trim_no_start is_blank_iff by blast

lemma trim_id_if_no_white_space:
  assumes "\<And>u v. s = u @ v \<Longrightarrow> strip_ws_start v = None"
  shows "trim s = s"
proof -
  obtain v w where t: "white_space v" "white_space w" "s = v @ trim s @ w" using trim_split by blast
  have "w = []" using white_space_start [OF t(2)] assms [of "v @ trim s" w] t(3) by auto
  moreover have "v = []"
  proof (rule ccontr)
    assume "v \<noteq> []"
    then have "strip_ws_start s \<noteq> None" using white_space_start [OF t(1)] strip_ws_start_append [of v "trim s @ w"] t(3) by simp
    then show False using assms [of "[]" s] by simp
  qed
  ultimately show ?thesis using t(3) by simp
qed

end
