(* ===== verification/Client_Commands.thy ===== *)
theory Client_Commands
  imports State_Store Session Growing_Table Canonical White_Space
begin

text \<open>
  \<open>crates/orchestrator-state/src/client_commands.rs\<close>: the durable queue of client commands, over the tables
  \<open>client_commands\<close> and \<open>client_command_invocations\<close> (migrations 0013 and 0015). A row holds a decoded
  command (see \<open>State_Store\<close>; \<open>action_name\<close> and \<open>state_name\<close> are the text forms) and its workspace. The JSON
  text of a payload decodes to the payload. Each operation is one transaction or one statement. The two writers of the queue outside that file,
  the follow-up of \<open>sessions.rs\<close> and the reconciliation of \<open>conversations.rs\<close>, are here too.
\<close>

section \<open>Text forms\<close>

fun action_name :: "ClientCommandAction \<Rightarrow> string" where
  "action_name CreateSession = ''create_session''"
| "action_name AppendMessage = ''append_message''"
| "action_name RequestConversationTurn = ''request_conversation_turn''"
| "action_name StopDaemon = ''stop_daemon''"
| "action_name RequestPlan = ''request_plan''"
| "action_name ApproveGraph = ''approve_graph''"
| "action_name ReviseGraph = ''revise_graph''"
| "action_name CancelPlan = ''cancel_plan''"
| "action_name RequestIntegration = ''request_integration''"
| "action_name ApproveIntegration = ''approve_integration''"
| "action_name CreateResolutionTask = ''create_resolution_task''"

definition all_actions :: "ClientCommandAction list" where
  "all_actions = [CreateSession, AppendMessage, RequestConversationTurn, StopDaemon, RequestPlan, ApproveGraph,
     ReviseGraph, CancelPlan, RequestIntegration, ApproveIntegration, CreateResolutionTask]"

definition parse_action :: "string \<Rightarrow> ClientCommandAction option" where
  "parse_action value = find (\<lambda>a. action_name a = value) all_actions"

fun state_name :: "ClientCommandState \<Rightarrow> string" where
  "state_name Command_Pending = ''pending''"
| "state_name Command_Claimed = ''claimed''"
| "state_name Command_Completed = ''completed''"
| "state_name Command_Failed = ''failed''"

definition parse_state :: "string \<Rightarrow> ClientCommandState option" where
  "parse_state value =
     find (\<lambda>s. state_name s = value) [Command_Pending, Command_Claimed, Command_Completed, Command_Failed]"

lemma parse_names: "parse_action (action_name a) = Some a" "parse_state (state_name s) = Some s"
  by (cases a; simp add: parse_action_def all_actions_def) (cases s; simp add: parse_state_def)

section \<open>Tables and queries\<close>

record command_row =
  cc_workspace :: WorkspaceId
  cc_command :: ClientCommand

record invocation_row =
  ci_workspace :: WorkspaceId
  ci_command_id :: ClientCommandId
  ci_root_command_id :: ClientCommandId
  ci_plan_only :: bool
  ci_recorded_at :: DateTime

record command_db =
  cd_commands :: "command_row list"
  cd_invocations :: "invocation_row list"
  cd_sessions :: "(WorkspaceId \<times> SessionId) list"
  cd_tasks :: "(WorkspaceId \<times> TaskId) list"

datatype ClientCommandRecoveryDisposition = StillClaimed | Command_Requeued | ManualReconciliationRequired

datatype ClientCommandQueue = Queue_All | Queue_Session | Queue_Orchestration

fun in_queue :: "ClientCommandQueue \<Rightarrow> ClientCommandAction \<Rightarrow> bool" where
  "in_queue Queue_All a = True"
| "in_queue Queue_Session a = (a \<in> {CreateSession, AppendMessage})"
| "in_queue Queue_Orchestration a =
     (a \<in> {RequestConversationTurn, RequestPlan, ApproveGraph, ReviseGraph, CancelPlan, RequestIntegration,
           ApproveIntegration, CreateResolutionTask})"

definition commands_in :: "WorkspaceId \<Rightarrow> command_db \<Rightarrow> ClientCommand list" where
  "commands_in ws db = map cc_command (rows_of cc_workspace ws (cd_commands db))"

definition load_client_command :: "WorkspaceId \<Rightarrow> command_db \<Rightarrow> ClientCommandId \<Rightarrow> ClientCommand option" where
  "load_client_command ws db i = find (\<lambda>c. command_command_id c = i) (commands_in ws db)"

definition load_by_idempotency_key :: "WorkspaceId \<Rightarrow> command_db \<Rightarrow> string \<Rightarrow> ClientCommand option" where
  "load_by_idempotency_key ws db k = find (\<lambda>c. command_idempotency_key c = k) (commands_in ws db)"

definition load_command_invocation :: "WorkspaceId \<Rightarrow> command_db \<Rightarrow> ClientCommandId \<Rightarrow> (ClientCommandId \<times> bool) option" where
  "load_command_invocation ws db i =
     map_option (\<lambda>r. (ci_root_command_id r, ci_plan_only r))
       (find (\<lambda>r. ci_command_id r = i) (rows_of ci_workspace ws (cd_invocations db)))"


definition pending_command_exists :: "WorkspaceId \<Rightarrow> command_db \<Rightarrow> ClientCommandQueue \<Rightarrow> bool" where
  "pending_command_exists ws db queue \<longleftrightarrow>
     list_ex (\<lambda>c. command_state c = Command_Pending \<and> in_queue queue (command_action c)) (commands_in ws db)"

definition ensure_idempotent_match :: "ClientCommand \<Rightarrow> ClientCommand \<Rightarrow> StateError + unit" where
  "ensure_idempotent_match existing submitted =
     (if command_action existing = command_action submitted \<and> command_session_id existing = command_session_id submitted
         \<and> command_task_id existing = command_task_id submitted \<and> json_same (command_payload existing) (command_payload submitted)
      then Inr ()
      else Inl (InvalidRecord ''idempotency key was reused with a different command''))"

definition ensure_invocation_match ::
    "WorkspaceId \<Rightarrow> command_db \<Rightarrow> ClientCommandId \<Rightarrow> ClientCommandId \<Rightarrow> bool \<Rightarrow> StateError + unit" where
  "ensure_invocation_match ws db i root_id plan_only =
     (if load_command_invocation ws db i = Some (root_id, plan_only) then Inr ()
      else Inl (InvalidRecord ''idempotent client command invocation provenance does not match''))"

section \<open>Writes\<close>

text \<open>The columns of a new row: those of the command, pending and without lifecycle times.\<close>

definition as_submitted :: "ClientCommand \<Rightarrow> ClientCommand" where
  "as_submitted c = c\<lparr>command_state := Command_Pending, command_claimed_at := None, command_completed_at := None,
     command_outcome := None\<rparr>"

definition references_exist :: "WorkspaceId \<Rightarrow> command_db \<Rightarrow> ClientCommand \<Rightarrow> bool" where
  "references_exist ws db c \<longleftrightarrow>
     (case command_session_id c of None \<Rightarrow> True | Some s \<Rightarrow> (ws, s) \<in> set (cd_sessions db))
   \<and> (case command_task_id c of None \<Rightarrow> True | Some t \<Rightarrow> (ws, t) \<in> set (cd_tasks db))"

definition insert_pending_command :: "WorkspaceId \<Rightarrow> ClientCommand \<Rightarrow> command_db \<Rightarrow> StateError + command_db" where
  "insert_pending_command ws c db =
     (if list_ex (\<lambda>e. command_command_id e = command_command_id c \<or> command_idempotency_key e = command_idempotency_key c)
           (commands_in ws db)
         \<or> \<not> sql_non_blank (command_idempotency_key c) \<or> \<not> sql_non_blank (command_requested_by c)
         \<or> \<not> references_exist ws db c
      then Inl (Sqlite ''constraint failed'')
      else Inr (db\<lparr>cd_commands := cd_commands db @ [\<lparr> cc_workspace = ws, cc_command = as_submitted c \<rparr>]\<rparr>))"

definition insert_command_invocation ::
    "WorkspaceId \<Rightarrow> ClientCommandId \<Rightarrow> ClientCommandId \<Rightarrow> bool \<Rightarrow> DateTime \<Rightarrow> command_db \<Rightarrow> StateError + command_db" where
  "insert_command_invocation ws i root_id plan_only recorded_at db =
     (if load_command_invocation ws db i \<noteq> None \<or> load_client_command ws db i = None
         \<or> load_client_command ws db root_id = None
      then Inl (Sqlite ''constraint failed'')
      else Inr (db\<lparr>cd_invocations := cd_invocations db @
        [\<lparr> ci_workspace = ws, ci_command_id = i, ci_root_command_id = root_id, ci_plan_only = plan_only,
           ci_recorded_at = recorded_at \<rparr>]\<rparr>))"

definition validate_new :: "ClientCommand \<Rightarrow> StateError + unit" where
  "validate_new c =
     and_then (map_err (\<lambda>_. InvalidRecord ''invalid client command'') (client_command_validate c)) (\<lambda>_.
       if command_state c \<noteq> Command_Pending then Inl (InvalidRecord ''new client command must be pending'')
       else Inr ())"

text \<open>The common part of both submissions: \<open>root_of\<close> gives the root of the invocation from the id of the stored
  or new command.\<close>

definition submit_under ::
    "WorkspaceId \<Rightarrow> (ClientCommandId \<Rightarrow> ClientCommandId) \<Rightarrow> bool \<Rightarrow> ClientCommand \<Rightarrow> command_db
     \<Rightarrow> StateError + ClientCommand \<times> command_db" where
  "submit_under ws root_of plan_only c db =
     (case load_by_idempotency_key ws db (command_idempotency_key c) of
        Some existing \<Rightarrow>
          and_then (ensure_idempotent_match existing c) (\<lambda>_.
          and_then (ensure_invocation_match ws db (command_command_id existing) (root_of (command_command_id existing)) plan_only)
            (\<lambda>_. Inr (existing, db)))
      | None \<Rightarrow>
          and_then (insert_pending_command ws c db) (\<lambda>db.
          and_then (insert_command_invocation ws (command_command_id c) (root_of (command_command_id c)) plan_only
              (command_requested_at c) db) (\<lambda>db. Inr (c, db))))"

definition submit_client_command_with_invocation ::
    "WorkspaceId \<Rightarrow> ClientCommand \<Rightarrow> bool \<Rightarrow> command_db \<Rightarrow> (StateError + ClientCommand) \<times> command_db" where
  "submit_client_command_with_invocation ws c plan_only =
     transact (\<lambda>db. and_then (validate_new c) (\<lambda>_. submit_under ws (\<lambda>i. i) plan_only c db))"

definition submit_client_command :: "WorkspaceId \<Rightarrow> ClientCommand \<Rightarrow> command_db \<Rightarrow> (StateError + ClientCommand) \<times> command_db" where
  "submit_client_command ws c = submit_client_command_with_invocation ws c False"

definition submit_derived_client_command ::
    "WorkspaceId \<Rightarrow> ClientCommandId \<Rightarrow> ClientCommand \<Rightarrow> command_db \<Rightarrow> (StateError + ClientCommand) \<times> command_db" where
  "submit_derived_client_command ws source c =
     transact (\<lambda>db. and_then (validate_new c) (\<lambda>_.
       case load_command_invocation ws db source of
         None \<Rightarrow> Inl (InvalidRecord ''derived client command source has no invocation provenance'')
       | Some (root_id, plan_only) \<Rightarrow> submit_under ws (\<lambda>_. root_id) plan_only c db))"

definition has_state :: "WorkspaceId \<Rightarrow> ClientCommandId \<Rightarrow> ClientCommandState \<Rightarrow> command_row \<Rightarrow> bool" where
  "has_state ws i s r \<longleftrightarrow> cc_workspace r = ws \<and> command_command_id (cc_command r) = i \<and> command_state (cc_command r) = s"

definition set_command :: "(ClientCommand \<Rightarrow> ClientCommand) \<Rightarrow> command_row \<Rightarrow> command_row" where
  "set_command f r = r\<lparr>cc_command := f (cc_command r)\<rparr>"

text \<open>\<open>claim_client_command\<close> and \<open>claim_next_orchestration_client_command\<close> differ in the queue only. The check
  before the transaction and the query in it read the same tables here.\<close>

definition next_pending :: "WorkspaceId \<Rightarrow> command_db \<Rightarrow> ClientCommandQueue \<Rightarrow> ClientCommand option" where
  "next_pending ws db queue =
     (case sort_key (\<lambda>c. (command_requested_at c, command_command_id c))
             (filter (\<lambda>c. command_state c = Command_Pending \<and> in_queue queue (command_action c)) (commands_in ws db)) of
        [] \<Rightarrow> None
      | c # _ \<Rightarrow> Some c)"

definition claim_from :: "ClientCommandQueue \<Rightarrow> WorkspaceId \<Rightarrow> DateTime \<Rightarrow> command_db
     \<Rightarrow> (StateError + ClientCommand option) \<times> command_db" where
  "claim_from queue ws claimed_at db =
     (if \<not> pending_command_exists ws db queue then (Inr None, db)
      else transact (\<lambda>db.
        case next_pending ws db queue of
          None \<Rightarrow> Inr (None, db)
        | Some c \<Rightarrow>
            let f = (\<lambda>c. c\<lparr>command_state := Command_Claimed, command_claimed_at := Some claimed_at\<rparr>);
                p = has_state ws (command_command_id c) Command_Pending
            in if matching p (cd_commands db) \<noteq> 1 then Inl (OptimisticConflict ''client command'' (command_command_id c))
               else Inr (Some (f c), db\<lparr>cd_commands := update_rows p (set_command f) (cd_commands db)\<rparr>)) db)"

definition claim_next_client_command where "claim_next_client_command = claim_from Queue_All"

definition claim_next_session_client_command where "claim_next_session_client_command = claim_from Queue_Session"

definition claim_next_orchestration_client_command where
  "claim_next_orchestration_client_command = claim_from Queue_Orchestration"

definition finish_client_command :: "WorkspaceId \<Rightarrow> ClientCommandId \<Rightarrow> ClientCommandState \<Rightarrow> string \<Rightarrow> DateTime \<Rightarrow> command_db
     \<Rightarrow> (StateError + unit) \<times> command_db" where
  "finish_client_command ws i state outcome completed_at db =
     (if is_blank outcome then (Inl (InvalidRecord ''client command outcome must not be blank''), db)
      else
        let p = has_state ws i Command_Claimed;
            f = (\<lambda>c. c\<lparr>command_state := state, command_completed_at := Some completed_at, command_outcome := Some outcome\<rparr>)
        in (if matching p (cd_commands db) \<noteq> 1 then Inl (OptimisticConflict ''client command'' i) else Inr (),
            db\<lparr>cd_commands := update_rows p (set_command f) (cd_commands db)\<rparr>))"

definition complete_client_command where
  "complete_client_command ws i = finish_client_command ws i Command_Completed"

definition fail_client_command where
  "fail_client_command ws i = finish_client_command ws i Command_Failed"

definition replayable :: "ClientCommandAction \<Rightarrow> bool" where
  "replayable a \<longleftrightarrow>
     a \<in> {CreateSession, AppendMessage, RequestConversationTurn, RequestPlan, ApproveGraph, RequestIntegration}"

definition recover_one :: "WorkspaceId \<Rightarrow> DateTime \<Rightarrow> ClientCommand \<Rightarrow> command_db
     \<Rightarrow> StateError + ClientCommandRecoveryDisposition \<times> command_db" where
  "recover_one ws stale_before c db =
     (case command_claimed_at c of
        None \<Rightarrow> Inl (InvalidRecord ''claimed client command has no claim timestamp'')
      | Some claimed_at \<Rightarrow>
          if claimed_at \<ge> stale_before then Inr (StillClaimed, db)
          else if replayable (command_action c) then
            let p = (\<lambda>r. has_state ws (command_command_id c) Command_Claimed r
                         \<and> command_claimed_at (cc_command r) = Some claimed_at);
                f = (\<lambda>c. c\<lparr>command_state := Command_Pending, command_claimed_at := None\<rparr>)
            in if matching p (cd_commands db) \<noteq> 1
               then Inl (OptimisticConflict ''client command'' (command_command_id c))
               else Inr (Command_Requeued, db\<lparr>cd_commands := update_rows p (set_command f) (cd_commands db)\<rparr>)
          else Inr (ManualReconciliationRequired, db))"

fun recover_loop :: "WorkspaceId \<Rightarrow> DateTime \<Rightarrow> ClientCommand list \<Rightarrow> command_db
     \<Rightarrow> StateError + (ClientCommand \<times> ClientCommandRecoveryDisposition) list \<times> command_db" where
  "recover_loop ws stale_before [] db = Inr ([], db)"
| "recover_loop ws stale_before (c # cs) db =
     and_then (recover_one ws stale_before c db) (\<lambda>(disposition, db).
     and_then (recover_loop ws stale_before cs db) (\<lambda>(rest, db). Inr ((c, disposition) # rest, db)))"

definition recover_stale_client_commands :: "WorkspaceId \<Rightarrow> DateTime \<Rightarrow> command_db
     \<Rightarrow> (StateError + (ClientCommand \<times> ClientCommandRecoveryDisposition) list) \<times> command_db" where
  "recover_stale_client_commands ws stale_before =
     transact (\<lambda>db. recover_loop ws stale_before
       (sort_key (\<lambda>c. (command_requested_at c, command_command_id c))
          (filter (\<lambda>c. command_state c = Command_Claimed) (commands_in ws db))) db)"

section \<open>Writers in other files\<close>

text \<open>\<open>append_session_message_and_queue_conversation\<close> of \<open>sessions.rs\<close> adds a command with the invocation of its source in its own
  transaction.\<close>

definition queue_follow_up :: "WorkspaceId \<Rightarrow> ClientCommandId \<Rightarrow> ClientCommand \<Rightarrow> command_db \<Rightarrow> StateError + command_db" where
  "queue_follow_up ws source_command_id c db =
     and_then (insert_pending_command ws c db) (\<lambda>db.
       case load_command_invocation ws db source_command_id of
         None \<Rightarrow> Inl (InvalidRecord ''conversation follow-up source has no invocation provenance'')
       | Some (root_id, plan_only) \<Rightarrow>
           insert_command_invocation ws (command_command_id c) root_id plan_only (command_requested_at c) db)"

text \<open>\<open>reconcile_interrupted_conversation_attempts\<close> of \<open>conversations.rs\<close> ends the command of every attempt it finds running, pending or
  claimed; an attempt has the id of its command. \<open>attempt_ids\<close> are the running attempts, whose own table it also updates.\<close>

definition CONVERSATION_MAX_ERROR_BYTES :: nat where
  "CONVERSATION_MAX_ERROR_BYTES = 16 * 1024"

definition fail_interrupted_turn :: "WorkspaceId \<Rightarrow> DateTime \<Rightarrow> string \<Rightarrow> ClientCommandId \<Rightarrow> command_db \<Rightarrow> command_db" where
  "fail_interrupted_turn ws completed_at error_redacted attempt_id db =
     db\<lparr>cd_commands := update_rows
       (\<lambda>r. cc_workspace r = ws \<and> command_command_id (cc_command r) = attempt_id
            \<and> command_action (cc_command r) = RequestConversationTurn
            \<and> command_state (cc_command r) \<in> {Command_Pending, Command_Claimed})
       (set_command (\<lambda>c. c\<lparr>command_state := Command_Failed, command_completed_at := Some completed_at,
          command_outcome := Some error_redacted\<rparr>)) (cd_commands db)\<rparr>"

definition reconcile_interrupted_turns ::
    "WorkspaceId \<Rightarrow> ClientCommandId list \<Rightarrow> DateTime \<Rightarrow> string \<Rightarrow> command_db \<Rightarrow> (StateError + ClientCommandId list) \<times> command_db" where
  "reconcile_interrupted_turns ws attempt_ids completed_at evidence =
     transact (\<lambda>db.
       let error_redacted = trim evidence in
       if error_redacted = [] then Inl (InvalidRecord ''interrupted conversation evidence must not be blank'')
       else if length error_redacted > CONVERSATION_MAX_ERROR_BYTES
       then Inl (InvalidRecord ''interrupted conversation evidence exceeds the limit'')
       else Inr (attempt_ids, fold (fail_interrupted_turn ws completed_at error_redacted) attempt_ids db))"

section \<open>What an operation may do to the tables\<close>

text \<open>A stored command keeps what was submitted; a finished one never changes; one that was handed out and must not
  be replayed is never handed out again.\<close>

definition command_evolves :: "command_row \<Rightarrow> command_row \<Rightarrow> bool" where
  "command_evolves r r' \<longleftrightarrow>
     cc_workspace r' = cc_workspace r \<and> as_submitted (cc_command r') = as_submitted (cc_command r)
   \<and> (command_state (cc_command r) \<in> {Command_Completed, Command_Failed} \<longrightarrow> r' = r)
   \<and> (command_state (cc_command r) \<noteq> Command_Pending \<and> \<not> replayable (command_action (cc_command r))
        \<longrightarrow> command_state (cc_command r') \<noteq> Command_Pending)"

lemma as_submitted_fields:
  assumes "as_submitted c' = as_submitted c"
  shows "command_command_id c' = command_command_id c" "command_idempotency_key c' = command_idempotency_key c"
    "command_action c' = command_action c" "command_session_id c' = command_session_id c"
    "command_task_id c' = command_task_id c" "command_payload c' = command_payload c"
    "command_requested_by c' = command_requested_by c"
  using assms by (cases c; cases c'; simp add: as_submitted_def)+

lemma command_evolves_keys:
  assumes "command_evolves r r'"
  shows "cc_workspace r' = cc_workspace r" "command_command_id (cc_command r') = command_command_id (cc_command r)"
    "command_idempotency_key (cc_command r') = command_idempotency_key (cc_command r)"
proof -
  have same: "as_submitted (cc_command r') = as_submitted (cc_command r)" using assms by (simp add: command_evolves_def)
  show "command_command_id (cc_command r') = command_command_id (cc_command r)"
    "command_idempotency_key (cc_command r') = command_idempotency_key (cc_command r)"
    by (rule as_submitted_fields [OF same])+
qed (use assms in \<open>simp add: command_evolves_def\<close>)

lemma command_evolves_refl: "command_evolves r r"
  by (simp add: command_evolves_def)

lemma command_evolves_trans: "command_evolves r s \<Longrightarrow> command_evolves s t \<Longrightarrow> command_evolves r t"
  unfolding command_evolves_def using as_submitted_fields(3) by metis

definition command_valid :: "ClientCommand \<Rightarrow> bool" where
  "command_valid c \<longleftrightarrow> client_command_validate c = Inr ()"

text \<open>A reconciled command may be failed without ever having been claimed. It then lacks the claim time that \<open>validate\<close> asks of a
  failed command, and nothing else.\<close>

definition command_fits :: "ClientCommand \<Rightarrow> bool" where
  "command_fits c \<longleftrightarrow> command_valid c
     \<or> command_state c = Command_Failed \<and> command_action c = RequestConversationTurn \<and> command_claimed_at c = None
       \<and> (\<forall>t. command_valid (c\<lparr>command_claimed_at := Some t\<rparr>))"

lemma command_fits_valid: "command_fits c \<Longrightarrow> command_state c \<noteq> Command_Failed \<Longrightarrow> command_valid c"
  by (simp add: command_fits_def)

definition command_inv :: "command_db \<Rightarrow> bool" where
  "command_inv db \<longleftrightarrow>
     (\<forall>r \<in> set (cd_commands db). command_fits (cc_command r))
   \<and> distinct (map (\<lambda>r. (cc_workspace r, command_command_id (cc_command r))) (cd_commands db))
   \<and> distinct (map (\<lambda>r. (cc_workspace r, command_idempotency_key (cc_command r))) (cd_commands db))
   \<and> distinct (map (\<lambda>i. (ci_workspace i, ci_command_id i)) (cd_invocations db))
   \<and> (\<forall>i \<in> set (cd_invocations db). \<exists>j \<in> set (cd_invocations db). ci_workspace j = ci_workspace i
        \<and> ci_command_id j = ci_root_command_id i \<and> ci_root_command_id j = ci_root_command_id i
        \<and> ci_plan_only j = ci_plan_only i)"

lemma command_invD:
  assumes "command_inv db"
  shows "\<forall>r \<in> set (cd_commands db). command_fits (cc_command r)"
    and "distinct (map (\<lambda>r. (cc_workspace r, command_command_id (cc_command r))) (cd_commands db))"
    and "distinct (map (\<lambda>r. (cc_workspace r, command_idempotency_key (cc_command r))) (cd_commands db))"
    and "distinct (map (\<lambda>i. (ci_workspace i, ci_command_id i)) (cd_invocations db))"
    and "i \<in> set (cd_invocations db) \<Longrightarrow> \<exists>j \<in> set (cd_invocations db). ci_workspace j = ci_workspace i
        \<and> ci_command_id j = ci_root_command_id i \<and> ci_root_command_id j = ci_root_command_id i
        \<and> ci_plan_only j = ci_plan_only i"
  using assms unfolding command_inv_def by blast+

text \<open>The two writes of the operations: a new command with its invocation, which is its own root or
  inherits the root and the flag of a stored one; and an update of rows.\<close>

inductive command_write :: "command_db \<Rightarrow> command_db \<Rightarrow> bool" where
  write_new: "validate_new c = Inr () \<Longrightarrow> insert_pending_command ws c db = Inr db1
    \<Longrightarrow> insert_command_invocation ws (command_command_id c) root_id plan_only t db1 = Inr db2
    \<Longrightarrow> root_id = command_command_id c \<or> load_command_invocation ws db source = Some (root_id, plan_only)
    \<Longrightarrow> command_write db db2"
| write_update: "(\<And>r. r \<in> set (cd_commands db) \<Longrightarrow> p r \<Longrightarrow> command_evolves r (set_command f r)
      \<and> (command_fits (cc_command r) \<longrightarrow> command_fits (f (cc_command r))))
    \<Longrightarrow> command_write db (db\<lparr>cd_commands := update_rows p (set_command f) (cd_commands db)\<rparr>)"
| write_other: "cd_commands db' = cd_commands db \<Longrightarrow> cd_invocations db' = cd_invocations db \<Longrightarrow> command_write db db'"

lemma insert_pending_Inr:
  assumes "insert_pending_command ws c db = Inr db'"
  shows "db' = db\<lparr>cd_commands := cd_commands db @ [\<lparr> cc_workspace = ws, cc_command = as_submitted c \<rparr>]\<rparr>"
    and "\<forall>e \<in> set (commands_in ws db). command_command_id e \<noteq> command_command_id c
       \<and> command_idempotency_key e \<noteq> command_idempotency_key c"
  using assms unfolding insert_pending_command_def by (auto simp: list_ex_iff split: if_split_asm)

lemma insert_invocation_Inr:
  assumes "insert_command_invocation ws i root_id plan_only t db = Inr db'"
  shows "db' = db\<lparr>cd_invocations := cd_invocations db @
        [\<lparr> ci_workspace = ws, ci_command_id = i, ci_root_command_id = root_id, ci_plan_only = plan_only, ci_recorded_at = t \<rparr>]\<rparr>"
    and "load_command_invocation ws db i = None"
  using assms unfolding insert_command_invocation_def by (simp_all del: not_None_eq split: if_split_asm)

lemma load_invocation_None:
  "load_command_invocation ws db i = None \<longleftrightarrow>
     \<not> (\<exists>r \<in> set (cd_invocations db). ci_workspace r = ws \<and> ci_command_id r = i)"
  by (auto simp: load_command_invocation_def find_None_iff)

lemma load_invocation_Some:
  "load_command_invocation ws db i = Some (root_id, plan_only) \<Longrightarrow>
     \<exists>r \<in> set (cd_invocations db). ci_workspace r = ws \<and> ci_command_id r = i \<and> ci_root_command_id r = root_id
       \<and> ci_plan_only r = plan_only"
  by (auto simp: load_command_invocation_def dest!: find_in_set)

lemma validate_new_Inr: "validate_new c = Inr () \<longleftrightarrow> command_valid c \<and> command_state c = Command_Pending"
  by (auto simp: validate_new_def command_valid_def and_then_eq_Inr map_err_eq_Inr)

lemma as_submitted_valid: "command_valid c \<Longrightarrow> command_valid (as_submitted c)"
  by (auto simp: command_valid_def client_command_validate_def as_submitted_def split: if_splits)

lemma as_submitted_simps [simp]:
  "command_command_id (as_submitted c) = command_command_id c"
  "command_idempotency_key (as_submitted c) = command_idempotency_key c"
  "command_state (as_submitted c) = Command_Pending" "as_submitted (as_submitted c) = as_submitted c"
  by (simp_all add: as_submitted_def)

lemma command_write_inv: "command_write db db' \<Longrightarrow> command_inv db \<Longrightarrow> command_inv db'"
proof (induction rule: command_write.induct)
  case (write_new c ws db db1 root_id plan_only t db2 source)
  note inv = command_invD [OF write_new.prems]
  note c = insert_pending_Inr [OF write_new.hyps(2)] and i = insert_invocation_Inr [OF write_new.hyps(3)]
  let ?i = "\<lparr> ci_workspace = ws, ci_command_id = command_command_id c, ci_root_command_id = root_id,
    ci_plan_only = plan_only, ci_recorded_at = t \<rparr>"
  have tables: "cd_commands db2 = cd_commands db @ [\<lparr> cc_workspace = ws, cc_command = as_submitted c \<rparr>]"
    "cd_invocations db2 = cd_invocations db @ [?i]" "cd_invocations db1 = cd_invocations db" by (simp_all add: c(1) i(1))
  have fresh: "\<forall>r \<in> set (cd_commands db). cc_workspace r = ws \<longrightarrow> command_command_id (cc_command r) \<noteq> command_command_id c
      \<and> command_idempotency_key (cc_command r) \<noteq> command_idempotency_key c"
    using c(2) by (auto simp: commands_in_def)
  have unknown: "\<not> (\<exists>r \<in> set (cd_invocations db). ci_workspace r = ws \<and> ci_command_id r = command_command_id c)"
    using i(2) unfolding load_invocation_None tables .
  have valid: "command_fits (as_submitted c)" using write_new.hyps(1) as_submitted_valid by (simp add: validate_new_Inr command_fits_def)
  have own: "\<exists>j \<in> set (cd_invocations db2). ci_workspace j = ws \<and> ci_command_id j = root_id
      \<and> ci_root_command_id j = root_id \<and> ci_plan_only j = plan_only"
    using write_new.hyps(4)
  proof
    assume "load_command_invocation ws db source = Some (root_id, plan_only)"
    from load_invocation_Some [OF this] show ?thesis using inv(5) unfolding tables by fastforce
  qed (simp add: tables)
  show ?case unfolding command_inv_def
  proof (intro conjI)
    show "\<forall>r \<in> set (cd_commands db2). command_fits (cc_command r)" using inv(1) valid by (simp add: tables)
    show "distinct (map (\<lambda>r. (cc_workspace r, command_command_id (cc_command r))) (cd_commands db2))"
      "distinct (map (\<lambda>r. (cc_workspace r, command_idempotency_key (cc_command r))) (cd_commands db2))"
      using inv(2,3) fresh by (auto simp: tables)
    show "distinct (map (\<lambda>i. (ci_workspace i, ci_command_id i)) (cd_invocations db2))"
      using inv(4) unknown by (auto simp: tables)
    show "\<forall>i \<in> set (cd_invocations db2). \<exists>j \<in> set (cd_invocations db2). ci_workspace j = ci_workspace i
        \<and> ci_command_id j = ci_root_command_id i \<and> ci_root_command_id j = ci_root_command_id i
        \<and> ci_plan_only j = ci_plan_only i"
    proof
      fix i assume i: "i \<in> set (cd_invocations db2)"
      have sub: "set (cd_invocations db) \<subseteq> set (cd_invocations db2)" by (auto simp: tables)
      from i have "i \<in> set (cd_invocations db) \<or> i = ?i" by (auto simp: tables)
      then show "\<exists>j \<in> set (cd_invocations db2). ci_workspace j = ci_workspace i \<and> ci_command_id j = ci_root_command_id i
        \<and> ci_root_command_id j = ci_root_command_id i \<and> ci_plan_only j = ci_plan_only i"
      proof
        assume "i \<in> set (cd_invocations db)"
        with inv(5) sub show ?thesis by blast
      qed (use own in simp)
    qed
  qed
next
  case (write_update db p f)
  note inv = command_invD [OF write_update.prems]
  have key: "cc_workspace (set_command f r) = cc_workspace r"
    "command_command_id (cc_command (set_command f r)) = command_command_id (cc_command r)"
    "command_idempotency_key (cc_command (set_command f r)) = command_idempotency_key (cc_command r)"
    if "r \<in> set (cd_commands db)" "p r" for r
    using command_evolves_keys write_update.hyps [OF that] by blast+
  have valid: "\<forall>r \<in> set (update_rows p (set_command f) (cd_commands db)). command_fits (cc_command r)"
    using inv(1) write_update.hyps by (auto simp: update_rows_def set_command_def)
  have "map (\<lambda>r. (cc_workspace r, command_command_id (cc_command r))) (update_rows p (set_command f) (cd_commands db))
      = map (\<lambda>r. (cc_workspace r, command_command_id (cc_command r))) (cd_commands db)"
    and "map (\<lambda>r. (cc_workspace r, command_idempotency_key (cc_command r))) (update_rows p (set_command f) (cd_commands db))
      = map (\<lambda>r. (cc_workspace r, command_idempotency_key (cc_command r))) (cd_commands db)"
    by (rule map_update_rows_cond, simp only: key)+
  then show ?case using inv(2-5) valid unfolding command_inv_def by simp
qed (simp add: command_inv_def)

lemma command_write_rows:
  "command_write db db' \<Longrightarrow> \<exists>old new. cd_commands db' = old @ new \<and> list_all2 command_evolves (cd_commands db) old"
proof (induction rule: command_write.induct)
  case (write_new c ws db db1 root_id plan_only t db2 source)
  have "cd_commands db2 = cd_commands db @ [\<lparr> cc_workspace = ws, cc_command = as_submitted c \<rparr>]"
    by (simp add: insert_pending_Inr(1) [OF write_new(2)] insert_invocation_Inr(1) [OF write_new(3)])
  then show ?case using command_evolves_refl list.rel_refl by blast
next
  case (write_update db p f)
  have "list_all2 command_evolves (cd_commands db) (update_rows p (set_command f) (cd_commands db))"
    by (rule list_all2_update_rows) (use write_update command_evolves_refl in blast)+
  moreover have "cd_commands (db\<lparr>cd_commands := update_rows p (set_command f) (cd_commands db)\<rparr>)
      = update_rows p (set_command f) (cd_commands db) @ []" by simp
  ultimately show ?case by blast
next
  case (write_other db' db)
  then show ?case using command_evolves_refl list.rel_refl append_Nil2 by metis
qed


interpretation command_rows: growing_table command_write cd_commands command_evolves command_inv
  using command_write_rows command_write_inv command_evolves_refl command_evolves_trans
  by unfold_locales blast+


section \<open>The operations\<close>

lemma submit_under_writes:
  assumes "validate_new c = Inr ()" and "submit_under ws root_of plan_only c db = Inr (result, db')"
    and "\<And>i. root_of i = i \<or> load_command_invocation ws db source = Some (root_of i, plan_only)"
  shows "command_write\<^sup>*\<^sup>* db db'"
proof (cases "load_by_idempotency_key ws db (command_idempotency_key c)")
  case None
  then obtain db1 where "insert_pending_command ws c db = Inr db1"
    "insert_command_invocation ws (command_command_id c) (root_of (command_command_id c)) plan_only
       (command_requested_at c) db1 = Inr db'"
    using assms(2) by (auto simp: submit_under_def and_then_eq_Inr)
  then show ?thesis using write_new [OF assms(1)] assms(3) by blast
next
  case (Some existing)
  then show ?thesis using assms(2) by (auto simp: submit_under_def and_then_eq_Inr)
qed

lemma submit_writes:
  "submit_client_command_with_invocation ws c plan_only db = (r, db') \<Longrightarrow> command_write\<^sup>*\<^sup>* db db'"
  "submit_derived_client_command ws source c db = (r, db') \<Longrightarrow> command_write\<^sup>*\<^sup>* db db'"
  unfolding submit_client_command_with_invocation_def submit_derived_client_command_def
  by (erule transact_cases; auto simp: and_then_eq_Inr split: option.splits intro: submit_under_writes)+

lemma set_command_simps [simp]:
  "cc_workspace (set_command f r) = cc_workspace r" "cc_command (set_command f r) = f (cc_command r)"
  by (simp_all add: set_command_def)

lemma update_command_writes:
  assumes "\<And>c. as_submitted (f c) = as_submitted c" and "\<And>c. p c \<Longrightarrow> command_valid c \<Longrightarrow> command_fits (f c)"
    and "\<And>c. p c \<Longrightarrow> command_state c \<noteq> Command_Completed \<and> command_state c \<noteq> Command_Failed"
    and "\<And>c. p c \<Longrightarrow> command_state (f c) = Command_Pending \<Longrightarrow> command_state c = Command_Pending \<or> replayable (command_action c)"
    and "\<And>r. r \<in> set (cd_commands db) \<Longrightarrow> q r \<Longrightarrow> p (cc_command r)"
  shows "command_write\<^sup>*\<^sup>* db (db\<lparr>cd_commands := update_rows q (set_command f) (cd_commands db)\<rparr>)"
proof -
  have "command_evolves r (set_command f r)" if "r \<in> set (cd_commands db)" "q r" for r
    using assms(1,3,4) assms(5) [OF that] unfolding command_evolves_def by auto
  moreover have "command_fits (f (cc_command r))" if "r \<in> set (cd_commands db)" "q r" "command_fits (cc_command r)" for r
    using assms(2,3) assms(5) [OF that(1,2)] command_fits_valid [OF that(3)] by blast
  ultimately show ?thesis using write_update [of db q f] by blast
qed

lemma command_fits_lifecycle:
  "command_valid c \<Longrightarrow> command_state c = Command_Pending \<Longrightarrow>
     command_fits (c\<lparr>command_state := Command_Claimed, command_claimed_at := Some t\<rparr>)"
  "command_valid c \<Longrightarrow> command_state c = Command_Claimed \<Longrightarrow> \<not> is_blank outcome \<Longrightarrow> s \<in> {Command_Completed, Command_Failed} \<Longrightarrow>
     command_fits (c\<lparr>command_state := s, command_completed_at := Some t, command_outcome := Some outcome\<rparr>)"
  "command_valid c \<Longrightarrow> command_state c = Command_Claimed \<Longrightarrow>
     command_fits (c\<lparr>command_state := Command_Pending, command_claimed_at := None\<rparr>)"
  "command_valid c \<Longrightarrow> command_state c = Command_Pending \<or> command_state c = Command_Claimed \<Longrightarrow> \<not> is_blank outcome
     \<Longrightarrow> command_action c = RequestConversationTurn
     \<Longrightarrow> command_fits (c\<lparr>command_state := Command_Failed, command_completed_at := Some t, command_outcome := Some outcome\<rparr>)"
  by (auto simp: command_fits_def command_valid_def client_command_validate_def split: if_splits)

lemma claim_writes:
  assumes "claim_from queue ws t db = (r, db')"
  shows "command_write\<^sup>*\<^sup>* db db'"
proof -
  let ?f = "\<lambda>c. c\<lparr>command_state := Command_Claimed, command_claimed_at := Some t\<rparr>"
  have upd: "command_write\<^sup>*\<^sup>* db
      (db\<lparr>cd_commands := update_rows (has_state ws i Command_Pending) (set_command ?f) (cd_commands db)\<rparr>)" for i
    by (rule update_command_writes [where p = "\<lambda>c. command_state c = Command_Pending"])
      (auto simp: as_submitted_def has_state_def intro: command_fits_lifecycle)
  show ?thesis using assms upd unfolding claim_from_def transact_def
    by (auto simp: Let_def split: if_splits option.splits)
qed

lemma finish_writes:
  assumes "finish_client_command ws i s outcome t db = (r, db')" and "s \<in> {Command_Completed, Command_Failed}"
  shows "command_write\<^sup>*\<^sup>* db db'"
proof (cases "is_blank outcome")
  case False
  let ?f = "\<lambda>c. c\<lparr>command_state := s, command_completed_at := Some t, command_outcome := Some outcome\<rparr>"
  have "command_write\<^sup>*\<^sup>* db
      (db\<lparr>cd_commands := update_rows (has_state ws i Command_Claimed) (set_command ?f) (cd_commands db)\<rparr>)"
    by (rule update_command_writes [where p = "\<lambda>c. command_state c = Command_Claimed"])
      (use False assms(2) in \<open>auto simp: as_submitted_def has_state_def intro: command_fits_lifecycle\<close>)
  then show ?thesis using assms(1) False by (auto simp: finish_client_command_def Let_def)
qed (use assms(1) in \<open>simp add: finish_client_command_def\<close>)

text \<open>The commands of the recovery loop are the rows of the table, so the loop requeues only rows whose action may be
  replayed.\<close>

definition actions_agree :: "WorkspaceId \<Rightarrow> ClientCommand list \<Rightarrow> command_db \<Rightarrow> bool" where
  "actions_agree ws cs db \<longleftrightarrow>
     (\<forall>c \<in> set cs. \<forall>r \<in> set (cd_commands db). cc_workspace r = ws \<and> command_command_id (cc_command r) = command_command_id c
        \<longrightarrow> command_action (cc_command r) = command_action c)"

lemma recover_one_writes:
  assumes "recover_one ws stale c db = Inr (d, db')" and "actions_agree ws (c # cs) db"
  shows "command_write\<^sup>*\<^sup>* db db' \<and> actions_agree ws cs db'"
proof -
  let ?f = "\<lambda>c. c\<lparr>command_state := Command_Pending, command_claimed_at := None\<rparr>"
  let ?q = "\<lambda>t r. has_state ws (command_command_id c) Command_Claimed r \<and> command_claimed_at (cc_command r) = Some t"
  let ?db = "\<lambda>t. db\<lparr>cd_commands := update_rows (?q t) (set_command ?f) (cd_commands db)\<rparr>"
  have agree: "actions_agree ws cs db" "actions_agree ws cs (?db t)" for t
    using assms(2) by (auto simp: actions_agree_def update_rows_def)
  have requeue: "command_write\<^sup>*\<^sup>* db (?db t)" if "replayable (command_action c)" for t
    by (rule update_command_writes [where p = "\<lambda>c. command_state c = Command_Claimed \<and> replayable (command_action c)"])
      (use that assms(2) in \<open>auto simp: as_submitted_def has_state_def actions_agree_def intro: command_fits_lifecycle\<close>)
  show ?thesis using assms(1) agree requeue unfolding recover_one_def
    by (auto simp: Let_def split: option.splits if_splits)
qed

lemma recover_loop_writes:
  "recover_loop ws stale cs db = Inr (l, db') \<Longrightarrow> actions_agree ws cs db \<Longrightarrow> command_write\<^sup>*\<^sup>* db db'"
proof (induction cs arbitrary: db l)
  case (Cons c cs)
  then obtain d db1 rest where "recover_one ws stale c db = Inr (d, db1)" "recover_loop ws stale cs db1 = Inr (rest, db')"
    by (auto simp: and_then_eq_Inr)
  then show ?case using recover_one_writes Cons.prems(2) Cons.IH by (meson rtranclp_trans)
qed simp

lemma recover_writes:
  assumes "recover_stale_client_commands ws stale db = (r, db')" and "command_inv db"
  shows "command_write\<^sup>*\<^sup>* db db'"
  using assms(1) unfolding recover_stale_client_commands_def
proof (cases rule: transact_cases)
  case (2 l)
  have "r = s" if "r \<in> set (cd_commands db)" "s \<in> set (cd_commands db)" "cc_workspace r = cc_workspace s"
    "command_command_id (cc_command r) = command_command_id (cc_command s)" for r s
    using command_invD(2) [OF assms(2)] that by (auto simp: distinct_map inj_on_def)
  then have "actions_agree ws (sort_key k (filter p (commands_in ws db))) db" for k :: "ClientCommand \<Rightarrow> DateTime \<times> uuid" and p
    unfolding actions_agree_def commands_in_def by auto
  then show ?thesis using recover_loop_writes 2(2) by blast
qed simp

lemma follow_up_writes:
  assumes "validate_new c = Inr ()" "queue_follow_up ws source c db = Inr db'"
  shows "command_write db db'"
proof -
  obtain db1 root_id plan_only where "insert_pending_command ws c db = Inr db1"
      "load_command_invocation ws db1 source = Some (root_id, plan_only)"
      "insert_command_invocation ws (command_command_id c) root_id plan_only (command_requested_at c) db1 = Inr db'"
    using assms(2) by (auto simp: queue_follow_up_def and_then_eq_Inr split: option.splits)
  moreover have "load_command_invocation ws db1 source = load_command_invocation ws db source"
    unfolding insert_pending_Inr(1) [OF calculation(1)] by (simp add: load_command_invocation_def)
  ultimately show ?thesis using write_new [OF assms(1)] by metis
qed

lemma fail_interrupted_writes:
  assumes "\<not> is_blank e"
  shows "command_write\<^sup>*\<^sup>* db (fold (fail_interrupted_turn ws t e) attempt_ids db)"
proof (induction attempt_ids arbitrary: db)
  case (Cons i attempt_ids)
  have "command_write\<^sup>*\<^sup>* db (fail_interrupted_turn ws t e i db)"
    unfolding fail_interrupted_turn_def
    by (rule update_command_writes [where p = "\<lambda>c. command_action c = RequestConversationTurn
          \<and> (command_state c = Command_Pending \<or> command_state c = Command_Claimed)"])
      (use assms in \<open>auto simp: as_submitted_def intro: command_fits_lifecycle\<close>)
  then show ?case using Cons.IH [of "fail_interrupted_turn ws t e i db"] by (simp add: rtranclp_trans)
qed simp

lemma reconcile_turns_writes:
  assumes "reconcile_interrupted_turns ws attempt_ids t evidence db = (result, db')"
  shows "command_write\<^sup>*\<^sup>* db db'"
  using assms fail_interrupted_writes [OF trim_not_blank, of evidence] unfolding reconcile_interrupted_turns_def
  by (elim transact_cases) (auto simp: Let_def split: if_split_asm)

section \<open>All operations together\<close>

text \<open>One step of the queue: an operation in some workspace, or a change that leaves both tables alone.\<close>

inductive command_step :: "command_db \<Rightarrow> command_db \<Rightarrow> bool" where
  submit: "submit_client_command_with_invocation ws c plan_only db = (r, db') \<Longrightarrow> command_step db db'"
| derive: "submit_derived_client_command ws source c db = (r, db') \<Longrightarrow> command_step db db'"
| claim: "claim_from queue ws t db = (taken, db') \<Longrightarrow> command_step db db'"
| complete: "complete_client_command ws i outcome t db = (u, db') \<Longrightarrow> command_step db db'"
| fail: "fail_client_command ws i outcome t db = (u, db') \<Longrightarrow> command_step db db'"
| recover: "recover_stale_client_commands ws stale db = (l, db') \<Longrightarrow> command_step db db'"
| follow_up: "validate_new c = Inr () \<Longrightarrow> queue_follow_up ws source c db = Inr db' \<Longrightarrow> command_step db db'"
| reconcile: "reconcile_interrupted_turns ws attempt_ids t evidence db = (ids, db') \<Longrightarrow> command_step db db'"
| other: "cd_commands db' = cd_commands db \<Longrightarrow> cd_invocations db' = cd_invocations db \<Longrightarrow> command_step db db'"

lemma command_step_writes: "command_step db db' \<Longrightarrow> command_inv db \<Longrightarrow> command_write\<^sup>*\<^sup>* db db'"
  by (induction rule: command_step.induct)
    (auto simp: complete_client_command_def fail_client_command_def intro: write_other
       dest: submit_writes claim_writes finish_writes recover_writes follow_up_writes reconcile_turns_writes)

lemma command_run_writes: "command_step\<^sup>*\<^sup>* db db' \<Longrightarrow> command_inv db \<Longrightarrow> command_write\<^sup>*\<^sup>* db db'"
proof (induction rule: rtranclp_induct)
  case (step y z)
  then show ?case using command_step_writes [of y z] command_rows.run_inv [of db y] by (meson rtranclp_trans)
qed simp

lemma empty_command_inv: "cd_commands db = [] \<Longrightarrow> cd_invocations db = [] \<Longrightarrow> command_inv db"
  by (simp add: command_inv_def)

lemma command_unique:
  assumes "command_inv db" "r \<in> set (cd_commands db)" "s \<in> set (cd_commands db)" "cc_workspace r = cc_workspace s"
    "command_command_id (cc_command r) = command_command_id (cc_command s)
     \<or> command_idempotency_key (cc_command r) = command_idempotency_key (cc_command s)"
  shows "r = s"
  using command_invD(2,3) [OF assms(1)] assms(2-5) by (auto simp: distinct_map inj_on_def)




section \<open>Properties\<close>


text \<open>C12: a command is not lost and not run twice. From any reachable state on, through any further operations, a stored
  command stays stored with everything that was submitted; once completed or failed its record never
  changes again; and once handed out, a command whose action must not be repeated never becomes pending, and so is never
  handed out, again.\<close>

theorem commands_never_lost_or_rerun:
  assumes "command_step\<^sup>*\<^sup>* db0 db" and "cd_commands db0 = []" and "cd_invocations db0 = []"
    and "command_step\<^sup>*\<^sup>* db db'" and "r \<in> set (cd_commands db)"
  shows "\<exists>r' \<in> set (cd_commands db'). cc_workspace r' = cc_workspace r
    \<and> as_submitted (cc_command r') = as_submitted (cc_command r)
    \<and> (command_state (cc_command r) \<in> {Command_Completed, Command_Failed} \<longrightarrow> r' = r)
    \<and> (command_state (cc_command r) \<noteq> Command_Pending
        \<and> command_action (cc_command r) \<in> {StopDaemon, ReviseGraph, CancelPlan, ApproveIntegration, CreateResolutionTask}
        \<longrightarrow> command_state (cc_command r') \<noteq> Command_Pending)"
proof -
  have inv: "command_inv db"
    using command_rows.run_inv command_run_writes [OF assms(1)] empty_command_inv [OF assms(2,3)] by blast
  obtain r' where "r' \<in> set (cd_commands db')" "command_evolves r r'"
    using command_rows.row_persists [OF command_run_writes [OF assms(4) inv] inv assms(5)] by blast
  then show ?thesis by (intro bexI [of _ r']) (auto simp: command_evolves_def replayable_def)
qed



lemma next_pending_Some:
  assumes "next_pending ws db queue = Some c"
  shows "c \<in> set (commands_in ws db)" "command_state c = Command_Pending" "in_queue queue (command_action c)"
    and "\<forall>e \<in> set (commands_in ws db). command_state e = Command_Pending \<and> in_queue queue (command_action e) \<longrightarrow>
      (command_requested_at c, command_command_id c) \<le> (command_requested_at e, command_command_id e)"
proof -
  let ?k = "\<lambda>c. (command_requested_at c, command_command_id c)"
  let ?cs = "filter (\<lambda>c. command_state c = Command_Pending \<and> in_queue queue (command_action c)) (commands_in ws db)"
  obtain rest where sorted: "sort_key ?k ?cs = c # rest" using assms by (auto simp: next_pending_def split: list.splits)
  have "set ?cs = set (c # rest)" unfolding sorted [symmetric] by simp
  moreover have "\<forall>e \<in> set rest. ?k c \<le> ?k e" using sorted_sort_key [of ?k ?cs] unfolding sorted by simp
  ultimately have c: "c \<in> set ?cs" and least: "\<forall>e \<in> set ?cs. ?k c \<le> ?k e" by (simp_all only: set_simps) blast+
  show "c \<in> set (commands_in ws db)" "command_state c = Command_Pending" "in_queue queue (command_action c)"
    using c by simp_all
  show "\<forall>e \<in> set (commands_in ws db). command_state e = Command_Pending \<and> in_queue queue (command_action e) \<longrightarrow> ?k c \<le> ?k e"
    using least by simp
qed

lemma next_pending_None:
  "next_pending ws db queue = None \<longleftrightarrow>
     \<not> (\<exists>c \<in> set (commands_in ws db). command_state c = Command_Pending \<and> in_queue queue (command_action c))"
proof -
  let ?cs = "filter (\<lambda>c. command_state c = Command_Pending \<and> in_queue queue (command_action c)) (commands_in ws db)"
  have "next_pending ws db queue = None \<longleftrightarrow> set (sort_key (\<lambda>c. (command_requested_at c, command_command_id c)) ?cs) = {}"
    by (simp add: next_pending_def del: set_sort split: list.splits)
  also have "\<dots> \<longleftrightarrow> \<not> (\<exists>c \<in> set (commands_in ws db). command_state c = Command_Pending \<and> in_queue queue (command_action c))"
    by auto
  finally show ?thesis .
qed

text \<open>claiming takes the oldest pending command of its queue. The result is nothing exactly when no command of
  the queue is pending; otherwise it is the pending command with the least request time (the least id among
  those), it is stored as claimed, and no other row changes.\<close>

theorem claim_takes_oldest:
  assumes "command_step\<^sup>*\<^sup>* db0 db" and "cd_commands db0 = []" and "cd_invocations db0 = []"
  shows "case claim_from queue ws t db of
      (Inl e, _) \<Rightarrow> False
    | (Inr None, db') \<Rightarrow> db' = db \<and> \<not> (\<exists>c \<in> set (commands_in ws db). command_state c = Command_Pending \<and> in_queue queue (command_action c))
    | (Inr (Some c'), db') \<Rightarrow> \<exists>c \<in> set (commands_in ws db). command_state c = Command_Pending \<and> in_queue queue (command_action c)
        \<and> c' = c\<lparr>command_state := Command_Claimed, command_claimed_at := Some t\<rparr>
        \<and> (\<forall>e \<in> set (commands_in ws db). command_state e = Command_Pending \<and> in_queue queue (command_action e) \<longrightarrow>
             (command_requested_at c, command_command_id c) \<le> (command_requested_at e, command_command_id e))
        \<and> cd_commands db' = map (\<lambda>r. if r = \<lparr> cc_workspace = ws, cc_command = c \<rparr> then \<lparr> cc_workspace = ws, cc_command = c' \<rparr> else r)
             (cd_commands db)"
proof (cases "next_pending ws db queue")
  case None
  moreover from this have "\<not> pending_command_exists ws db queue"
    unfolding next_pending_None by (auto simp: pending_command_exists_def list_ex_iff)
  ultimately show ?thesis by (simp add: claim_from_def next_pending_None)
next
  case (Some c)
  note c = next_pending_Some [OF this]
  have inv: "command_inv db"
    using command_rows.run_inv command_run_writes [OF assms(1)] empty_command_inv [OF assms(2,3)] by blast
  let ?r = "\<lparr> cc_workspace = ws, cc_command = c \<rparr>"
  let ?f = "\<lambda>c. c\<lparr>command_state := Command_Claimed, command_claimed_at := Some t\<rparr>"
  let ?p = "has_state ws (command_command_id c) Command_Pending"
  have r: "?r \<in> set (cd_commands db)"
  proof -
    obtain r where "r \<in> set (cd_commands db)" "cc_workspace r = ws" "cc_command r = c" using c(1) by (auto simp: commands_in_def)
    moreover from this(2,3) have "r = ?r" by (simp add: command_row.equality)
    ultimately show ?thesis by simp
  qed
  have p: "?p r \<longleftrightarrow> r = ?r" if "r \<in> set (cd_commands db)" for r
    using command_unique [OF inv that r] c(2) by (auto simp: has_state_def)
  have "distinct (cd_commands db)" using command_invD(2) [OF inv] by (simp add: distinct_map)
  from matching_unique [OF this r p] have one: "matching ?p (cd_commands db) = 1" .
  have rows: "update_rows ?p (set_command ?f) (cd_commands db)
      = map (\<lambda>r. if r = ?r then \<lparr> cc_workspace = ws, cc_command = ?f c \<rparr> else r) (cd_commands db)"
    unfolding update_rows_def by (rule map_cong [OF refl]) (simp add: p set_command_def)
  have "pending_command_exists ws db queue" using c(1-3) by (auto simp: pending_command_exists_def list_ex_iff)
  then have "claim_from queue ws t db = (Inr (Some (?f c)), db\<lparr>cd_commands := update_rows ?p (set_command ?f) (cd_commands db)\<rparr>)"
    unfolding claim_from_def transact_def using one by (simp add: Some Let_def)
  then show ?thesis using c rows by (simp only: prod.case sum.case option.case) (intro bexI [of _ c]; simp)
qed

section \<open>Sample queue\<close>

definition queued_command :: "ClientCommandId \<Rightarrow> string \<Rightarrow> ClientCommandAction \<Rightarrow> DateTime \<Rightarrow> ClientCommand" where
  "queued_command i k a t = \<lparr> command_command_id = i, command_session_id = None, command_task_id = None, command_action = a,
     command_payload = JNull, command_idempotency_key = k, command_state = Command_Pending, command_requested_by = ''cli'',
     command_requested_at = t, command_claimed_at = None, command_completed_at = None, command_outcome = None \<rparr>"

definition queue_empty :: command_db where
  "queue_empty = \<lparr> cd_commands = [], cd_invocations = [], cd_sessions = [], cd_tasks = [] \<rparr>"

definition queue_one :: command_db where
  "queue_one = snd (submit_client_command_with_invocation 1 (queued_command 1 ''a'' ApproveIntegration 100) True queue_empty)"

definition queue_two :: command_db where
  "queue_two = snd (submit_derived_client_command 1 1 (queued_command 2 ''b'' RequestPlan 90) queue_one)"

definition queue_claimed :: command_db where
  "queue_claimed = snd (claim_from Queue_All 1 200 queue_two)"


lemma queue_facts:
  "load_command_invocation 1 queue_two 2 = Some (1, True)"
  "map (command_command_id \<circ> cc_command) (cd_commands queue_two) = [1, 2]"
  "fst (claim_from Queue_All 1 200 queue_two)
     = Inr (Some ((queued_command 2 ''b'' RequestPlan 90)\<lparr>command_state := Command_Claimed, command_claimed_at := Some 200\<rparr>))"
  "\<lparr> cc_workspace = 1, cc_command = queued_command 1 ''a'' ApproveIntegration 100 \<rparr> \<in> set (cd_commands queue_one)"
  by code_simp+

lemma queue_steps: "command_step queue_empty queue_one" "command_step queue_one queue_two" "command_step queue_two queue_claimed"
  unfolding queue_one_def queue_two_def queue_claimed_def
  by (rule submit [OF prod.collapse [symmetric]] derive [OF prod.collapse [symmetric]] claim [OF prod.collapse [symmetric]])+

lemma queue_runs: "command_step\<^sup>*\<^sup>* queue_empty queue_one" "command_step\<^sup>*\<^sup>* queue_one queue_claimed"
  "command_step\<^sup>*\<^sup>* queue_empty queue_two"
  using queue_steps by (meson converse_rtranclp_into_rtranclp r_into_rtranclp)+

lemma queue_starts: "cd_commands queue_empty = []" "cd_invocations queue_empty = []"
  by (simp_all add: queue_empty_def)

text \<open>Recovery returns a conversation turn to pending while its attempt runs; reconciling the attempt fails the command without a claim
  time, and the stored record does not validate.\<close>

lemma unclaimed_failure:
  "let db = snd (submit_client_command 1 (queued_command 3 ''c'' RequestConversationTurn 100) queue_empty);
       db = snd (recover_stale_client_commands 1 300 (snd (claim_from Queue_All 1 200 db)));
       db = snd (reconcile_interrupted_turns 1 [3] 400 ''daemon restart'' db)
   in map (\<lambda>c. (command_state c, client_command_validate c)) (commands_in 1 db) = [(Command_Failed, Inl InvalidCommandLifecycle)]"
  by code_simp


theorem commands_never_lost_or_rerun_witness:
  "\<exists>r' \<in> set (cd_commands queue_claimed). as_submitted (cc_command r') = queued_command 1 ''a'' ApproveIntegration 100"
  using commands_never_lost_or_rerun [OF queue_runs(1) queue_starts queue_runs(2) queue_facts(4)]
  by (auto simp: as_submitted_def queued_command_def)


theorem claim_takes_oldest_witness:
  "\<exists>c \<in> set (commands_in 1 queue_two). command_command_id c = 2
     \<and> (\<forall>e \<in> set (commands_in 1 queue_two). command_state e = Command_Pending \<longrightarrow>
          (command_requested_at c, command_command_id c) \<le> (command_requested_at e, command_command_id e))"
proof -
  obtain db' where "claim_from Queue_All 1 200 queue_two
      = (Inr (Some ((queued_command 2 ''b'' RequestPlan 90)\<lparr>command_state := Command_Claimed, command_claimed_at := Some 200\<rparr>)), db')"
    using queue_facts(3) by (metis prod.collapse)
  with claim_takes_oldest [OF queue_runs(3) queue_starts, where queue = Queue_All and ws = 1 and t = 200]
  obtain c where c: "c \<in> set (commands_in 1 queue_two)"
    "(queued_command 2 ''b'' RequestPlan 90)\<lparr>command_state := Command_Claimed, command_claimed_at := Some 200\<rparr>
       = c\<lparr>command_state := Command_Claimed, command_claimed_at := Some 200\<rparr>"
    "\<forall>e \<in> set (commands_in 1 queue_two). command_state e = Command_Pending \<longrightarrow>
      (command_requested_at c, command_command_id c) \<le> (command_requested_at e, command_command_id e)"
    by auto
  from arg_cong [OF c(2), of command_command_id] have "command_command_id c = 2" by (simp add: queued_command_def)
  then show ?thesis using c(1,3) by blast
qed

end
