(* ===== verification/Conversation.thy ===== *)
theory Conversation
  imports Documents White_Space
begin

text \<open>
  \<open>crates/orchestrator-domain/src/conversation.rs\<close>: the outcomes a provider conversation may have, the
  requirement revisions they seal and the evidence that ties a validated plan to a repository. Strings are
  UTF-8 bytes; the generated serializers are parameters.
\<close>

section \<open>Characters of a string\<close>

text \<open>\<open>chars().any(p)\<close> for a test that looks at the encoding at the head of the remaining bytes.\<close>

fun any_char :: "(string \<Rightarrow> bool) \<Rightarrow> string \<Rightarrow> bool" where
  "any_char p [] = False"
| "any_char p (c # s) = (p (c # s) \<or> any_char p s)"

text \<open>\<open>char::is_control\<close>: U+0000 to U+001F, U+007F and U+0080 to U+009F.\<close>

fun control_here :: "string \<Rightarrow> bool" where
  "control_here [] = False"
| "control_here [a] = (byte a < 32 \<or> byte a = 127)"
| "control_here (a # b # s) = (byte a < 32 \<or> byte a = 127 \<or> byte a = 194 \<and> 128 \<le> byte b \<and> byte b \<le> 159)"

fun shell_meta_here :: "string \<Rightarrow> bool" where
  "shell_meta_here [] = False"
| "shell_meta_here (a # s) = (a \<in> set '';&|`$'')"

text \<open>\<open>rsplit(['/', '\\']).next()\<close> and \<open>trim_end_matches\<close>.\<close>

definition is_separator :: "char \<Rightarrow> bool" where
  "is_separator c \<longleftrightarrow> c = CHR ''/'' \<or> c = CHR 0x5C"

definition last_segment :: "string \<Rightarrow> string" where
  "last_segment s = rev (takeWhile (\<lambda>c. \<not> is_separator c) (rev s))"

definition strip_suffix :: "string \<Rightarrow> string \<Rightarrow> string option" where
  "strip_suffix p s =
     (if p \<noteq> [] \<and> length p \<le> length s \<and> drop (length s - length p) s = p
      then Some (take (length s - length p) s) else None)"

lemma strip_suffix_shorter: "strip_suffix p s = Some t \<Longrightarrow> length t < length s"
  by (cases p) (auto simp: strip_suffix_def split: if_splits)

function trim_end_matches :: "string \<Rightarrow> string \<Rightarrow> string" where
  "trim_end_matches p s = (case strip_suffix p s of None \<Rightarrow> s | Some t \<Rightarrow> trim_end_matches p t)"
  by pat_completeness auto
termination
  by (relation "measure (length \<circ> snd)") (auto dest: strip_suffix_shorter)

declare trim_end_matches.simps [simp del]

section \<open>Requirements\<close>

record VerificationCommand =
  vc_executable :: string
  vc_args :: "string list"

definition shells :: "string set" where
  "shells = {''sh'', ''bash'', ''zsh'', ''fish'', ''cmd'', ''powershell'', ''pwsh''}"

definition unsafe_executable :: "string \<Rightarrow> bool" where
  "unsafe_executable s \<longleftrightarrow>
     any_char (\<lambda>t. strip_ws_start t \<noteq> None \<or> control_here t \<or> shell_meta_here t) s"

definition is_safe_separated_command :: "VerificationCommand \<Rightarrow> bool" where
  "is_safe_separated_command c =
     (let executable = trim (vc_executable c) in
      if executable = [] \<or> executable \<noteq> vc_executable c \<or> unsafe_executable executable
         \<or> list_ex (\<lambda>a. list_ex (\<lambda>x. x \<in> {CHR 0x00, CHR 0x0D, CHR 0x0A}) a) (vc_args c)
      then False
      else to_ascii_lowercase (trim_end_matches ''.exe'' (last_segment executable)) \<notin> shells)"

record RequirementSnapshot =
  rq_objective :: string
  rq_in_scope :: "string list"
  rq_out_of_scope :: "string list"
  rq_constraints :: "string list"
  rq_acceptance_criteria :: "string list"
  rq_verification_plan :: "VerificationCommand list"
  rq_risks :: "string list"
  rq_open_questions :: "string list"

definition requirements_complete :: "RequirementSnapshot \<Rightarrow> bool" where
  "requirements_complete r \<longleftrightarrow>
     \<not> is_blank (rq_objective r) \<and> rq_in_scope r \<noteq> [] \<and> rq_acceptance_criteria r \<noteq> []
     \<and> rq_verification_plan r \<noteq> [] \<and> rq_open_questions r = []
     \<and> all_non_blank (rq_in_scope r) \<and> all_non_blank (rq_out_of_scope r) \<and> all_non_blank (rq_constraints r)
     \<and> all_non_blank (rq_acceptance_criteria r) \<and> all_non_blank (rq_risks r)
     \<and> list_all is_safe_separated_command (rq_verification_plan r)"

datatype ConversationValidationError =
    BlankResponse
  | BlankObjective
  | BlankRequirementItem
  | UnsafeVerificationCommand
  | MissingOpenQuestion
  | IncompleteCandidate
  | BlankEvidence
  | InvalidOrdinal
  | Conversation_UnsupportedSchema
  | BlankGitRoot
  | InvalidBaseCommit
  | InvalidRequirementSnapshotHash
  | MissingValidationChecks
  | MissingPolicyEvidence
  | IneligibleProvider ProviderId
  | Conversation_Integrity IntegrityError

definition requirements_validate :: "RequirementSnapshot \<Rightarrow> ConversationValidationError + unit" where
  "requirements_validate r =
     (if is_blank (rq_objective r) then Inl BlankObjective
      else if \<not> all_non_blank (rq_in_scope r) \<or> \<not> all_non_blank (rq_out_of_scope r)
              \<or> \<not> all_non_blank (rq_constraints r) \<or> \<not> all_non_blank (rq_acceptance_criteria r)
              \<or> \<not> all_non_blank (rq_risks r) \<or> \<not> all_non_blank (rq_open_questions r)
      then Inl BlankRequirementItem
      else if \<not> list_all is_safe_separated_command (rq_verification_plan r)
      then Inl UnsafeVerificationCommand
      else Inr ())"

section \<open>Outcomes\<close>

datatype ConversationOutcome =
    AnswerComplete string
  | MoreInformationNeeded string RequirementSnapshot
  | WorktreeTaskCandidate string RequirementSnapshot
  | Outcome_NeedsAttention string string

fun response_redacted :: "ConversationOutcome \<Rightarrow> string" where
  "response_redacted (AnswerComplete r) = r"
| "response_redacted (MoreInformationNeeded r _) = r"
| "response_redacted (WorktreeTaskCandidate r _) = r"
| "response_redacted (Outcome_NeedsAttention r _) = r"

definition outcome_validate :: "ConversationOutcome \<Rightarrow> ConversationValidationError + unit" where
  "outcome_validate outcome =
     (if is_blank (response_redacted outcome) then Inl BlankResponse
      else
        case outcome of
          MoreInformationNeeded _ requirements \<Rightarrow>
            and_then (requirements_validate requirements) (\<lambda>_.
              if rq_open_questions requirements = [] then Inl MissingOpenQuestion else Inr ())
        | WorktreeTaskCandidate _ requirements \<Rightarrow>
            and_then (requirements_validate requirements) (\<lambda>_.
              if \<not> requirements_complete requirements then Inl IncompleteCandidate else Inr ())
        | Outcome_NeedsAttention _ evidence \<Rightarrow> if is_blank evidence then Inl BlankEvidence else Inr ()
        | AnswerComplete _ \<Rightarrow> Inr ())"

section \<open>Revisions and evidence\<close>

record RequirementRevision =
  rr_schema_version :: SchemaVersion
  rr_requirement_revision_id :: RequirementRevisionId
  rr_session_id :: SessionId
  rr_source_message_id :: MessageId
  rr_ordinal :: u64
  rr_snapshot :: RequirementSnapshot
  rr_snapshot_hash :: string
  rr_created_at :: DateTime

definition revision_seal ::
    "integrity_env \<Rightarrow> (RequirementSnapshot \<Rightarrow> string + json) \<Rightarrow> RequirementRevisionId \<Rightarrow> SessionId \<Rightarrow> MessageId
     \<Rightarrow> u64 \<Rightarrow> RequirementSnapshot \<Rightarrow> DateTime \<Rightarrow> ConversationValidationError + RequirementRevision" where
  "revision_seal env to_value revision_id session_id source_message_id ordinal snapshot created_at =
     (if ordinal = 0 then Inl InvalidOrdinal
      else
        and_then (requirements_validate snapshot) (\<lambda>_.
        and_then (map_err Conversation_Integrity (canonical_sha256 env (to_value snapshot))) (\<lambda>snapshot_hash.
          Inr \<lparr> rr_schema_version = schema_v1, rr_requirement_revision_id = revision_id,
                rr_session_id = session_id, rr_source_message_id = source_message_id, rr_ordinal = ordinal,
                rr_snapshot = snapshot, rr_snapshot_hash = snapshot_hash, rr_created_at = created_at \<rparr>)))"

record RepoValidationEvidence =
  rv_schema_version :: SchemaVersion
  rv_requirement_revision_id :: RequirementRevisionId
  rv_requirement_snapshot_hash :: string
  rv_graph_revision_id :: GraphRevisionId
  rv_git_root_redacted :: string
  rv_base_commit :: string
  rv_eligible_providers :: "ProviderId list"
  rv_eligible_profiles :: "ModelProfile list"
  rv_max_parallel_workers :: usize
  rv_per_provider_limits :: "(ProviderId \<times> usize) list"
  rv_normalized_write_scopes :: "string list"
  rv_verification_plan :: "VerificationCommand list"
  rv_required_approvals :: "string list"
  rv_checks :: "string list"
  rv_validated_at :: DateTime

definition evidence_validate_for ::
    "RepoValidationEvidence \<Rightarrow> ProviderId \<Rightarrow> ConversationValidationError + unit" where
  "evidence_validate_for e provider =
     (if rv_schema_version e \<noteq> SchemaVersion_V1 then Inl Conversation_UnsupportedSchema
      else if \<not> is_sha256 (rv_requirement_snapshot_hash e) then Inl InvalidRequirementSnapshotHash
      else if is_blank (rv_git_root_redacted e) then Inl BlankGitRoot
      else if \<not> is_git_object_id (rv_base_commit e) then Inl InvalidBaseCommit
      else if rv_checks e = [] \<or> \<not> all_non_blank (rv_checks e) then Inl MissingValidationChecks
      else if rv_eligible_profiles e = [] \<or> rv_max_parallel_workers e = 0
              \<or> list_ex (\<lambda>(p, limit). limit = 0) (rv_per_provider_limits e)
              \<or> rv_normalized_write_scopes e = [] \<or> \<not> all_non_blank (rv_normalized_write_scopes e)
              \<or> rv_verification_plan e = [] \<or> \<not> list_all is_safe_separated_command (rv_verification_plan e)
              \<or> rv_required_approvals e = [] \<or> \<not> all_non_blank (rv_required_approvals e)
      then Inl MissingPolicyEvidence
      else if provider \<notin> set (rv_eligible_providers e) then Inl (IneligibleProvider provider)
      else Inr ())"

definition evidence_seal ::
    "integrity_env \<Rightarrow> (RepoValidationEvidence \<Rightarrow> string + json) \<Rightarrow> RepoValidationEvidence
     \<Rightarrow> ConversationValidationError + string" where
  "evidence_seal env to_value e = map_err Conversation_Integrity (canonical_sha256 env (to_value e))"

section \<open>Commands\<close>

text \<open>Stripping \<open>.exe\<close> is done before the name is lower-cased, so only the lower-case extension is seen.\<close>

lemma trim_end_matches_append: "p \<noteq> [] \<Longrightarrow> trim_end_matches p (s @ p) = trim_end_matches p s"
  by (subst trim_end_matches.simps) (simp add: strip_suffix_def)

lemma any_char_append: "any_char p s \<longleftrightarrow> (\<exists>u c v. s = u @ c # v \<and> p (c # v))"
proof (induction s)
  case (Cons c s)
  then show ?case by (auto simp: Cons_eq_append_conv)
qed simp

lemma safe_command_iff:
  "is_safe_separated_command c \<longleftrightarrow>
     vc_executable c \<noteq> [] \<and> trim (vc_executable c) = vc_executable c \<and> \<not> unsafe_executable (vc_executable c)
     \<and> (\<forall>a \<in> set (vc_args c). set a \<inter> {CHR 0x00, CHR 0x0D, CHR 0x0A} = {})
     \<and> to_ascii_lowercase (trim_end_matches ''.exe'' (last_segment (vc_executable c))) \<notin> shells"
  by (auto simp: is_safe_separated_command_def Let_def list_ex_iff)

lemma lower_dot: "CHR ''.'' \<in> set s \<Longrightarrow> CHR ''.'' \<in> set (to_ascii_lowercase s)"
proof -
  assume "CHR ''.'' \<in> set s"
  moreover have "ascii_lower CHR ''.'' = CHR ''.''" by (simp add: ascii_lower_def)
  ultimately show ?thesis unfolding to_ascii_lowercase_def by (metis image_eqI image_set)
qed

lemma shells_no_dot: "x \<in> shells \<Longrightarrow> CHR ''.'' \<notin> set x"
  by (auto simp: shells_def)

lemma trim_exe_no_dot:
  assumes "CHR ''.'' \<notin> set s"
  shows "trim_end_matches ''.exe'' s = s"
proof -
  have "strip_suffix ''.exe'' s = None"
  proof (rule ccontr)
    assume "strip_suffix ''.exe'' s \<noteq> None"
    then have "drop (length s - length ''.exe'') s = ''.exe''" by (simp add: strip_suffix_def split: if_splits)
    then have "CHR ''.'' \<in> set (drop (length s - length ''.exe'') s)" by simp
    then show False using assms in_set_dropD by fast
  qed
  then show ?thesis by (subst trim_end_matches.simps) simp
qed

text \<open>The tests on the head of a string look for the encoding of one character.\<close>

definition contains_point :: "string \<Rightarrow> nat \<Rightarrow> bool" where
  "contains_point s p \<longleftrightarrow> sublist (utf8 p) s"

lemma utf8_control: "p \<in> {128..159} \<Longrightarrow> utf8 p = [char_of (194 :: nat), char_of p]"
proof -
  assume p: "p \<in> {128..159 :: nat}"
  then have "p div 64 = 2" by auto
  moreover from this have "p mod 64 = p - 128" by (simp add: modulo_nat_def)
  ultimately show ?thesis using p by (simp add: utf8_def)
qed

lemma control_here_iff: "control_here s \<longleftrightarrow> (\<exists>p \<in> control_points. \<exists>t. s = utf8 p @ t)"
proof
  assume "control_here s"
  then show "\<exists>p \<in> control_points. \<exists>t. s = utf8 p @ t"
  proof (cases s rule: control_here.cases)
    case (2 a)
    then show ?thesis using \<open>control_here s\<close>
      by (intro bexI [of _ "byte a"]) (auto simp: control_points_def utf8_def byte_def)
  next
    case (3 a b t)
    then consider "byte a < 32 \<or> byte a = 127" | "byte a = 194" "128 \<le> byte b" "byte b \<le> 159" using \<open>control_here s\<close> by auto
    then show ?thesis
    proof cases
      case 1
      then show ?thesis using 3 by (intro bexI [of _ "byte a"]) (auto simp: control_points_def utf8_def byte_def)
    next
      case 2
      then have "byte b \<in> {128..159}" by simp
      moreover have "char_of (194 :: nat) = a" unfolding 2(1) [symmetric] byte_def by simp
      moreover have "char_of (byte b) = b" by (simp add: byte_def)
      ultimately show ?thesis using 3 utf8_control [of "byte b"]
        by (intro bexI [of _ "byte b"] exI [of _ t]) (simp_all add: control_points_def)
    qed
  qed simp
next
  assume "\<exists>p \<in> control_points. \<exists>t. s = utf8 p @ t"
  then obtain p t where p: "p \<in> control_points" "s = utf8 p @ t" by blast
  show "control_here s"
  proof (cases "p \<in> {128..159}")
    case True
    then show ?thesis using p(2) utf8_control [OF True] by (simp add: byte_char_of)
  next
    case False
    then have "p < 32 \<or> p = 127" using p(1) by (auto simp: control_points_def)
    then show ?thesis using p(2) by (cases t) (auto simp: utf8_def byte_char_of)
  qed
qed

lemma shell_meta_here_iff: "shell_meta_here s \<longleftrightarrow> (\<exists>c \<in> set '';&|`$''. \<exists>t. s = c # t)"
  by (cases s) auto

lemma utf8_nonempty: "utf8 p \<noteq> []"
  by (simp add: utf8_def)

lemma unsafe_executable_iff:
  "unsafe_executable s \<longleftrightarrow> set s \<inter> set '';&|`$'' \<noteq> {} \<or> (\<exists>p \<in> set white_space_points \<union> control_points. contains_point s p)"
proof -
  have any: "any_char (\<lambda>t. \<exists>p \<in> P. \<exists>v. t = utf8 p @ v) s \<longleftrightarrow> (\<exists>p \<in> P. contains_point s p)" for P
  proof
    assume "any_char (\<lambda>t. \<exists>p \<in> P. \<exists>v. t = utf8 p @ v) s"
    then obtain u c v p w where "s = u @ c # v" "p \<in> P" "c # v = utf8 p @ w" unfolding any_char_append by blast
    then show "\<exists>p \<in> P. contains_point s p" unfolding contains_point_def sublist_def by auto
  next
    assume "\<exists>p \<in> P. contains_point s p"
    then obtain p u w where p: "p \<in> P" "s = u @ utf8 p @ w" unfolding contains_point_def sublist_def by auto
    obtain c v where "utf8 p = c # v" using utf8_nonempty by (meson neq_Nil_conv)
    then have "s = u @ c # v @ w \<and> (\<exists>p \<in> P. \<exists>x. c # v @ w = utf8 p @ x)" using p by (auto intro!: bexI [of _ p])
    then show "any_char (\<lambda>t. \<exists>p \<in> P. \<exists>v. t = utf8 p @ v) s" unfolding any_char_append by blast
  qed
  have or: "any_char (\<lambda>t. P t \<or> Q t \<or> R t) s \<longleftrightarrow> any_char P s \<or> any_char Q s \<or> any_char R s" for P Q R
    by (induction s) auto
  have "strip_ws_start t \<noteq> None \<longleftrightarrow> (\<exists>p \<in> set white_space_points. \<exists>v. t = utf8 p @ v)" for t
    using strip_ws_start_iff [of t] by (auto simp del: split_paired_Ex)
  then have "unsafe_executable s \<longleftrightarrow> any_char (\<lambda>t. \<exists>p \<in> set white_space_points. \<exists>v. t = utf8 p @ v) s
      \<or> any_char (\<lambda>t. \<exists>p \<in> control_points. \<exists>v. t = utf8 p @ v) s \<or> any_char shell_meta_here s"
    unfolding unsafe_executable_def control_here_iff or by presburger
  moreover have "any_char shell_meta_here s \<longleftrightarrow> set s \<inter> set '';&|`$'' \<noteq> {}"
    by (induction s) auto
  ultimately show ?thesis unfolding any bex_Un by argo
qed

lemma safe_executable_trimmed:
  assumes "\<not> unsafe_executable s"
  shows "trim s = s"
proof (rule trim_id_if_no_white_space)
  fix u v assume s: "s = u @ v"
  show "strip_ws_start v = None"
  proof (cases v)
    case (Cons c w)
    then show ?thesis using assms s unfolding unsafe_executable_def any_char_append by blast
  qed simp
qed

text \<open>The name of the executable: what follows its last separator, without the extension \<open>.exe\<close> any number of times.\<close>

lemma last_segment_split:
  obtains d where "s = d @ last_segment s" "d = [] \<or> is_separator (last d)" "\<forall>c \<in> set (last_segment s). \<not> is_separator c"
proof
  let ?p = "\<lambda>c. \<not> is_separator c"
  have "s = rev (takeWhile ?p (rev s) @ dropWhile ?p (rev s))" by simp
  then show "s = rev (dropWhile ?p (rev s)) @ last_segment s" unfolding last_segment_def by (simp only: rev_append)
  show "rev (dropWhile ?p (rev s)) = [] \<or> is_separator (last (rev (dropWhile ?p (rev s))))"
    using hd_dropWhile [of ?p "rev s"] by (auto simp: last_rev)
  show "\<forall>c \<in> set (last_segment s). \<not> is_separator c" by (auto simp: last_segment_def dest: set_takeWhileD)
qed

lemma last_segment_append:
  assumes "d = [] \<or> is_separator (last d)" "\<forall>c \<in> set n. \<not> is_separator c"
  shows "last_segment (d @ n) = n"
proof -
  have "takeWhile (\<lambda>c. \<not> is_separator c) (rev n @ rev d) = rev n"
    using assms takeWhile_append2 [of "rev n" "\<lambda>c. \<not> is_separator c" "rev d"] by (cases d rule: rev_cases) auto
  then show ?thesis by (simp add: last_segment_def)
qed

lemma trim_end_matches_split: "\<exists>n. s = trim_end_matches p s @ concat (replicate n p)"
proof (induction p s rule: trim_end_matches.induct)
  case (1 p s)
  show ?case
  proof (cases "strip_suffix p s")
    case None
    then show ?thesis by (intro exI [of _ 0]) (simp add: trim_end_matches.simps)
  next
    case (Some t)
    then obtain n where n: "t = trim_end_matches p t @ concat (replicate n p)" using 1 by blast
    have "s = t @ p" using Some by (auto simp: strip_suffix_def split: if_splits) (metis append_take_drop_id)
    moreover have "concat (replicate n p) @ p = concat (replicate (Suc n) p)"
      using replicate_append_same [of n p] by (metis concat_append concat.simps append_Nil2 replicate_Suc)
    ultimately show ?thesis using n Some by (intro exI [of _ "Suc n"]) (metis append.assoc option.simps(5) trim_end_matches.simps)
  qed
qed

lemma trim_end_matches_replicate: "p \<noteq> [] \<Longrightarrow> trim_end_matches p (s @ concat (replicate n p)) = trim_end_matches p s"
proof (induction n)
  case (Suc n)
  have "concat (replicate (Suc n) p) = concat (replicate n p) @ p"
    using replicate_append_same [of n p] by (metis concat_append concat.simps append_Nil2 replicate_Suc)
  then show ?case using Suc trim_end_matches_append [of p "s @ concat (replicate n p)"] by simp
qed simp

definition shell_path :: "string \<Rightarrow> bool" where
  "shell_path s \<longleftrightarrow> (\<exists>d stem n. s = d @ stem @ concat (replicate n ''.exe'') \<and> (d = [] \<or> is_separator (last d)) \<and> to_ascii_lowercase stem \<in> shells)"

lemma shells_plain: "to_ascii_lowercase stem \<in> shells \<Longrightarrow> c \<in> set stem \<Longrightarrow> \<not> is_separator c"
proof -
  assume "to_ascii_lowercase stem \<in> shells" "c \<in> set stem"
  then have "ascii_lower c \<in> \<Union> (set ` shells)"
    unfolding to_ascii_lowercase_def using UN_I [of "map ascii_lower stem" shells "ascii_lower c" set] imageI [of c "set stem" ascii_lower]
    by (simp only: set_map)
  moreover have "ascii_lower CHR ''/'' = CHR ''/''" "ascii_lower CHR 0x5C = CHR 0x5C" by (simp_all add: ascii_lower_def)
  moreover have "\<forall>x \<in> \<Union> (set ` shells). \<not> is_separator x" by (simp add: shells_def is_separator_def)
  ultimately show ?thesis unfolding is_separator_def by metis
qed

lemma shell_name_iff: "to_ascii_lowercase (trim_end_matches ''.exe'' (last_segment s)) \<in> shells \<longleftrightarrow> shell_path s"
proof
  assume shell: "to_ascii_lowercase (trim_end_matches ''.exe'' (last_segment s)) \<in> shells"
  obtain d where "s = d @ last_segment s" "d = [] \<or> is_separator (last d)" using last_segment_split .
  moreover obtain n where "last_segment s = trim_end_matches ''.exe'' (last_segment s) @ concat (replicate n ''.exe'')"
    using trim_end_matches_split by blast
  ultimately show "shell_path s" unfolding shell_path_def using shell by metis
next
  assume "shell_path s"
  then obtain d stem n where s: "s = d @ stem @ concat (replicate n ''.exe'')" "d = [] \<or> is_separator (last d)"
    and shell: "to_ascii_lowercase stem \<in> shells" unfolding shell_path_def by blast
  have "\<forall>c \<in> set (stem @ concat (replicate n ''.exe'')). \<not> is_separator c"
    using shells_plain [OF shell] by (auto simp: is_separator_def)
  then have "last_segment s = stem @ concat (replicate n ''.exe'')" using last_segment_append [OF s(2)] s(1) by simp
  moreover have "trim_end_matches ''.exe'' stem = stem" using lower_dot shells_no_dot [OF shell] trim_exe_no_dot by blast
  ultimately show "to_ascii_lowercase (trim_end_matches ''.exe'' (last_segment s)) \<in> shells"
    using shell trim_end_matches_replicate [of "''.exe''" stem n] by simp
qed

lemma candidate_validates:
  "outcome_validate (WorktreeTaskCandidate response requirements) = Inr () \<longleftrightarrow>
     \<not> is_blank response \<and> requirements_complete requirements"
proof -
  have "requirements_complete requirements \<Longrightarrow> requirements_validate requirements = Inr ()"
    by (simp add: requirements_validate_def requirements_complete_def) (simp add: all_non_blank_def)
  then show ?thesis by (auto simp: outcome_validate_def and_then_eq_Inr)
qed

text \<open>C39: a task candidate is accepted exactly when its response and its objective say something, the scope, the acceptance criteria and the
  verification plan have entries, no question is open, no item of the lists is white space only, and every verification command runs one
  program without a shell: its executable is not empty, has no shell metacharacter, white-space or control character, no argument has a NUL or
  a line break, and the executable is not a path to a shell, in any ASCII case, with or without the lower-case extension \<open>.exe\<close>.\<close>

theorem candidate_accepted_iff:
  "outcome_validate (WorktreeTaskCandidate response r) = Inr () \<longleftrightarrow>
     \<not> white_space response \<and> \<not> white_space (rq_objective r)
     \<and> rq_in_scope r \<noteq> [] \<and> rq_acceptance_criteria r \<noteq> [] \<and> rq_verification_plan r \<noteq> [] \<and> rq_open_questions r = []
     \<and> (\<forall>item \<in> set (rq_in_scope r) \<union> set (rq_out_of_scope r) \<union> set (rq_constraints r) \<union> set (rq_acceptance_criteria r) \<union> set (rq_risks r).
          \<not> white_space item)
     \<and> (\<forall>c \<in> set (rq_verification_plan r).
          vc_executable c \<noteq> [] \<and> set (vc_executable c) \<inter> set '';&|`$'' = {}
          \<and> (\<forall>p \<in> set white_space_points \<union> control_points. \<not> contains_point (vc_executable c) p)
          \<and> (\<forall>a \<in> set (vc_args c). set a \<inter> {CHR 0x00, CHR 0x0D, CHR 0x0A} = {})
          \<and> \<not> shell_path (vc_executable c))"
proof -
  have command: "is_safe_separated_command c \<longleftrightarrow>
          vc_executable c \<noteq> [] \<and> set (vc_executable c) \<inter> set '';&|`$'' = {}
          \<and> (\<forall>p \<in> set white_space_points \<union> control_points. \<not> contains_point (vc_executable c) p)
          \<and> (\<forall>a \<in> set (vc_args c). set a \<inter> {CHR 0x00, CHR 0x0D, CHR 0x0A} = {})
          \<and> \<not> shell_path (vc_executable c)" for c
    unfolding safe_command_iff shell_name_iff using safe_executable_trimmed [of "vc_executable c"] unsafe_executable_iff [of "vc_executable c"]
    by blast
  have items: "all_non_blank xs \<longleftrightarrow> (\<forall>x \<in> set xs. \<not> white_space x)" for xs
    by (simp add: all_non_blank_def list_all_iff is_blank_iff)
  show ?thesis
    unfolding candidate_validates requirements_complete_def items list_all_iff command is_blank_iff ball_Un by argo
qed

text \<open>The extension in capitals is not stripped: this candidate runs \<open>BASH.EXE\<close>.\<close>

definition sample_command :: VerificationCommand where
  "sample_command = \<lparr> vc_executable = ''BASH.EXE'', vc_args = [''-c''] \<rparr>"

definition sample_requirements :: RequirementSnapshot where
  "sample_requirements =
     \<lparr> rq_objective = ''a'', rq_in_scope = [''a''], rq_out_of_scope = [], rq_constraints = [],
       rq_acceptance_criteria = [''a''], rq_verification_plan = [sample_command], rq_risks = [],
       rq_open_questions = [] \<rparr>"

lemma sample_candidate_valid: "outcome_validate (WorktreeTaskCandidate ''ok'' sample_requirements) = Inr ()"
  by code_simp

theorem candidate_accepted_iff_witness:
  "outcome_validate (WorktreeTaskCandidate ''ok'' sample_requirements) = Inr ()
   \<and> \<not> shell_path (vc_executable sample_command) \<and> to_ascii_lowercase (last_segment (vc_executable sample_command)) = ''bash.exe''"
proof -
  have "to_ascii_lowercase (last_segment (vc_executable sample_command)) = ''bash.exe''" by code_simp
  moreover have "\<not> shell_path (vc_executable sample_command)"
    using candidate_accepted_iff [of "''ok''" sample_requirements] sample_candidate_valid by (simp add: sample_requirements_def)
  ultimately show ?thesis using sample_candidate_valid by blast
qed

end
