(* ===== verification/Daemon_Instances.thy ===== *)
theory Daemon_Instances
  imports Schedule_Claims Growing_Table
begin

text \<open>
  \<open>crates/orchestrator-state/src/daemon_instances.rs\<close>: the lease of the one daemon that may own a database, over the table
  \<open>daemon_instances\<close> (migrations 0004, 0009 and 0011), which is not partitioned by workspace. A row extends
  the columns the scheduler reads (\<open>State_Store\<close>). Acquisition is one transaction; the other operations are
  single statements, and the row they return is read right after. The addition of \<open>chrono\<close> is a parameter.
\<close>

section \<open>Data\<close>

datatype DaemonPhase = Phase_Booting | Phase_Probing | Phase_Online | Phase_Failed

fun phase_as_str :: "DaemonPhase \<Rightarrow> string" where
  "phase_as_str Phase_Booting = ''booting''"
| "phase_as_str Phase_Probing = ''probing''"
| "phase_as_str Phase_Online = ''online''"
| "phase_as_str Phase_Failed = ''failed''"

definition parse_phase :: "string \<Rightarrow> DaemonPhase option" where
  "parse_phase value =
     find (\<lambda>p. phase_as_str p = value) [Phase_Booting, Phase_Probing, Phase_Online, Phase_Failed]"

lemma parse_phase_as_str: "parse_phase (phase_as_str p) = Some p"
  by (cases p) (simp_all add: parse_phase_def)

record daemon_instance_row = daemon_row +
  dn_pid :: int
  dn_started_at :: DateTime
  dn_heartbeat_at :: DateTime
  dn_phase :: DaemonPhase
  dn_startup_error :: "string option"
  dn_executable_path :: "string option"
  dn_build_version :: "string option"
  dn_build_target :: "string option"

type_synonym daemon_db = "daemon_instance_row list"

record DaemonInstance =
  dmn_instance_id :: DaemonInstanceId
  dmn_pid :: u32
  dmn_started_at :: DateTime
  dmn_heartbeat_at :: DateTime
  dmn_lease_expires_at :: DateTime
  dmn_phase :: DaemonPhase
  dmn_startup_error :: "string option"
  dmn_stop_requested_at :: "DateTime option"
  dmn_released_at :: "DateTime option"
  dmn_executable_path :: "string option"
  dmn_build_version :: "string option"
  dmn_build_target :: "string option"

record DaemonLeaseRequest =
  dq_instance_id :: DaemonInstanceId
  dq_pid :: u32
  dq_started_at :: DateTime
  dq_ttl :: TimeDelta

datatype DaemonStatus =
    Status_Stopped
  | Status_Booting DaemonInstance
  | Status_Probing DaemonInstance
  | Status_Online DaemonInstance
  | Status_Failed DaemonInstance
  | Status_Stale DaemonInstance

record DaemonOnlineIdentity =
  doi_instance_id :: DaemonInstanceId
  doi_pid :: u32

definition u32_try_from :: "int \<Rightarrow> u32 option" where
  "u32_try_from n = (if 0 \<le> n \<and> n < 2 ^ 32 then Some (word_of_int n) else None)"

definition map_daemon_instance :: "daemon_instance_row \<Rightarrow> StateError + DaemonInstance" where
  "map_daemon_instance r =
     and_then (ok_or (Sqlite ''conversion failure'') (u32_try_from (dn_pid r))) (\<lambda>pid.
       Inr \<lparr> dmn_instance_id = di_instance_id r, dmn_pid = pid, dmn_started_at = dn_started_at r,
             dmn_heartbeat_at = dn_heartbeat_at r, dmn_lease_expires_at = di_lease_expires_at r, dmn_phase = dn_phase r,
             dmn_startup_error = dn_startup_error r, dmn_stop_requested_at = di_stop_requested_at r,
             dmn_released_at = di_released_at r, dmn_executable_path = dn_executable_path r,
             dmn_build_version = dn_build_version r, dmn_build_target = dn_build_target r \<rparr>)"

definition unreleased :: "daemon_instance_row \<Rightarrow> bool" where
  "unreleased r \<longleftrightarrow> di_released_at r = None"

section \<open>Reading the owner of another database\<close>

definition STATE_SCHEMA_VERSION :: u32 where "STATE_SCHEMA_VERSION = 17"

record StoredDaemonIdentity =
  sdi_instance_id :: DaemonInstanceId
  sdi_pid :: int
  sdi_lease_expires_at :: DateTime
  sdi_phase :: "DaemonPhase option"

definition load_stored_daemon_identity :: "u32 \<Rightarrow> daemon_db \<Rightarrow> StateError + StoredDaemonIdentity option" where
  "load_stored_daemon_identity schema_version db =
     (case filter unreleased db of
        [] \<Rightarrow> Inr None
      | [r] \<Rightarrow> Inr (Some \<lparr> sdi_instance_id = di_instance_id r, sdi_pid = dn_pid r, sdi_lease_expires_at = di_lease_expires_at r,
                         sdi_phase = (if schema_version \<ge> 9 then Some (dn_phase r) else None) \<rparr>)
      | _ \<Rightarrow> Inl (InvalidRecord ''multiple unreleased daemon owners exist in the expected state database''))"

definition parse_online_daemon_identity :: "StoredDaemonIdentity \<Rightarrow> DateTime \<Rightarrow> StateError + DaemonOnlineIdentity option" where
  "parse_online_daemon_identity identity now =
     and_then (ok_or (InvalidRecord ''invalid daemon owner PID in expected state database'') (u32_try_from (sdi_pid identity))) (\<lambda>pid.
       if pid = 0 then Inl (InvalidRecord ''daemon owner PID in expected state database is zero'')
       else
         let online = (case sdi_phase identity of None \<Rightarrow> True | Some p \<Rightarrow> p = Phase_Online)
         in Inr (if online \<and> sdi_lease_expires_at identity > now
                 then Some \<lparr> doi_instance_id = sdi_instance_id identity, doi_pid = pid \<rparr> else None))"

text \<open>\<open>found\<close> is \<open>None\<close> when the file does not exist, and otherwise the outcome of the symlink check and of opening the
  database: an error or its schema version and table.\<close>

definition read_online_daemon_identity ::
    "(StateError + u32 \<times> daemon_db) option \<Rightarrow> DateTime \<Rightarrow> StateError + DaemonOnlineIdentity option" where
  "read_online_daemon_identity found now =
     (case found of
        None \<Rightarrow> Inr None
      | Some opened \<Rightarrow>
          and_then opened (\<lambda>(schema_version, db).
            if schema_version > STATE_SCHEMA_VERSION then Inl (FutureSchema schema_version STATE_SCHEMA_VERSION)
            else if schema_version < 4 then Inr None
            else
              and_then (load_stored_daemon_identity schema_version db) (\<lambda>identity.
                case identity of None \<Rightarrow> Inr None | Some i \<Rightarrow> parse_online_daemon_identity i now)))"

section \<open>Operations\<close>

definition validate_pid_and_ttl :: "u32 \<Rightarrow> TimeDelta \<Rightarrow> StateError + unit" where
  "validate_pid_and_ttl pid ttl =
     (if pid = 0 then Inl (InvalidRecord ''daemon PID must be positive'')
      else if ttl \<le> 0 then Inl (InvalidRecord ''daemon lease TTL must be positive'')
      else Inr ())"

definition ownership_error :: "DaemonInstanceId \<Rightarrow> StateError" where
  "ownership_error i = OptimisticConflict ''daemon instance'' i"

definition load_daemon_instance :: "DaemonInstanceId \<Rightarrow> daemon_db \<Rightarrow> StateError + DaemonInstance option" where
  "load_daemon_instance i db =
     (case find (\<lambda>r. di_instance_id r = i) db of
        None \<Rightarrow> Inr None
      | Some r \<Rightarrow> and_then (map_daemon_instance r) (\<lambda>d. Inr (Some d)))"

text \<open>An \<open>UPDATE\<close> that has to change one row, which is then read back.\<close>

definition update_owned :: "(daemon_instance_row \<Rightarrow> bool) \<Rightarrow> (daemon_instance_row \<Rightarrow> daemon_instance_row) \<Rightarrow> DaemonInstanceId \<Rightarrow> daemon_db
     \<Rightarrow> (StateError + unit) \<times> daemon_db" where
  "update_owned p f i db = (if matching p db \<noteq> 1 then Inl (ownership_error i) else Inr (), update_rows p f db)"

definition read_back :: "string \<Rightarrow> DaemonInstanceId \<Rightarrow> (StateError + unit) \<times> daemon_db \<Rightarrow> (StateError + DaemonInstance) \<times> daemon_db" where
  "read_back message i result =
     (case result of
        (Inl e, db) \<Rightarrow> (Inl e, db)
      | (Inr _, db) \<Rightarrow> (and_then (load_daemon_instance i db) (ok_or (InvalidRecord message)), db))"

definition release_expired :: "DateTime \<Rightarrow> daemon_db \<Rightarrow> daemon_db" where
  "release_expired now = update_rows (\<lambda>r. unreleased r \<and> di_lease_expires_at r \<le> now) (\<lambda>r. r\<lparr>di_released_at := Some now\<rparr>)"

definition new_daemon_row :: "DaemonLeaseRequest \<Rightarrow> DaemonPhase \<Rightarrow> DateTime \<Rightarrow> daemon_instance_row" where
  "new_daemon_row request phase lease_expires_at =
     \<lparr> di_instance_id = dq_instance_id request, di_lease_expires_at = lease_expires_at, di_stop_requested_at = None,
       di_released_at = None, dn_pid = uint (dq_pid request), dn_started_at = dq_started_at request,
       dn_heartbeat_at = dq_started_at request, dn_phase = phase, dn_startup_error = None, dn_executable_path = None,
       dn_build_version = None, dn_build_target = None \<rparr>"

definition acquire_daemon_lease_with_phase ::
    "(DateTime \<Rightarrow> TimeDelta \<Rightarrow> DateTime option) \<Rightarrow> DaemonLeaseRequest \<Rightarrow> DaemonPhase \<Rightarrow> daemon_db
     \<Rightarrow> (StateError + DaemonInstance) \<times> daemon_db" where
  "acquire_daemon_lease_with_phase add request phase =
     transact (\<lambda>db.
       and_then (validate_pid_and_ttl (dq_pid request) (dq_ttl request)) (\<lambda>_.
       and_then (ok_or (InvalidRecord ''daemon lease expiry overflow'') (add (dq_started_at request) (dq_ttl request)))
         (\<lambda>lease_expires_at.
         let db = release_expired (dq_started_at request) db in
         case find unreleased db of
           Some active \<Rightarrow> Inl (OptimisticConflict ''repository daemon lease owned by'' (di_instance_id active))
         | None \<Rightarrow>
             if list_ex (\<lambda>r. di_instance_id r = dq_instance_id request) db then Inl (Sqlite ''constraint failed'')
             else
               Inr (\<lparr> dmn_instance_id = dq_instance_id request, dmn_pid = dq_pid request,
                      dmn_started_at = dq_started_at request, dmn_heartbeat_at = dq_started_at request,
                      dmn_lease_expires_at = lease_expires_at, dmn_phase = phase, dmn_startup_error = None,
                      dmn_stop_requested_at = None, dmn_released_at = None, dmn_executable_path = None,
                      dmn_build_version = None, dmn_build_target = None \<rparr>,
                    db @ [new_daemon_row request phase lease_expires_at]))))"

definition acquire_daemon_lease where
  "acquire_daemon_lease add request = acquire_daemon_lease_with_phase add request Phase_Online"

definition acquire_daemon_startup_lease where
  "acquire_daemon_startup_lease add request = acquire_daemon_lease_with_phase add request Phase_Booting"

fun allowed_source :: "DaemonPhase \<Rightarrow> (DaemonPhase \<Rightarrow> bool) option" where
  "allowed_source Phase_Probing = Some (\<lambda>p. p = Phase_Booting)"
| "allowed_source Phase_Online = Some (\<lambda>p. p = Phase_Probing)"
| "allowed_source Phase_Failed = Some (\<lambda>p. p \<in> {Phase_Booting, Phase_Probing})"
| "allowed_source Phase_Booting = None"

definition check_diagnostic :: "DaemonPhase \<Rightarrow> string option \<Rightarrow> StateError + unit" where
  "check_diagnostic phase startup_error =
     (case (phase, startup_error) of
        (Phase_Failed, Some e) \<Rightarrow>
          if is_blank e then Inl (InvalidRecord ''failed daemon phase requires a startup diagnostic'') else Inr ()
      | (Phase_Failed, None) \<Rightarrow> Inl (InvalidRecord ''failed daemon phase requires a startup diagnostic'')
      | (_, Some _) \<Rightarrow> Inl (InvalidRecord ''startup diagnostic is only valid for failed daemon phase'')
      | (_, None) \<Rightarrow> Inr ())"

definition transition_daemon_phase ::
    "DaemonInstanceId \<Rightarrow> DaemonPhase \<Rightarrow> string option \<Rightarrow> daemon_db \<Rightarrow> (StateError + DaemonInstance) \<times> daemon_db" where
  "transition_daemon_phase i phase startup_error db =
     (case allowed_source phase of
        None \<Rightarrow> (Inl (InvalidRecord ''daemon phase cannot transition back to booting''), db)
      | Some source \<Rightarrow>
          case check_diagnostic phase startup_error of
            Inl e \<Rightarrow> (Inl e, db)
          | Inr _ \<Rightarrow>
              read_back ''transitioned daemon instance disappeared'' i
                (update_owned (\<lambda>r. di_instance_id r = i \<and> unreleased r \<and> source (dn_phase r))
                   (\<lambda>r. r\<lparr>dn_phase := phase, dn_startup_error := startup_error\<rparr>) i db))"

definition heartbeat_daemon ::
    "(DateTime \<Rightarrow> TimeDelta \<Rightarrow> DateTime option) \<Rightarrow> DaemonInstanceId \<Rightarrow> DateTime \<Rightarrow> TimeDelta \<Rightarrow> daemon_db
     \<Rightarrow> (StateError + DaemonInstance) \<times> daemon_db" where
  "heartbeat_daemon add i heartbeat_at ttl db =
     (case and_then (validate_pid_and_ttl 1 ttl)
             (\<lambda>_. ok_or (InvalidRecord ''daemon lease expiry overflow'') (add heartbeat_at ttl)) of
        Inl e \<Rightarrow> (Inl e, db)
      | Inr lease_expires_at \<Rightarrow>
          read_back ''heartbeaten daemon instance disappeared'' i
            (update_owned (\<lambda>r. di_instance_id r = i \<and> unreleased r \<and> dn_heartbeat_at r \<le> heartbeat_at)
               (\<lambda>r. r\<lparr>dn_heartbeat_at := heartbeat_at, di_lease_expires_at := lease_expires_at\<rparr>) i db))"

definition daemon_status :: "daemon_db \<Rightarrow> DateTime \<Rightarrow> StateError + DaemonStatus" where
  "daemon_status db now =
     (case rev (sort_key dn_started_at (filter unreleased db)) of
        [] \<Rightarrow> Inr Status_Stopped
      | r # _ \<Rightarrow>
          and_then (map_daemon_instance r) (\<lambda>d.
            Inr (if dmn_lease_expires_at d > now
                 then (case dmn_phase d of Phase_Booting \<Rightarrow> Status_Booting d | Phase_Probing \<Rightarrow> Status_Probing d
                       | Phase_Online \<Rightarrow> Status_Online d | Phase_Failed \<Rightarrow> Status_Failed d)
                 else Status_Stale d)))"

definition daemon_startup_diagnostic_for_pid :: "daemon_db \<Rightarrow> u32 \<Rightarrow> string option" where
  "daemon_startup_diagnostic_for_pid db pid =
     (case rev (sort_key dn_started_at (filter (\<lambda>r. dn_pid r = uint pid \<and> dn_startup_error r \<noteq> None) db)) of
        [] \<Rightarrow> None
      | r # _ \<Rightarrow> dn_startup_error r)"

definition record_daemon_runtime_identity ::
    "DaemonInstanceId \<Rightarrow> string \<Rightarrow> string \<Rightarrow> string \<Rightarrow> daemon_db \<Rightarrow> (StateError + DaemonInstance) \<times> daemon_db" where
  "record_daemon_runtime_identity i executable_path build_version build_target db =
     (if list_ex is_blank [executable_path, build_version, build_target]
      then (Inl (InvalidRecord ''daemon runtime identity fields must not be blank''), db)
      else
        read_back ''daemon instance disappeared after identity update'' i
          (update_owned (\<lambda>r. di_instance_id r = i \<and> unreleased r)
             (\<lambda>r. r\<lparr>dn_executable_path := Some executable_path, dn_build_version := Some build_version,
                    dn_build_target := Some build_target\<rparr>) i db))"

definition request_daemon_stop :: "DaemonInstanceId \<Rightarrow> DateTime \<Rightarrow> daemon_db \<Rightarrow> (StateError + unit) \<times> daemon_db" where
  "request_daemon_stop i requested_at db =
     update_owned (\<lambda>r. di_instance_id r = i \<and> unreleased r)
       (\<lambda>r. r\<lparr>di_stop_requested_at := (case di_stop_requested_at r of None \<Rightarrow> Some requested_at | s \<Rightarrow> s)\<rparr>) i db"

definition daemon_stop_requested :: "DaemonInstanceId \<Rightarrow> daemon_db \<Rightarrow> bool" where
  "daemon_stop_requested i db =
     (case find (\<lambda>r. di_instance_id r = i \<and> unreleased r) db of
        None \<Rightarrow> False
      | Some r \<Rightarrow> di_stop_requested_at r \<noteq> None)"

definition release_daemon :: "DaemonInstanceId \<Rightarrow> DateTime \<Rightarrow> daemon_db \<Rightarrow> (StateError + unit) \<times> daemon_db" where
  "release_daemon i released_at db =
     update_owned (\<lambda>r. di_instance_id r = i \<and> unreleased r) (\<lambda>r. r\<lparr>di_released_at := Some released_at\<rparr>) i db"

section \<open>What an operation may do to the table\<close>

definition phase_progress :: "DaemonPhase \<Rightarrow> DaemonPhase \<Rightarrow> bool" where
  "phase_progress p q \<longleftrightarrow> p = q \<or> p = Phase_Booting \<or> p = Phase_Probing \<and> q \<in> {Phase_Online, Phase_Failed}"

text \<open>An instance keeps its identity, a released one never changes, heartbeats and phases only move forward and a stop
  request stays.\<close>

definition daemon_evolves :: "daemon_instance_row \<Rightarrow> daemon_instance_row \<Rightarrow> bool" where
  "daemon_evolves r r' \<longleftrightarrow>
     di_instance_id r' = di_instance_id r \<and> dn_pid r' = dn_pid r \<and> dn_started_at r' = dn_started_at r
   \<and> (\<not> unreleased r \<longrightarrow> r' = r) \<and> dn_heartbeat_at r \<le> dn_heartbeat_at r'
   \<and> (di_stop_requested_at r \<noteq> None \<longrightarrow> di_stop_requested_at r' = di_stop_requested_at r)
   \<and> phase_progress (dn_phase r) (dn_phase r')"

lemma daemon_evolves_refl: "daemon_evolves r r"
  by (simp add: daemon_evolves_def phase_progress_def)

lemma daemon_evolves_trans: "daemon_evolves r s \<Longrightarrow> daemon_evolves s t \<Longrightarrow> daemon_evolves r t"
  unfolding daemon_evolves_def phase_progress_def by auto

definition daemon_row_ok :: "daemon_instance_row \<Rightarrow> bool" where
  "daemon_row_ok r \<longleftrightarrow> 0 < dn_pid r \<and> dn_pid r < 2 ^ 32 \<and> (dn_phase r = Phase_Failed \<longleftrightarrow> dn_startup_error r \<noteq> None)
   \<and> (\<forall>e. dn_startup_error r = Some e \<longrightarrow> \<not> is_blank e)"

definition daemon_inv :: "daemon_db \<Rightarrow> bool" where
  "daemon_inv db \<longleftrightarrow> distinct (map di_instance_id db) \<and> length (filter unreleased db) \<le> 1 \<and> (\<forall>r \<in> set db. daemon_row_ok r)"

inductive daemon_write :: "daemon_db \<Rightarrow> daemon_db \<Rightarrow> bool" where
  write_lease: "find unreleased (release_expired (dq_started_at request) db) = None
    \<Longrightarrow> \<not> list_ex (\<lambda>r. di_instance_id r = dq_instance_id request) (release_expired (dq_started_at request) db)
    \<Longrightarrow> dq_pid request \<noteq> 0 \<Longrightarrow> phase \<in> {Phase_Booting, Phase_Online}
    \<Longrightarrow> daemon_write db (release_expired (dq_started_at request) db @ [new_daemon_row request phase e])"
| write_row: "(\<And>r. p r \<Longrightarrow> unreleased r \<and> daemon_evolves r (f r) \<and> (daemon_row_ok r \<longrightarrow> daemon_row_ok (f r)))
    \<Longrightarrow> daemon_write db (update_rows p f db)"

lemma filter_update_length:
  "(\<And>r. p r \<Longrightarrow> q r) \<Longrightarrow> length (filter q (update_rows p f rows)) \<le> length (filter q rows)"
proof (induction rows)
  case (Cons r rows)
  then have "length (filter q (update_rows p f rows)) \<le> length (filter q rows)" by blast
  then show ?case using Cons.prems [of r] by (auto simp: update_rows_def)
qed (simp add: update_rows_def)

lemma write_row_inv:
  assumes "daemon_inv db" and "\<And>r. p r \<Longrightarrow> unreleased r \<and> daemon_evolves r (f r) \<and> (daemon_row_ok r \<longrightarrow> daemon_row_ok (f r))"
  shows "daemon_inv (update_rows p f db)"
proof -
  have "map di_instance_id (update_rows p f db) = map di_instance_id db"
    by (rule map_update_rows_cond) (use assms(2) in \<open>auto simp: daemon_evolves_def\<close>)
  moreover have "length (filter unreleased (update_rows p f db)) \<le> length (filter unreleased db)"
    by (rule filter_update_length) (use assms(2) in blast)
  moreover have "\<forall>r \<in> set (update_rows p f db). daemon_row_ok r"
    using assms unfolding daemon_inv_def update_rows_def by auto
  ultimately show ?thesis using assms(1) unfolding daemon_inv_def by simp
qed

lemma release_expired_writes: "daemon_write db (release_expired now db)"
  unfolding release_expired_def
  by (rule write_row) (auto simp: daemon_evolves_def phase_progress_def daemon_row_ok_def)

lemma daemon_write_inv: "daemon_write db db' \<Longrightarrow> daemon_inv db \<Longrightarrow> daemon_inv db'"
proof (induction rule: daemon_write.induct)
  case (write_lease request db phase e)
  let ?db = "release_expired (dq_started_at request) db"
  have inv: "daemon_inv ?db" unfolding release_expired_def
    by (rule write_row_inv [OF write_lease.prems]) (auto simp: daemon_evolves_def phase_progress_def daemon_row_ok_def)
  have none: "filter unreleased ?db = []" using write_lease.hyps(1) by (simp add: find_None_iff filter_empty_conv)
  have pid: "0 < uint (dq_pid request)" "uint (dq_pid request) < 2 ^ 32"
    using write_lease.hyps(3) uint_lt2p [of "dq_pid request"] by (simp_all add: word_neq_0_conv word_less_def)
  have "daemon_row_ok (new_daemon_row request phase e)"
    using pid write_lease.hyps(4) by (auto simp: daemon_row_ok_def new_daemon_row_def)
  then show ?case using inv none write_lease.hyps(2)
    by (auto simp: daemon_inv_def list_ex_iff new_daemon_row_def)
next
  case (write_row p f db)
  then show ?case by (intro write_row_inv) blast+
qed

lemma daemon_write_rows: "daemon_write db db' \<Longrightarrow> \<exists>old new. db' = old @ new \<and> list_all2 daemon_evolves db old"
proof (induction rule: daemon_write.induct)
  case (write_lease request db phase e)
  have "list_all2 daemon_evolves db (release_expired (dq_started_at request) db)"
    unfolding release_expired_def
    by (rule list_all2_update_rows) (auto simp: daemon_evolves_def phase_progress_def)
  then show ?case by blast
next
  case (write_row p f db)
  have "list_all2 daemon_evolves db (update_rows p f db)"
    by (rule list_all2_update_rows) (use write_row daemon_evolves_refl in blast)+
  moreover have "update_rows p f db = update_rows p f db @ []" by simp
  ultimately show ?case by blast
qed

interpretation daemon_rows: growing_table daemon_write "\<lambda>db. db" daemon_evolves daemon_inv
  using daemon_write_rows daemon_write_inv daemon_evolves_refl daemon_evolves_trans
  by unfold_locales blast+

section \<open>The operations\<close>

lemma snd_update_owned [simp]: "snd (update_owned p f i db) = update_rows p f db"
  by (simp add: update_owned_def)

lemma snd_read_back [simp]: "snd (read_back m i result) = snd result"
  by (auto simp: read_back_def split: prod.splits sum.splits)

inductive daemon_step :: "(DateTime \<Rightarrow> TimeDelta \<Rightarrow> DateTime option) \<Rightarrow> daemon_db \<Rightarrow> daemon_db \<Rightarrow> bool" for add where
  acquire: "acquire_daemon_lease add request db = (d, db') \<Longrightarrow> daemon_step add db db'"
| startup: "acquire_daemon_startup_lease add request db = (d, db') \<Longrightarrow> daemon_step add db db'"
| transition: "transition_daemon_phase i phase diagnostic db = (d, db') \<Longrightarrow> daemon_step add db db'"
| heartbeat: "heartbeat_daemon add i now ttl db = (d, db') \<Longrightarrow> daemon_step add db db'"
| identity: "record_daemon_runtime_identity i path version target db = (d, db') \<Longrightarrow> daemon_step add db db'"
| request_stop: "request_daemon_stop i now db = (u, db') \<Longrightarrow> daemon_step add db db'"
| release: "release_daemon i now db = (u, db') \<Longrightarrow> daemon_step add db db'"

lemma acquire_Inr:
  assumes "acquire_daemon_lease_with_phase add request phase db = (Inr d, db')"
  shows "find unreleased (release_expired (dq_started_at request) db) = None"
    and "\<not> list_ex (\<lambda>r. di_instance_id r = dq_instance_id request) (release_expired (dq_started_at request) db)"
    and "dq_pid request \<noteq> 0"
    and "\<exists>e. db' = release_expired (dq_started_at request) db @ [new_daemon_row request phase e]"
  using assms unfolding acquire_daemon_lease_with_phase_def transact_def
  by (auto simp: and_then_eq_Inr validate_pid_and_ttl_def Let_def split: sum.splits option.splits if_splits)

lemma acquire_writes:
  assumes "acquire_daemon_lease_with_phase add request phase db = (r, db')" and "phase \<in> {Phase_Booting, Phase_Online}"
  shows "daemon_write\<^sup>*\<^sup>* db db'"
proof (cases r)
  case (Inl e)
  then show ?thesis using assms(1) unfolding acquire_daemon_lease_with_phase_def transact_def
    by (auto split: sum.splits prod.splits)
next
  case (Inr d)
  note a = acquire_Inr [OF assms(1) [unfolded Inr]]
  then obtain e where "db' = release_expired (dq_started_at request) db @ [new_daemon_row request phase e]" by blast
  then show ?thesis using write_lease [OF a(1-3) assms(2)] by blast
qed

lemma transition_writes:
  assumes "transition_daemon_phase i phase diagnostic db = (d, db')"
  shows "daemon_write\<^sup>*\<^sup>* db db'"
proof (cases "\<exists>source. allowed_source phase = Some source \<and> check_diagnostic phase diagnostic = Inr ()")
  case True
  then obtain source where source: "allowed_source phase = Some source" and diagnostic: "check_diagnostic phase diagnostic = Inr ()"
    by blast
  let ?p = "\<lambda>r. di_instance_id r = i \<and> unreleased r \<and> source (dn_phase r)"
  let ?f = "\<lambda>r. r\<lparr>dn_phase := phase, dn_startup_error := diagnostic\<rparr>"
  have "unreleased r \<and> daemon_evolves r (?f r) \<and> (daemon_row_ok r \<longrightarrow> daemon_row_ok (?f r))" if "?p r" for r
    using that source diagnostic
    by (cases phase) (auto simp: daemon_evolves_def phase_progress_def daemon_row_ok_def check_diagnostic_def
        split: option.splits if_splits)
  from write_row [of ?p ?f db, OF this] have "daemon_write\<^sup>*\<^sup>* db (update_rows ?p ?f db)" by blast
  moreover have "db' = update_rows ?p ?f db"
    using arg_cong [OF assms, of snd] source diagnostic by (simp add: transition_daemon_phase_def)
  ultimately show ?thesis by simp
next
  case False
  then have "db' = db" using assms
    by (auto simp: transition_daemon_phase_def split: option.splits sum.splits)
  then show ?thesis by simp
qed

lemma heartbeat_writes:
  assumes "heartbeat_daemon add i now ttl db = (d, db')"
  shows "daemon_write\<^sup>*\<^sup>* db db'"
proof (cases "and_then (validate_pid_and_ttl 1 ttl) (\<lambda>_. ok_or (InvalidRecord ''daemon lease expiry overflow'') (add now ttl))")
  case (Inl e)
  then show ?thesis using assms by (simp add: heartbeat_daemon_def)
next
  case (Inr expires_at)
  then have "db' = update_rows (\<lambda>r. di_instance_id r = i \<and> unreleased r \<and> dn_heartbeat_at r \<le> now)
      (\<lambda>r. r\<lparr>dn_heartbeat_at := now, di_lease_expires_at := expires_at\<rparr>) db"
    using arg_cong [OF assms, of snd] by (simp add: heartbeat_daemon_def)
  moreover have "daemon_write db \<dots>"
    by (rule write_row) (auto simp: daemon_evolves_def phase_progress_def daemon_row_ok_def)
  ultimately show ?thesis by blast
qed

lemma identity_writes:
  assumes "record_daemon_runtime_identity i path version target db = (d, db')"
  shows "daemon_write\<^sup>*\<^sup>* db db'"
proof (cases "list_ex is_blank [path, version, target]")
  case True
  then show ?thesis using assms by (simp only: record_daemon_runtime_identity_def if_True prod.inject)
next
  case False
  then have "db' = update_rows (\<lambda>r. di_instance_id r = i \<and> unreleased r)
      (\<lambda>r. r\<lparr>dn_executable_path := Some path, dn_build_version := Some version, dn_build_target := Some target\<rparr>) db"
    using arg_cong [OF assms, of snd] by (simp only: record_daemon_runtime_identity_def if_False snd_read_back snd_update_owned snd_conv)
  moreover have "daemon_write db \<dots>"
    by (rule write_row) (auto simp: daemon_evolves_def phase_progress_def daemon_row_ok_def)
  ultimately show ?thesis by blast
qed

lemma stop_and_release_write:
  "request_daemon_stop i now db = (u, db') \<Longrightarrow> daemon_write\<^sup>*\<^sup>* db db'"
  "release_daemon i now db = (u, db') \<Longrightarrow> daemon_write\<^sup>*\<^sup>* db db'"
  unfolding request_daemon_stop_def release_daemon_def update_owned_def prod.inject
  by (auto intro!: r_into_rtranclp write_row simp: daemon_evolves_def phase_progress_def daemon_row_ok_def
      split: option.splits)

lemma daemon_step_writes: "daemon_step add db db' \<Longrightarrow> daemon_write\<^sup>*\<^sup>* db db'"
  by (induction rule: daemon_step.induct)
    (auto simp: acquire_daemon_lease_def acquire_daemon_startup_lease_def
      dest: acquire_writes transition_writes heartbeat_writes identity_writes stop_and_release_write)

lemma daemon_run_writes: "(daemon_step add)\<^sup>*\<^sup>* db db' \<Longrightarrow> daemon_write\<^sup>*\<^sup>* db db'"
proof (induction rule: rtranclp_induct)
  case (step y z)
  then show ?case using daemon_step_writes [of add y z] by (meson rtranclp_trans)
qed simp

lemma daemon_run_inv: "(daemon_step add)\<^sup>*\<^sup>* [] db \<Longrightarrow> daemon_inv db"
  using daemon_rows.run_inv [OF daemon_run_writes] by (simp add: daemon_inv_def)

section \<open>Properties\<close>

lemma released_update:
  assumes "\<And>r. r \<in> set db \<Longrightarrow> di_instance_id r = i \<Longrightarrow> \<not> unreleased r" and "\<And>r. p r \<Longrightarrow> di_instance_id r = i \<and> unreleased r"
  shows "update_owned p f i db = (Inl (ownership_error i), db)"
proof -
  have "filter p db = []" using assms by (auto simp: filter_empty_conv)
  moreover have "update_rows p f db = db" unfolding update_rows_def by (rule map_idI) (use assms in auto)
  ultimately show ?thesis by (simp add: update_owned_def matching_def)
qed

definition refuses :: "('e + 'a) \<times> daemon_db \<Rightarrow> daemon_db \<Rightarrow> bool" where
  "refuses result db \<longleftrightarrow> isl (fst result) \<and> snd result = db"

lemma refuses_simps [simp]: "refuses (Inl e, db') db \<longleftrightarrow> db' = db" "\<not> refuses (Inr a, db') db"
  by (simp_all add: refuses_def)

lemma released_refused:
  assumes "\<And>r. r \<in> set db \<Longrightarrow> di_instance_id r = i \<Longrightarrow> \<not> unreleased r"
  shows "refuses (heartbeat_daemon add i now ttl db) db" "refuses (transition_daemon_phase i phase diagnostic db) db"
    "refuses (record_daemon_runtime_identity i path version target db) db" "refuses (request_daemon_stop i now db) db"
    "refuses (release_daemon i now db) db"
proof -
  have gone: "update_owned (\<lambda>r. di_instance_id r = i \<and> unreleased r \<and> q r) f i db = (Inl (ownership_error i), db)"
    "update_owned (\<lambda>r. di_instance_id r = i \<and> unreleased r) f i db = (Inl (ownership_error i), db)" for q f
    by (rule released_update; use assms in blast)+
  show "refuses (heartbeat_daemon add i now ttl db) db"
    by (auto simp: heartbeat_daemon_def gone read_back_def split: sum.splits)
  show "refuses (transition_daemon_phase i phase diagnostic db) db"
    by (auto simp: transition_daemon_phase_def gone read_back_def split: sum.splits option.splits)
  show "refuses (record_daemon_runtime_identity i path version target db) db"
    by (auto simp: record_daemon_runtime_identity_def gone read_back_def)
  show "refuses (request_daemon_stop i now db) db" "refuses (release_daemon i now db) db"
    by (auto simp: request_daemon_stop_def release_daemon_def gone)
qed

lemma takeover_releases:
  assumes "daemon_inv db" and "acquire_daemon_lease_with_phase add request phase db = (Inr d, db1)"
    and "phase \<in> {Phase_Booting, Phase_Online}" and "daemon_write\<^sup>*\<^sup>* db1 db2" and "r \<in> set db"
    and "r2 \<in> set db2" and "di_instance_id r2 = di_instance_id r"
  shows "\<not> unreleased r2"
proof -
  let ?db = "release_expired (dq_started_at request) db"
  note acq = acquire_Inr [OF assms(2)]
  have inv1: "daemon_inv db1" using daemon_rows.run_inv [OF acquire_writes [OF assms(2,3)] assms(1)] .
  obtain r1 where r1: "r1 \<in> set ?db" "di_instance_id r1 = di_instance_id r"
    using daemon_rows.step_row [OF release_expired_writes assms(1,5)] by (auto simp: daemon_evolves_def)
  have gone: "\<not> unreleased r1" using acq(1) r1(1) by (auto simp: find_None_iff)
  have "r1 \<in> set db1" using acq(4) r1(1) by auto
  then obtain r3 where r3: "r3 \<in> set db2" "daemon_evolves r1 r3"
    using daemon_rows.row_persists [OF assms(4) inv1] by blast
  then have "r3 = r1" using gone by (simp add: daemon_evolves_def)
  moreover have "distinct (map di_instance_id db2)" using daemon_rows.run_inv [OF assms(4) inv1] by (simp add: daemon_inv_def)
  ultimately have "r2 = r1" using r3(1) r1(2) assms(6,7) by (auto simp: distinct_map inj_on_def)
  then show ?thesis using gone by simp
qed

text \<open>C15: a daemon that was replaced is fenced off for good. Once another instance acquires the lease, every
  earlier instance is refused, at every later time: its heartbeats, phase changes, identity updates, stop requests
  and releases fail without changing anything, and the scheduler no longer accepts it as the owner of claims.\<close>

theorem replaced_daemon_is_fenced:
  assumes "(daemon_step add)\<^sup>*\<^sup>* [] db"
    and "acquire_daemon_lease add request db = (Inr d, db1) \<or> acquire_daemon_startup_lease add request db = (Inr d, db1)"
    and "(daemon_step add)\<^sup>*\<^sup>* db1 db2" and "r \<in> set db"
  shows "refuses (heartbeat_daemon add (di_instance_id r) now ttl db2) db2
    \<and> refuses (transition_daemon_phase (di_instance_id r) phase diagnostic db2) db2
    \<and> refuses (record_daemon_runtime_identity (di_instance_id r) path version target db2) db2
    \<and> refuses (request_daemon_stop (di_instance_id r) now db2) db2
    \<and> refuses (release_daemon (di_instance_id r) now db2) db2
    \<and> isl (ensure_daemon_owner (sdb\<lparr>db_daemons := map daemon_row.truncate db2\<rparr>) (di_instance_id r) now)"
proof -
  obtain p where p: "acquire_daemon_lease_with_phase add request p db = (Inr d, db1)" "p \<in> {Phase_Booting, Phase_Online}"
    using assms(2) by (auto simp: acquire_daemon_lease_def acquire_daemon_startup_lease_def)
  have gone: "\<not> unreleased r2" if "r2 \<in> set db2" "di_instance_id r2 = di_instance_id r" for r2
    using takeover_releases [OF daemon_run_inv [OF assms(1)] p daemon_run_writes [OF assms(3)] assms(4) that] .
  have "isl (ensure_daemon_owner (sdb\<lparr>db_daemons := map daemon_row.truncate db2\<rparr>) (di_instance_id r) now)"
    using gone by (auto simp: ensure_daemon_owner_def list_ex_iff unreleased_def daemon_row.defs)
  then show ?thesis using released_refused [of db2 "di_instance_id r", OF gone] by blast
qed

lemma schema_version_facts: "\<not> STATE_SCHEMA_VERSION < 4" "9 \<le> STATE_SCHEMA_VERSION"
  by (simp_all add: STATE_SCHEMA_VERSION_def)

lemma row_ok_pid:
  assumes "daemon_row_ok r"
  obtains w where "u32_try_from (dn_pid r) = Some w" "w \<noteq> 0"
proof -
  have pid: "0 < dn_pid r" "dn_pid r < 2 ^ 32" using assms by (simp_all add: daemon_row_ok_def)
  have "uint (word_of_int (dn_pid r) :: u32) = dn_pid r" using pid by (simp add: uint_word_of_int)
  then have "(word_of_int (dn_pid r) :: u32) \<noteq> 0" using pid(1) by auto
  then show ?thesis using that pid by (simp add: u32_try_from_def)
qed

text \<open>one daemon owns the database, and every reader sees the same one. After any operations at most one instance is
  unreleased; the status query always succeeds, and the identity that another process reads from the database
  file is present exactly when the status is online, with the same instance and process id.\<close>

theorem daemon_readers_agree:
  assumes "(daemon_step add)\<^sup>*\<^sup>* [] db"
  shows "length (filter unreleased db) \<le> 1
    \<and> (\<exists>status. daemon_status db now = Inr status
        \<and> read_online_daemon_identity (Some (Inr (STATE_SCHEMA_VERSION, db))) now
          = Inr (case status of Status_Online d \<Rightarrow> Some \<lparr> doi_instance_id = dmn_instance_id d, doi_pid = dmn_pid d \<rparr> | _ \<Rightarrow> None))"
proof -
  have inv: "daemon_inv db" using daemon_run_inv [OF assms] .
  then have one: "length (filter unreleased db) \<le> 1" by (simp add: daemon_inv_def)
  show ?thesis
  proof (cases "filter unreleased db")
    case Nil
    then show ?thesis using one
      by (simp add: daemon_status_def read_online_daemon_identity_def load_stored_daemon_identity_def schema_version_facts)
  next
    case (Cons r rest)
    then have rest: "rest = []" using one by simp
    have "r \<in> set db" using arg_cong [OF Cons, of set] by auto
    then have "daemon_row_ok r" using inv by (simp add: daemon_inv_def)
    then obtain w where w: "u32_try_from (dn_pid r) = Some w" "w \<noteq> 0" by (rule row_ok_pid)
    show ?thesis using one w
      by (cases "dn_phase r")
        (simp_all add: daemon_status_def Cons rest map_daemon_instance_def ok_or_def read_online_daemon_identity_def
          load_stored_daemon_identity_def schema_version_facts parse_online_daemon_identity_def)
  qed
qed

section \<open>Sample run\<close>

definition daemon_add :: "DateTime \<Rightarrow> TimeDelta \<Rightarrow> DateTime option" where
  "daemon_add t d = Some (t + d)"

definition sample_daemon_request :: "DaemonInstanceId \<Rightarrow> DateTime \<Rightarrow> DaemonLeaseRequest" where
  "sample_daemon_request i t = \<lparr> dq_instance_id = i, dq_pid = 42, dq_started_at = t, dq_ttl = 30 \<rparr>"

definition first_daemon :: daemon_db where
  "first_daemon = snd (acquire_daemon_lease daemon_add (sample_daemon_request 1 100) [])"

definition second_daemon :: daemon_db where
  "second_daemon = snd (acquire_daemon_lease daemon_add (sample_daemon_request 2 200) first_daemon)"

lemma daemon_sample:
  "map (\<lambda>r. (di_instance_id r, di_released_at r)) first_daemon = [(1, None)]"
  "map (\<lambda>r. (di_instance_id r, di_released_at r)) second_daemon = [(1, Some 200), (2, None)]"
  "isl (fst (acquire_daemon_lease daemon_add (sample_daemon_request 2 110) first_daemon))"
  "\<not> isl (fst (acquire_daemon_lease daemon_add (sample_daemon_request 2 200) first_daemon))"
  "\<not> isl (fst (heartbeat_daemon daemon_add 1 120 30 first_daemon))"
  "read_online_daemon_identity (Some (Inr (STATE_SCHEMA_VERSION, second_daemon))) 210
     = Inr (Some \<lparr> doi_instance_id = 2, doi_pid = 42 \<rparr>)"
  by code_simp+

lemma first_daemon_run: "(daemon_step daemon_add)\<^sup>*\<^sup>* [] first_daemon"
  unfolding first_daemon_def by (rule r_into_rtranclp) (rule acquire [OF prod.collapse [symmetric]])

theorem replaced_daemon_is_fenced_witness:
  "\<not> isl (fst (heartbeat_daemon daemon_add 1 120 30 first_daemon))
   \<and> refuses (heartbeat_daemon daemon_add 1 210 30 second_daemon) second_daemon"
proof -
  obtain r where one: "first_daemon = [r]" and r: "di_instance_id r = 1" using daemon_sample(1) by auto
  have member: "r \<in> set first_daemon" unfolding one by (rule list.set_intros(1))
  obtain d where "fst (acquire_daemon_lease daemon_add (sample_daemon_request 2 200) first_daemon) = Inr d"
    using daemon_sample(4) by (cases "fst (acquire_daemon_lease daemon_add (sample_daemon_request 2 200) first_daemon)") auto
  then have "acquire_daemon_lease daemon_add (sample_daemon_request 2 200) first_daemon = (Inr d, second_daemon)"
    unfolding second_daemon_def by (metis prod.collapse)
  then show ?thesis
    using replaced_daemon_is_fenced [OF first_daemon_run _ rtranclp.rtrancl_refl member,
        of "sample_daemon_request 2 200" d second_daemon 210 30] daemon_sample(5) r by simp
qed

theorem daemon_readers_agree_witness:
  "\<exists>status. daemon_status second_daemon 210 = Inr status
     \<and> (case status of Status_Online d \<Rightarrow> Some \<lparr> doi_instance_id = dmn_instance_id d, doi_pid = dmn_pid d \<rparr> | _ \<Rightarrow> None)
       = Some \<lparr> doi_instance_id = 2, doi_pid = 42 \<rparr>"
proof -
  have "daemon_step daemon_add first_daemon second_daemon"
    unfolding second_daemon_def by (rule acquire [OF prod.collapse [symmetric]])
  then have "(daemon_step daemon_add)\<^sup>*\<^sup>* [] second_daemon" using first_daemon_run by (rule rtranclp.rtrancl_into_rtrancl [rotated])
  from daemon_readers_agree [OF this, of 210] show ?thesis unfolding daemon_sample(6) by auto
qed

end
