(* ===== verification/Instructions.thy ===== *)
theory Instructions
  imports Schedule_Claims Growing_Table
begin

text \<open>
  \<open>crates/orchestrator-state/src/instructions.rs\<close>: instructions that a user sends to a running task, over the table
  \<open>task_instructions\<close> with the checks and triggers of \<open>migrations/0013_workspace_partitions.sql\<close>. The joins that find
  the target task use the tables of \<open>State_Store\<close>. Identifiers, times and states decode; ordinals are 64-bit
  integers of SQLite.
\<close>

section \<open>Data\<close>

type_synonym InstructionId = uuid

record StoredTaskInstruction =
  ins_instruction_id :: InstructionId
  ins_session_id :: SessionId
  ins_task_id :: TaskId
  ins_message_id :: MessageId
  ins_ordinal :: u64
  ins_state :: TaskInstructionState
  ins_content_redacted :: string
  ins_queued_at :: DateTime
  ins_claimed_at :: "DateTime option"
  ins_completed_at :: "DateTime option"
  ins_outcome_redacted :: "string option"

record instruction_row =
  ti_workspace :: WorkspaceId
  ti_instruction_id :: InstructionId
  ti_session_id :: SessionId
  ti_task_id :: TaskId
  ti_message_id :: MessageId
  ti_ordinal :: int
  ti_state :: TaskInstructionState
  ti_content_redacted :: string
  ti_queued_at :: DateTime
  ti_claimed_at :: "DateTime option"
  ti_completed_at :: "DateTime option"
  ti_outcome_redacted :: "string option"

record instruction_db =
  id_instructions :: "instruction_row list"
  id_graphs :: schedule_db
  id_messages :: "(WorkspaceId \<times> MessageId) list"

definition map_instruction :: "instruction_row \<Rightarrow> StateError + StoredTaskInstruction" where
  "map_instruction r =
     (if ti_ordinal r < 0 then Inl (Sqlite ''conversion failure'')
      else Inr \<lparr> ins_instruction_id = ti_instruction_id r, ins_session_id = ti_session_id r, ins_task_id = ti_task_id r,
                 ins_message_id = ti_message_id r, ins_ordinal = word_of_int (ti_ordinal r), ins_state = ti_state r,
                 ins_content_redacted = ti_content_redacted r, ins_queued_at = ti_queued_at r,
                 ins_claimed_at = ti_claimed_at r, ins_completed_at = ti_completed_at r,
                 ins_outcome_redacted = ti_outcome_redacted r \<rparr>)"

text \<open>The \<open>CHECK\<close> of the table and the trigger \<open>task_instructions_transition_guard\<close>.\<close>

definition instruction_check :: "instruction_row \<Rightarrow> bool" where
  "instruction_check r \<longleftrightarrow>
     ti_ordinal r > 0 \<and> sql_non_blank (ti_content_redacted r)
   \<and> (ti_state r = Instr_Queued \<and> ti_claimed_at r = None \<and> ti_completed_at r = None \<and> ti_outcome_redacted r = None
    \<or> ti_state r = Applying \<and> ti_claimed_at r \<noteq> None \<and> ti_completed_at r = None \<and> ti_outcome_redacted r = None
    \<or> ti_state r \<in> {Applied, Instr_Rejected, Instr_Interrupted} \<and> ti_claimed_at r \<noteq> None \<and> ti_completed_at r \<noteq> None)"

definition transition_guard :: "TaskInstructionState \<Rightarrow> TaskInstructionState \<Rightarrow> bool" where
  "transition_guard old new \<longleftrightarrow>
     old \<in> {Instr_Queued, Instr_Interrupted} \<and> new \<in> {Applying, Instr_Rejected}
   \<or> old = Applying \<and> new \<in> {Applied, Instr_Rejected, Instr_Interrupted}"

definition update_instructions :: "(instruction_row \<Rightarrow> bool) \<Rightarrow> (instruction_row \<Rightarrow> instruction_row) \<Rightarrow> instruction_db
     \<Rightarrow> StateError + nat \<times> instruction_db" where
  "update_instructions p f db =
     (if list_ex (\<lambda>r. p r \<and> \<not> (transition_guard (ti_state r) (ti_state (f r)) \<and> instruction_check (f r))) (id_instructions db)
      then Inl (Sqlite ''constraint failed'')
      else Inr (matching p (id_instructions db), db\<lparr>id_instructions := update_rows p f (id_instructions db)\<rparr>))"

definition instructions_in :: "WorkspaceId \<Rightarrow> instruction_db \<Rightarrow> instruction_row list" where
  "instructions_in ws db = rows_of ti_workspace ws (id_instructions db)"

section \<open>Queries\<close>

definition list_task_instructions :: "WorkspaceId \<Rightarrow> instruction_db \<Rightarrow> TaskId \<Rightarrow> StateError + StoredTaskInstruction list" where
  "list_task_instructions ws db task =
     try_map map_instruction (sort_key ti_ordinal (filter (\<lambda>r. ti_task_id r = task) (instructions_in ws db)))"

definition instruction_for_message :: "WorkspaceId \<Rightarrow> instruction_db \<Rightarrow> MessageId \<Rightarrow> StateError + StoredTaskInstruction option" where
  "instruction_for_message ws db message =
     (case find (\<lambda>r. ti_message_id r = message) (instructions_in ws db) of
        None \<Rightarrow> Inr None
      | Some r \<Rightarrow> and_then (map_instruction r) (\<lambda>i. Inr (Some i)))"

definition instruction_by_id :: "WorkspaceId \<Rightarrow> instruction_db \<Rightarrow> InstructionId \<Rightarrow> StateError + StoredTaskInstruction" where
  "instruction_by_id ws db i =
     (case find (\<lambda>r. ti_instruction_id r = i) (instructions_in ws db) of
        None \<Rightarrow> Inl (Sqlite ''query returned no rows'')
      | Some r \<Rightarrow> map_instruction r)"

definition waiting :: "instruction_row \<Rightarrow> bool" where
  "waiting r \<longleftrightarrow> ti_state r \<in> {Instr_Queued, Instr_Interrupted}"

definition next_waiting :: "WorkspaceId \<Rightarrow> instruction_db \<Rightarrow> TaskId \<Rightarrow> instruction_row option" where
  "next_waiting ws db task =
     (case sort_key ti_ordinal (filter (\<lambda>r. ti_task_id r = task \<and> waiting r) (instructions_in ws db)) of
        [] \<Rightarrow> None
      | r # _ \<Rightarrow> Some r)"

section \<open>Operations\<close>

definition claim_next_task_instruction :: "WorkspaceId \<Rightarrow> TaskId \<Rightarrow> DateTime \<Rightarrow> instruction_db
     \<Rightarrow> (StateError + StoredTaskInstruction option) \<times> instruction_db" where
  "claim_next_task_instruction ws task claimed_at =
     transact (\<lambda>db.
       case next_waiting ws db task of
         None \<Rightarrow> Inr (None, db)
       | Some n \<Rightarrow>
           let i = ti_instruction_id n in
           and_then (update_instructions (\<lambda>r. ti_workspace r = ws \<and> ti_instruction_id r = i \<and> waiting r)
               (\<lambda>r. r\<lparr>ti_state := Applying, ti_claimed_at := Some claimed_at, ti_completed_at := None, ti_outcome_redacted := None\<rparr>) db)
             (\<lambda>(changed, db).
               if changed \<noteq> 1 then Inl (OptimisticConflict ''task instruction'' i)
               else and_then (instruction_by_id ws db i) (\<lambda>instruction. Inr (Some instruction, db))))"

definition trimmed_outcome :: "string option \<Rightarrow> string option" where
  "trimmed_outcome o' = (case o' of None \<Rightarrow> None | Some s \<Rightarrow> if trim s = [] then None else Some (trim s))"

definition finish_task_instruction :: "WorkspaceId \<Rightarrow> InstructionId \<Rightarrow> TaskInstructionState \<Rightarrow> DateTime \<Rightarrow> string option \<Rightarrow> instruction_db
     \<Rightarrow> (StateError + StoredTaskInstruction) \<times> instruction_db" where
  "finish_task_instruction ws i state completed_at outcome =
     transact (\<lambda>db.
       if state \<notin> {Applied, Instr_Rejected, Instr_Interrupted}
       then Inl (InvalidRecord ''applying instruction must finish as applied, rejected, or interrupted'')
       else
         and_then (update_instructions (\<lambda>r. ti_workspace r = ws \<and> ti_instruction_id r = i \<and> ti_state r = Applying)
             (\<lambda>r. r\<lparr>ti_state := state, ti_completed_at := Some completed_at, ti_outcome_redacted := trimmed_outcome outcome\<rparr>) db)
           (\<lambda>(changed, db).
             if changed \<noteq> 1 then Inl (OptimisticConflict ''applying task instruction'' i)
             else and_then (instruction_by_id ws db i) (\<lambda>instruction. Inr (instruction, db))))"

definition interrupt_applying_instructions :: "WorkspaceId \<Rightarrow> DateTime \<Rightarrow> string \<Rightarrow> instruction_db
     \<Rightarrow> (StateError + nat) \<times> instruction_db" where
  "interrupt_applying_instructions ws interrupted_at outcome =
     transact (\<lambda>db.
       if trim outcome = [] then Inl (InvalidRecord ''instruction interruption outcome must not be blank'')
       else update_instructions (\<lambda>r. ti_workspace r = ws \<and> ti_state r = Applying)
              (\<lambda>r. r\<lparr>ti_state := Instr_Interrupted, ti_completed_at := Some interrupted_at, ti_outcome_redacted := Some (trim outcome)\<rparr>) db)"

text \<open>The state of a task that belongs to the current approved graph of its session.\<close>

definition target_state :: "WorkspaceId \<Rightarrow> schedule_db \<Rightarrow> SessionId \<Rightarrow> TaskId \<Rightarrow> TaskState option" where
  "target_state ws db session task =
     map_option t_state (find (\<lambda>t. t_task_id t = task
         \<and> list_ex (\<lambda>st. st_task_id st = task \<and> st_session_id st = session
             \<and> list_ex (\<lambda>gh. gh_session_id gh = session \<and> gh_revision_id gh = st_revision_id st) (rows_of gh_workspace ws (db_graph_heads db))
             \<and> list_ex (\<lambda>gr. gr_revision_id gr = st_revision_id st \<and> gr_status gr = ''approved'') (rows_of gr_workspace ws (db_graph_revisions db)))
           (rows_of st_workspace ws (db_session_tasks db)))
       (rows_of t_workspace ws (db_tasks db)))"

definition next_ordinal :: "WorkspaceId \<Rightarrow> instruction_db \<Rightarrow> TaskId \<Rightarrow> int" where
  "next_ordinal ws db task =
     fold max (map ti_ordinal (filter (\<lambda>r. ti_task_id r = task) (instructions_in ws db))) 0 + 1"

definition insert_instruction :: "instruction_row \<Rightarrow> instruction_db \<Rightarrow> StateError + instruction_db" where
  "insert_instruction row db =
     (if list_ex (\<lambda>r. ti_instruction_id r = ti_instruction_id row \<or> ti_message_id r = ti_message_id row
             \<or> ti_task_id r = ti_task_id row \<and> ti_ordinal r = ti_ordinal row) (instructions_in (ti_workspace row) db)
         \<or> (ti_workspace row, ti_message_id row) \<notin> set (id_messages db) \<or> \<not> instruction_check row
      then Inl (Sqlite ''constraint failed'')
      else Inr (db\<lparr>id_instructions := id_instructions db @ [row]\<rparr>))"

definition queue_instruction_in_transaction ::
    "WorkspaceId \<Rightarrow> InstructionId \<Rightarrow> SessionId \<Rightarrow> TaskId \<Rightarrow> MessageId \<Rightarrow> string \<Rightarrow> DateTime \<Rightarrow> instruction_db
     \<Rightarrow> StateError + StoredTaskInstruction \<times> instruction_db" where
  "queue_instruction_in_transaction ws fresh session task message content queued_at db =
     and_then (ok_or (InvalidRecord ''task message target must belong to the current approved session graph'')
         (target_state ws (id_graphs db) session task)) (\<lambda>state.
       if state \<notin> {Queued, Analyzing, Planned, Running} then Inl (InvalidRecord ''task cannot accept instructions in this state'')
       else
         let ordinal = next_ordinal ws db task;
             row = \<lparr> ti_workspace = ws, ti_instruction_id = fresh, ti_session_id = session, ti_task_id = task,
                     ti_message_id = message, ti_ordinal = ordinal, ti_state = Instr_Queued, ti_content_redacted = content,
                     ti_queued_at = queued_at, ti_claimed_at = None, ti_completed_at = None, ti_outcome_redacted = None \<rparr>
         in if ordinal \<ge> 2 ^ 63 then Inl (Sqlite ''conversion failure'')
            else and_then (insert_instruction row db) (\<lambda>db.
              and_then (map_instruction row) (\<lambda>instruction. Inr (instruction, db))))"

section \<open>The invariant\<close>

lemma transition_guard_is_domain_rule: "transition_guard = instruction_can_transition_to"
proof (intro ext)
  fix s t show "transition_guard s t = instruction_can_transition_to s t"
    by (cases s; cases t) (simp_all add: transition_guard_def)
qed

text \<open>The trigger \<open>task_instructions_identity_immutable\<close> names these columns; the operations never set them.\<close>

definition same_identity :: "instruction_row \<Rightarrow> instruction_row \<Rightarrow> bool" where
  "same_identity r r' \<longleftrightarrow> ti_workspace r' = ti_workspace r \<and> ti_instruction_id r' = ti_instruction_id r
   \<and> ti_session_id r' = ti_session_id r \<and> ti_task_id r' = ti_task_id r \<and> ti_message_id r' = ti_message_id r
   \<and> ti_ordinal r' = ti_ordinal r \<and> ti_content_redacted r' = ti_content_redacted r \<and> ti_queued_at r' = ti_queued_at r"

definition instruction_evolves :: "instruction_row \<Rightarrow> instruction_row \<Rightarrow> bool" where
  "instruction_evolves r r' \<longleftrightarrow>
     same_identity r r' \<and> instruction_can_transition_to\<^sup>*\<^sup>* (ti_state r) (ti_state r')
   \<and> (instruction_is_terminal (ti_state r) \<longrightarrow> r' = r)"

lemma instruction_evolves_refl: "instruction_evolves r r"
  by (simp add: instruction_evolves_def same_identity_def)

lemma instruction_evolves_trans: "instruction_evolves r s \<Longrightarrow> instruction_evolves s t \<Longrightarrow> instruction_evolves r t"
  unfolding instruction_evolves_def same_identity_def by auto

definition instruction_inv :: "instruction_db \<Rightarrow> bool" where
  "instruction_inv db \<longleftrightarrow>
     (\<forall>r \<in> set (id_instructions db). instruction_check r \<and> ti_ordinal r < 2 ^ 63)
   \<and> distinct (map (\<lambda>r. (ti_workspace r, ti_instruction_id r)) (id_instructions db))
   \<and> distinct (map (\<lambda>r. (ti_workspace r, ti_message_id r)) (id_instructions db))
   \<and> distinct (map (\<lambda>r. (ti_workspace r, ti_task_id r, ti_ordinal r)) (id_instructions db))"

inductive instruction_write :: "instruction_db \<Rightarrow> instruction_db \<Rightarrow> bool" where
  write_changes: "update_instructions p f db = Inr (n, db') \<Longrightarrow> (\<And>r. same_identity r (f r)) \<Longrightarrow> instruction_write db db'"
| write_instruction: "insert_instruction row db = Inr db' \<Longrightarrow> ti_ordinal row < 2 ^ 63 \<Longrightarrow> instruction_write db db'"
| write_elsewhere: "id_instructions db' = id_instructions db \<Longrightarrow> instruction_write db db'"

lemma update_instructions_Inr:
  assumes "update_instructions p f db = Inr (n, db')"
  shows "db' = db\<lparr>id_instructions := update_rows p f (id_instructions db)\<rparr>" and "n = matching p (id_instructions db)"
    and "\<And>r. r \<in> set (id_instructions db) \<Longrightarrow> p r \<Longrightarrow> instruction_can_transition_to (ti_state r) (ti_state (f r)) \<and> instruction_check (f r)"
  using assms unfolding update_instructions_def transition_guard_is_domain_rule by (auto simp: list_ex_iff split: if_split_asm)

lemma insert_instruction_Inr:
  assumes "insert_instruction row db = Inr db'"
  shows "db' = db\<lparr>id_instructions := id_instructions db @ [row]\<rparr>" and "instruction_check row"
    and "\<forall>r \<in> set (id_instructions db). ti_workspace r = ti_workspace row \<longrightarrow> ti_instruction_id r \<noteq> ti_instruction_id row
       \<and> ti_message_id r \<noteq> ti_message_id row \<and> \<not> (ti_task_id r = ti_task_id row \<and> ti_ordinal r = ti_ordinal row)"
  using assms unfolding insert_instruction_def
  by (auto simp: list_ex_iff instructions_in_def split: if_split_asm)

lemma instruction_write_inv: "instruction_write db db' \<Longrightarrow> instruction_inv db \<Longrightarrow> instruction_inv db'"
proof (induction rule: instruction_write.induct)
  case (write_changes p f db n db')
  note u = update_instructions_Inr [OF write_changes(1)]
  have same: "ti_workspace (f r) = ti_workspace r" "ti_instruction_id (f r) = ti_instruction_id r" "ti_message_id (f r) = ti_message_id r"
    "ti_task_id (f r) = ti_task_id r" "ti_ordinal (f r) = ti_ordinal r" for r
    using write_changes(2) [of r] by (simp_all add: same_identity_def)
  have keys: "map k (update_rows p f (id_instructions db)) = map k (id_instructions db)" if "\<And>r. k (f r) = k r" for k :: "instruction_row \<Rightarrow> 'k"
    using that by (rule map_update_rows)
  have "\<forall>r \<in> set (update_rows p f (id_instructions db)). instruction_check r \<and> ti_ordinal r < 2 ^ 63"
    using write_changes.prems u(3) same(5) unfolding instruction_inv_def update_rows_def by auto
  then show ?case using write_changes.prems unfolding instruction_inv_def u(1)
    by (simp add: keys same)
next
  case (write_instruction row db db')
  note i = insert_instruction_Inr [OF write_instruction(1)]
  show ?case using write_instruction.prems write_instruction(2) i(2,3) unfolding instruction_inv_def i(1) by auto
next
  case (write_elsewhere db' db)
  then show ?case by (simp add: instruction_inv_def)
qed

lemma instruction_write_rows:
  "instruction_write db db' \<Longrightarrow> \<exists>old new. id_instructions db' = old @ new \<and> list_all2 instruction_evolves (id_instructions db) old"
proof (induction rule: instruction_write.induct)
  case (write_changes p f db n db')
  note u = update_instructions_Inr [OF write_changes(1)]
  have ev: "instruction_evolves r (f r)" if "r \<in> set (id_instructions db)" "p r" for r
    using u(3) [OF that] write_changes(2) instruction_transition_from unfolding instruction_evolves_def by blast
  have "list_all2 instruction_evolves (id_instructions db) (update_rows p f (id_instructions db))"
    by (rule list_all2_update_rows) (use ev instruction_evolves_refl in blast)+
  moreover have "id_instructions db' = update_rows p f (id_instructions db) @ []" by (simp add: u(1))
  ultimately show ?case by blast
next
  case (write_instruction row db db')
  then show ?case using insert_instruction_Inr(1) [OF write_instruction(1)] instruction_evolves_refl list.rel_refl by simp blast
next
  case (write_elsewhere db' db)
  then show ?case using instruction_evolves_refl list.rel_refl append_Nil2 by metis
qed

interpretation instruction_rows: growing_table instruction_write id_instructions instruction_evolves instruction_inv
  using instruction_write_rows instruction_write_inv instruction_evolves_refl instruction_evolves_trans
  by unfold_locales blast+

section \<open>All operations together\<close>

inductive instruction_step :: "instruction_db \<Rightarrow> instruction_db \<Rightarrow> bool" where
  queue: "queue_instruction_in_transaction ws fresh session task message content t db = Inr (i, db') \<Longrightarrow> instruction_step db db'"
| claim: "claim_next_task_instruction ws task t db = (c, db') \<Longrightarrow> instruction_step db db'"
| finish: "finish_task_instruction ws i s t outcome db = (d, db') \<Longrightarrow> instruction_step db db'"
| interrupt: "interrupt_applying_instructions ws t text' db = (n, db') \<Longrightarrow> instruction_step db db'"
| elsewhere: "id_instructions db' = id_instructions db \<Longrightarrow> instruction_step db db'"

lemma instruction_op_writes:
  "queue_instruction_in_transaction ws fresh session task message content t db = Inr (i, db') \<Longrightarrow> instruction_write\<^sup>*\<^sup>* db db'"
  "claim_next_task_instruction ws task t db = (c, db') \<Longrightarrow> instruction_write\<^sup>*\<^sup>* db db'"
  "finish_task_instruction ws j s t outcome db = (d, db') \<Longrightarrow> instruction_write\<^sup>*\<^sup>* db db'"
  "interrupt_applying_instructions ws t message' db = (n, db') \<Longrightarrow> instruction_write\<^sup>*\<^sup>* db db'"
proof -
  show "instruction_write\<^sup>*\<^sup>* db db'"
    if "queue_instruction_in_transaction ws fresh session task message content t db = Inr (i, db')"
    using that unfolding queue_instruction_in_transaction_def Let_def
    by (auto simp: and_then_eq_Inr not_le split: if_split_asm intro!: r_into_rtranclp elim!: write_instruction)
  show "instruction_write\<^sup>*\<^sup>* db db'" if "claim_next_task_instruction ws task t db = (c, db')"
    using that unfolding claim_next_task_instruction_def
    by (elim transact_cases) (auto simp: and_then_eq_Inr Let_def same_identity_def split: option.splits if_split_asm
      intro!: r_into_rtranclp elim!: write_changes)
  show "instruction_write\<^sup>*\<^sup>* db db'" if "finish_task_instruction ws j s t outcome db = (d, db')"
    using that unfolding finish_task_instruction_def
    by (elim transact_cases) (auto simp: and_then_eq_Inr same_identity_def split: if_split_asm intro!: r_into_rtranclp elim!: write_changes)
  show "instruction_write\<^sup>*\<^sup>* db db'" if "interrupt_applying_instructions ws t message' db = (n, db')"
    using that unfolding interrupt_applying_instructions_def
    by (elim transact_cases) (auto simp: same_identity_def split: if_split_asm intro!: r_into_rtranclp elim!: write_changes)
qed

lemma instruction_run_writes: "instruction_step\<^sup>*\<^sup>* db db' \<Longrightarrow> instruction_write\<^sup>*\<^sup>* db db'"
proof (induction rule: rtranclp_induct)
  case (step y z)
  have "instruction_write\<^sup>*\<^sup>* y z"
    using step.hyps(2) by cases (auto dest: instruction_op_writes intro: write_elsewhere)
  then show ?case using step.IH by (meson rtranclp_trans)
qed simp

section \<open>Delivery\<close>

lemma next_waiting_Some:
  assumes "next_waiting ws db task = Some r"
  shows "r \<in> set (instructions_in ws db)" "ti_task_id r = task" "waiting r"
    and "\<forall>e \<in> set (instructions_in ws db). ti_task_id e = task \<and> waiting e \<longrightarrow> ti_ordinal r \<le> ti_ordinal e"
proof -
  let ?rs = "filter (\<lambda>r. ti_task_id r = task \<and> waiting r) (instructions_in ws db)"
  obtain rest where sorted: "sort_key ti_ordinal ?rs = r # rest" using assms by (auto simp: next_waiting_def split: list.splits)
  have "set ?rs = set (r # rest)" unfolding sorted [symmetric] by simp
  moreover have "\<forall>e \<in> set rest. ti_ordinal r \<le> ti_ordinal e" using sorted_sort_key [of ti_ordinal ?rs] unfolding sorted by simp
  ultimately have r: "r \<in> set ?rs" and least: "\<forall>e \<in> set ?rs. ti_ordinal r \<le> ti_ordinal e" by (simp_all only: set_simps) blast+
  show "r \<in> set (instructions_in ws db)" "ti_task_id r = task" "waiting r" using r by simp_all
  show "\<forall>e \<in> set (instructions_in ws db). ti_task_id e = task \<and> waiting e \<longrightarrow> ti_ordinal r \<le> ti_ordinal e" using least by simp
qed

lemma next_waiting_None:
  "next_waiting ws db task = None \<longleftrightarrow> \<not> (\<exists>e \<in> set (instructions_in ws db). ti_task_id e = task \<and> waiting e)"
proof -
  let ?rs = "filter (\<lambda>r. ti_task_id r = task \<and> waiting r) (instructions_in ws db)"
  have "next_waiting ws db task = None \<longleftrightarrow> set (sort_key ti_ordinal ?rs) = {}"
    by (simp add: next_waiting_def del: set_sort split: list.splits)
  also have "\<dots> \<longleftrightarrow> \<not> (\<exists>e \<in> set (instructions_in ws db). ti_task_id e = task \<and> waiting e)" by auto
  finally show ?thesis .
qed

abbreviation applying :: "DateTime \<Rightarrow> instruction_row \<Rightarrow> instruction_row" where
  "applying t r \<equiv> r\<lparr>ti_state := Applying, ti_claimed_at := Some t, ti_completed_at := None, ti_outcome_redacted := None\<rparr>"

lemma claim_succeeds:
  assumes inv: "instruction_inv db" and "next_waiting ws db task = Some r"
  shows "\<exists>i. claim_next_task_instruction ws task t db
      = (Inr (Some i), db\<lparr>id_instructions := map (\<lambda>e. if e = r then applying t r else e) (id_instructions db)\<rparr>)
    \<and> map_instruction (applying t r) = Inr i"
proof -
  note r = next_waiting_Some [OF assms(2)]
  let ?p = "\<lambda>e. ti_workspace e = ws \<and> ti_instruction_id e = ti_instruction_id r \<and> waiting e"
  let ?rows = "map (\<lambda>e. if e = r then applying t r else e) (id_instructions db)"
  have mem: "r \<in> set (id_instructions db)" "ti_workspace r = ws" using r(1) by (simp_all add: instructions_in_def)
  have ids: "distinct (map (\<lambda>r. (ti_workspace r, ti_instruction_id r)) (id_instructions db))"
    and check: "instruction_check r" using inv mem(1) by (simp_all add: instruction_inv_def)
  have unique: "e = r" if "e \<in> set (id_instructions db)" "ti_workspace e = ws" "ti_instruction_id e = ti_instruction_id r" for e
    using ids that mem by (auto simp: distinct_map inj_on_def)
  have p: "?p e \<longleftrightarrow> e = r" if "e \<in> set (id_instructions db)" for e using unique [OF that] r(3) mem(2) by blast
  have rows: "update_rows ?p (applying t) (id_instructions db) = ?rows"
    unfolding update_rows_def by (rule map_cong [OF refl]) (simp only: p split: if_split, simp)
  have "distinct (id_instructions db)" using ids by (simp add: distinct_map)
  from matching_unique [OF this mem(1) p] have one: "matching ?p (id_instructions db) = 1" .
  have "instruction_check (applying t r)" "transition_guard (ti_state r) Applying"
    using check r(3) by (auto simp: instruction_check_def waiting_def transition_guard_def)
  then have upd: "update_instructions ?p (applying t) db = Inr (1, db\<lparr>id_instructions := ?rows\<rparr>)"
    using p unfolding update_instructions_def rows one by (auto simp: list_ex_iff)
  have found: "find (\<lambda>e. ti_instruction_id e = ti_instruction_id r) (rows_of ti_workspace ws ?rows) = Some (applying t r)"
  proof -
    have new: "applying t r \<in> set (rows_of ti_workspace ws ?rows)" using mem by (auto simp: image_iff intro!: bexI [of _ r])
    have "\<exists>x. x \<in> set (rows_of ti_workspace ws ?rows) \<and> ti_instruction_id x = ti_instruction_id r"
      by (rule exI [of _ "applying t r"], rule conjI [OF new]) simp
    then have "find (\<lambda>e. ti_instruction_id e = ti_instruction_id r) (rows_of ti_workspace ws ?rows) \<noteq> None"
      unfolding find_None_iff not_not .
    then obtain e where e: "find (\<lambda>e. ti_instruction_id e = ti_instruction_id r) (rows_of ti_workspace ws ?rows) = Some e"
      unfolding not_None_eq by (elim exE)
    from find_in_set [OF e] obtain e0 where "e0 \<in> set (id_instructions db)" "e = (if e0 = r then applying t r else e0)"
      "ti_workspace e = ws" "ti_instruction_id e = ti_instruction_id r" by auto
    then have "e = applying t r" using unique [of e0] by (auto split: if_splits)
    then show ?thesis using e by simp
  qed
  obtain i where i: "map_instruction (applying t r) = Inr i"
    using check by (auto simp: map_instruction_def instruction_check_def)
  have "instruction_by_id ws (db\<lparr>id_instructions := ?rows\<rparr>) (ti_instruction_id r) = Inr i"
    using found i by (simp add: instruction_by_id_def instructions_in_def)
  then have "claim_next_task_instruction ws task t db = (Inr (Some i), db\<lparr>id_instructions := ?rows\<rparr>)"
    unfolding claim_next_task_instruction_def transact_def using upd by (simp add: assms(2) Let_def)
  then show ?thesis using i by blast
qed

text \<open>C16: instructions reach a task in the order they were sent. After any operations, claiming for a task
  returns nothing only when nothing waits, and otherwise returns the waiting instruction with the least ordinal, which becomes
  the one being applied while every other row stays as it is; claiming never fails. From then on no operation loses
  an instruction or changes what was sent, and its state only follows the instruction state machine.\<close>

theorem instructions_delivered_in_order:
  assumes "instruction_step\<^sup>*\<^sup>* db0 db" and "id_instructions db0 = []" and "instruction_step\<^sup>*\<^sup>* db db2"
  shows "(case claim_next_task_instruction ws task t db of
      (Inl e, _) \<Rightarrow> False
    | (Inr None, db') \<Rightarrow> db' = db \<and> \<not> (\<exists>e \<in> set (instructions_in ws db). ti_task_id e = task \<and> waiting e)
    | (Inr (Some i), db') \<Rightarrow> \<exists>r \<in> set (instructions_in ws db). ti_task_id r = task \<and> waiting r
        \<and> (\<forall>e \<in> set (instructions_in ws db). ti_task_id e = task \<and> waiting e \<longrightarrow> ti_ordinal r \<le> ti_ordinal e)
        \<and> ins_instruction_id i = ti_instruction_id r \<and> ins_content_redacted i = ti_content_redacted r \<and> ins_state i = Applying
        \<and> id_instructions db' = map (\<lambda>e. if e = r then applying t r else e) (id_instructions db))
    \<and> (\<forall>r \<in> set (id_instructions db). \<exists>r' \<in> set (id_instructions db2). same_identity r r'
        \<and> instruction_can_transition_to\<^sup>*\<^sup>* (ti_state r) (ti_state r'))"
proof
  have inv: "instruction_inv db"
    using instruction_rows.run_inv [OF instruction_run_writes [OF assms(1)]] assms(2) by (simp add: instruction_inv_def)
  show "\<forall>r \<in> set (id_instructions db). \<exists>r' \<in> set (id_instructions db2). same_identity r r'
        \<and> instruction_can_transition_to\<^sup>*\<^sup>* (ti_state r) (ti_state r')"
    using instruction_rows.row_persists [OF instruction_run_writes [OF assms(3)] inv] unfolding instruction_evolves_def by blast
  show "case claim_next_task_instruction ws task t db of
      (Inl e, _) \<Rightarrow> False
    | (Inr None, db') \<Rightarrow> db' = db \<and> \<not> (\<exists>e \<in> set (instructions_in ws db). ti_task_id e = task \<and> waiting e)
    | (Inr (Some i), db') \<Rightarrow> \<exists>r \<in> set (instructions_in ws db). ti_task_id r = task \<and> waiting r
        \<and> (\<forall>e \<in> set (instructions_in ws db). ti_task_id e = task \<and> waiting e \<longrightarrow> ti_ordinal r \<le> ti_ordinal e)
        \<and> ins_instruction_id i = ti_instruction_id r \<and> ins_content_redacted i = ti_content_redacted r \<and> ins_state i = Applying
        \<and> id_instructions db' = map (\<lambda>e. if e = r then applying t r else e) (id_instructions db)"
  proof (cases "next_waiting ws db task")
    case None
    then show ?thesis using next_waiting_None [of ws db task] by (simp add: claim_next_task_instruction_def transact_def)
  next
    case (Some r)
    obtain i where "claim_next_task_instruction ws task t db
        = (Inr (Some i), db\<lparr>id_instructions := map (\<lambda>e. if e = r then applying t r else e) (id_instructions db)\<rparr>)"
      and i: "map_instruction (applying t r) = Inr i" using claim_succeeds [OF inv Some] by blast
    moreover have "ins_instruction_id i = ti_instruction_id r" "ins_content_redacted i = ti_content_redacted r" "ins_state i = Applying"
      using i by (auto simp: map_instruction_def split: if_splits)
    ultimately show ?thesis using next_waiting_Some [OF Some]
      by (simp only: prod.case sum.case option.case) (intro bexI [of _ r]; simp)
  qed
qed

section \<open>Sample\<close>

definition instruction_tables :: "instruction_row list \<Rightarrow> instruction_db" where
  "instruction_tables rows = \<lparr> id_instructions = rows,
     id_graphs = \<lparr> db_daemons = [],
       db_tasks = [\<lparr> t_workspace = 1, t_task_id = 7, t_state = Running, t_paused = False, t_envelope = Inl [], t_created_at = 0,
         t_archived_at = None \<rparr>],
       db_session_tasks = [\<lparr> st_workspace = 1, st_session_id = 5, st_revision_id = 6, st_task_id = 7, st_node_key = ''n'',
         st_display_order = 1, st_provider_id = ''codex'', st_provider_id_v2 = None, st_model_profile = Standard \<rparr>],
       db_graph_revisions = [\<lparr> gr_workspace = 1, gr_revision_id = 6, gr_session_id = 5, gr_goal_message_id = 31, gr_ordinal = 1,
         gr_status = ''approved'', gr_proposal_hash = None, gr_proposal = None, gr_validation = JNull, gr_planner_provider = None,
         gr_planner_provider_v2 = None, gr_created_at = 0, gr_completed_at = None, gr_requirement_revision_id = None,
         gr_validation_hash = None, gr_base_commit = None \<rparr>],
       db_graph_heads = [\<lparr> gh_workspace = 1, gh_session_id = 5, gh_revision_id = 6, gh_updated_at = 0 \<rparr>],
       db_graph_approvals = [], db_task_dependencies = [], db_verification_results = [], db_schedule_claims = [],
       db_resource_claims = [] \<rparr>,
     id_messages = [(1, 31), (1, 32)] \<rparr>"

definition queued_row :: "uuid \<Rightarrow> MessageId \<Rightarrow> int \<Rightarrow> string \<Rightarrow> instruction_row" where
  "queued_row i m n content = \<lparr> ti_workspace = 1, ti_instruction_id = i, ti_session_id = 5, ti_task_id = 7, ti_message_id = m,
     ti_ordinal = n, ti_state = Instr_Queued, ti_content_redacted = content, ti_queued_at = 10, ti_claimed_at = None,
     ti_completed_at = None, ti_outcome_redacted = None \<rparr>"

definition queue_sample where
  "queue_sample i m content rows = queue_instruction_in_transaction 1 i 5 7 m content 10 (instruction_tables rows)"

abbreviation first_row where "first_row \<equiv> queued_row 21 31 1 ''first''"

abbreviation second_row where "second_row \<equiv> queued_row 22 32 2 ''second''"

lemma sample_queued:
  "and_then (queue_sample 21 31 ''first'' []) (\<lambda>(i, db). Inr db) = Inr (instruction_tables [first_row])"
  "and_then (queue_sample 22 32 ''second'' [first_row]) (\<lambda>(i, db). Inr db) = Inr (instruction_tables [first_row, second_row])"
  by code_simp+

lemma sample_delivery: "instruction_step\<^sup>*\<^sup>* (instruction_tables []) (instruction_tables [first_row, second_row])"
proof -
  have "instruction_step (instruction_tables []) (instruction_tables [first_row])"
    "instruction_step (instruction_tables [first_row]) (instruction_tables [first_row, second_row])"
    using sample_queued by (auto simp: and_then_eq_Inr queue_sample_def intro: queue)
  then show ?thesis by (meson converse_rtranclp_into_rtranclp r_into_rtranclp)
qed

lemma sample_claimed_first:
  "map (\<lambda>x. case x of Inl e \<Rightarrow> None | Inr y \<Rightarrow> map_option ins_content_redacted y)
     [fst (claim_next_task_instruction 1 7 50 (instruction_tables [first_row, second_row]))] = [Some ''first'']"
  by code_simp

theorem instructions_delivered_in_order_witness:
  "\<exists>i db'. claim_next_task_instruction 1 7 50 (instruction_tables [first_row, second_row]) = (Inr (Some i), db')
     \<and> ins_content_redacted i = ''first'' \<and> ins_state i = Applying"
proof -
  obtain i db' where c: "claim_next_task_instruction 1 7 50 (instruction_tables [first_row, second_row]) = (Inr (Some i), db')"
    and i: "ins_content_redacted i = ''first''"
    using sample_claimed_first
    by (cases "claim_next_task_instruction 1 7 50 (instruction_tables [first_row, second_row])") (auto split: sum.splits)
  have "id_instructions (instruction_tables []) = []" by (simp add: instruction_tables_def)
  from instructions_delivered_in_order [OF sample_delivery this rtranclp.rtrancl_refl, of 1 7 50]
  have "ins_state i = Applying" unfolding c by auto
  with c i show ?thesis by blast
qed

end
