(* ===== verification/Session_Store.thy ===== *)
theory Session_Store
  imports Client_Commands Event_Log Instructions
begin

text \<open>
  \<open>crates/orchestrator-state/src/sessions.rs\<close>: the stored sessions and their conversation messages, over the tables \<open>sessions\<close> and
  \<open>conversation_messages\<close> of \<open>migrations/0013_workspace_partitions.sql\<close> with their checks and the trigger that keeps
  the old state column in step. The operations also write the audit trail, task instructions, client commands and graph revisions;
  they do so through the operations of those stores, on the tables of one database. The transition that \<open>integrations.rs\<close>
  makes after an interrupted integration and the message with which \<open>graphs.rs\<close> announces an approval are the only other writers
  of the two tables and are here too.
\<close>

section \<open>Tables\<close>

record session_row =
  sn_workspace :: WorkspaceId
  sn_session_id :: SessionId
  sn_schema_version :: string
  sn_revision :: int
  sn_title :: string
  sn_state :: SessionState
  sn_state_v2 :: "SessionState option"
  sn_created_at :: DateTime
  sn_updated_at :: DateTime
  sn_archived_at :: "DateTime option"

record message_row =
  ms_workspace :: WorkspaceId
  ms_ordinal :: int
  ms_message :: ConversationMessage

record session_db =
  sd_workspaces :: "WorkspaceId list"
  sd_sessions :: "session_row list"
  sd_messages :: "message_row list"
  sd_graphs :: schedule_db
  sd_instructions :: "instruction_row list"
  sd_commands :: "command_row list"
  sd_invocations :: "invocation_row list"
  sd_events :: "event_row list"
  sd_exports :: "export_row list"

record session_env = event_env +
  id_text :: "uuid \<Rightarrow> string"
  u64_value :: "u64 \<Rightarrow> json"

text \<open>The tables as the other stores see them: their foreign keys refer to the rows of this database.\<close>

definition session_keys :: "session_db \<Rightarrow> (WorkspaceId \<times> SessionId) list" where
  "session_keys db = map (\<lambda>r. (sn_workspace r, sn_session_id r)) (sd_sessions db)"

definition task_keys :: "session_db \<Rightarrow> (WorkspaceId \<times> TaskId) list" where
  "task_keys db = map (\<lambda>t. (t_workspace t, t_task_id t)) (db_tasks (sd_graphs db))"

definition message_keys :: "session_db \<Rightarrow> (WorkspaceId \<times> MessageId) list" where
  "message_keys db = map (\<lambda>r. (ms_workspace r, msg_message_id (ms_message r))) (sd_messages db)"

definition event_view :: "session_db \<Rightarrow> event_db" where
  "event_view db = \<lparr> db_events = sd_events db, db_exports = sd_exports db, db_known_workspaces = sd_workspaces db,
     db_known_tasks = task_keys db, db_known_sessions = session_keys db \<rparr>"

definition command_view :: "session_db \<Rightarrow> command_db" where
  "command_view db = \<lparr> cd_commands = sd_commands db, cd_invocations = sd_invocations db, cd_sessions = session_keys db,
     cd_tasks = task_keys db \<rparr>"

definition instruction_view :: "session_db \<Rightarrow> instruction_db" where
  "instruction_view db = \<lparr> id_instructions = sd_instructions db, id_graphs = sd_graphs db, id_messages = message_keys db \<rparr>"

definition append_event_in_transaction ::
    "session_env \<Rightarrow> WorkspaceId \<Rightarrow> TaskEvent \<Rightarrow> session_db \<Rightarrow> StateError + session_db" where
  "append_event_in_transaction env ws event db =
     and_then (append_workspace_event_in_transaction (event_env.truncate env) ws event (event_view db)) (\<lambda>(_, events).
       Inr (db\<lparr>sd_events := db_events events\<rparr>))"

section \<open>Sessions\<close>

record NewSessionRecord =
  ns_session_id :: SessionId
  ns_schema_version :: string
  ns_title :: string
  ns_state :: SessionState
  ns_created_at :: DateTime

record StoredSession =
  ss_session_id :: SessionId
  ss_schema_version :: string
  ss_revision :: u64
  ss_title :: string
  ss_state :: SessionState
  ss_created_at :: DateTime
  ss_updated_at :: DateTime
  ss_archived_at :: "DateTime option"

record SessionListFilter =
  sf_include_archived :: bool
  sf_limit :: nat

definition session_list_filter_default :: SessionListFilter where
  "session_list_filter_default = \<lparr> sf_include_archived = False, sf_limit = 100 \<rparr>"

text \<open>\<open>coalesce(state_v2, state)\<close>.\<close>

definition row_state :: "session_row \<Rightarrow> SessionState" where
  "row_state r = (case sn_state_v2 r of None \<Rightarrow> sn_state r | Some s \<Rightarrow> s)"

definition map_session :: "session_row \<Rightarrow> StateError + StoredSession" where
  "map_session r =
     (if sn_revision r < 0 then Inl (Sqlite ''conversion failure'')
      else Inr \<lparr> ss_session_id = sn_session_id r, ss_schema_version = sn_schema_version r, ss_revision = word_of_int (sn_revision r),
                 ss_title = sn_title r, ss_state = row_state r, ss_created_at = sn_created_at r,
                 ss_updated_at = sn_updated_at r, ss_archived_at = sn_archived_at r \<rparr>)"

definition legacy_session_state :: "SessionState \<Rightarrow> SessionState" where
  "legacy_session_state s = (if s = Validating then Planning else s)"

definition sessions_in :: "WorkspaceId \<Rightarrow> session_db \<Rightarrow> session_row list" where
  "sessions_in ws db = rows_of sn_workspace ws (sd_sessions db)"

definition session_by_id :: "WorkspaceId \<Rightarrow> session_db \<Rightarrow> SessionId \<Rightarrow> StateError + StoredSession option" where
  "session_by_id ws db s =
     (case find (\<lambda>r. sn_session_id r = s) (sessions_in ws db) of
        None \<Rightarrow> Inr None
      | Some r \<Rightarrow> and_then (map_session r) (\<lambda>x. Inr (Some x)))"

definition load_session :: "WorkspaceId \<Rightarrow> session_db \<Rightarrow> SessionId \<Rightarrow> StateError + StoredSession option" where
  "load_session ws db s = session_by_id ws db s"

text \<open>\<open>ORDER BY updated_at DESC, session_id DESC\<close>; a limit that is no \<open>i64\<close> is the greatest one.\<close>

definition list_sessions :: "WorkspaceId \<Rightarrow> session_db \<Rightarrow> SessionListFilter \<Rightarrow> StateError + StoredSession list" where
  "list_sessions ws db f =
     try_map map_session (take (min (sf_limit f) (2 ^ 63 - 1))
       (rev (sort_key (\<lambda>r. (sn_updated_at r, sn_session_id r))
         (filter (\<lambda>r. sf_include_archived f \<or> sn_archived_at r = None) (sessions_in ws db)))))"

text \<open>The \<open>CHECK\<close>s of the table, and an update with the trigger \<open>sessions_legacy_state_sync\<close>. The
  updates of the sources always set the column \<open>state\<close>; a revision that is no \<open>i64\<close> is no value of its column.\<close>

definition session_check :: "session_row \<Rightarrow> bool" where
  "session_check r \<longleftrightarrow> 0 \<le> sn_revision r \<and> sn_revision r < 2 ^ 63 \<and> sql_non_blank (sn_title r) \<and> sn_state r \<noteq> Validating"

definition legacy_state_sync :: "session_row \<Rightarrow> session_row \<Rightarrow> session_row" where
  "legacy_state_sync old new = (if sn_state_v2 new = sn_state_v2 old then new\<lparr>sn_state_v2 := Some (sn_state new)\<rparr> else new)"

definition update_sessions :: "(session_row \<Rightarrow> bool) \<Rightarrow> (session_row \<Rightarrow> session_row) \<Rightarrow> session_db \<Rightarrow> StateError + nat \<times> session_db" where
  "update_sessions p f db =
     (if list_ex (\<lambda>r. p r \<and> \<not> session_check (f r)) (sd_sessions db) then Inl (Sqlite ''constraint failed'')
      else Inr (matching p (sd_sessions db), db\<lparr>sd_sessions := update_rows p (\<lambda>r. legacy_state_sync r (f r)) (sd_sessions db)\<rparr>))"

definition set_state :: "SessionState \<Rightarrow> DateTime \<Rightarrow> session_row \<Rightarrow> session_row" where
  "set_state next t r =
     r\<lparr>sn_state := legacy_session_state next, sn_state_v2 := Some next, sn_revision := sn_revision r + 1, sn_updated_at := t\<rparr>"

definition insert_session :: "session_row \<Rightarrow> session_db \<Rightarrow> StateError + session_db" where
  "insert_session row db =
     (if list_ex (\<lambda>r. sn_session_id r = sn_session_id row) (sessions_in (sn_workspace row) db)
         \<or> sn_workspace row \<notin> set (sd_workspaces db) \<or> \<not> session_check row
      then Inl (Sqlite ''constraint failed'')
      else Inr (db\<lparr>sd_sessions := sd_sessions db @ [row]\<rparr>))"

definition validate_new_session :: "NewSessionRecord \<Rightarrow> StateError + unit" where
  "validate_new_session s =
     (if ns_schema_version s \<noteq> SchemaVersion_V1 then Inl (InvalidRecord ''unsupported session schema version'')
      else if trim (ns_title s) = [] then Inl (InvalidRecord ''session title must not be blank'')
      else if ns_state s \<noteq> Drafting then Inl (InvalidRecord ''new session must start in drafting state'')
      else Inr ())"

definition validate_session_event :: "SessionId \<Rightarrow> EventType \<Rightarrow> TaskEvent \<Rightarrow> StateError + unit" where
  "validate_session_event s expected event =
     (if ev_session_id event \<noteq> Some s \<or> ev_task_id event \<noteq> None
      then Inl (InvalidRecord ''session event target does not match its session projection'')
      else if ev_event_type event \<noteq> expected then Inl (InvalidRecord ''session event type does not match'')
      else Inr ())"

definition create_session_with_event ::
    "session_env \<Rightarrow> WorkspaceId \<Rightarrow> NewSessionRecord \<Rightarrow> TaskEvent \<Rightarrow> session_db \<Rightarrow> (StateError + StoredSession) \<times> session_db" where
  "create_session_with_event env ws s event =
     transact (\<lambda>db.
       and_then (validate_new_session s) (\<lambda>_.
       and_then (validate_session_event (ns_session_id s) SessionCreated event) (\<lambda>_.
       and_then (insert_session
           \<lparr> sn_workspace = ws, sn_session_id = ns_session_id s, sn_schema_version = ns_schema_version s, sn_revision = 0,
              sn_title = trim (ns_title s), sn_state = ns_state s, sn_state_v2 = Some (ns_state s),
              sn_created_at = ns_created_at s, sn_updated_at = ns_created_at s, sn_archived_at = None \<rparr> db) (\<lambda>db.
       and_then (append_event_in_transaction env ws event db) (\<lambda>db.
       and_then (session_by_id ws db (ns_session_id s)) (\<lambda>found.
       and_then (ok_or (InvalidRecord ''created session is missing'') found) (\<lambda>stored. Inr (stored, db))))))))"

definition transition_session_with_event ::
    "session_env \<Rightarrow> WorkspaceId \<Rightarrow> SessionId \<Rightarrow> u64 \<Rightarrow> SessionState \<Rightarrow> DateTime \<Rightarrow> TaskEvent \<Rightarrow> session_db
     \<Rightarrow> (StateError + StoredSession) \<times> session_db" where
  "transition_session_with_event env ws s expected_revision next updated_at event =
     transact (\<lambda>db.
       and_then (validate_session_event s SessionStateTransitioned event) (\<lambda>_.
       and_then (session_by_id ws db s) (\<lambda>found.
       and_then (ok_or (InvalidRecord ''session does not exist'') found) (\<lambda>current.
         if ss_revision current \<noteq> expected_revision then Inl (OptimisticConflict ''session'' s)
         else
           and_then (map_err (\<lambda>_. InvalidRecord ''session transition'') (session_validate_transition (ss_state current) next)) (\<lambda>_.
           and_then (update_sessions
               (\<lambda>r. sn_workspace r = ws \<and> sn_session_id r = s \<and> sn_revision r = uint expected_revision) (set_state next updated_at) db)
             (\<lambda>(changed, db).
               if changed \<noteq> 1 then Inl (OptimisticConflict ''session'' s)
               else
                 and_then (append_event_in_transaction env ws event db) (\<lambda>db.
                 and_then (session_by_id ws db s) (\<lambda>found.
                 and_then (ok_or (InvalidRecord ''transitioned session is missing'') found) (\<lambda>stored. Inr (stored, db))))))))))"

text \<open>\<open>integrations.rs\<close>: the transition that reconciles an interrupted integration, from a known state and without a revision.\<close>

fun session_state_text :: "SessionState \<Rightarrow> string" where
  "session_state_text Drafting = ''drafting''"
| "session_state_text Planning = ''planning''"
| "session_state_text Validating = ''validating''"
| "session_state_text AwaitingApproval = ''awaiting_approval''"
| "session_state_text Session_Running = ''running''"
| "session_state_text NeedsAttention = ''needs_attention''"
| "session_state_text Integrating = ''integrating''"
| "session_state_text Session_Verifying = ''verifying''"
| "session_state_text Session_Completed = ''completed''"
| "session_state_text Stopping = ''stopping''"
| "session_state_text Session_Cancelled = ''cancelled''"

definition session_event :: "EventId \<Rightarrow> SessionId \<Rightarrow> DateTime \<Rightarrow> string \<Rightarrow> EventActor \<Rightarrow> CorrelationId \<Rightarrow> EventId option \<Rightarrow> json \<Rightarrow> TaskEvent" where
  "session_event event_id s t reason actor correlation causation payload =
     \<lparr> ev_schema_version = schema_state_current, ev_sequence = 0, ev_event_id = event_id, ev_session_id = Some s, ev_task_id = None,
       ev_occurred_at = t, ev_event_type = SessionStateTransitioned, ev_from_state = None, ev_to_state = None,
       ev_reason = Some reason, ev_actor = actor, ev_correlation_id = correlation, ev_causation_id = causation,
       ev_payload = payload, ev_previous_hash = None, ev_event_hash = [] \<rparr>"

definition transition_session_in_transaction ::
    "session_env \<Rightarrow> WorkspaceId \<Rightarrow> EventId \<Rightarrow> CorrelationId \<Rightarrow> SessionId \<Rightarrow> SessionState \<Rightarrow> SessionState \<Rightarrow> DateTime \<Rightarrow> string \<Rightarrow> session_db
     \<Rightarrow> StateError + session_db" where
  "transition_session_in_transaction env ws fresh correlation s from_state to_state now batch_id db =
     and_then (map_err (\<lambda>_. InvalidRecord ''session transition'') (session_validate_transition from_state to_state)) (\<lambda>_.
     and_then (update_sessions (\<lambda>r. sn_workspace r = ws \<and> sn_session_id r = s \<and> row_state r = from_state) (set_state to_state now) db)
       (\<lambda>(changed, db).
         if changed \<noteq> 1 then Inl (OptimisticConflict ''integration session'' s)
         else append_event_in_transaction env ws
           (session_event fresh s now ''interrupted integration reconciliation'' Actor_Orchestrator correlation None
             (JObject [(''batch_id'', JString batch_id), (''from'', JString (session_state_text from_state)),
                       (''to'', JString (session_state_text to_state))])) db))"

section \<open>Messages\<close>

definition messages_in :: "WorkspaceId \<Rightarrow> session_db \<Rightarrow> message_row list" where
  "messages_in ws db = rows_of ms_workspace ws (sd_messages db)"

definition map_message :: "message_row \<Rightarrow> StateError + u64 \<times> ConversationMessage" where
  "map_message r = (if ms_ordinal r < 0 then Inl (Sqlite ''conversion failure'') else Inr (word_of_int (ms_ordinal r), ms_message r))"

definition message_by_id :: "WorkspaceId \<Rightarrow> session_db \<Rightarrow> SessionId \<Rightarrow> MessageId \<Rightarrow> StateError + (u64 \<times> ConversationMessage) option" where
  "message_by_id ws db s m =
     (case find (\<lambda>r. msg_session_id (ms_message r) = s \<and> msg_message_id (ms_message r) = m) (messages_in ws db) of
        None \<Rightarrow> Inr None
      | Some r \<Rightarrow> and_then (map_message r) (\<lambda>x. Inr (Some x)))"

definition load_message :: "WorkspaceId \<Rightarrow> session_db \<Rightarrow> MessageId \<Rightarrow> StateError + ConversationMessage option" where
  "load_message ws db m =
     (case find (\<lambda>r. msg_message_id (ms_message r) = m) (messages_in ws db) of
        None \<Rightarrow> Inr None
      | Some r \<Rightarrow> and_then (map_message r) (\<lambda>(_, x). Inr (Some x)))"

definition session_messages :: "WorkspaceId \<Rightarrow> session_db \<Rightarrow> SessionId \<Rightarrow> message_row list" where
  "session_messages ws db s = sort_key ms_ordinal (filter (\<lambda>r. msg_session_id (ms_message r) = s) (messages_in ws db))"

text \<open>A bound \<open>u64\<close> above \<open>i64::MAX\<close> is refused by the driver.\<close>

definition messages_after :: "WorkspaceId \<Rightarrow> session_db \<Rightarrow> SessionId \<Rightarrow> u64 \<Rightarrow> nat \<Rightarrow> StateError + (u64 \<times> ConversationMessage) list" where
  "messages_after ws db s ordinal limit =
     (if uint ordinal \<ge> 2 ^ 63 then Inl (Sqlite ''conversion failure'')
      else try_map map_message (take (min limit (2 ^ 63 - 1)) (filter (\<lambda>r. ms_ordinal r > uint ordinal) (session_messages ws db s))))"

definition latest_messages :: "WorkspaceId \<Rightarrow> session_db \<Rightarrow> SessionId \<Rightarrow> nat \<Rightarrow> StateError + (u64 \<times> ConversationMessage) list" where
  "latest_messages ws db s limit =
     and_then (try_map map_message (take (min limit (2 ^ 63 - 1)) (rev (session_messages ws db s)))) (\<lambda>ms. Inr (rev ms))"

definition next_message_ordinal :: "WorkspaceId \<Rightarrow> session_db \<Rightarrow> SessionId \<Rightarrow> int" where
  "next_message_ordinal ws db s =
     fold max (map ms_ordinal (filter (\<lambda>r. msg_session_id (ms_message r) = s) (messages_in ws db))) 0 + 1"

definition insert_message :: "message_row \<Rightarrow> session_db \<Rightarrow> StateError + session_db" where
  "insert_message row db =
     (let ws = ms_workspace row; m = ms_message row in
      if list_ex (\<lambda>r. msg_message_id (ms_message r) = msg_message_id m
             \<or> msg_session_id (ms_message r) = msg_session_id m \<and> ms_ordinal r = ms_ordinal row) (messages_in ws db)
         \<or> \<not> ms_ordinal row > 0 \<or> (ws, msg_session_id m) \<notin> set (session_keys db)
         \<or> (case msg_task_id m of None \<Rightarrow> False | Some t \<Rightarrow> (ws, t) \<notin> set (task_keys db))
      then Inl (Sqlite ''constraint failed'')
      else Inr (db\<lparr>sd_messages := sd_messages db @ [row]\<rparr>))"

definition append_message_in_transaction :: "WorkspaceId \<Rightarrow> ConversationMessage \<Rightarrow> session_db \<Rightarrow> StateError + u64 \<times> session_db" where
  "append_message_in_transaction ws m db =
     (let next = next_message_ordinal ws db (msg_session_id m) in
      if next \<ge> 2 ^ 63 then Inl (Sqlite ''conversion failure'')
      else and_then (insert_message \<lparr> ms_workspace = ws, ms_ordinal = next, ms_message = m \<rparr> db) (\<lambda>db.
        if next < 0 then Inl (InvalidRecord ''message ordinal is negative'') else Inr (word_of_int next, db)))"

definition validate_message :: "ConversationMessage \<Rightarrow> StateError + unit" where
  "validate_message m = map_err (\<lambda>_. InvalidRecord ''invalid message'') (message_validate m)"

definition append_message :: "WorkspaceId \<Rightarrow> ConversationMessage \<Rightarrow> session_db \<Rightarrow> (StateError + u64) \<times> session_db" where
  "append_message ws m = transact (\<lambda>db. and_then (validate_message m) (\<lambda>_. append_message_in_transaction ws m db))"

text \<open>\<open>insert_message\<close> of \<open>graphs.rs\<close>.\<close>

definition insert_graph_message :: "WorkspaceId \<Rightarrow> ConversationMessage \<Rightarrow> session_db \<Rightarrow> StateError + session_db" where
  "insert_graph_message ws m db =
     and_then (validate_message m) (\<lambda>_. and_then (append_message_in_transaction ws m db) (\<lambda>(_, db). Inr db))"

definition check_message_event :: "ConversationMessage \<Rightarrow> TaskEvent \<Rightarrow> StateError + unit" where
  "check_message_event m event =
     (if ev_session_id event \<noteq> Some (msg_session_id m) \<or> ev_task_id event \<noteq> msg_task_id m \<or> ev_event_type event \<noteq> MessageAppended
      then Inl (InvalidRecord ''message event target or type does not match its projection'') else Inr ())"

definition append_message_with_event ::
    "session_env \<Rightarrow> WorkspaceId \<Rightarrow> ConversationMessage \<Rightarrow> TaskEvent \<Rightarrow> session_db \<Rightarrow> (StateError + u64) \<times> session_db" where
  "append_message_with_event env ws m event =
     transact (\<lambda>db.
       and_then (validate_message m) (\<lambda>_.
       and_then (check_message_event m event) (\<lambda>_.
       and_then (append_message_in_transaction ws m db) (\<lambda>(ordinal, db).
       and_then (append_event_in_transaction env ws event db) (\<lambda>db. Inr (ordinal, db))))))"

text \<open>\<open>payload[key] = value\<close>: it panics on a value that is neither an object nor null.\<close>

fun set_member :: "string \<Rightarrow> json \<Rightarrow> json \<Rightarrow> json option" where
  "set_member k v (JObject es) =
     Some (JObject (if list_ex (\<lambda>(k', _). k' = k) es then map (\<lambda>(k', v'). (k', if k' = k then v else v')) es else es @ [(k, v)]))"
| "set_member k v JNull = Some (JObject [(k, v)])"
| "set_member k v other = None"

definition name_instruction :: "session_env \<Rightarrow> StoredTaskInstruction option \<Rightarrow> TaskEvent \<Rightarrow> TaskEvent option" where
  "name_instruction env instruction event =
     (case instruction of
        None \<Rightarrow> Some event
      | Some i \<Rightarrow>
          Option.bind (set_member ''instruction_id'' (JString (id_text env (ins_instruction_id i))) (ev_payload event)) (\<lambda>payload.
          Option.bind (set_member ''instruction_ordinal'' (u64_value env (ins_ordinal i)) payload) (\<lambda>payload.
            Some (event\<lparr>ev_payload := payload\<rparr>))))"

definition queue_message_instruction ::
    "WorkspaceId \<Rightarrow> InstructionId \<Rightarrow> ConversationMessage \<Rightarrow> session_db \<Rightarrow> StateError + StoredTaskInstruction option \<times> session_db" where
  "queue_message_instruction ws fresh m db =
     (case msg_task_id m of
        None \<Rightarrow> Inr (None, db)
      | Some t \<Rightarrow>
          and_then (queue_instruction_in_transaction ws fresh (msg_session_id m) t (msg_message_id m) (msg_content_redacted m)
              (msg_created_at m) (instruction_view db)) (\<lambda>(i, view).
            Inr (Some i, db\<lparr>sd_instructions := id_instructions view\<rparr>)))"

text \<open>\<open>append_message_with_event_and_instruction\<close>; a panic (\<open>None\<close>) rolls the transaction back.\<close>

definition append_message_with_event_and_instruction ::
    "session_env \<Rightarrow> WorkspaceId \<Rightarrow> InstructionId \<Rightarrow> ConversationMessage \<Rightarrow> TaskEvent \<Rightarrow> session_db
     \<Rightarrow> ((StateError + u64 \<times> StoredTaskInstruction option) \<times> session_db) option" where
  "append_message_with_event_and_instruction env ws fresh m event db =
     (case and_then (validate_message m) (\<lambda>_.
           and_then (check_message_event m event) (\<lambda>_.
           and_then (append_message_in_transaction ws m db) (\<lambda>(ordinal, db).
           and_then (queue_message_instruction ws fresh m db) (\<lambda>(instruction, db).
             case name_instruction env instruction event of
               None \<Rightarrow> Inr None
             | Some event \<Rightarrow>
                 and_then (append_event_in_transaction env ws event db) (\<lambda>db. Inr (Some ((ordinal, instruction), db))))))) of
        Inl e \<Rightarrow> Some (Inl e, db)
      | Inr None \<Rightarrow> None
      | Inr (Some (r, db')) \<Rightarrow> Some (Inr r, db'))"

text \<open>A revision of the graph is superseded when it is the head of its session and in one of the given states. A user message
  withdraws the candidate of a session that has not started tasks.\<close>

definition supersede_head :: "string set \<Rightarrow> DateTime \<Rightarrow> WorkspaceId \<Rightarrow> SessionId \<Rightarrow> schedule_db \<Rightarrow> schedule_db" where
  "supersede_head states t ws s g =
     (case find (\<lambda>h. gh_session_id h = s) (rows_of gh_workspace ws (db_graph_heads g)) of
        None \<Rightarrow> g
      | Some h \<Rightarrow> g\<lparr>db_graph_revisions :=
          update_rows (\<lambda>r. gr_workspace r = ws \<and> gr_revision_id r = gh_revision_id h \<and> gr_status r \<in> states)
            (\<lambda>r. r\<lparr>gr_status := ''superseded'', gr_completed_at := (case gr_completed_at r of None \<Rightarrow> Some t | c \<Rightarrow> c)\<rparr>)
            (db_graph_revisions g)\<rparr>)"

definition supersede_candidate :: "DateTime \<Rightarrow> WorkspaceId \<Rightarrow> SessionId \<Rightarrow> schedule_db \<Rightarrow> schedule_db" where
  "supersede_candidate = supersede_head {''planning'', ''awaiting_approval''}"

definition invalidate_pre_task_candidate_in_transaction ::
    "session_env \<Rightarrow> WorkspaceId \<Rightarrow> EventId \<Rightarrow> SessionId \<Rightarrow> DateTime \<Rightarrow> EventId \<Rightarrow> CorrelationId \<Rightarrow> session_db \<Rightarrow> StateError + session_db" where
  "invalidate_pre_task_candidate_in_transaction env ws fresh s changed_at causation correlation db =
     and_then (session_by_id ws db s) (\<lambda>found.
     and_then (ok_or (InvalidRecord ''session does not exist'') found) (\<lambda>current.
       if ss_state current \<notin> {Planning, Validating, AwaitingApproval, NeedsAttention} then Inr db
       else
         and_then (update_sessions
             (\<lambda>r. sn_workspace r = ws \<and> sn_session_id r = s \<and> sn_revision r = uint (ss_revision current)) (set_state Drafting changed_at)
             (db\<lparr>sd_graphs := supersede_candidate changed_at ws s (sd_graphs db)\<rparr>)) (\<lambda>(changed, db).
           if changed \<noteq> 1 then Inl (OptimisticConflict ''session'' s)
           else append_event_in_transaction env ws
             (session_event fresh s changed_at ''new user message invalidated the pre-task approval candidate'' Actor_User correlation
               (Some causation) (JObject [(''from_session_state'', JString (session_state_text (ss_state current))),
                                          (''to_session_state'', JString (session_state_text Drafting))])) db)))"

definition append_session_message_and_queue_conversation ::
    "session_env \<Rightarrow> WorkspaceId \<Rightarrow> EventId \<Rightarrow> ConversationMessage \<Rightarrow> TaskEvent \<Rightarrow> ClientCommandId \<Rightarrow> ClientCommand \<Rightarrow> session_db
     \<Rightarrow> (StateError + u64) \<times> session_db" where
  "append_session_message_and_queue_conversation env ws fresh m event source_command_id c =
     transact (\<lambda>db.
       and_then (validate_message m) (\<lambda>_.
       and_then (map_err (\<lambda>_. InvalidRecord ''invalid client command'') (client_command_validate c)) (\<lambda>_.
         if msg_task_id m \<noteq> None \<or> command_task_id c \<noteq> None \<or> command_session_id c \<noteq> Some (msg_session_id m)
            \<or> command_action c \<noteq> RequestConversationTurn \<or> command_state c \<noteq> Command_Pending
            \<or> ev_session_id event \<noteq> Some (msg_session_id m) \<or> ev_task_id event \<noteq> None \<or> ev_event_type event \<noteq> MessageAppended
         then Inl (InvalidRecord ''session message conversation follow-up has mismatched authority'')
         else
           and_then (append_message_in_transaction ws m db) (\<lambda>(ordinal, db).
           and_then (queue_follow_up ws source_command_id c (command_view db)) (\<lambda>commands.
           and_then (append_event_in_transaction env ws event
               (db\<lparr>sd_commands := cd_commands commands, sd_invocations := cd_invocations commands\<rparr>)) (\<lambda>db.
           and_then (invalidate_pre_task_candidate_in_transaction env ws fresh (msg_session_id m) (msg_created_at m)
               (ev_event_id event) (ev_correlation_id event) db) (\<lambda>db. Inr (ordinal, db))))))))"

definition finalize_message ::
    "WorkspaceId \<Rightarrow> SessionId \<Rightarrow> MessageId \<Rightarrow> MessageState \<Rightarrow> string \<Rightarrow> DateTime \<Rightarrow> session_db
     \<Rightarrow> (StateError + ConversationMessage) \<times> session_db" where
  "finalize_message ws s i state content finalized_at =
     transact (\<lambda>db.
       if state = Streaming then Inl (InvalidRecord ''message final state cannot be streaming'')
       else
         and_then (message_by_id ws db s i) (\<lambda>found.
         and_then (ok_or (InvalidRecord ''message does not belong to session'') found) (\<lambda>(_, message).
           if msg_state message \<noteq> Streaming then Inl (OptimisticConflict ''message'' i)
           else
             let f = (\<lambda>m. m\<lparr>msg_state := state, msg_content_redacted := content, msg_finalized_at := Some finalized_at\<rparr>);
                 p = (\<lambda>r. ms_workspace r = ws \<and> msg_session_id (ms_message r) = s \<and> msg_message_id (ms_message r) = i
                          \<and> msg_state (ms_message r) = Streaming)
             in and_then (validate_message (f message)) (\<lambda>_.
                  if matching p (sd_messages db) \<noteq> 1 then Inl (OptimisticConflict ''message'' i)
                  else Inr (f message, db\<lparr>sd_messages := update_rows p (\<lambda>r. r\<lparr>ms_message := f (ms_message r)\<rparr>) (sd_messages db)\<rparr>)))))"

section \<open>Rows over time\<close>

text \<open>The moves of a stored session: those of the session machine, and the withdrawal of a candidate while it is planned.\<close>

definition session_move :: "SessionState \<Rightarrow> SessionState \<Rightarrow> bool" where
  "session_move s n \<longleftrightarrow> session_validate_transition s n = Inr () \<or> (s = Planning \<and> n = Drafting)"

definition same_session :: "session_row \<Rightarrow> session_row \<Rightarrow> bool" where
  "same_session r r' \<longleftrightarrow> sn_workspace r' = sn_workspace r \<and> sn_session_id r' = sn_session_id r
   \<and> sn_schema_version r' = sn_schema_version r \<and> sn_title r' = sn_title r \<and> sn_created_at r' = sn_created_at r
   \<and> sn_archived_at r' = sn_archived_at r"

definition session_evolves :: "session_row \<Rightarrow> session_row \<Rightarrow> bool" where
  "session_evolves r r' \<longleftrightarrow> same_session r r' \<and> sn_revision r \<le> sn_revision r' \<and> (sn_revision r' = sn_revision r \<longrightarrow> r' = r)
   \<and> session_move\<^sup>*\<^sup>* (row_state r) (row_state r') \<and> (session_is_terminal (row_state r) \<longrightarrow> r' = r)"

definition same_message :: "message_row \<Rightarrow> message_row \<Rightarrow> bool" where
  "same_message r r' \<longleftrightarrow> ms_workspace r' = ms_workspace r \<and> ms_ordinal r' = ms_ordinal r
   \<and> msg_message_id (ms_message r') = msg_message_id (ms_message r) \<and> msg_session_id (ms_message r') = msg_session_id (ms_message r)
   \<and> msg_task_id (ms_message r') = msg_task_id (ms_message r) \<and> msg_role (ms_message r') = msg_role (ms_message r)
   \<and> msg_kind (ms_message r') = msg_kind (ms_message r) \<and> msg_created_at (ms_message r') = msg_created_at (ms_message r)"

definition message_evolves :: "message_row \<Rightarrow> message_row \<Rightarrow> bool" where
  "message_evolves r r' \<longleftrightarrow> same_message r r' \<and> (msg_state (ms_message r) \<noteq> Streaming \<longrightarrow> r' = r)"

lemma session_evolves_refl: "session_evolves r r"
  by (simp add: session_evolves_def same_session_def)

lemma session_evolves_trans: "session_evolves r s \<Longrightarrow> session_evolves s t \<Longrightarrow> session_evolves r t"
  unfolding session_evolves_def same_session_def by auto

lemma message_evolves_refl: "message_evolves r r"
  by (simp add: message_evolves_def same_message_def)

lemma message_evolves_trans: "message_evolves r s \<Longrightarrow> message_evolves s t \<Longrightarrow> message_evolves r t"
  unfolding message_evolves_def same_message_def by auto

lemma session_move_distinct: "session_move s n \<Longrightarrow> s \<noteq> n \<and> \<not> session_is_terminal s"
  by (cases s) (auto simp: session_move_def session_validate_transition_def session_is_terminal_def split: if_splits)

definition of_session :: "WorkspaceId \<Rightarrow> SessionId \<Rightarrow> message_row \<Rightarrow> bool" where
  "of_session ws s r \<longleftrightarrow> ms_workspace r = ws \<and> msg_session_id (ms_message r) = s"

definition session_inv :: "session_db \<Rightarrow> bool" where
  "session_inv db \<longleftrightarrow>
     (\<forall>r \<in> set (sd_sessions db). session_check r)
   \<and> distinct (map (\<lambda>r. (sn_workspace r, sn_session_id r)) (sd_sessions db))
   \<and> (\<forall>r \<in> set (sd_messages db). message_validate (ms_message r) = Inr () \<and> ms_ordinal r < 2 ^ 63)
   \<and> distinct (map (\<lambda>r. (ms_workspace r, msg_message_id (ms_message r))) (sd_messages db))
   \<and> (\<forall>ws s. map ms_ordinal (filter (of_session ws s) (sd_messages db)) = [1..int (length (filter (of_session ws s) (sd_messages db)))])"

lemma session_invD:
  assumes "session_inv db"
  shows "r \<in> set (sd_sessions db) \<Longrightarrow> session_check r"
    and "distinct (map (\<lambda>r. (sn_workspace r, sn_session_id r)) (sd_sessions db))"
    and "m \<in> set (sd_messages db) \<Longrightarrow> message_validate (ms_message m) = Inr () \<and> ms_ordinal m < 2 ^ 63"
    and "distinct (map (\<lambda>r. (ms_workspace r, msg_message_id (ms_message r))) (sd_messages db))"
    and "map ms_ordinal (filter (of_session ws s) (sd_messages db)) = [1..int (length (filter (of_session ws s) (sd_messages db)))]"
  using assms unfolding session_inv_def by blast+

text \<open>The writes of the operations.\<close>

inductive session_write :: "session_db \<Rightarrow> session_db \<Rightarrow> bool" where
  write_session: "insert_session row db = Inr db' \<Longrightarrow> session_write db db'"
| write_state: "update_sessions p (set_state next t) db = Inr (n, db') \<Longrightarrow>
    (\<And>r. r \<in> set (sd_sessions db) \<Longrightarrow> p r \<Longrightarrow> session_move (row_state r) next) \<Longrightarrow> session_write db db'"
| write_message: "append_message_in_transaction ws m db = Inr (o', db') \<Longrightarrow> message_validate m = Inr () \<Longrightarrow> session_write db db'"
| write_final: "(\<And>r. r \<in> set (sd_messages db) \<Longrightarrow> p r \<Longrightarrow> msg_state (ms_message r) = Streaming
      \<and> same_message r (f r) \<and> message_validate (ms_message (f r)) = Inr ()) \<Longrightarrow>
    session_write db (db\<lparr>sd_messages := update_rows p f (sd_messages db)\<rparr>)"
| write_aside: "sd_sessions db' = sd_sessions db \<Longrightarrow> sd_messages db' = sd_messages db \<Longrightarrow> session_write db db'"

lemma insert_session_Inr:
  assumes "insert_session row db = Inr db'"
  shows "db' = db\<lparr>sd_sessions := sd_sessions db @ [row]\<rparr>" and "session_check row"
    and "(sn_workspace row, sn_session_id row) \<notin> (\<lambda>r. (sn_workspace r, sn_session_id r)) ` set (sd_sessions db)"
  using assms unfolding insert_session_def by (auto simp: list_ex_iff sessions_in_def split: if_split_asm)

lemma update_sessions_Inr:
  assumes "update_sessions p f db = Inr (n, db')"
  shows "db' = db\<lparr>sd_sessions := update_rows p (\<lambda>r. legacy_state_sync r (f r)) (sd_sessions db)\<rparr>"
    and "n = matching p (sd_sessions db)" and "\<And>r. r \<in> set (sd_sessions db) \<Longrightarrow> p r \<Longrightarrow> session_check (f r)"
  using assms unfolding update_sessions_def by (auto simp: list_ex_iff split: if_split_asm)

lemma set_state_moved:
  assumes "row_state r \<noteq> next"
  shows "row_state (legacy_state_sync r (set_state next t r)) = next" "sn_revision (legacy_state_sync r (set_state next t r)) = sn_revision r + 1"
    "same_session r (legacy_state_sync r (set_state next t r))"
    "session_check (set_state next t r) \<Longrightarrow> session_check (legacy_state_sync r (set_state next t r))"
  using assms by (auto simp: row_state_def legacy_state_sync_def set_state_def same_session_def session_check_def split: option.splits)

lemma set_state_evolves: "session_move (row_state r) next \<Longrightarrow> session_evolves r (legacy_state_sync r (set_state next t r))"
  using set_state_moved [of r "next" t] session_move_distinct [of "row_state r" "next"] by (auto simp: session_evolves_def)

lemma fold_max_upto: "fold max [1..int n] 0 = int n"
proof (induction n)
  case (Suc n)
  have "[1..int (Suc n)] = [1..int n] @ [int (Suc n)]" using upto_rec2 [of 1 "int (Suc n)"] by simp
  then show ?case using Suc by simp
qed simp

lemma next_ordinal_dense:
  assumes "session_inv db"
  shows "next_message_ordinal ws db s = int (length (filter (of_session ws s) (sd_messages db))) + 1"
proof -
  have "filter (\<lambda>r. msg_session_id (ms_message r) = s) (messages_in ws db) = filter (of_session ws s) (sd_messages db)"
    unfolding messages_in_def rows_of_def filter_filter by (rule filter_cong) (auto simp: of_session_def)
  then show ?thesis unfolding next_message_ordinal_def using session_invD(5) [OF assms] fold_max_upto by simp
qed

lemma append_message_Inr:
  assumes "append_message_in_transaction ws m db = Inr (o', db')"
  defines "next \<equiv> next_message_ordinal ws db (msg_session_id m)"
  shows "db' = db\<lparr>sd_messages := sd_messages db @ [\<lparr> ms_workspace = ws, ms_ordinal = next, ms_message = m \<rparr>]\<rparr>"
    and "next < 2 ^ 63" "o' = word_of_int next"
    and "(ws, msg_message_id m) \<notin> (\<lambda>r. (ms_workspace r, msg_message_id (ms_message r))) ` set (sd_messages db)"
  using assms(1) unfolding append_message_in_transaction_def insert_message_def Let_def next_def [symmetric]
  by (auto simp: and_then_eq_Inr list_ex_iff messages_in_def split: if_split_asm)

lemma session_write_inv: "session_write db db' \<Longrightarrow> session_inv db \<Longrightarrow> session_inv db'"
proof (induction rule: session_write.induct)
  case (write_session row db db')
  note i = insert_session_Inr [OF write_session(1)]
  show ?case using write_session.prems i(2,3) unfolding session_inv_def i(1) by auto
next
  case (write_state p "next" t db n db')
  note u = update_sessions_Inr [OF write_state(1)]
  have moved: "row_state r \<noteq> next" if "r \<in> set (sd_sessions db)" "p r" for r
    using write_state(2) [OF that] session_move_distinct by blast
  have "\<forall>r \<in> set (update_rows p (\<lambda>r. legacy_state_sync r (set_state next t r)) (sd_sessions db)). session_check r"
    using session_invD(1) [OF write_state.prems] u(3) set_state_moved(4) moved unfolding update_rows_def by auto
  moreover have "map (\<lambda>r. (sn_workspace r, sn_session_id r)) (update_rows p (\<lambda>r. legacy_state_sync r (set_state next t r)) (sd_sessions db))
      = map (\<lambda>r. (sn_workspace r, sn_session_id r)) (sd_sessions db)"
    by (rule map_update_rows) (simp add: legacy_state_sync_def set_state_def)
  ultimately show ?case using write_state.prems unfolding session_inv_def u(1) by simp
next
  case (write_message ws m db o' db')
  note a = append_message_Inr [OF write_message(1)]
  note n = next_ordinal_dense [OF write_message.prems, of ws "msg_session_id m"]
  have "map ms_ordinal (filter (of_session w s) (sd_messages db')) = [1..int (length (filter (of_session w s) (sd_messages db')))]" for w s
  proof (cases "w = ws \<and> s = msg_session_id m")
    case True
    then show ?thesis using session_invD(5) [OF write_message.prems, of w s] n
      upto_rec2 [of 1 "int (length (filter (of_session w s) (sd_messages db))) + 1"] unfolding a(1)
      by (simp add: of_session_def add.commute)
  next
    case False
    then have "filter (of_session w s) (sd_messages db') = filter (of_session w s) (sd_messages db)"
      unfolding a(1) by (auto simp: of_session_def)
    then show ?thesis using session_invD(5) [OF write_message.prems, of w s] by simp
  qed
  then show ?case using write_message.prems write_message(2) a(2,4) unfolding session_inv_def by (auto simp: a(1))
next
  case (write_final db p f)
  let ?rows = "update_rows p f (sd_messages db)"
  have same: "same_message r (f r)" if "r \<in> set (sd_messages db)" "p r" for r using write_final(1) [OF that] by blast
  have keep: "map k ?rows = map k (sd_messages db)" if "\<And>r r'. same_message r r' \<Longrightarrow> k r' = k r" for k :: "message_row \<Rightarrow> 'k"
    using same that by (intro map_update_rows_cond) blast
  have sess: "map ms_ordinal (filter (of_session w s) ?rows) = map ms_ordinal (filter (of_session w s) (sd_messages db))" for w s
  proof -
    have "map (\<lambda>r. (of_session w s r, ms_ordinal r)) ?rows = map (\<lambda>r. (of_session w s r, ms_ordinal r)) (sd_messages db)"
      by (rule keep) (simp add: same_message_def of_session_def)
    then have "map snd (filter fst (map (\<lambda>r. (of_session w s r, ms_ordinal r)) ?rows))
      = map snd (filter fst (map (\<lambda>r. (of_session w s r, ms_ordinal r)) (sd_messages db)))" by simp
    then show ?thesis by (simp add: filter_map comp_def)
  qed
  have len: "length (filter (of_session w s) ?rows) = length (filter (of_session w s) (sd_messages db))" for w s
    using arg_cong [OF sess, of length w s] by simp
  have keys: "map (\<lambda>r. (ms_workspace r, msg_message_id (ms_message r))) ?rows
      = map (\<lambda>r. (ms_workspace r, msg_message_id (ms_message r))) (sd_messages db)"
    by (rule keep) (simp add: same_message_def)
  have "\<forall>r \<in> set ?rows. message_validate (ms_message r) = Inr () \<and> ms_ordinal r < 2 ^ 63"
    using session_invD(3) [OF write_final.prems] write_final(1) unfolding update_rows_def by (auto simp: same_message_def)
  then show ?case using write_final.prems unfolding session_inv_def by (simp add: sess len keys)
next
  case (write_aside db' db)
  then show ?case by (simp add: session_inv_def)
qed

lemma appended_rows:
  assumes "rows' = rows @ new" and "\<And>r. R r r"
  shows "\<exists>old new. rows' = old @ new \<and> list_all2 R rows old"
  using assms by (intro exI [of _ rows] exI [of _ new]) (simp add: list.rel_refl)

lemma updated_rows: "list_all2 R rows rows' \<Longrightarrow> \<exists>old new. rows' = old @ new \<and> list_all2 R rows old"
  by (intro exI [of _ rows'] exI [of _ "[]"]) simp

lemma session_write_sessions:
  "session_write db db' \<Longrightarrow> \<exists>old new. sd_sessions db' = old @ new \<and> list_all2 session_evolves (sd_sessions db) old"
proof (induction rule: session_write.induct)
  case (write_session row db db')
  show ?case by (rule appended_rows [where R = session_evolves and new = "[row]"]) (simp_all add: session_evolves_refl insert_session_Inr(1) [OF write_session(1)])
next
  case (write_state p "next" t db n db')
  have "list_all2 session_evolves (sd_sessions db) (update_rows p (\<lambda>r. legacy_state_sync r (set_state next t r)) (sd_sessions db))"
    by (rule list_all2_update_rows) (use write_state(2) set_state_evolves session_evolves_refl in blast)+
  then show ?case by (intro updated_rows) (simp add: update_sessions_Inr(1) [OF write_state(1)])
next
  case (write_message ws m db o' db')
  show ?case by (rule appended_rows [where R = session_evolves and new = "[]"]) (simp_all add: session_evolves_refl append_message_Inr(1) [OF write_message(1)])
next
  case (write_final db p f)
  show ?case by (rule appended_rows [where R = session_evolves and new = "[]"]) (simp_all add: session_evolves_refl)
next
  case (write_aside db' db)
  then show ?case by (intro appended_rows [where R = session_evolves and new = "[]"]) (simp_all add: session_evolves_refl)
qed

lemma session_write_messages:
  "session_write db db' \<Longrightarrow> \<exists>old new. sd_messages db' = old @ new \<and> list_all2 message_evolves (sd_messages db) old"
proof (induction rule: session_write.induct)
  case (write_session row db db')
  show ?case by (rule appended_rows [where R = message_evolves and new = "[]"]) (simp_all add: message_evolves_refl insert_session_Inr(1) [OF write_session(1)])
next
  case (write_state p "next" t db n db')
  show ?case by (rule appended_rows [where R = message_evolves and new = "[]"]) (simp_all add: message_evolves_refl update_sessions_Inr(1) [OF write_state(1)])
next
  case (write_message ws m db o' db')
  show ?case by (rule appended_rows [where R = message_evolves]) (simp_all add: message_evolves_refl append_message_Inr(1) [OF write_message(1)])
next
  case (write_final db p f)
  have "list_all2 message_evolves (sd_messages db) (update_rows p f (sd_messages db))"
    by (rule list_all2_update_rows) (use write_final message_evolves_refl in \<open>auto simp: message_evolves_def\<close>)
  then show ?case by (intro updated_rows) simp
qed (rule appended_rows [where R = message_evolves and new = "[]"], simp_all add: message_evolves_refl)

interpretation session_rows: growing_table session_write sd_sessions session_evolves session_inv
  using session_write_sessions session_write_inv session_evolves_refl session_evolves_trans by unfold_locales blast+

interpretation message_rows: growing_table session_write sd_messages message_evolves session_inv
  using session_write_messages session_write_inv message_evolves_refl message_evolves_trans by unfold_locales blast+

section \<open>All operations together\<close>

inductive session_step :: "session_db \<Rightarrow> session_db \<Rightarrow> bool" where
  create: "create_session_with_event env ws new event db = (r, db') \<Longrightarrow> session_step db db'"
| transition: "transition_session_with_event env ws s revision next t event db = (r, db') \<Longrightarrow> session_step db db'"
| reconcile: "transition_session_in_transaction env ws fresh correlation s from_state to_state t batch db = Inr db' \<Longrightarrow> session_step db db'"
| append: "append_message ws m db = (n, db') \<Longrightarrow> session_step db db'"
| append_event: "append_message_with_event env ws m event db = (n, db') \<Longrightarrow> session_step db db'"
| append_instruction: "append_message_with_event_and_instruction env ws fresh m event db = Some (i, db') \<Longrightarrow> session_step db db'"
| append_conversation: "append_session_message_and_queue_conversation env ws fresh m event source c db = (n, db') \<Longrightarrow> session_step db db'"
| announce: "insert_graph_message ws m db = Inr db' \<Longrightarrow> session_step db db'"
| finalize: "finalize_message ws s i state content t db = (x, db') \<Longrightarrow> session_step db db'"
| elsewhere: "sd_sessions db' = sd_sessions db \<Longrightarrow> sd_messages db' = sd_messages db \<Longrightarrow> session_step db db'"

lemma append_event_aside: "append_event_in_transaction env ws event db = Inr db' \<Longrightarrow> session_write db db'"
  by (rule write_aside) (auto simp: append_event_in_transaction_def and_then_eq_Inr)

lemma session_by_id_Some:
  assumes "session_by_id ws db s = Inr (Some c)"
  obtains r where "r \<in> set (sd_sessions db)" "sn_workspace r = ws" "sn_session_id r = s" "ss_state c = row_state r"
    "0 \<le> sn_revision r" "ss_revision c = word_of_int (sn_revision r)"
  using assms unfolding session_by_id_def map_session_def sessions_in_def
  by (auto simp: and_then_eq_Inr split: option.splits if_split_asm dest!: find_in_set)

lemma session_row_unique:
  assumes "session_inv db" "r \<in> set (sd_sessions db)" "r' \<in> set (sd_sessions db)"
    "sn_workspace r' = sn_workspace r" "sn_session_id r' = sn_session_id r"
  shows "r' = r"
  using assms session_invD(2) [OF assms(1)] unfolding distinct_map inj_on_def by blast

text \<open>An update guarded by the revision that was read changes the row that was read.\<close>

lemma guarded_update_writes:
  assumes "session_inv db" "session_by_id ws db s = Inr (Some c)" "session_move (ss_state c) next"
    "update_sessions (\<lambda>r. sn_workspace r = ws \<and> sn_session_id r = s \<and> sn_revision r = v) (set_state next t) db = Inr (n, db')"
  shows "session_write db db'"
proof -
  obtain r where "r \<in> set (sd_sessions db)" "sn_workspace r = ws" "sn_session_id r = s" "ss_state c = row_state r"
    using session_by_id_Some [OF assms(2)] by metis
  then show ?thesis using session_row_unique [OF assms(1)] assms(3) by (intro write_state [OF assms(4)]) metis
qed

lemma invalidate_writes:
  assumes "session_inv db" "invalidate_pre_task_candidate_in_transaction env ws fresh s t causation correlation db = Inr db'"
  shows "session_write\<^sup>*\<^sup>* db db'"
proof -
  obtain c where c: "session_by_id ws db s = Inr (Some c)"
    using assms(2) unfolding invalidate_pre_task_candidate_in_transaction_def by (auto simp: and_then_eq_Inr ok_or_eq_Inr)
  show ?thesis
  proof (cases "ss_state c \<in> {Planning, Validating, AwaitingApproval, NeedsAttention}")
    case False
    then show ?thesis using assms(2) c unfolding invalidate_pre_task_candidate_in_transaction_def by (auto simp: and_then_eq_Inr ok_or_eq_Inr)
  next
    case True
    let ?db = "db\<lparr>sd_graphs := supersede_candidate t ws s (sd_graphs db)\<rparr>"
    obtain n db1 where u: "update_sessions (\<lambda>r. sn_workspace r = ws \<and> sn_session_id r = s \<and> sn_revision r = uint (ss_revision c))
        (set_state Drafting t) ?db = Inr (n, db1)" and e: "\<exists>event. append_event_in_transaction env ws event db1 = Inr db'"
      using assms(2) c True unfolding invalidate_pre_task_candidate_in_transaction_def
      by (auto simp: and_then_eq_Inr ok_or_eq_Inr split: if_split_asm)
    have "session_inv ?db" "session_by_id ws ?db s = Inr (Some c)"
      using assms(1) c by (simp_all add: session_inv_def session_by_id_def sessions_in_def)
    moreover have "session_move (ss_state c) Drafting" using True by (auto simp: session_move_def session_validate_transition_def)
    ultimately have "session_write ?db db1" using u by (rule guarded_update_writes)
    moreover have "session_write db ?db" by (rule write_aside) simp_all
    moreover have "session_write db1 db'" using e append_event_aside by blast
    ultimately show ?thesis by (meson converse_rtranclp_into_rtranclp rtranclp.rtrancl_refl)
  qed
qed

text \<open>Each operation is a sequence of writes.\<close>

lemma two_writes: "session_write a b \<Longrightarrow> session_write b c \<Longrightarrow> session_write\<^sup>*\<^sup>* a c"
  by (meson converse_rtranclp_into_rtranclp rtranclp.rtrancl_refl)

lemma create_writes: "create_session_with_event env ws new event db = (r, db') \<Longrightarrow> session_write\<^sup>*\<^sup>* db db'"
  unfolding create_session_with_event_def
  by (elim transact_cases) (auto simp: and_then_eq_Inr intro!: two_writes elim!: write_session append_event_aside)

lemma transition_cases:
  assumes "transition_session_with_event env ws s revision next t event db = (Inr stored, db')"
  obtains c n db1 where "session_by_id ws db s = Inr (Some c)" "ss_revision c = revision" "session_validate_transition (ss_state c) next = Inr ()"
    "update_sessions (\<lambda>r. sn_workspace r = ws \<and> sn_session_id r = s \<and> sn_revision r = uint revision) (set_state next t) db = Inr (n, db1)"
    "n = 1" "append_event_in_transaction env ws event db1 = Inr db'"
  using assms unfolding transition_session_with_event_def transact_def
  by (auto simp: and_then_eq_Inr ok_or_eq_Inr map_err_eq_Inr split: sum.splits if_split_asm)

lemma session_transition_writes:
  assumes "session_inv db" "transition_session_with_event env ws s revision next t event db = (r, db')"
  shows "session_write\<^sup>*\<^sup>* db db'"
proof (cases r)
  case (Inl e)
  then have "db' = db" using assms(2) unfolding transition_session_with_event_def transact_def by (auto split: sum.splits)
  then show ?thesis by simp
next
  case (Inr stored)
  from assms(2) [unfolded Inr] show ?thesis
  proof (cases rule: transition_cases)
    case (1 c n db1)
    have "session_move (ss_state c) next" using 1(3) by (simp add: session_move_def)
    from guarded_update_writes [OF assms(1) 1(1) this 1(4)] append_event_aside [OF 1(6)] show ?thesis by (rule two_writes)
  qed
qed

lemma reconcile_writes:
  assumes "transition_session_in_transaction env ws fresh correlation s from_state to_state t batch db = Inr db'"
  shows "session_write\<^sup>*\<^sup>* db db'"
  using assms unfolding transition_session_in_transaction_def
  by (auto simp: and_then_eq_Inr map_err_eq_Inr session_move_def split: if_split_asm intro!: two_writes
      elim!: append_event_aside write_state)

lemma append_writes:
  "append_message ws m db = (n, db') \<Longrightarrow> session_write\<^sup>*\<^sup>* db db'"
  "append_message_with_event env ws m event db = (n, db') \<Longrightarrow> session_write\<^sup>*\<^sup>* db db'"
proof -
  show "session_write\<^sup>*\<^sup>* db db'" if "append_message ws m db = (n, db')"
    using that unfolding append_message_def
    by (elim transact_cases) (auto simp: and_then_eq_Inr validate_message_def map_err_eq_Inr intro!: r_into_rtranclp elim!: write_message)
  show "session_write\<^sup>*\<^sup>* db db'" if "append_message_with_event env ws m event db = (n, db')"
    using that unfolding append_message_with_event_def
    by (elim transact_cases) (auto simp: and_then_eq_Inr validate_message_def map_err_eq_Inr intro!: two_writes
        elim!: write_message append_event_aside)
qed

lemma announce_writes: "insert_graph_message ws m db = Inr db' \<Longrightarrow> session_write db db'"
  unfolding insert_graph_message_def
  by (auto simp: and_then_eq_Inr validate_message_def map_err_eq_Inr elim!: write_message)

lemma queue_instruction_aside: "queue_message_instruction ws fresh m db = Inr (i, db') \<Longrightarrow> session_write db db'"
  unfolding queue_message_instruction_def by (rule write_aside) (auto simp: and_then_eq_Inr split: option.splits)

lemma instruction_cases:
  assumes "append_message_with_event_and_instruction env ws fresh m event db = Some (r, db')"
  obtains "db' = db" | o' db1 i db2 event' where "message_validate m = Inr ()" "append_message_in_transaction ws m db = Inr (o', db1)"
    "queue_message_instruction ws fresh m db1 = Inr (i, db2)" "append_event_in_transaction env ws event' db2 = Inr db'"
  using assms unfolding append_message_with_event_and_instruction_def
  by (auto simp: and_then_eq_Inr validate_message_def map_err_eq_Inr split: sum.splits option.splits)

lemma instruction_writes:
  assumes "append_message_with_event_and_instruction env ws fresh m event db = Some (r, db')"
  shows "session_write\<^sup>*\<^sup>* db db'"
  using assms
proof (cases rule: instruction_cases)
  case (2 o' db1 i db2 event')
  from write_message [OF 2(2,1)] queue_instruction_aside [OF 2(3)] have "session_write\<^sup>*\<^sup>* db db2" by (rule two_writes)
  then show ?thesis using append_event_aside [OF 2(4)] by (rule rtranclp.rtrancl_into_rtrancl)
qed simp

lemma conversation_cases:
  assumes "append_session_message_and_queue_conversation env ws fresh m event source c db = (r, db')"
  obtains "db' = db" | o' db1 xs ys db2 where "message_validate m = Inr ()" "append_message_in_transaction ws m db = Inr (o', db1)"
    "append_event_in_transaction env ws event (db1\<lparr>sd_commands := xs, sd_invocations := ys\<rparr>) = Inr db2"
    "invalidate_pre_task_candidate_in_transaction env ws fresh (msg_session_id m) (msg_created_at m)
       (ev_event_id event) (ev_correlation_id event) db2 = Inr db'"
  using assms unfolding append_session_message_and_queue_conversation_def
  by (elim transact_cases)
    (auto simp: and_then_eq_Inr validate_message_def map_err_eq_Inr split: if_split_asm option.splits)

lemma conversation_writes:
  assumes "session_inv db" "append_session_message_and_queue_conversation env ws fresh m event source c db = (r, db')"
  shows "session_write\<^sup>*\<^sup>* db db'"
  using assms(2)
proof (cases rule: conversation_cases)
  case (2 o' db1 xs ys db2)
  have "session_write db1 (db1\<lparr>sd_commands := xs, sd_invocations := ys\<rparr>)" by (rule write_aside) simp_all
  with write_message [OF 2(2,1)] have "session_write\<^sup>*\<^sup>* db (db1\<lparr>sd_commands := xs, sd_invocations := ys\<rparr>)"
    by (rule two_writes)
  then have run: "session_write\<^sup>*\<^sup>* db db2" using append_event_aside [OF 2(3)] by (rule rtranclp.rtrancl_into_rtrancl)
  from invalidate_writes [OF session_rows.run_inv [OF run assms(1)] 2(4)] run show ?thesis by (meson rtranclp_trans)
qed simp

lemma message_row_unique:
  assumes "session_inv db" "r \<in> set (sd_messages db)" "r' \<in> set (sd_messages db)"
    "ms_workspace r' = ms_workspace r" "msg_message_id (ms_message r') = msg_message_id (ms_message r)"
  shows "r' = r"
  using assms session_invD(4) [OF assms(1)] unfolding distinct_map inj_on_def by blast

lemma message_by_id_Some:
  assumes "message_by_id ws db s i = Inr (Some (n, m))"
  obtains r where "r \<in> set (sd_messages db)" "ms_workspace r = ws" "msg_message_id m = i" "ms_message r = m"
  using assms unfolding message_by_id_def map_message_def messages_in_def
  by (auto simp: and_then_eq_Inr split: option.splits if_split_asm dest!: find_in_set)

lemma finalize_writes:
  assumes "session_inv db" "finalize_message ws s i state content t db = (r, db')"
  shows "session_write\<^sup>*\<^sup>* db db'"
proof -
  let ?f = "\<lambda>m. m\<lparr>msg_state := state, msg_content_redacted := content, msg_finalized_at := Some t\<rparr>"
  let ?p = "\<lambda>r. ms_workspace r = ws \<and> msg_session_id (ms_message r) = s \<and> msg_message_id (ms_message r) = i
    \<and> msg_state (ms_message r) = Streaming"
  consider "db' = db" | n m where "message_by_id ws db s i = Inr (Some (n, m))" "message_validate (?f m) = Inr ()"
      "db' = db\<lparr>sd_messages := update_rows ?p (\<lambda>r. r\<lparr>ms_message := ?f (ms_message r)\<rparr>) (sd_messages db)\<rparr>"
    using assms(2) unfolding finalize_message_def Let_def
    by (elim transact_cases) (auto simp: and_then_eq_Inr ok_or_eq_Inr validate_message_def map_err_eq_Inr split: if_split_asm)
  then show ?thesis
  proof cases
    case 2
    obtain r0 where r0: "r0 \<in> set (sd_messages db)" "ms_workspace r0 = ws" "msg_message_id m = i" "ms_message r0 = m"
      using message_by_id_Some [OF 2(1)] by metis
    have "ms_message r = m" if "r \<in> set (sd_messages db)" "?p r" for r
      using message_row_unique [OF assms(1) r0(1) that(1)] that(2) r0 by simp
    then have "session_write db (db\<lparr>sd_messages := update_rows ?p (\<lambda>r. r\<lparr>ms_message := ?f (ms_message r)\<rparr>) (sd_messages db)\<rparr>)"
      using 2(2) by (intro write_final) (auto simp: same_message_def)
    then show ?thesis using 2(3) by blast
  qed simp
qed

lemma session_step_writes: "session_step db db' \<Longrightarrow> session_inv db \<Longrightarrow> session_write\<^sup>*\<^sup>* db db'"
  by (erule session_step.cases)
    (auto intro: create_writes session_transition_writes reconcile_writes append_writes announce_writes instruction_writes conversation_writes finalize_writes write_aside)

lemma session_run_writes:
  assumes "session_step\<^sup>*\<^sup>* db db'" "session_inv db"
  shows "session_write\<^sup>*\<^sup>* db db'"
  using assms
proof (induction rule: rtranclp_induct)
  case (step y z)
  then have y: "session_write\<^sup>*\<^sup>* db y" by simp
  from session_step_writes [OF step.hyps(2) session_rows.run_inv [OF y step.prems]] y show ?case by (meson rtranclp_trans)
qed simp

section \<open>Revisions\<close>

lemma session_revision:
  assumes "session_inv db" "session_by_id ws db s = Inr (Some c)" "r \<in> set (sd_sessions db)" "sn_workspace r = ws" "sn_session_id r = s"
  shows "ss_state c = row_state r" "uint (ss_revision c) = sn_revision r"
proof -
  obtain r0 where r0: "r0 \<in> set (sd_sessions db)" "sn_workspace r0 = ws" "sn_session_id r0 = s" "ss_state c = row_state r0"
      "ss_revision c = word_of_int (sn_revision r0)" using session_by_id_Some [OF assms(2)] by metis
  have "r0 = r" using session_row_unique [OF assms(1,3) r0(1)] r0(2,3) assms(4,5) by simp
  moreover have "0 \<le> sn_revision r" "sn_revision r < 2 ^ 64" using session_invD(1) [OF assms(1,3)] by (auto simp: session_check_def)
  ultimately show "ss_state c = row_state r" "uint (ss_revision c) = sn_revision r"
    using r0(4,5) by (simp_all add: uint_word_of_int take_bit_int_eq_self_iff)
qed

text \<open>The row that a guarded update changed.\<close>

lemma guarded_update_row:
  assumes "session_inv db" "session_by_id ws db s = Inr (Some c)" "session_move (ss_state c) next"
    "update_sessions (\<lambda>r. sn_workspace r = ws \<and> sn_session_id r = s \<and> sn_revision r = uint (ss_revision c)) (set_state next t) db = Inr (n, db')"
  shows "\<exists>r \<in> set (sd_sessions db'). sn_workspace r = ws \<and> sn_session_id r = s \<and> row_state r = next
    \<and> sn_revision r = uint (ss_revision c) + 1"
proof -
  obtain r where r: "r \<in> set (sd_sessions db)" "sn_workspace r = ws" "sn_session_id r = s" using session_by_id_Some [OF assms(2)] by metis
  note c = session_revision [OF assms(1,2) r]
  let ?r = "legacy_state_sync r (set_state next t r)"
  have "row_state r \<noteq> next" using assms(3) session_move_distinct c(1) by metis
  note moved = set_state_moved [OF this, of t]
  have "?r \<in> set (sd_sessions db')" using r c(2) unfolding update_sessions_Inr(1) [OF assms(4)] by (auto simp: update_rows_def)
  then show ?thesis using moved(1-3) r(2,3) c(2) by (intro bexI [of _ ?r]) (simp_all add: same_session_def)
qed

lemma transitioned_row:
  assumes "session_inv db" "transition_session_with_event env ws s revision next t event db = (Inr stored, db')"
  shows "\<exists>r \<in> set (sd_sessions db'). sn_workspace r = ws \<and> sn_session_id r = s \<and> row_state r = next \<and> sn_revision r = uint revision + 1"
  using assms(2)
proof (cases rule: transition_cases)
  case (1 c n db1)
  have "session_move (ss_state c) next" using 1(3) by (simp add: session_move_def)
  from guarded_update_row [OF assms(1) 1(1) this 1(4) [folded 1(2)]] 1(2)
  show ?thesis using 1(6) by (auto simp: append_event_in_transaction_def and_then_eq_Inr)
qed

lemma transition_outdated:
  assumes "session_inv db" "r \<in> set (sd_sessions db)" "sn_workspace r = ws" "sn_session_id r = s" "uint revision < sn_revision r"
  shows "\<exists>e. transition_session_with_event env ws s revision next t event db = (Inl e, db)"
proof -
  obtain x db' where x: "transition_session_with_event env ws s revision next t event db = (x, db')" by fastforce
  have "\<not> (\<exists>stored. x = Inr stored)"
  proof
    assume "\<exists>stored. x = Inr stored"
    then obtain stored where "transition_session_with_event env ws s revision next t event db = (Inr stored, db')" using x by blast
    then show False
    proof (cases rule: transition_cases)
      case (1 c n db1)
      then show False using session_revision(2) [OF assms(1) 1(1) assms(2-4)] assms(5) by simp
    qed
  qed
  then show ?thesis using x unfolding transition_session_with_event_def transact_def by (auto split: sum.splits)
qed

section \<open>Reading a conversation\<close>

lemma mapped_upto:
  assumes "map f xs = [a..b]" "r \<in> set xs"
  shows "a \<le> f r"
proof -
  have "f r \<in> set (map f xs)" using assms(2) by simp
  then show ?thesis unfolding assms(1) by simp
qed

lemma filter_after:
  assumes "map f xs = [a..a + int (length xs) - 1]"
  shows "filter (\<lambda>r. f r > a - 1 + int k) xs = drop k xs"
  using assms
proof (induction xs arbitrary: a k)
  case (Cons x xs)
  have up: "[a..a + int (length (x # xs)) - 1] = a # [a + 1..(a + 1) + int (length xs) - 1]"
    by (subst upto_rec1) (simp_all add: algebra_simps)
  then have fx: "f x = a" and rest: "map f xs = [a + 1..(a + 1) + int (length xs) - 1]" using Cons.prems by simp_all
  show ?case
  proof (cases k)
    case 0
    have "\<forall>r \<in> set xs. f r > a - 1" using mapped_upto [OF rest] by fastforce
    then show ?thesis using 0 fx by (simp add: filter_id_conv)
  next
    case (Suc k')
    then show ?thesis using Cons.IH [OF rest, of k'] fx by simp
  qed
qed simp

definition conversation :: "WorkspaceId \<Rightarrow> session_db \<Rightarrow> SessionId \<Rightarrow> (u64 \<times> ConversationMessage) list" where
  "conversation ws db s = map (\<lambda>r. (word_of_int (ms_ordinal r), ms_message r)) (filter (of_session ws s) (sd_messages db))"

lemma session_messages_in_order:
  assumes "session_inv db"
  shows "session_messages ws db s = filter (of_session ws s) (sd_messages db)"
proof -
  have "filter (\<lambda>r. msg_session_id (ms_message r) = s) (messages_in ws db) = filter (of_session ws s) (sd_messages db)"
    unfolding messages_in_def rows_of_def filter_filter by (rule filter_cong) (auto simp: of_session_def)
  moreover have "sorted (map ms_ordinal (filter (of_session ws s) (sd_messages db)))" unfolding session_invD(5) [OF assms] by simp
  ultimately show ?thesis unfolding session_messages_def by (simp add: sort_key_id_if_sorted)
qed

lemma map_messages:
  assumes "\<forall>r \<in> set rs. 0 \<le> ms_ordinal r"
  shows "try_map map_message rs = Inr (map (\<lambda>r. (word_of_int (ms_ordinal r), ms_message r)) rs)"
  using assms by (induction rs) (simp_all add: map_message_def)

lemma conversation_ordinals:
  assumes "session_inv db"
  shows "map (uint \<circ> fst) (conversation ws db s) = [1..int (length (conversation ws db s))]"
proof -
  let ?rs = "filter (of_session ws s) (sd_messages db)"
  have pos: "\<forall>r \<in> set ?rs. 0 < ms_ordinal r" using mapped_upto [OF session_invD(5) [OF assms]] by fastforce
  have "uint (word_of_int (ms_ordinal r) :: u64) = ms_ordinal r" if "r \<in> set ?rs" for r
    using that pos session_invD(3) [OF assms, of r] by (auto simp: uint_word_of_int take_bit_int_eq_self_iff)
  then have "map (uint \<circ> fst) (conversation ws db s) = map ms_ordinal ?rs" unfolding conversation_def by simp
  then show ?thesis using session_invD(5) [OF assms, of ws s] by (simp add: conversation_def)
qed

lemma messages_after_conversation:
  assumes "session_inv db" "uint ordinal < 2 ^ 63"
  shows "messages_after ws db s ordinal limit = Inr (take (min limit (2 ^ 63 - 1)) (drop (unat ordinal) (conversation ws db s)))"
proof -
  let ?rs = "filter (of_session ws s) (sd_messages db)"
  have "map ms_ordinal ?rs = [1..1 + int (length ?rs) - 1]" using session_invD(5) [OF assms(1), of ws s] by simp
  from filter_after [OF this, of "unat ordinal"]
  have after: "filter (\<lambda>r. ms_ordinal r > uint ordinal) ?rs = drop (unat ordinal) ?rs" by simp
  have "\<forall>r \<in> set ?rs. 0 \<le> ms_ordinal r" using mapped_upto [OF session_invD(5) [OF assms(1)]] by fastforce
  then have "\<forall>r \<in> set (take (min limit (2 ^ 63 - 1)) (drop (unat ordinal) ?rs)). 0 \<le> ms_ordinal r"
    by (meson in_set_dropD in_set_takeD)
  then show ?thesis using assms(2) unfolding messages_after_def session_messages_in_order [OF assms(1)] after
    by (simp add: map_messages conversation_def take_map drop_map)
qed

text \<open>A sample: one session in a workspace, an event and a message for it.\<close>

definition sample_session_row :: session_row where
  "sample_session_row = \<lparr> sn_workspace = 1, sn_session_id = 7, sn_schema_version = SchemaVersion_V1, sn_revision = 0, sn_title = ''t'',
     sn_state = Drafting, sn_state_v2 = Some Drafting, sn_created_at = 0, sn_updated_at = 0, sn_archived_at = None \<rparr>"

definition sample_session_db :: session_db where
  "sample_session_db = \<lparr> sd_workspaces = [1], sd_sessions = [sample_session_row], sd_messages = [],
     sd_graphs = \<lparr> db_daemons = [], db_tasks = [], db_session_tasks = [], db_graph_revisions = [], db_graph_heads = [],
       db_graph_approvals = [], db_task_dependencies = [], db_verification_results = [], db_schedule_claims = [], db_resource_claims = [] \<rparr>,
     sd_instructions = [], sd_commands = [], sd_invocations = [], sd_events = [], sd_exports = [] \<rparr>"

definition sample_session_env :: session_env where
  "sample_session_env = \<lparr> json_quote = (\<lambda>s. s), sha256_hex = (\<lambda>_. replicate 64 (CHR ''a'')), event_value = (\<lambda>_. Inr JNull),
     event_text = (\<lambda>_. Inr []), event_parse = (\<lambda>_. Inl []), json_valid = (\<lambda>_. True), id_text = (\<lambda>_. []), u64_value = (\<lambda>_. JNull) \<rparr>"

definition sample_session_event :: TaskEvent where
  "sample_session_event = session_event 9 7 0 ''r'' Actor_User 3 None JNull"

definition sample_message :: ConversationMessage where
  "sample_message = \<lparr> msg_message_id = 4, msg_session_id = 7, msg_task_id = None, msg_role = User, msg_kind = UserMessage,
     msg_state = Final, msg_content_redacted = ''hi'', msg_created_at = 0, msg_finalized_at = Some 0 \<rparr>"

lemma sample_session_inv: "session_inv sample_session_db"
  by (simp add: session_inv_def sample_session_db_def sample_session_row_def session_check_def sql_non_blank_def)

lemma sample_transition:
  "\<exists>stored db1. transition_session_with_event sample_session_env 1 7 0 Planning 5 sample_session_event sample_session_db = (Inr stored, db1)"
proof -
  have "\<not> isl (fst (transition_session_with_event sample_session_env 1 7 0 Planning 5 sample_session_event sample_session_db))" by code_simp
  then show ?thesis by (metis isl_def prod.collapse sum.exhaust_sel)
qed

lemma sample_session_append: "\<exists>n db1. append_message 1 sample_message sample_session_db = (Inr n, db1)"
proof -
  have "\<not> isl (fst (append_message 1 sample_message sample_session_db))" by code_simp
  then show ?thesis by (metis isl_def prod.collapse sum.exhaust_sel)
qed

section \<open>Properties\<close>

text \<open>C18: a stored session is never lost, its identity, title and creation never change, and its state follows the session machine in any
  interleaving of the operations; the one exception is a user message that sends a session back from planning to drafting. Every change
  raises the revision, so that an equal revision means an equal session, and a completed or cancelled session never
  changes again.\<close>

theorem stored_sessions_follow_machine:
  assumes "session_inv db" and "session_step\<^sup>*\<^sup>* db db'" and "r \<in> set (sd_sessions db)"
  shows "\<exists>r' \<in> set (sd_sessions db'). same_session r r' \<and> sn_revision r \<le> sn_revision r' \<and> (sn_revision r' = sn_revision r \<longrightarrow> r' = r)
    \<and> (\<lambda>s n. session_validate_transition s n = Inr () \<or> (s = Planning \<and> n = Drafting))\<^sup>*\<^sup>* (row_state r) (row_state r')
    \<and> (session_is_terminal (row_state r) \<longrightarrow> r' = r)"
proof -
  have move: "(\<lambda>s n. session_validate_transition s n = Inr () \<or> (s = Planning \<and> n = Drafting)) = session_move"
    by (intro ext) (simp add: session_move_def)
  show ?thesis unfolding move
    using session_rows.row_persists [OF session_run_writes [OF assms(2,1)] assms(1,3)] by (simp add: session_evolves_def)
qed

theorem stored_sessions_follow_machine_witness:
  "\<exists>db1. transition_session_with_event sample_session_env 1 7 0 Planning 5 sample_session_event sample_session_db \<in> range (\<lambda>x. (Inr x, db1))
     \<and> (\<exists>r' \<in> set (sd_sessions db1). same_session sample_session_row r')"
proof -
  obtain stored db1 where t:
      "transition_session_with_event sample_session_env 1 7 0 Planning 5 sample_session_event sample_session_db = (Inr stored, db1)"
    using sample_transition by blast
  have "session_step\<^sup>*\<^sup>* sample_session_db db1" using transition [OF t] by blast
  from stored_sessions_follow_machine [OF sample_session_inv this, of sample_session_row]
  have "\<exists>r' \<in> set (sd_sessions db1). same_session sample_session_row r'" by (auto simp: sample_session_db_def)
  then show ?thesis using t by blast
qed

text \<open>C17: no lost update. Once a transition of a session has succeeded with an expected revision, every other transition that expects the same
  revision is refused at any later time, whatever happened in between, and changes nothing.\<close>

theorem transition_never_overwrites:
  assumes "session_inv db" and "transition_session_with_event env ws s revision next t event db = (Inr stored, db1)"
    and "session_step\<^sup>*\<^sup>* db1 db2"
  shows "\<exists>e. transition_session_with_event env' ws s revision next' t' event' db2 = (Inl e, db2)"
proof -
  have inv1: "session_inv db1" using session_rows.run_inv [OF session_transition_writes [OF assms(1,2)] assms(1)] .
  have run: "session_write\<^sup>*\<^sup>* db1 db2" using session_run_writes [OF assms(3) inv1] .
  obtain r1 where r1: "r1 \<in> set (sd_sessions db1)" "sn_workspace r1 = ws" "sn_session_id r1 = s" "sn_revision r1 = uint revision + 1"
    using transitioned_row [OF assms(1,2)] by blast
  obtain r2 where "r2 \<in> set (sd_sessions db2)" "session_evolves r1 r2" using session_rows.row_persists [OF run inv1 r1(1)] by blast
  then show ?thesis using transition_outdated [OF session_rows.run_inv [OF run inv1]] r1
    by (auto simp: session_evolves_def same_session_def)
qed

theorem transition_never_overwrites_witness:
  "\<exists>db1. transition_session_with_event sample_session_env 1 7 0 Planning 5 sample_session_event sample_session_db \<in> range (\<lambda>x. (Inr x, db1))
     \<and> (\<exists>e. transition_session_with_event sample_session_env 1 7 0 Stopping 6 sample_session_event db1 = (Inl e, db1))"
proof -
  obtain stored db1 where t:
      "transition_session_with_event sample_session_env 1 7 0 Planning 5 sample_session_event sample_session_db = (Inr stored, db1)"
    using sample_transition by blast
  from transition_never_overwrites [OF sample_session_inv t rtranclp.rtrancl_refl] t show ?thesis by blast
qed

text \<open>C19: a conversation is an append-only log. In any interleaving the messages of a session are numbered 1, 2, 3 and so on
  without gaps, every stored message stays at its place and a finished one never changes, and reading after an ordinal returns
  exactly the messages that follow it, in order, up to the limit.\<close>

theorem conversation_append_only:
  assumes "session_inv db" and "session_step\<^sup>*\<^sup>* db db'" and "uint ordinal < 2 ^ 63"
  shows "map (uint \<circ> fst) (conversation ws db' s) = [1..int (length (conversation ws db' s))]
    \<and> messages_after ws db' s ordinal limit = Inr (take (min limit (2 ^ 63 - 1)) (drop (unat ordinal) (conversation ws db' s)))
    \<and> (\<forall>r \<in> set (sd_messages db). \<exists>r' \<in> set (sd_messages db'). same_message r r' \<and> (msg_state (ms_message r) \<noteq> Streaming \<longrightarrow> r' = r))"
proof -
  have run: "session_write\<^sup>*\<^sup>* db db'" using session_run_writes [OF assms(2,1)] .
  have inv: "session_inv db'" using session_rows.run_inv [OF run assms(1)] .
  show ?thesis using conversation_ordinals [OF inv] messages_after_conversation [OF inv assms(3)]
      message_rows.row_persists [OF run assms(1)] by (auto simp: message_evolves_def)
qed

theorem conversation_append_only_witness:
  "\<exists>db1. append_message 1 sample_message sample_session_db \<in> range (\<lambda>n. (Inr n, db1))
     \<and> messages_after 1 db1 7 0 10 = Inr (take 10 (conversation 1 db1 7))"
proof -
  obtain n db1 where a: "append_message 1 sample_message sample_session_db = (Inr n, db1)" using sample_session_append by blast
  have "session_step\<^sup>*\<^sup>* sample_session_db db1" using append [OF a] by blast
  from conversation_append_only [OF sample_session_inv this, of 0 1 7 10] a show ?thesis by auto
qed


text \<open>A user message sends a session that is being planned back to drafting, which the session machine refuses.\<close>

lemma planning_withdrawn_outside_machine:
  assumes "session_inv db" "session_by_id ws db s = Inr (Some c)" "ss_state c = Planning"
    "invalidate_pre_task_candidate_in_transaction env ws fresh s t causation correlation db = Inr db'"
  shows "\<exists>r \<in> set (sd_sessions db'). sn_workspace r = ws \<and> sn_session_id r = s \<and> row_state r = Drafting"
    and "session_validate_transition Planning Drafting = Inl (Session_NotAllowed Planning Drafting)"
proof -
  let ?db = "db\<lparr>sd_graphs := supersede_candidate t ws s (sd_graphs db)\<rparr>"
  obtain n db1 where u: "update_sessions (\<lambda>r. sn_workspace r = ws \<and> sn_session_id r = s \<and> sn_revision r = uint (ss_revision c))
      (set_state Drafting t) ?db = Inr (n, db1)" and e: "\<exists>event. append_event_in_transaction env ws event db1 = Inr db'"
    using assms(2-4) unfolding invalidate_pre_task_candidate_in_transaction_def
    by (auto simp: and_then_eq_Inr ok_or_eq_Inr split: if_split_asm)
  have "session_inv ?db" "session_by_id ws ?db s = Inr (Some c)"
    using assms(1,2) by (simp_all add: session_inv_def session_by_id_def sessions_in_def)
  moreover have "session_move (ss_state c) Drafting" using assms(3) by (simp add: session_move_def)
  ultimately have "\<exists>r \<in> set (sd_sessions db1). sn_workspace r = ws \<and> sn_session_id r = s \<and> row_state r = Drafting"
    using guarded_update_row [OF _ _ _ u] by blast
  then show "\<exists>r \<in> set (sd_sessions db'). sn_workspace r = ws \<and> sn_session_id r = s \<and> row_state r = Drafting"
    using e by (auto simp: append_event_in_transaction_def and_then_eq_Inr)
qed (simp add: session_validate_transition_def)

end
