(* ===== verification/Graph_Search.thy ===== *)
theory Graph_Search
  imports Task_Graph
begin

text \<open>
  Correctness of the two searches of \<open>graph.rs\<close>: the depth-first cycle detection and the worklist
  reachability test. Both are stated against the dependency relation between node indexes.
\<close>

section \<open>The dependency relation\<close>

abbreviation node_total :: "TaskGraphProposal \<Rightarrow> nat" where
  "node_total p \<equiv> length (graph_nodes p)"

definition edges :: "TaskGraphProposal \<Rightarrow> (string \<rightharpoonup> nat) \<Rightarrow> (nat \<times> nat) set" where
  "edges p m =
     {(i, j). i < node_total p \<and> (\<exists>d \<in> set (node_dependencies (graph_nodes p ! i)). m d = Some j)}"

text \<open>\<open>well_indexed\<close>: every dependency key of every node has an index in range.\<close>

definition well_indexed :: "TaskGraphProposal \<Rightarrow> (string \<rightharpoonup> nat) \<Rightarrow> bool" where
  "well_indexed p m \<longleftrightarrow>
     (\<forall>i < node_total p. \<forall>d \<in> set (node_dependencies (graph_nodes p ! i)).
        \<exists>j < node_total p. m d = Some j)"

lemma edges_bound: "well_indexed p m \<Longrightarrow> (i, j) \<in> edges p m \<Longrightarrow> i < node_total p \<and> j < node_total p"
  unfolding well_indexed_def edges_def by fastforce

lemma edges_trancl_bound:
  "(i, j) \<in> (edges p m)\<^sup>+ \<Longrightarrow> well_indexed p m \<Longrightarrow> i < node_total p \<and> j < node_total p"
  by (induction rule: trancl_induct) (auto dest: edges_bound)

lemma deps_at_Some: "i < node_total p \<Longrightarrow> deps_at p i = Some (node_dependencies (graph_nodes p ! i))"
  by (simp add: deps_at_def)

text \<open>A closed walk through the dependency relation, by keys.\<close>

definition dependency_cycle :: "TaskGraphProposal \<Rightarrow> (string \<rightharpoonup> nat) \<Rightarrow> string list \<Rightarrow> bool" where
  "dependency_cycle p m path \<longleftrightarrow>
     (\<exists>is. path = map (key_at p) is \<and> 2 \<le> length is \<and> hd is = last is
         \<and> successively (\<lambda>i j. (i, j) \<in> edges p m) is)"

lemma successively_trancl:
  "successively (\<lambda>i j. (i, j) \<in> r) xs \<Longrightarrow> 2 \<le> length xs \<Longrightarrow> (hd xs, last xs) \<in> r\<^sup>+"
proof (induction xs rule: induct_list012)
  case (3 x y zs)
  then show ?case
    by (cases zs) (auto intro: trancl_into_trancl2)
qed auto

lemma dependency_cycle_imp_cyclic:
  assumes "dependency_cycle p m path"
  shows "\<not> acyclic (edges p m)"
  using assms unfolding dependency_cycle_def
  by (metis acyclic_def successively_trancl)

section \<open>Depth-first search invariant\<close>

definition marked :: "nat \<Rightarrow> marks \<Rightarrow> nat set" where
  "marked c st = {i. i < length st \<and> st ! i = c}"

definition dfs_inv :: "TaskGraphProposal \<Rightarrow> (string \<rightharpoonup> nat) \<Rightarrow> marks \<Rightarrow> nat list \<Rightarrow> bool" where
  "dfs_inv p m st stack \<longleftrightarrow>
     length st = node_total p
   \<and> (\<forall>i < node_total p. st ! i \<le> 2)
   \<and> distinct stack \<and> set stack = marked 1 st
   \<and> successively (\<lambda>i j. (i, j) \<in> edges p m) stack
   \<and> edges p m `` marked 2 st \<subseteq> marked 2 st
   \<and> acyclic (edges p m \<inter> marked 2 st \<times> UNIV)"

definition marks_kept :: "marks \<Rightarrow> marks \<Rightarrow> bool" where
  "marks_kept st st' \<longleftrightarrow> length st' = length st \<and> (\<forall>k < length st. st ! k \<noteq> 0 \<longrightarrow> st' ! k = st ! k)"

lemma marks_kept_refl [simp]: "marks_kept st st"
  by (simp add: marks_kept_def)

lemma marks_kept_trans: "marks_kept a b \<Longrightarrow> marks_kept b c \<Longrightarrow> marks_kept a c"
  by (auto simp: marks_kept_def)

lemma finite_marked [simp]: "finite (marked c st)"
  by (simp add: marked_def)

lemma marks_kept_white: "marks_kept st st' \<Longrightarrow> card (marked 0 st') \<le> card (marked 0 st)"
  by (rule card_mono) (auto simp: marked_def marks_kept_def)

lemma marked_update:
  assumes "i < length st" and "st ! i \<noteq> c"
  shows "marked c (st[i := c]) = insert i (marked c st)"
    and "c' \<noteq> c \<Longrightarrow> marked c' (st[i := c]) = marked c' st - {i}"
  using assms by (auto simp: marked_def nth_list_update)

lemma acyclic_source:
  assumes "acyclic R" and "\<And>a b. (a, b) \<in> R \<union> S \<Longrightarrow> b \<noteq> i" and "Domain S \<subseteq> {i}"
  shows "acyclic (R \<union> S)"
proof -
  have step: "(a, b) \<in> (R \<union> S)\<^sup>+ \<Longrightarrow> a \<noteq> i \<Longrightarrow> (a, b) \<in> R\<^sup>+ \<and> b \<noteq> i" for a b
  proof (induction rule: trancl_induct)
    case (base y)
    then show ?case using assms(2,3) by blast
  next
    case (step y z)
    then have "(a, y) \<in> R\<^sup>+" and "y \<noteq> i" by simp_all
    moreover from \<open>y \<noteq> i\<close> step.hyps(2) have "(y, z) \<in> R" using assms(3) by blast
    moreover have "z \<noteq> i" using step.hyps(2) by (rule assms(2))
    ultimately show ?case by (auto intro: trancl_into_trancl)
  qed
  show ?thesis
  proof (rule acyclicI, intro allI notI)
    fix x assume x: "(x, x) \<in> (R \<union> S)\<^sup>+"
    then obtain y where "(y, x) \<in> R \<union> S" by (blast dest: tranclD2)
    then have "x \<noteq> i" by (rule assms(2))
    with step [OF x] assms(1) show False by (simp add: acyclic_def)
  qed
qed

text \<open>Entering a node: it becomes the top of the stack.\<close>

lemma dfs_enter:
  assumes inv: "dfs_inv p m st stack" and i: "i < node_total p" "st ! i = 0"
    and edge: "stack = [] \<or> (last stack, i) \<in> edges p m"
  shows "dfs_inv p m (st[i := 1]) (stack @ [i])"
    and "card (marked 0 (st[i := 1])) < card (marked 0 st)"
proof -
  have len: "length st = node_total p" using inv by (simp add: dfs_inv_def)
  have m1: "marked 1 (st[i := 1]) = insert i (marked 1 st)"
    using marked_update(1) [of i st 1] i len by simp
  have m2: "marked 2 (st[i := 1]) = marked 2 st"
    using marked_update(2) [of i st 1 2] i len by (auto simp: marked_def)
  have m0: "marked 0 (st[i := 1]) = marked 0 st - {i}"
    using marked_update(2) [of i st 1 0] i len by simp
  have "i \<notin> set stack" using inv i by (auto simp: dfs_inv_def marked_def)
  then show "dfs_inv p m (st[i := 1]) (stack @ [i])"
    using inv edge i unfolding dfs_inv_def m1 m2
    by (auto simp: nth_list_update successively_append_iff)
  have "i \<in> marked 0 st" using i len by (simp add: marked_def)
  then show "card (marked 0 (st[i := 1])) < card (marked 0 st)"
    unfolding m0 by (intro psubset_card_mono) auto
qed

text \<open>Leaving a node whose dependencies are all done.\<close>

lemma dfs_leave:
  assumes inv: "dfs_inv p m st (stack @ [i])"
    and finished: "edges p m `` {i} \<subseteq> marked 2 st"
  shows "dfs_inv p m (st[i := 2]) stack"
proof -
  have len: "length st = node_total p" and i1: "i \<in> marked 1 st"
    and ni: "i \<notin> set stack" and m1s: "set (stack @ [i]) = marked 1 st"
    using inv by (auto simp: dfs_inv_def)
  have i: "i < length st" "st ! i = 1" using i1 by (simp_all add: marked_def)
  have m1: "marked 1 (st[i := 2]) = set stack"
    using marked_update(2) [of i st 2 1] i m1s ni by auto
  have m2: "marked 2 (st[i := 2]) = insert i (marked 2 st)"
    using marked_update(1) [of i st 2] i by simp
  have closed: "edges p m `` marked 2 st \<subseteq> marked 2 st" using inv by (simp add: dfs_inv_def)
  have "acyclic ((edges p m \<inter> marked 2 st \<times> UNIV) \<union> (edges p m \<inter> {i} \<times> UNIV))"
  proof (rule acyclic_source [where i = i])
    show "acyclic (edges p m \<inter> marked 2 st \<times> UNIV)" using inv by (simp add: dfs_inv_def)
    show "b \<noteq> i" if "(a, b) \<in> (edges p m \<inter> marked 2 st \<times> UNIV) \<union> (edges p m \<inter> {i} \<times> UNIV)" for a b
    proof -
      have "b \<in> marked 2 st" using that closed finished by blast
      then show ?thesis using i by (auto simp: marked_def)
    qed
  qed auto
  moreover have "(edges p m \<inter> marked 2 st \<times> UNIV) \<union> (edges p m \<inter> {i} \<times> UNIV)
      = edges p m \<inter> insert i (marked 2 st) \<times> UNIV" by blast
  ultimately have ac: "acyclic (edges p m \<inter> insert i (marked 2 st) \<times> UNIV)" by simp
  show ?thesis
    using inv i len finished closed ac unfolding dfs_inv_def m1 m2
    by (auto simp: nth_list_update successively_append_iff)
qed

lemma stack_cycle:
  assumes inv: "dfs_inv p m st stack" and edge: "(last stack, j) \<in> edges p m"
    and pos: "position (\<lambda>c. c = j) stack = Some k"
  shows "dependency_cycle p m (cycle_path p stack k j)"
proof -
  have k: "k < length stack" "stack ! k = j" using position_Some [OF pos] by simp_all
  have "successively (\<lambda>i j. (i, j) \<in> edges p m) (take k stack @ drop k stack)"
    using inv by (simp add: dfs_inv_def)
  then have "successively (\<lambda>i j. (i, j) \<in> edges p m) (drop k stack)"
    by (simp only: successively_append_iff) 
  then have "successively (\<lambda>i j. (i, j) \<in> edges p m) (drop k stack @ [j])"
    using k edge by (simp add: successively_append_iff)
  moreover have "hd (drop k stack @ [j]) = j" using k by (simp add: hd_drop_conv_nth)
  ultimately show ?thesis
    using k unfolding dependency_cycle_def cycle_path_def
    by (intro exI [of _ "drop k stack @ [j]"]) auto
qed

section \<open>The search is total and finds a cycle exactly when there is one\<close>

definition visit_post ::
    "TaskGraphProposal \<Rightarrow> (string \<rightharpoonup> nat) \<Rightarrow> nat \<Rightarrow> marks \<Rightarrow> nat list
     \<Rightarrow> (string list option \<times> marks \<times> nat list) option \<Rightarrow> bool" where
  "visit_post p m i st stack res \<longleftrightarrow>
     (\<exists>r st' stack'. res = Some (r, st', stack') \<and>
        (case r of
           None \<Rightarrow> stack' = stack \<and> dfs_inv p m st' stack \<and> marks_kept st st' \<and> st' ! i = 2
         | Some path \<Rightarrow> dependency_cycle p m path))"

definition loop_post ::
    "TaskGraphProposal \<Rightarrow> (string \<rightharpoonup> nat) \<Rightarrow> string list \<Rightarrow> marks \<Rightarrow> nat list
     \<Rightarrow> (string list option option \<times> marks \<times> nat list) option \<Rightarrow> bool" where
  "loop_post p m ds st stack res \<longleftrightarrow>
     (\<exists>r st' stack'. res = Some (r, st', stack') \<and>
        (case r of
           None \<Rightarrow> stack' = stack \<and> dfs_inv p m st' stack \<and> marks_kept st st'
                    \<and> (\<forall>d \<in> set ds. \<exists>j. m d = Some j \<and> j \<in> marked 2 st')
         | Some None \<Rightarrow> False
         | Some (Some path) \<Rightarrow> dependency_cycle p m path))"

lemma loop_post_step:
  assumes "loop_post p m ds st' stack res" and "marks_kept st st'"
    and "m d = Some j" and "j \<in> marked 2 st'"
  shows "loop_post p m (d # ds) st stack res"
proof -
  obtain r st2 stack2 where res: "res = Some (r, st2, stack2)"
    and post: "case r of None \<Rightarrow> stack2 = stack \<and> dfs_inv p m st2 stack \<and> marks_kept st' st2
        \<and> (\<forall>d \<in> set ds. \<exists>j. m d = Some j \<and> j \<in> marked 2 st2)
      | Some None \<Rightarrow> False | Some (Some path) \<Rightarrow> dependency_cycle p m path"
    using assms(1) by (auto simp: loop_post_def)
  have "marks_kept st' st2 \<Longrightarrow> j \<in> marked 2 st2"
    using assms(4) by (auto simp: marks_kept_def marked_def)
  with post assms(2,3) show ?thesis
    unfolding loop_post_def res by (auto split: option.splits intro: marks_kept_trans)
qed

lemma visit_correct:
  "\<lbrakk> well_indexed p m; dfs_inv p m st stack; i < node_total p; st ! i = 0;
     card (marked 0 st) \<le> fuel; stack = [] \<or> (last stack, i) \<in> edges p m \<rbrakk>
   \<Longrightarrow> visit_post p m i st stack (visit_cycle fuel p m i st stack)"
  "\<lbrakk> well_indexed p m; dfs_inv p m st stack; stack \<noteq> []; card (marked 0 st) \<le> fuel;
     \<forall>d \<in> set ds. \<exists>j. m d = Some j \<and> (last stack, j) \<in> edges p m \<rbrakk>
   \<Longrightarrow> loop_post p m ds st stack (visit_dependencies fuel p m ds st stack)"
proof (induction fuel p m i st stack and fuel p m ds st stack
    rule: visit_cycle_visit_dependencies.induct)
  case (1 p m i st stack)
  have "i \<in> marked 0 st" using 1 by (simp add: marked_def dfs_inv_def)
  then have "0 < card (marked 0 st)" by (auto simp: card_gt_0_iff)
  with 1 show ?case by simp
next
  case (2 fuel p m i st stack)
  note wi = 2(2) and inv = 2(3) and i = 2(4,5) and fuel = 2(6) and edge = 2(7)
  let ?ds = "node_dependencies (graph_nodes p ! i)"
  let ?loop = "visit_dependencies fuel p m ?ds (st[i := 1]) (stack @ [i])"
  have enter: "dfs_inv p m (st[i := 1]) (stack @ [i])"
    and fewer: "card (marked 0 (st[i := 1])) \<le> fuel"
    using dfs_enter [OF inv i edge] fuel by simp_all
  have targets: "\<forall>d \<in> set ?ds. \<exists>j. m d = Some j \<and> (last (stack @ [i]), j) \<in> edges p m"
    using wi i by (fastforce simp: well_indexed_def edges_def)
  have "loop_post p m ?ds (st[i := 1]) (stack @ [i]) ?loop"
    using 2(1) [OF deps_at_Some [OF i(1)] wi enter _ fewer targets] by simp
  then obtain r st' stack' where loop: "?loop = Some (r, st', stack')"
    and post: "case r of None \<Rightarrow> stack' = stack @ [i] \<and> dfs_inv p m st' (stack @ [i])
          \<and> marks_kept (st[i := 1]) st' \<and> (\<forall>d \<in> set ?ds. \<exists>j. m d = Some j \<and> j \<in> marked 2 st')
      | Some None \<Rightarrow> False | Some (Some path) \<Rightarrow> dependency_cycle p m path"
    unfolding loop_post_def by blast
  show ?case
  proof (cases r)
    case None
    with post have st': "stack' = stack @ [i]" "dfs_inv p m st' (stack @ [i])"
      "marks_kept (st[i := 1]) st'" "\<forall>d \<in> set ?ds. \<exists>j. m d = Some j \<and> j \<in> marked 2 st'" by simp_all
    have "edges p m `` {i} \<subseteq> marked 2 st'" using st'(4) by (fastforce simp: edges_def)
    then have leave: "dfs_inv p m (st'[i := 2]) stack" by (rule dfs_leave [OF st'(2)])
    have len: "length st = node_total p" using inv by (simp add: dfs_inv_def)
    have "st'[i := 2] ! k = st ! k" if "k < length st" "st ! k \<noteq> 0" for k
      using that st'(3) i by (cases "k = i") (auto simp: marks_kept_def)
    then have "marks_kept st (st'[i := 2])" using st'(3) by (simp add: marks_kept_def)
    moreover have "st'[i := 2] ! i = 2" using st'(3) i len by (simp add: marks_kept_def)
    ultimately show ?thesis
      using None leave st'(1)
      by (simp add: visit_post_def deps_at_Some [OF i(1)] loop del: One_nat_def)
  next
    case (Some q)
    with post loop show ?thesis
      by (cases q) (simp_all add: visit_post_def deps_at_Some [OF i(1)] del: One_nat_def)
  qed
next
  case (3 fuel p m st stack)
  then show ?case by (simp add: loop_post_def)
next
  case (4 fuel p m d ds st stack)
  note wi = 4(4) and inv = 4(5) and ne = 4(6) and fuel = 4(7) and targets = 4(8)
  obtain j where j: "m d = Some j" and edge: "(last stack, j) \<in> edges p m"
    using targets by auto
  have jn: "j < node_total p" using edges_bound [OF wi edge] by simp
  have jlen: "\<not> j \<ge> length st" using inv jn by (simp add: dfs_inv_def)
  have rest: "\<forall>d \<in> set ds. \<exists>j. m d = Some j \<and> (last stack, j) \<in> edges p m" using targets by simp
  have "st ! j \<le> 2" using inv jn by (simp add: dfs_inv_def)
  then consider (white) "st ! j = 0" | (grey) "st ! j = 1" | (black) "st ! j = 2" by linarith
  then show ?case
  proof cases
    case white
    have "visit_post p m j st stack (visit_cycle fuel p m j st stack)"
      using 4(1) [OF j jlen white wi inv jn white fuel] edge by simp
    then obtain r st' stack' where v: "visit_cycle fuel p m j st stack = Some (r, st', stack')"
      and post: "case r of None \<Rightarrow> stack' = stack \<and> dfs_inv p m st' stack \<and> marks_kept st st' \<and> st' ! j = 2
        | Some path \<Rightarrow> dependency_cycle p m path"
      by (auto simp: visit_post_def)
    show ?thesis
    proof (cases r)
      case None
      with post have st': "stack' = stack" "dfs_inv p m st' stack" "marks_kept st st'" "st' ! j = 2"
        by simp_all
      have "card (marked 0 st') \<le> fuel" using marks_kept_white [OF st'(3)] fuel by simp
      then have "loop_post p m ds st' stack (visit_dependencies fuel p m ds st' stack)"
        using 4(2) [OF j jlen white v refl None refl] wi st' ne rest by simp
      moreover have "j \<in> marked 2 st'" using st' jlen by (simp add: marked_def marks_kept_def)
      ultimately have "loop_post p m (d # ds) st stack (visit_dependencies fuel p m ds st' stack)"
        using st'(3) j by (intro loop_post_step [of p m ds st' stack _ st d j])
      then show ?thesis using j jlen white v None st'(1) by simp
    next
      case (Some path)
      with post v j jlen white show ?thesis by (simp add: loop_post_def)
    qed
  next
    case grey
    have "j \<in> set stack" using inv grey jn by (simp add: dfs_inv_def marked_def)
    then obtain k where k: "position (\<lambda>c. c = j) stack = Some k" using position_ex by fast
    have "dependency_cycle p m (cycle_path p stack k j)" by (rule stack_cycle [OF inv edge k])
    then show ?thesis using j jlen grey k by (simp add: loop_post_def)
  next
    case black
    have "loop_post p m ds st stack (visit_dependencies fuel p m ds st stack)"
      using 4(3) [OF j jlen] black wi inv ne fuel rest by simp
    moreover have "j \<in> marked 2 st" using black jlen by (simp add: marked_def)
    ultimately have "loop_post p m (d # ds) st stack (visit_dependencies fuel p m ds st stack)"
      using j by (intro loop_post_step [of p m ds st stack _ st d j]) simp_all
    then show ?thesis using j jlen black by simp
  qed
qed

lemma find_cycle_from_correct:
  assumes "well_indexed p m" and "dfs_inv p m st []" and "set is \<subseteq> {..<node_total p}"
    and "\<forall>i < node_total p. i \<notin> set is \<longrightarrow> st ! i = 2"
  shows "\<exists>r. find_cycle_from p m is st [] = Some r \<and>
          (case r of None \<Rightarrow> acyclic (edges p m) | Some path \<Rightarrow> dependency_cycle p m path)"
  using assms(2-)
proof (induction "is" arbitrary: st)
  case Nil
  then have "marked 2 st = {..<node_total p}" by (auto simp: marked_def dfs_inv_def)
  moreover have "edges p m \<subseteq> {..<node_total p} \<times> UNIV" by (auto simp: edges_def)
  ultimately have "edges p m \<inter> marked 2 st \<times> UNIV = edges p m" by auto
  with Nil show ?case by (simp add: dfs_inv_def)
next
  case (Cons i "is")
  have i: "i < node_total p" using Cons.prems by simp
  have len: "length st = node_total p" using Cons.prems by (simp add: dfs_inv_def)
  show ?case
  proof (cases "st ! i = 0")
    case True
    have "card (marked 0 st) \<le> card {..<node_total p}"
      by (rule card_mono) (auto simp: marked_def len)
    then have "visit_post p m i st [] (visit_cycle (node_total p) p m i st [])"
      using visit_correct(1) [OF assms(1) Cons.prems(1) i True] by simp
    then obtain r st' stack' where v: "visit_cycle (node_total p) p m i st [] = Some (r, st', stack')"
      and post: "case r of None \<Rightarrow> stack' = [] \<and> dfs_inv p m st' [] \<and> marks_kept st st' \<and> st' ! i = 2
        | Some path \<Rightarrow> dependency_cycle p m path"
      unfolding visit_post_def by blast
    show ?thesis
    proof (cases r)
      case None
      with post have st': "stack' = []" "dfs_inv p m st' []" "marks_kept st st'" "st' ! i = 2"
        by simp_all
      have "\<forall>k < node_total p. k \<notin> set is \<longrightarrow> st' ! k = 2"
        using Cons.prems(3) st'(3,4) len by (auto simp: marks_kept_def)
      from Cons.IH [OF st'(2) _ this] Cons.prems(2) show ?thesis
        using True v None st'(1) by simp
    next
      case (Some path)
      with post v True show ?thesis by simp
    qed
  next
    case False
    have "st ! i \<noteq> 1" using Cons.prems(1) i by (auto simp: dfs_inv_def marked_def)
    moreover have "st ! i \<le> 2" using Cons.prems(1) i by (simp add: dfs_inv_def)
    ultimately have "st ! i = 2" using False by linarith
    then have "\<forall>k < node_total p. k \<notin> set is \<longrightarrow> st ! k = 2" using Cons.prems(3) by auto
    from Cons.IH [OF Cons.prems(1) _ this] Cons.prems(2) show ?thesis using False by simp
  qed
qed

lemma dfs_inv_start: "dfs_inv p m (replicate (node_total p) 0) []"
proof -
  have "marked 1 (replicate (node_total p) 0) = {}" "marked 2 (replicate (node_total p) 0) = {}"
    by (auto simp: marked_def)
  then show ?thesis by (simp add: dfs_inv_def acyclic_def)
qed

lemma find_cycle_correct:
  assumes "well_indexed p m"
  shows "\<exists>r. find_cycle p m = Some r \<and>
          (case r of None \<Rightarrow> acyclic (edges p m) | Some path \<Rightarrow> dependency_cycle p m path)"
  unfolding find_cycle_def Let_def
  by (rule find_cycle_from_correct [OF assms dfs_inv_start]) auto

section \<open>Transitive dependency\<close>

lemma push_dependencies_correct:
  assumes "\<forall>d \<in> set ds. m d \<noteq> None"
  shows "push_dependencies m t ds pending =
     (if \<exists>d \<in> set ds. m d = Some t then Some None
      else Some (Some (rev (map (\<lambda>d. the (m d)) ds) @ pending)))"
  using assms by (induction ds arbitrary: pending) auto

definition worklist_inv ::
    "TaskGraphProposal \<Rightarrow> (string \<rightharpoonup> nat) \<Rightarrow> nat \<Rightarrow> nat \<Rightarrow> nat list \<Rightarrow> nat set \<Rightarrow> bool" where
  "worklist_inv p m start target pending visited \<longleftrightarrow>
     set pending \<union> visited \<subseteq> (edges p m)\<^sup>* `` {start}
   \<and> start \<in> set pending \<union> visited
   \<and> edges p m `` visited \<subseteq> set pending \<union> visited
   \<and> target \<notin> edges p m `` visited
   \<and> set pending \<subseteq> {..<node_total p}"

lemma worklist_correct:
  assumes "well_indexed p m" and "worklist_inv p m start target pending visited"
  shows "transitively_depends_from p m target pending visited = Some ((start, target) \<in> (edges p m)\<^sup>+)"
  using assms
proof (induction p m target pending visited rule: transitively_depends_from.induct)
  case (1 p m target pending visited)
  note wi = 1(3) and inv = 1(4)
  show ?case
  proof (cases pending)
    case Nil
    have closed: "(edges p m)\<^sup>* `` {start} \<subseteq> visited"
    proof -
      have "x \<in> visited" if "(start, x) \<in> (edges p m)\<^sup>*" for x
        using that by (induction rule: rtrancl_induct) (use inv Nil in \<open>auto simp: worklist_inv_def\<close>)
      then show ?thesis by blast
    qed
    have "(start, target) \<notin> (edges p m)\<^sup>+"
      using closed inv by (fastforce simp: worklist_inv_def dest: tranclD2)
    then show ?thesis using Nil by (simp add: transitively_depends_from.simps)
  next
    case (Cons index rest)
    show ?thesis
    proof (cases "index \<in> visited")
      case True
      have "worklist_inv p m start target rest visited"
        using inv Cons True by (auto simp: worklist_inv_def)
      from 1(1) [OF Cons True wi this] show ?thesis
        using Cons True by (simp add: transitively_depends_from.simps [of p m target "index # rest"])
    next
      case False
      let ?ds = "node_dependencies (graph_nodes p ! index)"
      have idx: "index < node_total p" using inv Cons by (simp add: worklist_inv_def)
      have def: "\<forall>d \<in> set ?ds. m d \<noteq> None" using wi idx by (fastforce simp: well_indexed_def)
      have succs: "edges p m `` {index} = set (map (\<lambda>d. the (m d)) ?ds)"
        using idx def by (force simp: edges_def)
      note unf = transitively_depends_from.simps [of p m target "index # rest" visited]
        push_dependencies_correct [OF def] deps_at_Some [OF idx]
      show ?thesis
      proof (cases "\<exists>d \<in> set ?ds. m d = Some target")
        case True
        then have "(index, target) \<in> edges p m" using idx by (auto simp: edges_def)
        moreover have "(start, index) \<in> (edges p m)\<^sup>*" using inv Cons by (auto simp: worklist_inv_def)
        ultimately have "(start, target) \<in> (edges p m)\<^sup>+" by (rule rtrancl_into_trancl1 [rotated])
        then show ?thesis using Cons False True by (simp add: unf)
      next
        case no: False
        let ?pending = "rev (map (\<lambda>d. the (m d)) ?ds) @ rest"
        have nt: "target \<notin> edges p m `` {index}" using no idx by (auto simp: edges_def)
        have bound: "edges p m `` {index} \<subseteq> {..<node_total p}" using edges_bound [OF wi] by blast
        have reach: "edges p m `` {index} \<subseteq> (edges p m)\<^sup>* `` {start}"
          using inv Cons by (auto simp: worklist_inv_def intro: rtrancl_into_rtrancl)
        have sp: "set ?pending = edges p m `` {index} \<union> set rest" by (simp add: succs)
        have "worklist_inv p m start target ?pending (insert index visited)"
          using inv Cons nt bound reach unfolding worklist_inv_def sp by auto
        from 1(2) [OF Cons False deps_at_Some [OF idx] _ refl wi this] no show ?thesis
          using Cons False by (simp add: unf)
      qed
    qed
  qed
qed

lemma transitively_depends_correct:
  assumes "well_indexed p m" and "start < node_total p"
  shows "transitively_depends start target p m = Some ((start, target) \<in> (edges p m)\<^sup>+)"
  unfolding transitively_depends_def
  by (rule worklist_correct [OF assms(1)]) (use assms(2) in \<open>auto simp: worklist_inv_def\<close>)

end
