(* ===== verification/Graph_Order.thy ===== *)
theory Graph_Order
  imports Graph_Search
begin

text \<open>
  Correctness of \<open>topological_summary\<close> (\<open>graph.rs\<close>): on an indexed acyclic graph the rounds never panic, end
  within the number of nodes plus one, and list every node once in layers whose dependencies lie in
  earlier layers.
\<close>

section \<open>Indexed graphs\<close>

definition indexed_graph :: "TaskGraphProposal \<Rightarrow> (string \<rightharpoonup> nat) \<Rightarrow> bool" where
  "indexed_graph p m \<longleftrightarrow>
     well_indexed p m \<and> inj_on m (dom m)
   \<and> (\<forall>i < node_total p. distinct (node_dependencies (graph_nodes p ! i)))"

abbreviation deps_of :: "TaskGraphProposal \<Rightarrow> (string \<rightharpoonup> nat) \<Rightarrow> nat \<Rightarrow> nat set" where
  "deps_of p m i \<equiv> edges p m `` {i}"

lemma finite_deps_of: "well_indexed p m \<Longrightarrow> finite (deps_of p m i)"
  by (rule finite_subset [of _ "{..<node_total p}"]) (auto dest: edges_bound)

lemma length_deps:
  assumes "indexed_graph p m" and "i < node_total p"
  shows "length (node_dependencies (graph_nodes p ! i)) = card (deps_of p m i)"
proof -
  let ?ds = "node_dependencies (graph_nodes p ! i)"
  have def: "\<forall>d \<in> set ?ds. \<exists>j. m d = Some j" and dist: "distinct ?ds" and inj: "inj_on m (dom m)"
    using assms by (fastforce simp: indexed_graph_def well_indexed_def)+
  have "Some ` deps_of p m i = m ` set ?ds"
    using def assms(2) by (force simp: edges_def image_iff)
  moreover have "card (m ` set ?ds) = card (set ?ds)"
    by (rule card_image) (use inj def in \<open>force intro: inj_on_subset\<close>)
  moreover have "card (Some ` deps_of p m i) = card (deps_of p m i)"
    by (rule card_image) simp
  ultimately show ?thesis using distinct_card [OF dist] by simp
qed

lemma depends_directly_correct:
  assumes "well_indexed p m" and "i < node_total p"
  shows "depends_directly m c (node_dependencies (graph_nodes p ! i)) = Some ((i, c) \<in> edges p m)"
proof -
  have "\<forall>d \<in> set ds. m d \<noteq> None \<Longrightarrow> depends_directly m c ds = Some (\<exists>d \<in> set ds. m d = Some c)" for ds
    by (induction ds) auto
  from this [of "node_dependencies (graph_nodes p ! i)"] assms show ?thesis
    by (fastforce simp: well_indexed_def edges_def)
qed

section \<open>Releasing the candidates of one completed node\<close>

lemma release_candidates_correct:
  assumes wi: "well_indexed p m"
  shows "\<lbrakk> \<forall>(c, node) \<in> set cs. c < node_total p \<and> node = graph_nodes p ! c;
           distinct (map fst cs); length rem = node_total p;
           \<forall>c \<in> fst ` set cs. (c, x) \<in> edges p m \<longrightarrow> 0 < rem ! c \<rbrakk>
    \<Longrightarrow> \<exists>rem' r. release_candidates m x cs rem ready = Some (rem', ready @ r)
       \<and> length rem' = node_total p
       \<and> (\<forall>k < node_total p. rem' ! k =
            (if k \<in> fst ` set cs \<and> (k, x) \<in> edges p m then rem ! k - 1 else rem ! k))
       \<and> set r = {c \<in> fst ` set cs. (c, x) \<in> edges p m \<and> rem ! c = 1}"
proof (induction cs arbitrary: rem ready)
  case Nil
  then show ?case by simp
next
  case (Cons cn cs)
  obtain c node where cn: "cn = (c, node)" by (cases cn)
  have c: "c < node_total p" "node = graph_nodes p ! c" "c \<notin> fst ` set cs"
    using Cons.prems cn by force+
  have dd: "depends_directly m x (node_dependencies node) = Some ((c, x) \<in> edges p m)"
    using depends_directly_correct [OF wi c(1)] c(2) by simp
  have cs: "\<forall>(c, node) \<in> set cs. c < node_total p \<and> node = graph_nodes p ! c" "distinct (map fst cs)"
    using Cons.prems by simp_all
  show ?case
  proof (cases "(c, x) \<in> edges p m")
    case False
    from Cons.IH [OF cs Cons.prems(3), of ready] Cons.prems(4) obtain rem' r where
      "release_candidates m x cs rem ready = Some (rem', ready @ r)" "length rem' = node_total p"
      "\<forall>k < node_total p. rem' ! k =
            (if k \<in> fst ` set cs \<and> (k, x) \<in> edges p m then rem ! k - 1 else rem ! k)"
      "set r = {c \<in> fst ` set cs. (c, x) \<in> edges p m \<and> rem ! c = 1}" by auto
    with False show ?thesis
      by (intro exI [of _ rem'] exI [of _ r]) (auto simp: cn dd)
  next
    case True
    let ?rem = "rem[c := rem ! c - 1]"
    let ?one = "if rem ! c = 1 then [c] else []"
    have pos: "0 < rem ! c" using Cons.prems(4) True by (simp add: cn)
    have other: "?rem ! k = rem ! k" if "k \<noteq> c" for k using that by simp
    have clen: "c < length rem" using Cons.prems(3) c(1) by simp
    have "\<forall>k \<in> fst ` set cs. (k, x) \<in> edges p m \<longrightarrow> 0 < ?rem ! k"
      using Cons.prems(4) c(3) other by (metis cn image_eqI insert_iff list.set(2) image_insert)
    from Cons.IH [OF cs _ this, of "ready @ ?one"] Cons.prems(3) obtain rem' r where
      r: "release_candidates m x cs ?rem (ready @ ?one) = Some (rem', (ready @ ?one) @ r)"
      and len: "length rem' = node_total p"
      and rem': "\<forall>k < node_total p. rem' ! k =
            (if k \<in> fst ` set cs \<and> (k, x) \<in> edges p m then ?rem ! k - 1 else ?rem ! k)"
      and set_r: "set r = {c \<in> fst ` set cs. (c, x) \<in> edges p m \<and> ?rem ! c = 1}" by auto
    have "release_candidates m x (cn # cs) rem ready = Some (rem', ready @ ?one @ r)"
      using r True pos clen by (auto simp: cn dd Let_def)
    moreover have "\<forall>k < node_total p. rem' ! k =
        (if k \<in> fst ` set (cn # cs) \<and> (k, x) \<in> edges p m then rem ! k - 1 else rem ! k)"
      using rem' c(3) True clen by (auto simp: cn nth_list_update)
    moreover have "set (?one @ r) = {k \<in> fst ` set (cn # cs). (k, x) \<in> edges p m \<and> rem ! k = 1}"
      using set_r c(3) True clen by (auto simp: cn nth_list_update)
    ultimately show ?thesis using len by blast
  qed
qed

section \<open>Releasing a layer\<close>

definition rem_ok :: "TaskGraphProposal \<Rightarrow> (string \<rightharpoonup> nat) \<Rightarrow> nat set \<Rightarrow> nat list \<Rightarrow> bool" where
  "rem_ok p m dn rem \<longleftrightarrow>
     length rem = node_total p \<and> (\<forall>c < node_total p. rem ! c = card (deps_of p m c - dn))"

lemma card_one_member: "x \<in> A \<Longrightarrow> card A = 1 \<longleftrightarrow> A = {x}"
  by (auto simp: card_1_singleton_iff)

lemma release_layer_correct:
  assumes wi: "well_indexed p m"
  shows "\<lbrakk> rem_ok p m dn rem; distinct current; set current \<inter> dn = {} \<rbrakk>
    \<Longrightarrow> \<exists>rem' r. release_layer p m current rem ready = Some (rem', ready @ r)
       \<and> rem_ok p m (dn \<union> set current) rem'
       \<and> set r = {c. c < node_total p \<and> deps_of p m c \<subseteq> dn \<union> set current \<and> \<not> deps_of p m c \<subseteq> dn}"
proof (induction current arbitrary: dn rem ready)
  case Nil
  then show ?case by auto
next
  case (Cons x current)
  let ?cs = "zip [0..<node_total p] (graph_nodes p)"
  let ?dn = "insert x dn"
  have "fst ` set ?cs = set (map fst ?cs)" by (simp only: set_map)
  also have "map fst ?cs = [0..<node_total p]" by simp
  also have "set [0..<node_total p] = {..<node_total p}" by auto
  finally have fst_cs: "fst ` set ?cs = {..<node_total p}" .
  have cs: "\<forall>(c, node) \<in> set ?cs. c < node_total p \<and> node = graph_nodes p ! c" "distinct (map fst ?cs)"
    by (auto simp: set_zip)
  have len: "length rem = node_total p" and rem: "\<And>c. c < node_total p \<Longrightarrow> rem ! c = card (deps_of p m c - dn)"
    using Cons.prems(1) by (simp_all add: rem_ok_def)
  have x: "x \<notin> dn" "x \<notin> set current" using Cons.prems by auto
  have fin: "finite (deps_of p m c - dn)" for c using finite_deps_of [OF wi] by simp
  have drop: "(c, x) \<in> edges p m \<Longrightarrow> deps_of p m c - ?dn = (deps_of p m c - dn) - {x} \<and> x \<in> deps_of p m c - dn"
    and keep: "(c, x) \<notin> edges p m \<Longrightarrow> deps_of p m c - ?dn = deps_of p m c - dn" for c
    using x by auto
  have pos: "\<forall>c \<in> fst ` set ?cs. (c, x) \<in> edges p m \<longrightarrow> 0 < rem ! c"
    unfolding fst_cs using x(1) fin rem by (auto simp: card_gt_0_iff)
  obtain rem1 r1 where r1: "release_candidates m x ?cs rem ready = Some (rem1, ready @ r1)"
    and len1: "length rem1 = node_total p"
    and rem1: "\<forall>k < node_total p. rem1 ! k = (if (k, x) \<in> edges p m then rem ! k - 1 else rem ! k)"
    and set_r1: "set r1 = {c. c < node_total p \<and> (c, x) \<in> edges p m \<and> rem ! c = 1}"
    using release_candidates_correct [OF wi cs len pos, of ready] unfolding fst_cs by auto
  have ok1: "rem_ok p m ?dn rem1"
    unfolding rem_ok_def using len1 rem1 rem drop keep fin by (auto simp: card_Diff_singleton)
  have layer1: "set r1 = {c. c < node_total p \<and> deps_of p m c \<subseteq> ?dn \<and> \<not> deps_of p m c \<subseteq> dn}"
  proof -
    have "(c, x) \<in> edges p m \<and> rem ! c = 1 \<longleftrightarrow> deps_of p m c \<subseteq> ?dn \<and> \<not> deps_of p m c \<subseteq> dn"
      if c: "c < node_total p" for c
    proof (cases "(c, x) \<in> edges p m")
      case True
      have "rem ! c = 1 \<longleftrightarrow> deps_of p m c - dn = {x}"
        using card_one_member [of x "deps_of p m c - dn"] drop [OF True] rem [OF c] by simp
      also have "\<dots> \<longleftrightarrow> deps_of p m c \<subseteq> ?dn" using True x by blast
      finally show ?thesis using True x by blast
    qed (use x in blast)
    then show ?thesis unfolding set_r1 by blast
  qed
  obtain rem2 r2 where r2: "release_layer p m current rem1 (ready @ r1) = Some (rem2, (ready @ r1) @ r2)"
    and ok2: "rem_ok p m (?dn \<union> set current) rem2"
    and layer2: "set r2 = {c. c < node_total p \<and> deps_of p m c \<subseteq> ?dn \<union> set current \<and> \<not> deps_of p m c \<subseteq> ?dn}"
    using Cons.IH [OF ok1, of "ready @ r1"] Cons.prems by auto
  have "set (r1 @ r2) = {c. c < node_total p \<and> deps_of p m c \<subseteq> dn \<union> set (x # current) \<and> \<not> deps_of p m c \<subseteq> dn}"
    unfolding set_append layer1 layer2 by auto
  then show ?case using r1 r2 ok2 by (auto simp: insert_commute intro!: exI [of _ rem2] exI [of _ "r1 @ r2"])
qed

section \<open>Rounds\<close>

text \<open>\<open>layered\<close>: every dependency of a node lies in an earlier layer.\<close>

definition layered :: "TaskGraphProposal \<Rightarrow> (string \<rightharpoonup> nat) \<Rightarrow> nat list list \<Rightarrow> bool" where
  "layered p m layers \<longleftrightarrow>
     (\<forall>a l b. layers = a @ l # b \<longrightarrow> (\<forall>x \<in> set l. deps_of p m x \<subseteq> set (concat a)))"

lemma layered_snoc:
  assumes "layered p m layers" and "\<forall>x \<in> set l. deps_of p m x \<subseteq> set (concat layers)"
  shows "layered p m (layers @ [l])"
  unfolding layered_def
proof (intro allI impI)
  fix a k b assume eq: "layers @ [l] = a @ k # b"
  show "\<forall>x \<in> set k. deps_of p m x \<subseteq> set (concat a)"
  proof (cases b rule: rev_cases)
    case Nil
    with eq assms(2) show ?thesis by simp
  next
    case (snoc b' y)
    with eq have "layers = a @ k # b'" by simp
    with assms(1) show ?thesis by (simp add: layered_def)
  qed
qed

definition widest :: "nat list list \<Rightarrow> nat" where
  "widest layers = fold max (map length layers) 0"

lemma widest_snoc: "widest (layers @ [l]) = max (widest layers) (length l)"
  by (simp add: widest_def max.commute)

definition rounds_inv ::
    "TaskGraphProposal \<Rightarrow> (string \<rightharpoonup> nat) \<Rightarrow> nat list list \<Rightarrow> nat list \<Rightarrow> nat list \<Rightarrow> bool" where
  "rounds_inv p m layers rem ready \<longleftrightarrow>
     rem_ok p m (set (concat layers)) rem
   \<and> distinct ready
   \<and> set ready = {c. c < node_total p \<and> c \<notin> set (concat layers) \<and> deps_of p m c \<subseteq> set (concat layers)}
   \<and> layered p m layers \<and> distinct (concat layers) \<and> set (concat layers) \<subseteq> {..<node_total p}
   \<and> [] \<notin> set layers"

lemma layered_closed:
  assumes "layered p m layers" and "x \<in> set (concat layers)"
  shows "deps_of p m x \<subseteq> set (concat layers)"
proof -
  obtain l where "l \<in> set layers" "x \<in> set l" using assms(2) by auto
  then obtain a b where "layers = a @ l # b" by (meson split_list)
  with assms(1) \<open>x \<in> set l\<close> have "deps_of p m x \<subseteq> set (concat a)" unfolding layered_def by blast
  with \<open>layers = a @ l # b\<close> show ?thesis by auto
qed

lemma rounds_step:
  assumes wi: "well_indexed p m" and inv: "rounds_inv p m layers rem ready" and ne: "ready \<noteq> []"
  shows "\<exists>rem' r. release_layer p m ready rem [] = Some (rem', r)
     \<and> rounds_inv p m (layers @ [ready]) rem' (remdups_adj (sort r))"
proof -
  let ?dn = "set (concat layers)"
  have ready: "set ready = {c. c < node_total p \<and> c \<notin> ?dn \<and> deps_of p m c \<subseteq> ?dn}"
    and dist: "distinct ready" and lay: "layered p m layers" and ok0: "rem_ok p m ?dn rem"
    using inv by (simp_all add: rounds_inv_def)
  have disj: "set ready \<inter> ?dn = {}" using ready by blast
  obtain rem' r where rl: "release_layer p m ready rem [] = Some (rem', r)"
    and ok: "rem_ok p m (?dn \<union> set ready) rem'"
    and r: "set r = {c. c < node_total p \<and> deps_of p m c \<subseteq> ?dn \<union> set ready \<and> \<not> deps_of p m c \<subseteq> ?dn}"
    using release_layer_correct [OF wi ok0 dist disj, of "[]"] by (metis append_Nil)
  let ?dn' = "set (concat (layers @ [ready]))"
  have dn': "?dn' = ?dn \<union> set ready" by simp
  have "set r = {c. c < node_total p \<and> c \<notin> ?dn' \<and> deps_of p m c \<subseteq> ?dn'}"
    unfolding r dn' using layered_closed [OF lay] ready by blast
  moreover have "distinct (remdups_adj (sort r))"
    using sort_dedup_strict [of r] by (simp add: strict_sorted_iff)
  moreover have "layered p m (layers @ [ready])"
    by (rule layered_snoc [OF lay]) (use ready in blast)
  moreover have "distinct (concat (layers @ [ready]))"
    using inv dist disj by (auto simp: rounds_inv_def)
  moreover have "?dn' \<subseteq> {..<node_total p}"
    unfolding dn' ready using inv by (auto simp: rounds_inv_def)
  moreover have "[] \<notin> set (layers @ [ready])" using inv ne by (simp add: rounds_inv_def)
  ultimately have "rounds_inv p m (layers @ [ready]) rem' (remdups_adj (sort r))"
    using ok unfolding rounds_inv_def dn' by (simp only: remdups_adj_set set_sort) blast
  with rl show ?thesis by blast
qed

lemma rounds_finished:
  assumes wi: "well_indexed p m" and ac: "acyclic (edges p m)" and inv: "rounds_inv p m layers rem []"
  shows "set (concat layers) = {..<node_total p}"
proof (rule ccontr)
  let ?dn = "set (concat layers)"
  let ?left = "{..<node_total p} - ?dn"
  assume "?dn \<noteq> {..<node_total p}"
  moreover have "?dn \<subseteq> {..<node_total p}" using inv by (simp add: rounds_inv_def)
  ultimately obtain c where c: "c \<in> ?left" by blast
  have "edges p m \<subseteq> {..<node_total p} \<times> {..<node_total p}" using edges_bound [OF wi] by auto
  then have "finite (edges p m)" by (rule finite_subset) simp
  then have "wf ((edges p m)\<inverse>)" using ac by (rule finite_acyclic_wf_converse)
  then obtain z where z: "z \<in> ?left" "\<And>y. (y, z) \<in> (edges p m)\<inverse> \<Longrightarrow> y \<notin> ?left"
    using c by (rule wfE_min) blast
  then have "deps_of p m z \<subseteq> ?dn" using edges_bound [OF wi] by blast
  with z(1) inv show False by (auto simp: rounds_inv_def)
qed

lemma topological_rounds_correct:
  assumes wi: "well_indexed p m" and ac: "acyclic (edges p m)"
  shows "\<lbrakk> rounds_inv p m layers rem ready; node_total p - length (concat layers) < fuel \<rbrakk>
    \<Longrightarrow> \<exists>layers'. topological_rounds fuel p m rem ready (map (key_at p) (concat layers)) (widest layers)
          = Some (map (key_at p) (concat layers'), widest layers')
       \<and> layered p m layers' \<and> distinct (concat layers') \<and> [] \<notin> set layers'
       \<and> set (concat layers') = {..<node_total p}"
proof (induction fuel arbitrary: layers rem ready)
  case 0
  then show ?case by simp
next
  case (Suc fuel)
  show ?case
  proof (cases "ready = []")
    case True
    with Suc.prems(1) rounds_finished [OF wi ac] show ?thesis
      by (intro exI [of _ layers]) (simp add: rounds_inv_def)
  next
    case False
    obtain rem' r where rl: "release_layer p m ready rem [] = Some (rem', r)"
      and inv: "rounds_inv p m (layers @ [ready]) rem' (remdups_adj (sort r))"
      using rounds_step [OF wi Suc.prems(1) False] by blast
    have "distinct (concat (layers @ [ready]))" "set (concat (layers @ [ready])) \<subseteq> {..<node_total p}"
      using inv by (simp_all add: rounds_inv_def)
    then have "length (concat (layers @ [ready])) \<le> node_total p"
      by (metis card_lessThan card_mono distinct_card finite_lessThan)
    then have "node_total p - length (concat (layers @ [ready])) < fuel"
      using Suc.prems(2) False by (cases ready) auto
    from Suc.IH [OF inv this] show ?thesis using False rl by (simp add: widest_snoc)
  qed
qed

lemma topological_summary_correct:
  assumes ig: "indexed_graph p m" and ac: "acyclic (edges p m)"
  shows "\<exists>layers. topological_summary p m = Some (map (key_at p) (concat layers), widest layers)
     \<and> layered p m layers \<and> distinct (concat layers) \<and> [] \<notin> set layers
     \<and> set (concat layers) = {..<node_total p}"
proof -
  let ?rem = "map (\<lambda>node. length (node_dependencies node)) (graph_nodes p)"
  have wi: "well_indexed p m" using ig by (simp add: indexed_graph_def)
  have rem: "?rem ! c = card (deps_of p m c)" if "c < node_total p" for c
    using length_deps [OF ig that] that by simp
  then have "rounds_inv p m [] ?rem (filter (\<lambda>i. ?rem ! i = 0) [0..<node_total p])"
    using finite_deps_of [OF wi] unfolding rounds_inv_def rem_ok_def layered_def
    by (auto simp del: nth_map)
  note rounds = topological_rounds_correct [OF wi ac this, of "Suc (node_total p)"]
  have start: "map (key_at p) (concat []) = []" "widest [] = 0" by (simp_all add: widest_def)
  show ?thesis
    using rounds unfolding topological_summary_def Let_def length_map start by simp
qed

end
