(* ===== verification/Graph_Validation.thy ===== *)
theory Graph_Validation
  imports Graph_Order
begin

text \<open>
  The contract of \<open>validate_task_graph\<close> (\<open>graph.rs\<close>): a declarative description of the accepted proposals,
  stated over node keys, and the proof that the validator accepts exactly those, never panics, reports
  genuine cycles, and returns a topological order of the keys.
\<close>

section \<open>Declarative specification\<close>

definition node_keys :: "TaskGraphProposal \<Rightarrow> string list" where
  "node_keys p = map node_key (graph_nodes p)"

definition key_edges :: "TaskGraphProposal \<Rightarrow> (string \<times> string) set" where
  "key_edges p = {(node_key n, d) | n d. n \<in> set (graph_nodes p) \<and> d \<in> set (node_dependencies n)}"

definition node_acceptable ::
    "TaskGraphProposal \<Rightarrow> GraphValidationPolicy \<Rightarrow> TaskGraphNode \<Rightarrow> bool" where
  "node_acceptable p policy n \<longleftrightarrow>
     \<not> is_blank (node_key n)
   \<and> (node_write_scopes n \<noteq> []) \<noteq> node_repository_wide_write_scope n
   \<and> (case node_provider n of Some pr \<Rightarrow> pr | None \<Rightarrow> graph_planner_provider p) \<in> eligible_providers policy
   \<and> node_profile n \<in> eligible_profiles policy"

definition dependencies_acceptable :: "TaskGraphProposal \<Rightarrow> TaskGraphNode \<Rightarrow> bool" where
  "dependencies_acceptable p n \<longleftrightarrow>
     distinct (node_dependencies n) \<and> set (node_dependencies n) \<subseteq> set (node_keys p) - {node_key n}"

definition scopes_disjoint :: "TaskGraphNode \<Rightarrow> TaskGraphNode \<Rightarrow> bool" where
  "scopes_disjoint a b \<longleftrightarrow>
     \<not> node_repository_wide_write_scope a \<and> \<not> node_repository_wide_write_scope b
   \<and> (\<forall>l \<in> set (node_write_scopes a). \<forall>r \<in> set (node_write_scopes b). \<not> repo_paths_overlap l r)"

definition independent_scopes_disjoint :: "TaskGraphProposal \<Rightarrow> bool" where
  "independent_scopes_disjoint p \<longleftrightarrow>
     (\<forall>j < length (graph_nodes p). \<forall>i < j.
        (key_at p i, key_at p j) \<notin> (key_edges p)\<^sup>+ \<and> (key_at p j, key_at p i) \<notin> (key_edges p)\<^sup>+
        \<longrightarrow> scopes_disjoint (graph_nodes p ! i) (graph_nodes p ! j))"

definition policy_acceptable :: "GraphValidationPolicy \<Rightarrow> bool" where
  "policy_acceptable policy \<longleftrightarrow>
     max_parallel_workers policy \<noteq> 0 \<and> (\<forall>pr. per_provider_limits policy pr \<noteq> Some 0)"

definition graph_acceptable :: "TaskGraphProposal \<Rightarrow> GraphValidationPolicy \<Rightarrow> bool" where
  "graph_acceptable p policy \<longleftrightarrow>
     policy_acceptable policy \<and> graph_schema_version p = SchemaVersion_V1 \<and> graph_nodes p \<noteq> []
   \<and> distinct (node_keys p)
   \<and> (\<forall>n \<in> set (graph_nodes p). node_acceptable p policy n \<and> dependencies_acceptable p n)
   \<and> acyclic (key_edges p) \<and> independent_scopes_disjoint p"

section \<open>The passes of the validator\<close>

lemma validate_policy_ok: "validate_policy policy = Inr () \<longleftrightarrow> policy_acceptable policy"
  by (auto simp: validate_policy_def policy_acceptable_def find_None_iff find_Some_iff
      split: option.splits)

lemma validate_node_ok:
  "validate_node p policy i m n = Inr m' \<longleftrightarrow>
     node_acceptable p policy n \<and> m (node_key n) = None \<and> m' = m(node_key n \<mapsto> i)"
  by (auto simp: validate_node_def node_acceptable_def Let_def)

lemma validate_nodes_ok:
  "validate_nodes p policy k m ns = Inr m' \<longleftrightarrow>
     (\<forall>n \<in> set ns. node_acceptable p policy n)
   \<and> distinct (map node_key ns) \<and> (\<forall>n \<in> set ns. m (node_key n) = None)
   \<and> m' = m ++ map_of (zip (map node_key ns) [k..<k + length ns])"
proof (induction ns arbitrary: k m)
  case Nil
  then show ?case by auto
next
  case (Cons n ns)
  have upt: "[k..<k + length (n # ns)] = k # [Suc k..<Suc k + length ns]"
    by (simp add: upt_conv_Cons del: upt_Suc)
  have merge: "m ++ map_of (zip (map node_key (n # ns)) [k..<k + length (n # ns)])
      = m(node_key n \<mapsto> k) ++ map_of (zip (map node_key ns) [Suc k..<Suc k + length ns])"
    if "node_key n \<notin> node_key ` set ns"
    unfolding upt using that by (simp add: map_add_upd_left dom_map_of_zip)
  show ?case
  proof (cases "validate_node p policy k m n")
    case (Inl e)
    then have "\<not> (node_acceptable p policy n \<and> m (node_key n) = None)"
      using validate_node_ok [of p policy k m n "m(node_key n \<mapsto> k)"] by simp
    with Inl show ?thesis by auto
  next
    case (Inr m1)
    then have n: "node_acceptable p policy n" "m (node_key n) = None" "m1 = m(node_key n \<mapsto> k)"
      using validate_node_ok by blast+
    have others: "(\<forall>x \<in> set ns. m1 (node_key x) = None) \<longleftrightarrow>
        node_key n \<notin> node_key ` set ns \<and> (\<forall>x \<in> set ns. m (node_key x) = None)"
      using n(3) by (force simp: image_iff)
    define M where "M = m ++ map_of (zip (map node_key (n # ns)) [k..<k + length (n # ns)])"
    define N where "N = m1 ++ map_of (zip (map node_key ns) [Suc k..<Suc k + length ns])"
    have MN: "node_key n \<notin> node_key ` set ns \<Longrightarrow> M = N"
      unfolding M_def N_def n(3) by (rule merge)
    have "validate_nodes p policy k m (n # ns) = Inr m' \<longleftrightarrow>
        (\<forall>x \<in> set ns. node_acceptable p policy x) \<and> distinct (map node_key ns)
        \<and> (\<forall>x \<in> set ns. m1 (node_key x) = None) \<and> m' = N"
      unfolding N_def Cons.IH [of "Suc k" m1, symmetric] by (simp add: Inr)
    then show ?thesis
      unfolding M_def [symmetric] others using n(1,2) MN by auto
  qed
qed

lemma validate_nodes_start_ok:
  "validate_nodes p policy 0 Map.empty (graph_nodes p) = Inr m \<longleftrightarrow>
     (\<forall>n \<in> set (graph_nodes p). node_acceptable p policy n) \<and> distinct (node_keys p)
   \<and> m = map_of (zip (node_keys p) [0..<length (node_keys p)])"
  by (auto simp: validate_nodes_ok node_keys_def)

lemma validate_dependencies_of_ok:
  "validate_dependencies_of m key seen ds = Inr () \<longleftrightarrow>
     distinct ds \<and> set ds \<inter> seen = {} \<and> key \<notin> set ds \<and> set ds \<subseteq> dom m"
  by (induction ds arbitrary: seen) auto

lemma validate_dependencies_ok:
  assumes "dom m = set (node_keys p)"
  shows "validate_dependencies m (graph_nodes p) = Inr () \<longleftrightarrow>
     (\<forall>n \<in> set (graph_nodes p). dependencies_acceptable p n)"
  using assms
  by (auto simp: validate_dependencies_def try_each_ok validate_dependencies_of_ok
      dependencies_acceptable_def)

section \<open>Indexes and keys\<close>

text \<open>\<open>key_index p\<close>: the map the first pass builds.\<close>

definition key_index :: "TaskGraphProposal \<Rightarrow> (string \<rightharpoonup> nat)" where
  "key_index p = map_of (zip (node_keys p) [0..<length (node_keys p)])"

definition keyed :: "TaskGraphProposal \<Rightarrow> bool" where
  "keyed p \<longleftrightarrow> distinct (node_keys p) \<and> (\<forall>n \<in> set (graph_nodes p). dependencies_acceptable p n)"

lemma length_node_keys [simp]: "length (node_keys p) = node_total p"
  by (simp add: node_keys_def)

lemma key_at_node_keys: "i < node_total p \<Longrightarrow> node_keys p ! i = key_at p i"
  by (simp add: node_keys_def key_at_def)

lemma dom_key_index: "dom (key_index p) = set (node_keys p)"
  by (simp add: key_index_def dom_map_of_zip)

lemma key_index_iff:
  assumes "distinct (node_keys p)"
  shows "key_index p k = Some i \<longleftrightarrow> i < node_total p \<and> key_at p i = k"
  using map_of_zip_upt [OF assms, of i] map_of_zip_upt_inv [of "node_keys p" k i]
  by (auto simp: key_index_def key_at_node_keys [symmetric])

lemma key_at_inj:
  "distinct (node_keys p) \<Longrightarrow> i < node_total p \<Longrightarrow> j < node_total p \<Longrightarrow> key_at p i = key_at p j \<Longrightarrow> i = j"
  by (metis key_at_node_keys length_node_keys nth_eq_iff_index_eq)

lemma keyed_indexed_graph:
  assumes "keyed p"
  shows "indexed_graph p (key_index p)"
proof -
  have d: "distinct (node_keys p)" using assms by (simp add: keyed_def)
  have "\<exists>j < node_total p. key_index p dep = Some j"
    if "i < node_total p" "dep \<in> set (node_dependencies (graph_nodes p ! i))" for i dep
  proof -
    have "dep \<in> set (node_keys p)"
      using assms that nth_mem by (fastforce simp: keyed_def dependencies_acceptable_def)
    then show ?thesis using dom_key_index [of p] key_index_iff [OF d, of dep] by (metis domD)
  qed
  moreover have "inj_on (key_index p) (dom (key_index p))"
    by (rule inj_onI) (metis domD key_index_iff [OF d])
  moreover have "\<forall>i < node_total p. distinct (node_dependencies (graph_nodes p ! i))"
    using assms nth_mem by (auto simp: keyed_def dependencies_acceptable_def)
  ultimately show ?thesis by (simp add: indexed_graph_def well_indexed_def)
qed

lemma edges_key_edges:
  assumes "keyed p" and "i < node_total p"
  shows "(i, j) \<in> edges p (key_index p) \<longleftrightarrow> j < node_total p \<and> (key_at p i, key_at p j) \<in> key_edges p"
proof -
  have d: "distinct (node_keys p)" using assms by (simp add: keyed_def)
  have "n = graph_nodes p ! i" if "n \<in> set (graph_nodes p)" "node_key n = key_at p i" for n
    using that assms(2) key_at_inj [OF d] by (metis in_set_conv_nth key_at_def)
  then show ?thesis
    using assms(2) nth_mem [OF assms(2)]
    by (auto simp: edges_def key_edges_def key_index_iff [OF d] key_at_def)
qed

lemma key_edges_keys:
  assumes "keyed p" and "(a, b) \<in> key_edges p"
  obtains i j where "i < node_total p" "j < node_total p" "a = key_at p i" "b = key_at p j"
proof -
  have "a \<in> set (node_keys p)" "b \<in> set (node_keys p)"
    using assms by (auto simp: key_edges_def keyed_def dependencies_acceptable_def node_keys_def)
  then show ?thesis using that by (metis in_set_conv_nth key_at_node_keys length_node_keys)
qed

lemma edges_trancl_key_edges:
  assumes k: "keyed p" and "i < node_total p" "j < node_total p"
  shows "(i, j) \<in> (edges p (key_index p))\<^sup>+ \<longleftrightarrow> (key_at p i, key_at p j) \<in> (key_edges p)\<^sup>+"
proof
  have wi: "well_indexed p (key_index p)"
    using keyed_indexed_graph [OF k] by (simp add: indexed_graph_def)
  assume "(i, j) \<in> (edges p (key_index p))\<^sup>+"
  then show "(key_at p i, key_at p j) \<in> (key_edges p)\<^sup>+"
  proof (induction rule: trancl_induct)
    case (base y)
    then show ?case using edges_key_edges [OF k assms(2)] by blast
  next
    case (step y z)
    then have "(key_at p y, key_at p z) \<in> key_edges p"
      using edges_bound [OF wi step.hyps(2)] edges_key_edges [OF k] by blast
    with step.IH show ?case by (rule trancl_into_trancl)
  qed
next
  have d: "distinct (node_keys p)" using k by (simp add: keyed_def)
  have "(i, x) \<in> (edges p (key_index p))\<^sup>+"
    if "(key_at p i, b) \<in> (key_edges p)\<^sup>+" "x < node_total p" "b = key_at p x" for b x
    using that
  proof (induction arbitrary: x rule: trancl_induct)
    case (base y)
    then show ?case using edges_key_edges [OF k assms(2)] by blast
  next
    case (step y z)
    obtain u v where u: "u < node_total p" "y = key_at p u"
      using key_edges_keys [OF k step.hyps(2)] by metis
    then have "(u, x) \<in> edges p (key_index p)"
      using step.hyps(2) step.prems edges_key_edges [OF k] by blast
    with step.IH [OF u] show ?case by (rule trancl_into_trancl)
  qed
  then show "(key_at p i, key_at p j) \<in> (key_edges p)\<^sup>+ \<Longrightarrow> (i, j) \<in> (edges p (key_index p))\<^sup>+"
    using assms(3) by blast
qed

lemma acyclic_key_edges:
  assumes "keyed p"
  shows "acyclic (edges p (key_index p)) \<longleftrightarrow> acyclic (key_edges p)"
proof
  assume ac: "acyclic (edges p (key_index p))"
  show "acyclic (key_edges p)"
  proof (rule acyclicI, intro allI notI)
    fix a assume a: "(a, a) \<in> (key_edges p)\<^sup>+"
    then obtain b where "(a, b) \<in> key_edges p" by (blast dest: tranclD)
    then obtain i where "i < node_total p" "a = key_at p i" using key_edges_keys [OF assms] by metis
    with a ac show False using edges_trancl_key_edges [OF assms] by (metis acyclic_def)
  qed
next
  assume ac: "acyclic (key_edges p)"
  have wi: "well_indexed p (key_index p)"
    using keyed_indexed_graph [OF assms] by (simp add: indexed_graph_def)
  show "acyclic (edges p (key_index p))"
  proof (rule acyclicI, intro allI notI)
    fix i assume i: "(i, i) \<in> (edges p (key_index p))\<^sup>+"
    then have "i < node_total p" using edges_trancl_bound [OF _ wi] by blast
    with i ac show False using edges_trancl_key_edges [OF assms] by (metis acyclic_def)
  qed
qed

lemma overlapping_scope_None: "overlapping_scope a b = None \<longleftrightarrow> scopes_disjoint a b"
  by (auto simp: overlapping_scope_def scopes_disjoint_def find_None_iff)

section \<open>The later passes on a keyed proposal\<close>

lemma validate_pair_correct:
  assumes "keyed p" and "i < node_total p" "j < node_total p"
  shows "validate_pair p (key_index p) (i, j) =
     Some (if (key_at p i, key_at p j) \<in> (key_edges p)\<^sup>+ \<or> (key_at p j, key_at p i) \<in> (key_edges p)\<^sup>+
           then Inr ()
           else case overlapping_scope (graph_nodes p ! i) (graph_nodes p ! j) of
                  None \<Rightarrow> Inr ()
                | Some (ls, rs) \<Rightarrow> Inl (IndependentWriteScopeOverlap (key_at p i) (key_at p j) ls rs))"
proof -
  have wi: "well_indexed p (key_index p)"
    using keyed_indexed_graph [OF assms(1)] by (simp add: indexed_graph_def)
  note td = transitively_depends_correct [OF wi assms(2), of j]
    transitively_depends_correct [OF wi assms(3), of i]
  show ?thesis
    using edges_trancl_key_edges [OF assms] edges_trancl_key_edges [OF assms(1,3,2)]
    by (auto simp: validate_pair_def td key_at_def Let_def split: option.splits bool.splits)
qed

lemma set_index_pairs: "set (index_pairs n) = {(i, j). i < j \<and> j < n}"
  by (fastforce simp: index_pairs_def)

lemma validate_pairs_total:
  assumes "keyed p" and "set ps \<subseteq> {(i, j). i < j \<and> j < node_total p}"
  shows "\<exists>r. validate_pairs p (key_index p) ps = Some r \<and>
     (r = Inr () \<longleftrightarrow> (\<forall>pr \<in> set ps. validate_pair p (key_index p) pr = Some (Inr ())))"
  using assms(2)
proof (induction ps)
  case Nil
  then show ?case by simp
next
  case (Cons pr ps)
  obtain i j where pr: "pr = (i, j)" by (cases pr)
  have "i < node_total p" "j < node_total p" using Cons.prems pr by auto
  then obtain r where r: "validate_pair p (key_index p) pr = Some r"
    using validate_pair_correct [OF assms(1)] pr by blast
  show ?case
  proof (cases r)
    case (Inl e)
    with r show ?thesis by simp
  next
    case (Inr u)
    with r Cons show ?thesis by simp
  qed
qed

lemma validate_independent_scopes_correct:
  assumes "keyed p"
  shows "\<exists>r. validate_independent_scopes p (key_index p) = Some r \<and>
     (r = Inr () \<longleftrightarrow> independent_scopes_disjoint p)"
proof -
  have ok: "validate_pair p (key_index p) (i, j) = Some (Inr ()) \<longleftrightarrow>
      ((key_at p i, key_at p j) \<notin> (key_edges p)\<^sup>+ \<and> (key_at p j, key_at p i) \<notin> (key_edges p)\<^sup>+
        \<longrightarrow> scopes_disjoint (graph_nodes p ! i) (graph_nodes p ! j))"
    if "i < j" "j < node_total p" for i j
    using validate_pair_correct [OF assms, of i j] that
    by (auto simp: overlapping_scope_None [symmetric] split: option.splits)
  have "(\<forall>pr \<in> set (index_pairs (node_total p)). validate_pair p (key_index p) pr = Some (Inr ()))
      \<longleftrightarrow> independent_scopes_disjoint p"
    unfolding set_index_pairs independent_scopes_disjoint_def using ok by auto
  with validate_pairs_total [OF assms, of "index_pairs (node_total p)"] show ?thesis
    by (simp add: validate_independent_scopes_def set_index_pairs)
qed

text \<open>What a cycle report means over keys.\<close>

definition key_cycle :: "TaskGraphProposal \<Rightarrow> string list \<Rightarrow> bool" where
  "key_cycle p path \<longleftrightarrow>
     2 \<le> length path \<and> hd path = last path \<and> successively (\<lambda>a b. (a, b) \<in> key_edges p) path"

lemma dependency_cycle_key_cycle:
  assumes "keyed p" and "dependency_cycle p (key_index p) path"
  shows "key_cycle p path"
proof -
  obtain xs where xs: "path = map (key_at p) xs" "2 \<le> length xs" "hd xs = last xs"
    "successively (\<lambda>i j. (i, j) \<in> edges p (key_index p)) xs"
    using assms(2) unfolding dependency_cycle_def by blast
  have "successively (\<lambda>i j. (key_at p i, key_at p j) \<in> key_edges p) xs"
    using xs(4)
  proof (rule successively_mono)
    fix i j assume "(i, j) \<in> edges p (key_index p)"
    then show "(key_at p i, key_at p j) \<in> key_edges p"
      using edges_key_edges [OF assms(1)] by (auto simp: edges_def)
  qed
  moreover have "xs \<noteq> []" using xs(2) by auto
  ultimately show ?thesis
    using xs by (simp add: key_cycle_def successively_map hd_map last_map)
qed

lemma key_cycle_cyclic: "key_cycle p path \<Longrightarrow> \<not> acyclic (key_edges p)"
  unfolding key_cycle_def by (metis acyclic_def successively_trancl)

lemma find_cycle_keyed:
  assumes "keyed p"
  shows "\<exists>r. find_cycle p (key_index p) = Some r \<and>
     (case r of None \<Rightarrow> acyclic (key_edges p) | Some path \<Rightarrow> key_cycle p path)"
proof -
  have wi: "well_indexed p (key_index p)"
    using keyed_indexed_graph [OF assms] by (simp add: indexed_graph_def)
  from find_cycle_correct [OF this] show ?thesis
    using dependency_cycle_key_cycle [OF assms] acyclic_key_edges [OF assms]
    by (metis option.case_eq_if)
qed

text \<open>\<open>key_ordered\<close>: each key comes after all of its dependencies.\<close>

definition key_ordered :: "TaskGraphProposal \<Rightarrow> string list \<Rightarrow> bool" where
  "key_ordered p order \<longleftrightarrow> (\<forall>a k b. order = a @ k # b \<longrightarrow> (\<forall>d. (k, d) \<in> key_edges p \<longrightarrow> d \<in> set a))"

lemma layered_order:
  assumes "layered p m layers" and "distinct (concat layers)" and "concat layers = a @ i # b"
  shows "deps_of p m i \<subseteq> set a"
proof -
  have "i \<in> set (concat layers)" using assms(3) by simp
  then obtain l where l: "l \<in> set layers" "i \<in> set l" by auto
  obtain A B where AB: "layers = A @ l # B" using l(1) by (meson split_list)
  obtain l1 l2 where l12: "l = l1 @ i # l2" using l(2) by (meson split_list)
  have eq: "a @ i # b = (concat A @ l1) @ i # (l2 @ concat B)" using assms(3) AB l12 by simp
  have "distinct (a @ i # b)" using assms(2) unfolding assms(3) .
  then have "i \<notin> set a" "i \<notin> set b" by auto
  then have "a = concat A @ l1" using eq by (metis append_Cons_eq_iff)
  moreover have "deps_of p m i \<subseteq> set (concat A)" using assms(1) AB l(2) by (auto simp: layered_def)
  ultimately show ?thesis by auto
qed

lemma length_le_concat: "l \<in> set layers \<Longrightarrow> length l \<le> length (concat layers)"
  by (induction layers) auto

lemma widest_le: "l \<in> set layers \<Longrightarrow> length l \<le> widest layers"
  by (induction layers rule: rev_induct) (auto simp: widest_snoc)

lemma widest_bound: "\<forall>l \<in> set layers. length l \<le> n \<Longrightarrow> widest layers \<le> n"
  by (induction layers rule: rev_induct) (auto simp: widest_snoc widest_def)

lemma topological_keys:
  assumes k: "keyed p" and ac: "acyclic (key_edges p)" and ne: "graph_nodes p \<noteq> []"
  shows "\<exists>order width. topological_summary p (key_index p) = Some (order, width)
     \<and> mset order = mset (node_keys p) \<and> key_ordered p order
     \<and> 1 \<le> width \<and> width \<le> node_total p"
proof -
  have ig: "indexed_graph p (key_index p)" by (rule keyed_indexed_graph [OF k])
  have ac': "acyclic (edges p (key_index p))" using ac acyclic_key_edges [OF k] by simp
  obtain layers where ts: "topological_summary p (key_index p)
        = Some (map (key_at p) (concat layers), widest layers)"
    and lay: "layered p (key_index p) layers" and dist: "distinct (concat layers)"
    and nonempty: "[] \<notin> set layers" and all: "set (concat layers) = {..<node_total p}"
    using topological_summary_correct [OF ig ac'] by blast
  have "mset (concat layers) = mset [0..<node_total p]"
    using dist all by (metis atLeast_upt distinct_upt set_eq_iff_mset_eq_distinct)
  then have perm: "mset (map (key_at p) (concat layers)) = mset (node_keys p)"
    by (metis key_at_node_keys length_node_keys map_cong map_nth mset_map atLeastLessThan_iff set_upt)
  have ordered: "key_ordered p (map (key_at p) (concat layers))"
    unfolding key_ordered_def
  proof (intro allI impI)
    fix a key b d assume "map (key_at p) (concat layers) = a @ key # b" and e: "(key, d) \<in> key_edges p"
    then obtain a' i b' where eq: "concat layers = a' @ i # b'" "a = map (key_at p) a'" "key = key_at p i"
      by (auto simp: map_eq_append_conv map_eq_Cons_conv)
    have i: "i < node_total p" using eq(1) all by (metis in_set_conv_decomp lessThan_iff)
    obtain j where j: "j < node_total p" "d = key_at p j" using key_edges_keys [OF k e] by metis
    have "j \<in> deps_of p (key_index p) i" using edges_key_edges [OF k i] j e eq(3) by simp
    then have "j \<in> set a'" using layered_order [OF lay dist eq(1)] by blast
    then show "d \<in> set a" using eq(2) j(2) by simp
  qed
  have len: "length (concat layers) = node_total p"
    using dist all by (metis card_lessThan distinct_card)
  then obtain l where l: "l \<in> set layers" using ne by (cases layers) auto
  then have "l \<noteq> []" using nonempty by blast
  then have "1 \<le> widest layers" using widest_le [OF l] by (cases l) simp_all
  moreover have "widest layers \<le> node_total p"
    using widest_bound length_le_concat len by metis
  ultimately show ?thesis using ts perm ordered by blast
qed

section \<open>The validator as a whole\<close>

lemma key_index_start:
  "validate_nodes p policy 0 Map.empty (graph_nodes p) = Inr m \<Longrightarrow> m = key_index p"
  by (simp add: validate_nodes_start_ok key_index_def)

lemma keyed_intro:
  assumes "validate_nodes p policy 0 Map.empty (graph_nodes p) = Inr m"
    and "validate_dependencies m (graph_nodes p) = Inr ()"
  shows "keyed p"
  using assms key_index_start [OF assms(1)]
  by (simp add: keyed_def validate_nodes_start_ok validate_dependencies_ok dom_key_index)

text \<open>One equation for the passes after the dependency check.\<close>

definition sealed_graph ::
    "'x graph_env_scheme \<Rightarrow> TaskGraphProposal \<Rightarrow> GraphValidationPolicy \<Rightarrow> GraphValidationAuthority option
     \<Rightarrow> string list \<times> nat \<Rightarrow> GraphValidationError + ValidatedTaskGraph" where
  "sealed_graph env p policy authority ow =
     (let validation =
        \<lparr> node_count = node_total p,
          edge_count = sum_list (map (\<lambda>n. length (node_dependencies n)) (graph_nodes p)),
          summary_topological_order = fst ow, maximum_parallel_width = snd ow,
          configured_parallel_workers = max_parallel_workers policy, summary_authority = authority \<rparr>
      in and_then (task_graph_proposal_hash env p validation)
        (\<lambda>hash. Inr \<lparr> validated_proposal = p, validated_topological_order = fst ow,
           validated_validation = validation, validated_proposal_hash = hash \<rparr>))"

lemma validate_tail:
  assumes "keyed p" and "graph_nodes p \<noteq> []"
  shows "\<exists>order width. \<exists>fc scopes. 
     find_cycle p (key_index p) = Some fc
   \<and> (case fc of None \<Rightarrow> acyclic (key_edges p) | Some path \<Rightarrow> key_cycle p path)
   \<and> validate_independent_scopes p (key_index p) = Some scopes
   \<and> (scopes = Inr () \<longleftrightarrow> independent_scopes_disjoint p)
   \<and> (fc = None \<longrightarrow> topological_summary p (key_index p) = Some (order, width)
        \<and> mset order = mset (node_keys p) \<and> key_ordered p order \<and> 1 \<le> width \<and> width \<le> node_total p)"
proof -
  obtain fc where fc: "find_cycle p (key_index p) = Some fc"
    "case fc of None \<Rightarrow> acyclic (key_edges p) | Some path \<Rightarrow> key_cycle p path"
    using find_cycle_keyed [OF assms(1)] by blast
  obtain scopes where sc: "validate_independent_scopes p (key_index p) = Some scopes"
    "scopes = Inr () \<longleftrightarrow> independent_scopes_disjoint p"
    using validate_independent_scopes_correct [OF assms(1)] by blast
  show ?thesis
  proof (cases fc)
    case None
    with fc(2) topological_keys [OF assms(1) _ assms(2)] fc(1) sc show ?thesis by fastforce
  next
    case (Some path)
    with fc sc show ?thesis by auto
  qed
qed

definition front_ok :: "TaskGraphProposal \<Rightarrow> GraphValidationPolicy \<Rightarrow> bool" where
  "front_ok p policy \<longleftrightarrow>
     policy_acceptable policy \<and> graph_schema_version p = SchemaVersion_V1 \<and> graph_nodes p \<noteq> []
   \<and> (\<forall>n \<in> set (graph_nodes p). node_acceptable p policy n) \<and> keyed p"

lemma supported_graph_schema:
  "is_supported_by v SUPPORTED_TASK_GRAPH_SCHEMA_VERSIONS \<longleftrightarrow> v = SchemaVersion_V1"
  by (auto simp: is_supported_by_def SUPPORTED_TASK_GRAPH_SCHEMA_VERSIONS_def TASK_GRAPH_SCHEMA_VERSION_def)

lemma validate_front_ok:
  assumes "front_ok p policy"
  shows "validate_task_graph_with_optional_authority env p policy authority =
     (case find_cycle p (key_index p) of
        None \<Rightarrow> None
      | Some (Some path) \<Rightarrow> Some (Inl (Cycle path))
      | Some None \<Rightarrow>
         (case validate_independent_scopes p (key_index p) of
            None \<Rightarrow> None
          | Some (Inl e) \<Rightarrow> Some (Inl e)
          | Some (Inr _) \<Rightarrow>
             map_option (sealed_graph env p policy authority) (topological_summary p (key_index p))))"
proof -
  have pol: "validate_policy policy = Inr ()" using assms by (simp add: front_ok_def validate_policy_ok)
  have nodes: "validate_nodes p policy 0 Map.empty (graph_nodes p) = Inr (key_index p)"
    using assms by (simp add: front_ok_def keyed_def validate_nodes_start_ok key_index_def)
  have deps: "validate_dependencies (key_index p) (graph_nodes p) = Inr ()"
    using assms validate_dependencies_ok [OF dom_key_index] by (simp add: front_ok_def keyed_def)
  show ?thesis
    using assms unfolding validate_task_graph_with_optional_authority_def
    by (simp add: pol nodes deps supported_graph_schema front_ok_def sealed_graph_def Let_def
        split: option.splits sum.splits)
qed

lemma validate_policy_err: "validate_policy policy \<noteq> Inl (Cycle path)"
  by (auto simp: validate_policy_def split: option.splits)

lemma validate_node_err: "validate_node p policy i m n \<noteq> Inl (Cycle path)"
  by (auto simp: validate_node_def Let_def)

lemma validate_nodes_err: "validate_nodes p policy i m ns \<noteq> Inl (Cycle path)"
  by (induction ns arbitrary: i m) (auto simp: validate_node_err split: sum.splits)

lemma validate_dependencies_of_err: "validate_dependencies_of m key seen ds \<noteq> Inl (Cycle path)"
  by (induction ds arbitrary: seen) auto

lemma validate_dependencies_err: "validate_dependencies m ns \<noteq> Inl (Cycle path)"
  unfolding validate_dependencies_def
  using try_each_err validate_dependencies_of_err by (metis (no_types, lifting))

lemma validate_front_fail:
  assumes "\<not> front_ok p policy"
  shows "\<exists>e. validate_task_graph_with_optional_authority env p policy authority = Some (Inl e)
     \<and> (\<forall>path. e \<noteq> Cycle path)"
proof -
  consider (policy) e where "validate_policy policy = Inl e"
    | (nodes) e where "validate_nodes p policy 0 Map.empty (graph_nodes p) = Inl e"
        "validate_policy policy = Inr ()"
    | (deps) m where "validate_nodes p policy 0 Map.empty (graph_nodes p) = Inr m"
        "validate_policy policy = Inr ()"
    by (cases "validate_policy policy"; cases "validate_nodes p policy 0 Map.empty (graph_nodes p)") auto
  then show ?thesis
  proof cases
    case policy
    then show ?thesis using validate_policy_err
      by (auto simp: validate_task_graph_with_optional_authority_def)
  next
    case nodes
    then show ?thesis using validate_nodes_err [of p policy 0 Map.empty "graph_nodes p"]
      by (auto simp: validate_task_graph_with_optional_authority_def)
  next
    case deps
    have m: "m = key_index p" by (rule key_index_start [OF deps(1)])
    show ?thesis
    proof (cases "validate_dependencies m (graph_nodes p)")
      case (Inl e)
      with deps show ?thesis using validate_dependencies_err [of m "graph_nodes p"]
        by (auto simp: validate_task_graph_with_optional_authority_def)
    next
      case (Inr u)
      then have "keyed p" using keyed_intro [OF deps(1)] by simp
      with assms deps have "graph_schema_version p \<noteq> SchemaVersion_V1 \<or> graph_nodes p = []"
        by (auto simp: front_ok_def validate_policy_ok validate_nodes_start_ok)
      with deps show ?thesis
        by (auto simp: validate_task_graph_with_optional_authority_def supported_graph_schema)
    qed
  qed
qed

lemma validate_pairs_err: "validate_pairs p m ps \<noteq> Some (Inl (Cycle path))"
proof (induction ps)
  case (Cons pr ps)
  have "validate_pair p m pr \<noteq> Some (Inl (Cycle path))"
    by (auto simp: validate_pair_def Let_def split: option.splits bool.splits prod.splits)
  with Cons show ?case by (auto split: option.splits sum.splits)
qed simp

lemma graph_acceptable_iff:
  "graph_acceptable p policy \<longleftrightarrow>
     front_ok p policy \<and> acyclic (key_edges p) \<and> independent_scopes_disjoint p"
  by (auto simp: graph_acceptable_def front_ok_def keyed_def)

text \<open>The complete picture of one call on a well-formed front: used by the properties below.\<close>

lemma validate_accepts:
  assumes "validate_task_graph_with_optional_authority env p policy authority = Some (Inr v)"
  obtains order width where "graph_acceptable p policy"
    "sealed_graph env p policy authority (order, width) = Inr v"
    "mset order = mset (node_keys p)" "key_ordered p order" "1 \<le> width" "width \<le> node_total p"
proof -
  have f: "front_ok p policy" using assms validate_front_fail [of p policy env authority] by auto
  then have k: "keyed p" and ne: "graph_nodes p \<noteq> []" by (simp_all add: front_ok_def)
  from validate_tail [OF k ne] assms f that show ?thesis
    by (fastforce simp: validate_front_ok [OF f] graph_acceptable_iff split: option.splits sum.splits)
qed

section \<open>Sample graphs\<close>

text \<open>Concrete proposals for the witnesses: \<open>sample_graph\<close> has a node \<open>b\<close> after \<open>a\<close> and an independent \<open>c\<close>;
  in \<open>cyclic_graph\<close> the nodes \<open>a\<close> and \<open>b\<close> depend on each other.\<close>

definition sample_env :: graph_env where
  "sample_env = \<lparr> json_quote = (\<lambda>s. s), sha256_hex = (\<lambda>_. replicate 64 CHR ''a''),
     seal_to_value = (\<lambda>_. Inr JNull), promotion_to_value = (\<lambda>_. Inr JNull) \<rparr>"

definition sample_policy :: GraphValidationPolicy where
  "sample_policy = \<lparr> eligible_providers = {Claude, Codex}, eligible_profiles = {Standard},
     max_parallel_workers = 2, per_provider_limits = Map.empty \<rparr>"

definition sample_node :: "string \<Rightarrow> string list \<Rightarrow> string \<Rightarrow> TaskGraphNode" where
  "sample_node key ds scope = \<lparr> node_key = key, node_title = ''t'', node_objective = ''o'',
     node_dependencies = ds, node_constraints = [], node_acceptance_criteria = [], node_provider = None,
     node_profile = Standard, node_write_scopes = [RepoPath scope],
     node_repository_wide_write_scope = False, node_risks = [], node_parallel_safety = '''' \<rparr>"

definition sample_proposal :: "TaskGraphNode list \<Rightarrow> TaskGraphProposal" where
  "sample_proposal nodes = \<lparr> graph_schema_version = SchemaVersion_V1, graph_revision_id = 1, graph_session_id = 2,
     graph_goal_message_id = 3, graph_planner_provider = Claude, graph_proposed_at = 0, graph_nodes = nodes \<rparr>"

definition sample_graph :: TaskGraphProposal where
  "sample_graph = sample_proposal
     [sample_node ''b'' [''a''] ''src/b'', sample_node ''a'' [] ''src/a'', sample_node ''c'' [] ''src/c'']"

definition cyclic_graph :: TaskGraphProposal where
  "cyclic_graph = sample_proposal [sample_node ''b'' [''a''] ''src/b'', sample_node ''a'' [''b''] ''src/a'']"

definition sample_validated :: ValidatedTaskGraph where
  "sample_validated =
     (let validation = \<lparr> node_count = 3, edge_count = 1, summary_topological_order = [''a'', ''c'', ''b''],
        maximum_parallel_width = 2, configured_parallel_workers = 2, summary_authority = None \<rparr>
      in \<lparr> validated_proposal = sample_graph, validated_topological_order = [''a'', ''c'', ''b''],
        validated_validation = validation, validated_proposal_hash = replicate 64 CHR ''a'' \<rparr>)"


lemma cyclic_rejected:
  "validate_task_graph_with_optional_authority sample_env cyclic_graph sample_policy None
     = Some (Inl (Cycle [''b'', ''a'', ''b'']))"
  by code_simp

lemma sample_accepted:
  "validate_task_graph_with_optional_authority sample_env sample_graph sample_policy None
     = Some (Inr sample_validated)"
  by code_simp


lemma sample_seal: "\<exists>j. seal_to_value sample_env x = Inr j"
  by (simp add: sample_env_def)

lemma sample_independent:
  "(key_at sample_graph 1, key_at sample_graph 2) \<notin> (key_edges sample_graph)\<^sup>+
 \<and> (key_at sample_graph 2, key_at sample_graph 1) \<notin> (key_edges sample_graph)\<^sup>+"
proof -
  have "key_edges sample_graph \<subseteq> {(''b'', ''a'')}"
    by (auto simp: key_edges_def sample_graph_def sample_proposal_def sample_node_def)
  moreover have "key_at sample_graph 1 = ''a''" "key_at sample_graph 2 = ''c''"
    by (simp_all add: key_at_def sample_graph_def sample_proposal_def sample_node_def)
  ultimately show ?thesis by (auto dest: tranclD)
qed

definition sample_authority :: GraphValidationAuthority where
  "sample_authority = \<lparr> auth_requirement_revision_id = 4, auth_validation_hash = replicate 64 CHR ''b'',
     auth_base_commit = replicate 40 CHR ''0'', auth_git_root_redacted = ''root'', auth_validation_checks = [''x''] \<rparr>"

definition sample_promotion :: GraphAuthorityPromotion where
  "sample_promotion = \<lparr> promo_schema_version = SchemaVersion_V1, promo_graph_revision_id = 1,
     promo_proposal_hash = replicate 64 CHR ''c'', promo_prior_authority = sample_authority,
     promo_git_root_redacted = ''root'', promo_base_commit = replicate 40 CHR ''d'',
     promo_validation_policy = sample_policy \<rparr>"

definition sample_promoted :: GraphValidationAuthority where
  "sample_promoted = sample_authority \<lparr> auth_validation_hash := replicate 64 CHR ''a'',
     auth_base_commit := replicate 40 CHR ''d'', auth_validation_checks := VALIDATION_CHECKS \<rparr>"

lemma sample_promotes: "promoted_authority sample_env sample_promotion = Inr sample_promoted"
  by code_simp

lemma sample_sha256: "is_sha256 (sha256_hex sample_env bytes)"
  by (simp add: sample_env_def) code_simp

lemma VALIDATION_CHECKS_non_blank: "all_non_blank VALIDATION_CHECKS"
  by code_simp

section \<open>Properties\<close>

text \<open>C4: graph validation is total: for every proposal, policy and authority it returns a verdict; no
  map or slice index it performs is out of range, no counter underflows and both searches end.\<close>

theorem validate_task_graph_total:
  "\<exists>verdict. validate_task_graph_with_optional_authority env p policy authority = Some verdict"
proof (cases "front_ok p policy")
  case True
  then have "keyed p" "graph_nodes p \<noteq> []" by (simp_all add: front_ok_def)
  from validate_tail [OF this] show ?thesis
    by (fastforce simp: validate_front_ok [OF True] split: option.splits sum.splits)
next
  case False
  then show ?thesis using validate_front_fail by blast
qed

text \<open>C3: the validator implements the declarative acceptance condition: when the proposal can be
  serialized for its seal, it is accepted exactly when the policy is well formed, the schema is
  supported, keys are distinct and non-blank, every node declares exactly one kind of write scope
  and an eligible provider and profile, dependencies are known, distinct and not self-referring, the
  dependency relation is acyclic, and independent nodes have disjoint write scopes.\<close>

theorem validate_accepts_iff_acceptable:
  assumes "\<And>x. \<exists>j. seal_to_value env x = Inr j"
  shows "(\<exists>v. validate_task_graph_with_optional_authority env p policy authority = Some (Inr v))
     \<longleftrightarrow> graph_acceptable p policy"
proof
  assume "\<exists>v. validate_task_graph_with_optional_authority env p policy authority = Some (Inr v)"
  then show "graph_acceptable p policy" using validate_accepts by blast
next
  assume acc: "graph_acceptable p policy"
  then have f: "front_ok p policy" and ac: "acyclic (key_edges p)" and sc: "independent_scopes_disjoint p"
    by (simp_all add: graph_acceptable_iff)
  have k: "keyed p" "graph_nodes p \<noteq> []" using f by (simp_all add: front_ok_def)
  have seal: "\<exists>v. sealed_graph env p policy authority ow = Inr v" for ow
    using assms by (auto simp: sealed_graph_def task_graph_proposal_hash_def Let_def
        canonical_sha256_Inr and_then_eq_Inr) 
  from validate_tail [OF k] ac sc show "\<exists>v. validate_task_graph_with_optional_authority env p policy authority = Some (Inr v)"
    using seal key_cycle_cyclic by (fastforce simp: validate_front_ok [OF f] split: option.splits sum.splits)
qed

theorem validate_accepts_iff_acceptable_witness:
  "graph_acceptable sample_graph sample_policy \<and> \<not> graph_acceptable cyclic_graph sample_policy"
  using validate_accepts_iff_acceptable [OF sample_seal, of sample_graph sample_policy None]
    validate_accepts_iff_acceptable [OF sample_seal, of cyclic_graph sample_policy None]
  by (simp add: sample_accepted cyclic_rejected)

text \<open>C5: a reported cycle is real: the path has at least two keys, starts and ends at the same key, and
  each key directly depends on the next.\<close>

theorem reported_cycle_is_real:
  assumes "validate_task_graph_with_optional_authority env p policy authority = Some (Inl (Cycle path))"
  shows "key_cycle p path"
proof -
  have f: "front_ok p policy" using assms validate_front_fail [of p policy env authority] by auto
  then have "keyed p" "graph_nodes p \<noteq> []" by (simp_all add: front_ok_def)
  from validate_tail [OF this] assms show ?thesis
    using validate_pairs_err [of p "key_index p" "index_pairs (node_total p)" path]
    by (fastforce simp: validate_front_ok [OF f] sealed_graph_def Let_def task_graph_proposal_hash_def
        validate_independent_scopes_def and_then_eq_Inl map_err_def
        split: option.splits sum.splits)
qed

theorem reported_cycle_is_real_witness: "key_cycle cyclic_graph [''b'', ''a'', ''b'']"
  by (rule reported_cycle_is_real [OF cyclic_rejected])

text \<open>C6: the topological order of an accepted graph lists every node key exactly once and every key
  after all of its dependencies, and the reported parallel width lies between one and the number of
  nodes.\<close>

theorem accepted_order_is_topological:
  assumes "validate_task_graph_with_optional_authority env p policy authority = Some (Inr v)"
  shows "mset (validated_topological_order v) = mset (node_keys p)
       \<and> distinct (validated_topological_order v)
       \<and> key_ordered p (validated_topological_order v)
       \<and> 1 \<le> maximum_parallel_width (validated_validation v)
       \<and> maximum_parallel_width (validated_validation v) \<le> node_count (validated_validation v)"
proof -
  obtain order width where acc: "graph_acceptable p policy"
    and v: "sealed_graph env p policy authority (order, width) = Inr v"
    and o: "mset order = mset (node_keys p)" "key_ordered p order" "1 \<le> width" "width \<le> node_total p"
    using validate_accepts [OF assms] by blast
  have "distinct order" using acc mset_eq_imp_distinct_iff [OF o(1)] by (simp add: graph_acceptable_def)
  with v o show ?thesis by (auto simp: sealed_graph_def Let_def and_then_eq_Inr)
qed

theorem accepted_order_is_topological_witness:
  "mset [''a'', ''c'', ''b''] = mset (node_keys sample_graph) \<and> key_ordered sample_graph [''a'', ''c'', ''b'']"
  using accepted_order_is_topological [OF sample_accepted] by (simp add: sample_validated_def Let_def)

text \<open>\<open>may_write\<close>: the locations a node's write scope covers.\<close>

definition may_write :: "TaskGraphNode \<Rightarrow> Component list \<Rightarrow> bool" where
  "may_write n location \<longleftrightarrow>
     node_repository_wide_write_scope n
   \<or> (\<exists>s \<in> set (node_write_scopes n). prefix (components (as_path s)) location)"

lemma scopes_disjoint_may_write:
  "scopes_disjoint a b \<Longrightarrow> \<not> (may_write a location \<and> may_write b location)"
  by (auto simp: scopes_disjoint_def may_write_def overlap_common_descendant)

text \<open>C7: in an accepted graph two nodes that may run concurrently, neither depending on the other even
  transitively, never share a location that both may write.\<close>

theorem independent_nodes_never_share_a_location:
  assumes "validate_task_graph_with_optional_authority env p policy authority = Some (Inr v)"
    and "i < j" and "j < length (graph_nodes p)"
    and "(key_at p i, key_at p j) \<notin> (key_edges p)\<^sup>+" and "(key_at p j, key_at p i) \<notin> (key_edges p)\<^sup>+"
  shows "\<not> (may_write (graph_nodes p ! i) location \<and> may_write (graph_nodes p ! j) location)"
proof -
  have "independent_scopes_disjoint p"
    using validate_accepts [OF assms(1)] by (auto simp: graph_acceptable_def)
  then have "scopes_disjoint (graph_nodes p ! i) (graph_nodes p ! j)"
    using assms(2-) by (simp add: independent_scopes_disjoint_def)
  then show ?thesis by (rule scopes_disjoint_may_write)
qed

theorem independent_nodes_never_share_a_location_witness:
  "1 < length (graph_nodes sample_graph)
 \<and> \<not> (may_write (graph_nodes sample_graph ! 1) (components ''src/c/x'')
      \<and> may_write (graph_nodes sample_graph ! 2) (components ''src/c/x''))"
  using independent_nodes_never_share_a_location [OF sample_accepted, of 1 2 "components ''src/c/x''"]
    sample_independent by (simp add: sample_graph_def sample_proposal_def)

text \<open>the seal of an accepted graph can be recomputed from what it returns, binds the untouched
  proposal, and its summary carries exactly the authority that was presented.\<close>

theorem accepted_seal_recomputes:
  assumes "validate_task_graph_with_optional_authority env p policy authority = Some (Inr v)"
  shows "task_graph_proposal_hash env (validated_proposal v) (validated_validation v)
           = Inr (validated_proposal_hash v)
       \<and> validated_proposal v = p \<and> summary_authority (validated_validation v) = authority
       \<and> summary_topological_order (validated_validation v) = validated_topological_order v"
proof -
  obtain order width where "sealed_graph env p policy authority (order, width) = Inr v"
    using validate_accepts [OF assms] by blast
  then show ?thesis by (auto simp: sealed_graph_def Let_def and_then_eq_Inr)
qed

theorem accepted_seal_recomputes_witness:
  "task_graph_proposal_hash sample_env sample_graph (validated_validation sample_validated)
     = Inr (replicate 64 CHR ''a'')"
  using accepted_seal_recomputes [OF sample_accepted] by (simp add: sample_validated_def Let_def)

text \<open>promoting deferred planning authority yields authority that the authority-checked validator
  accepts as well formed, bound to the promoted base commit and the prior requirement revision.\<close>

theorem promoted_authority_well_formed:
  assumes "promoted_authority env promo = Inr a" and "\<And>bytes. is_sha256 (sha256_hex env bytes)"
  shows "authority_well_formed a \<and> auth_base_commit a = promo_base_commit promo
       \<and> auth_requirement_revision_id a = auth_requirement_revision_id (promo_prior_authority promo)"
  using assms VALIDATION_CHECKS_non_blank
  by (auto simp: promoted_authority_def authority_well_formed_def and_then_eq_Inr canonical_sha256_Inr
      VALIDATION_CHECKS_def integrity_env.defs split: if_splits)

theorem promoted_authority_well_formed_witness:
  "authority_well_formed sample_promoted \<and> auth_requirement_revision_id sample_promoted = 4"
  using promoted_authority_well_formed [OF sample_promotes sample_sha256]
  by (simp add: sample_promotion_def sample_authority_def)

end
