(* ===== verification/Graph_Store.thy ===== *)
theory Graph_Store
  imports Session_Store Graph_Validation
begin

text \<open>
  \<open>crates/orchestrator-state/src/graphs.rs\<close>: planning attempts, the revisions of a session's task graph, and the approval that turns
  the current revision into tasks, over the tables of \<open>migrations/0013_workspace_partitions.sql\<close>. Identifiers, times and
  enumerations decode; the JSON text of a proposal or validation decodes to it. Identifiers that \<open>new\<close> draws are
  arguments; \<open>None\<close> is a panic. Serializers and the decoder of validation summaries are parameters.
\<close>

section \<open>Data\<close>

type_synonym PlanningAttemptId = uuid

datatype GraphRevisionStatus =
  Rev_Planning | Rev_Invalid | Rev_AwaitingApproval | Rev_Approved | Rev_Superseded | Rev_Cancelled

fun revision_status_text :: "GraphRevisionStatus \<Rightarrow> string" where
  "revision_status_text Rev_Planning = ''planning''"
| "revision_status_text Rev_Invalid = ''invalid''"
| "revision_status_text Rev_AwaitingApproval = ''awaiting_approval''"
| "revision_status_text Rev_Approved = ''approved''"
| "revision_status_text Rev_Superseded = ''superseded''"
| "revision_status_text Rev_Cancelled = ''cancelled''"

definition parse_revision_status :: "string \<Rightarrow> GraphRevisionStatus option" where
  "parse_revision_status value = find (\<lambda>s. revision_status_text s = value)
     [Rev_Planning, Rev_Invalid, Rev_AwaitingApproval, Rev_Approved, Rev_Superseded, Rev_Cancelled]"

record NewPlanningAttempt =
  pa_attempt_id :: PlanningAttemptId
  pa_revision_id :: GraphRevisionId
  pa_session_id :: SessionId
  pa_goal_message_id :: MessageId
  pa_planner_provider :: ProviderId
  pa_started_at :: DateTime

record NewGraphAttempt =
  na_attempt_id :: PlanningAttemptId
  na_revision_id :: GraphRevisionId
  na_session_id :: SessionId
  na_goal_message_id :: MessageId
  na_planner_provider :: ProviderId
  na_status :: GraphRevisionStatus
  na_proposal :: "TaskGraphProposal option"
  na_proposal_hash :: "string option"
  na_validation :: json
  na_error_redacted :: "string option"
  na_started_at :: DateTime
  na_completed_at :: DateTime

record StoredGraphRevision =
  sg_revision_id :: GraphRevisionId
  sg_session_id :: SessionId
  sg_goal_message_id :: MessageId
  sg_ordinal :: u64
  sg_status :: GraphRevisionStatus
  sg_proposal_hash :: "string option"
  sg_proposal :: "TaskGraphProposal option"
  sg_validation :: json
  sg_planner_provider :: "ProviderId option"
  sg_created_at :: DateTime
  sg_completed_at :: "DateTime option"

record GraphApprovalRequest =
  rq_revision_id :: GraphRevisionId
  rq_expected_proposal_hash :: string
  rq_authority :: "GraphValidationAuthority option"
  rq_promotion :: "GraphAuthorityPromotion option"
  rq_approved_by :: string
  rq_approved_at :: DateTime

record ApprovedGraph =
  ap_revision_id :: GraphRevisionId
  ap_proposal_hash :: string
  ap_task_ids :: "TaskId list"
  ap_replayed :: bool

record planning_attempt_row =
  pr_workspace :: WorkspaceId
  pr_attempt_id :: PlanningAttemptId
  pr_revision_id :: GraphRevisionId
  pr_session_id :: SessionId
  pr_goal_message_id :: MessageId
  pr_planner_provider :: string
  pr_planner_provider_v2 :: "string option"
  pr_outcome :: string
  pr_error_redacted :: "string option"
  pr_started_at :: DateTime
  pr_completed_at :: "DateTime option"

record graph_db =
  gd_db :: session_db
  gd_attempts :: "planning_attempt_row list"
  gd_requirements :: "(WorkspaceId \<times> RequirementRevisionId) list"

record graph_store_env = session_env +
  seal_env :: graph_env
  summary_of :: "json \<Rightarrow> string + GraphValidationSummary"
  summary_value :: "GraphValidationSummary \<Rightarrow> string + json"

text \<open>The identifiers that an operation draws, in order.\<close>

record fresh_ids =
  fresh_task :: "nat \<Rightarrow> TaskId"
  fresh_event :: "nat \<Rightarrow> EventId"
  fresh_correlation :: "nat \<Rightarrow> CorrelationId"
  fresh_message :: MessageId

definition from_validated ::
    "graph_store_env \<Rightarrow> PlanningAttemptId \<Rightarrow> ValidatedTaskGraph \<Rightarrow> DateTime \<Rightarrow> DateTime \<Rightarrow> NewGraphAttempt" where
  "from_validated env attempt_id g started_at completed_at =
     (let p = validated_proposal g in
      \<lparr> na_attempt_id = attempt_id, na_revision_id = graph_revision_id p, na_session_id = graph_session_id p,
        na_goal_message_id = graph_goal_message_id p, na_planner_provider = graph_planner_provider p,
        na_status = Rev_AwaitingApproval, na_proposal = Some p, na_proposal_hash = Some (validated_proposal_hash g),
        na_validation = (case summary_value env (validated_validation g) of
            Inl _ \<Rightarrow> JObject [(''error'', JString ''validation summary serialization failed'')] | Inr v \<Rightarrow> v),
        na_error_redacted = None, na_started_at = started_at, na_completed_at = completed_at \<rparr>)"

definition invalid_attempt ::
    "PlanningAttemptId \<Rightarrow> GraphRevisionId \<Rightarrow> SessionId \<Rightarrow> MessageId \<Rightarrow> ProviderId \<Rightarrow> json \<Rightarrow> string \<Rightarrow> DateTime \<Rightarrow> DateTime \<Rightarrow> NewGraphAttempt" where
  "invalid_attempt attempt_id revision_id session_id goal_message_id planner_provider validation error started_at completed_at =
     \<lparr> na_attempt_id = attempt_id, na_revision_id = revision_id, na_session_id = session_id, na_goal_message_id = goal_message_id,
       na_planner_provider = planner_provider, na_status = Rev_Invalid, na_proposal = None, na_proposal_hash = None,
       na_validation = validation, na_error_redacted = Some error, na_started_at = started_at, na_completed_at = completed_at \<rparr>"

section \<open>Tables\<close>

definition graphs :: "graph_db \<Rightarrow> schedule_db" where "graphs db = sd_graphs (gd_db db)"

definition set_graphs :: "(schedule_db \<Rightarrow> schedule_db) \<Rightarrow> graph_db \<Rightarrow> graph_db" where
  "set_graphs f db = db\<lparr>gd_db := (gd_db db)\<lparr>sd_graphs := f (sd_graphs (gd_db db))\<rparr>\<rparr>"

definition revisions_in :: "WorkspaceId \<Rightarrow> graph_db \<Rightarrow> graph_revision_row list" where
  "revisions_in ws db = rows_of gr_workspace ws (db_graph_revisions (graphs db))"

definition head_of :: "WorkspaceId \<Rightarrow> graph_db \<Rightarrow> SessionId \<Rightarrow> GraphRevisionId option" where
  "head_of ws db s = map_option gh_revision_id (find (\<lambda>h. gh_session_id h = s) (rows_of gh_workspace ws (db_graph_heads (graphs db))))"

definition revision_known :: "WorkspaceId \<Rightarrow> GraphRevisionId \<Rightarrow> graph_db \<Rightarrow> bool" where
  "revision_known ws i db \<longleftrightarrow> list_ex (\<lambda>r. gr_revision_id r = i) (revisions_in ws db)"

definition requirement_known :: "WorkspaceId \<Rightarrow> RequirementRevisionId option \<Rightarrow> graph_db \<Rightarrow> bool" where
  "requirement_known ws i db \<longleftrightarrow> (case i of None \<Rightarrow> True | Some i \<Rightarrow> (ws, i) \<in> set (gd_requirements db))"

definition hash_column :: "string option \<Rightarrow> bool" where
  "hash_column h \<longleftrightarrow> (case h of None \<Rightarrow> True | Some h \<Rightarrow> length h = 64)"

definition commit_column :: "string option \<Rightarrow> bool" where
  "commit_column c \<longleftrightarrow> (case c of None \<Rightarrow> True | Some c \<Rightarrow> 40 \<le> length c \<and> length c \<le> 64)"

text \<open>The \<open>CHECK\<close>s and foreign keys of a graph revision. A row is inserted, or completed while its status is planning; the
  triggers refuse a change of the payload in any other status.\<close>

definition revision_check :: "graph_revision_row \<Rightarrow> graph_db \<Rightarrow> bool" where
  "revision_check r db \<longleftrightarrow>
     gr_ordinal r > 0 \<and> parse_revision_status (gr_status r) \<noteq> None \<and> hash_column (gr_proposal_hash r)
   \<and> hash_column (gr_validation_hash r) \<and> commit_column (gr_base_commit r)
   \<and> requirement_known (gr_workspace r) (gr_requirement_revision_id r) db"

definition insert_revision :: "graph_revision_row \<Rightarrow> graph_db \<Rightarrow> StateError + graph_db" where
  "insert_revision row db =
     (if list_ex (\<lambda>r. gr_revision_id r = gr_revision_id row \<or> gr_session_id r = gr_session_id row \<and> gr_ordinal r = gr_ordinal row)
           (revisions_in (gr_workspace row) db)
         \<or> (gr_workspace row, gr_session_id row) \<notin> set (session_keys (gd_db db))
         \<or> (gr_workspace row, gr_goal_message_id row) \<notin> set (message_keys (gd_db db)) \<or> \<not> revision_check row db
      then Inl (Sqlite ''constraint failed'')
      else Inr (set_graphs (\<lambda>g. g\<lparr>db_graph_revisions := db_graph_revisions g @ [row]\<rparr>) db))"

definition complete_revision ::
    "WorkspaceId \<Rightarrow> GraphRevisionId \<Rightarrow> (graph_revision_row \<Rightarrow> graph_revision_row) \<Rightarrow> graph_db \<Rightarrow> StateError + nat \<times> graph_db" where
  "complete_revision ws i f db =
     (let p = (\<lambda>r. gr_workspace r = ws \<and> gr_revision_id r = i \<and> gr_status r = ''planning'') in
      if list_ex (\<lambda>r. p r \<and> \<not> revision_check (f r) db) (db_graph_revisions (graphs db)) then Inl (Sqlite ''constraint failed'')
      else Inr (matching p (db_graph_revisions (graphs db)),
        set_graphs (\<lambda>g. g\<lparr>db_graph_revisions := update_rows p f (db_graph_revisions g)\<rparr>) db))"

definition insert_attempt :: "planning_attempt_row \<Rightarrow> graph_db \<Rightarrow> StateError + graph_db" where
  "insert_attempt row db =
     (if list_ex (\<lambda>r. pr_workspace r = pr_workspace row \<and> pr_attempt_id r = pr_attempt_id row) (gd_attempts db)
         \<or> \<not> revision_known (pr_workspace row) (pr_revision_id row) db
         \<or> (pr_workspace row, pr_session_id row) \<notin> set (session_keys (gd_db db))
         \<or> (pr_workspace row, pr_goal_message_id row) \<notin> set (message_keys (gd_db db))
      then Inl (Sqlite ''constraint failed'')
      else Inr (db\<lparr>gd_attempts := gd_attempts db @ [row]\<rparr>))"

text \<open>\<open>INSERT INTO session_graph_heads ... ON CONFLICT(workspace_id, session_id) DO UPDATE\<close>.\<close>

definition upsert_head :: "graph_head_row \<Rightarrow> graph_db \<Rightarrow> StateError + graph_db" where
  "upsert_head row db =
     (let heads = db_graph_heads (graphs db);
          same = (\<lambda>h. gh_workspace h = gh_workspace row \<and> gh_session_id h = gh_session_id row)
      in if list_ex (\<lambda>h. gh_workspace h = gh_workspace row \<and> gh_revision_id h = gh_revision_id row \<and> \<not> same h) heads
            \<or> \<not> revision_known (gh_workspace row) (gh_revision_id row) db
            \<or> (gh_workspace row, gh_session_id row) \<notin> set (session_keys (gd_db db))
         then Inl (Sqlite ''constraint failed'')
         else Inr (set_graphs (\<lambda>g. g\<lparr>db_graph_heads := (if list_ex same heads then update_rows same (\<lambda>_. row) heads else heads @ [row])\<rparr>) db))"

definition record_event :: "graph_store_env \<Rightarrow> WorkspaceId \<Rightarrow> TaskEvent \<Rightarrow> graph_db \<Rightarrow> StateError + graph_db" where
  "record_event env ws event db =
     and_then (append_event_in_transaction (session_env.truncate env) ws event (gd_db db)) (\<lambda>d. Inr (db\<lparr>gd_db := d\<rparr>))"

definition graph_event ::
    "fresh_ids \<Rightarrow> nat \<Rightarrow> SessionId \<Rightarrow> EventType \<Rightarrow> EventActor \<Rightarrow> DateTime \<Rightarrow> json \<Rightarrow> TaskEvent" where
  "graph_event ids k s event_type actor t payload =
     \<lparr> ev_schema_version = schema_state_current, ev_sequence = 0, ev_event_id = fresh_event ids k, ev_session_id = Some s,
       ev_task_id = None, ev_occurred_at = t, ev_event_type = event_type, ev_from_state = None, ev_to_state = None, ev_reason = None,
       ev_actor = actor, ev_correlation_id = fresh_correlation ids k, ev_causation_id = None, ev_payload = payload,
       ev_previous_hash = None, ev_event_hash = [] \<rparr>"

section \<open>Planning\<close>

definition legacy_provider_text :: "ProviderId \<Rightarrow> string" where
  "legacy_provider_text p = (case p of Gemini \<Rightarrow> ''gemini'' | Agy \<Rightarrow> ''codex'' | Codex \<Rightarrow> ''codex'' | Claude \<Rightarrow> ''claude'')"

definition map_revision :: "graph_revision_row \<Rightarrow> StateError + StoredGraphRevision" where
  "map_revision r =
     (if gr_ordinal r < 0 then Inl (InvalidRecord ''negative graph ordinal'')
      else
        and_then (ok_or (InvalidRecord ''invalid graph status'') (parse_revision_status (gr_status r))) (\<lambda>status.
        and_then (case gr_proposal r of None \<Rightarrow> Inr None | Some (Inl e) \<Rightarrow> Inl (Json e) | Some (Inr p) \<Rightarrow> Inr (Some p)) (\<lambda>proposal.
        and_then (case (case gr_planner_provider_v2 r of None \<Rightarrow> gr_planner_provider r | v2 \<Rightarrow> v2) of
                    None \<Rightarrow> Inr None
                  | Some value \<Rightarrow> and_then (map_err (\<lambda>_. InvalidRecord ''unknown provider'') (provider_from_str value)) (\<lambda>p. Inr (Some p)))
          (\<lambda>provider.
             Inr \<lparr> sg_revision_id = gr_revision_id r, sg_session_id = gr_session_id r, sg_goal_message_id = gr_goal_message_id r,
                   sg_ordinal = word_of_int (gr_ordinal r), sg_status = status, sg_proposal_hash = gr_proposal_hash r,
                   sg_proposal = proposal, sg_validation = gr_validation r, sg_planner_provider = provider,
                   sg_created_at = gr_created_at r, sg_completed_at = gr_completed_at r \<rparr>))))"

definition graph_revision_by_id :: "WorkspaceId \<Rightarrow> graph_db \<Rightarrow> GraphRevisionId \<Rightarrow> StateError + StoredGraphRevision option" where
  "graph_revision_by_id ws db i =
     (case find (\<lambda>r. gr_revision_id r = i) (revisions_in ws db) of
        None \<Rightarrow> Inr None
      | Some r \<Rightarrow> and_then (map_revision r) (\<lambda>x. Inr (Some x)))"

definition load_graph_revision :: "WorkspaceId \<Rightarrow> graph_db \<Rightarrow> GraphRevisionId \<Rightarrow> StateError + StoredGraphRevision option" where
  "load_graph_revision ws db i = graph_revision_by_id ws db i"

definition ensure_goal_identity :: "WorkspaceId \<Rightarrow> graph_db \<Rightarrow> SessionId \<Rightarrow> MessageId \<Rightarrow> StateError + unit" where
  "ensure_goal_identity ws db s m =
     (if list_ex (\<lambda>r. msg_session_id (ms_message r) = s \<and> msg_message_id (ms_message r) = m) (messages_in ws (gd_db db))
      then Inr () else Inl (InvalidRecord ''planning goal message does not belong to its session''))"

definition next_revision_ordinal :: "WorkspaceId \<Rightarrow> graph_db \<Rightarrow> SessionId \<Rightarrow> int" where
  "next_revision_ordinal ws db s = fold max (map gr_ordinal (filter (\<lambda>r. gr_session_id r = s) (revisions_in ws db))) 0 + 1"

definition supersede_current :: "DateTime \<Rightarrow> WorkspaceId \<Rightarrow> SessionId \<Rightarrow> graph_db \<Rightarrow> graph_db" where
  "supersede_current t ws s = set_graphs (supersede_head {''planning'', ''awaiting_approval'', ''approved''} t ws s)"

definition begin_graph_attempt ::
    "graph_store_env \<Rightarrow> WorkspaceId \<Rightarrow> fresh_ids \<Rightarrow> NewPlanningAttempt \<Rightarrow> graph_db \<Rightarrow> (StateError + StoredGraphRevision) \<times> graph_db" where
  "begin_graph_attempt env ws ids a =
     transact (\<lambda>db.
       and_then (ensure_goal_identity ws db (pa_session_id a) (pa_goal_message_id a)) (\<lambda>_.
       and_then (graph_revision_by_id ws db (pa_revision_id a)) (\<lambda>found.
         case found of
           Some existing \<Rightarrow>
             if sg_session_id existing = pa_session_id a \<and> sg_goal_message_id existing = pa_goal_message_id a
                \<and> sg_planner_provider existing = Some (pa_planner_provider a) \<and> sg_created_at existing = pa_started_at a
             then Inr (existing, db)
             else Inl (InvalidRecord ''planning attempt replay conflicts with its revision'')
         | None \<Rightarrow>
             let ordinal = next_revision_ordinal ws db (pa_session_id a) in
             if ordinal \<ge> 2 ^ 63 then Inl (Sqlite ''conversion failure'')
             else
               and_then (insert_revision
                   \<lparr> gr_workspace = ws, gr_revision_id = pa_revision_id a, gr_session_id = pa_session_id a,
                     gr_goal_message_id = pa_goal_message_id a, gr_ordinal = ordinal, gr_status = ''planning'', gr_proposal_hash = None,
                     gr_proposal = None, gr_validation = JObject [],
                     gr_planner_provider = Some (legacy_provider_text (pa_planner_provider a)),
                     gr_planner_provider_v2 = Some (provider_as_str (pa_planner_provider a)), gr_created_at = pa_started_at a,
                     gr_completed_at = None, gr_requirement_revision_id = None, gr_validation_hash = None, gr_base_commit = None \<rparr>
                   (supersede_current (pa_started_at a) ws (pa_session_id a) db)) (\<lambda>db.
               and_then (insert_attempt
                   \<lparr> pr_workspace = ws, pr_attempt_id = pa_attempt_id a, pr_revision_id = pa_revision_id a, pr_session_id = pa_session_id a,
                     pr_goal_message_id = pa_goal_message_id a, pr_planner_provider = legacy_provider_text (pa_planner_provider a),
                     pr_planner_provider_v2 = Some (provider_as_str (pa_planner_provider a)), pr_outcome = ''planning'',
                     pr_error_redacted = None, pr_started_at = pa_started_at a, pr_completed_at = None \<rparr> db) (\<lambda>db.
               and_then (upsert_head
                   \<lparr> gh_workspace = ws, gh_session_id = pa_session_id a, gh_revision_id = pa_revision_id a,
                     gh_updated_at = pa_started_at a \<rparr> db) (\<lambda>db.
               and_then (record_event env ws
                   (graph_event ids 0 (pa_session_id a) GraphRevisionRecorded (Actor_Provider (pa_planner_provider a)) (pa_started_at a)
                     (JObject [(''revision_id'', JString (id_text env (pa_revision_id a))), (''status'', JString ''planning'')])) db) (\<lambda>db.
               and_then (graph_revision_by_id ws db (pa_revision_id a)) (\<lambda>stored.
               and_then (ok_or (InvalidRecord ''started graph revision is missing'') stored) (\<lambda>stored. Inr (stored, db))))))))))"

definition authority_from_validation :: "graph_store_env \<Rightarrow> json \<Rightarrow> GraphValidationAuthority option" where
  "authority_from_validation env v = (case summary_of env v of Inl _ \<Rightarrow> None | Inr summary \<Rightarrow> summary_authority summary)"

definition validate_new_attempt :: "NewGraphAttempt \<Rightarrow> StateError + unit" where
  "validate_new_attempt a =
     (if na_completed_at a < na_started_at a then Inl (InvalidRecord ''planning attempt completed before it started'')
      else case na_status a of
        Rev_AwaitingApproval \<Rightarrow>
          and_then (ok_or (InvalidRecord ''valid graph attempt has no proposal'') (na_proposal a)) (\<lambda>proposal.
          and_then (ok_or (InvalidRecord ''valid graph attempt has no proposal hash'') (na_proposal_hash a)) (\<lambda>hash.
            if length hash \<noteq> 64 \<or> graph_revision_id proposal \<noteq> na_revision_id a \<or> graph_session_id proposal \<noteq> na_session_id a
               \<or> graph_goal_message_id proposal \<noteq> na_goal_message_id a \<or> graph_planner_provider proposal \<noteq> na_planner_provider a
            then Inl (InvalidRecord ''valid graph attempt identity or hash is inconsistent'') else Inr ()))
      | Rev_Invalid \<Rightarrow>
          if na_proposal_hash a \<noteq> None then Inl (InvalidRecord ''invalid graph attempt cannot carry an approval hash'') else Inr ()
      | _ \<Rightarrow> Inl (InvalidRecord ''new graph attempt must be invalid or awaiting approval''))"

definition attempt_payload :: "graph_store_env \<Rightarrow> NewGraphAttempt \<Rightarrow> json" where
  "attempt_payload env a = JObject [(''revision_id'', JString (id_text env (na_revision_id a))),
     (''status'', JString (revision_status_text (na_status a))),
     (''proposal_hash'', (case na_proposal_hash a of None \<Rightarrow> JNull | Some h \<Rightarrow> JString h))]"

definition set_outcome :: "graph_store_env \<Rightarrow> NewGraphAttempt \<Rightarrow> graph_revision_row \<Rightarrow> graph_revision_row" where
  "set_outcome env a r =
     (let authority = authority_from_validation env (na_validation a) in
      r\<lparr>gr_status := revision_status_text (na_status a), gr_proposal_hash := na_proposal_hash a,
        gr_proposal := map_option Inr (na_proposal a), gr_validation := na_validation a, gr_completed_at := Some (na_completed_at a),
        gr_requirement_revision_id := map_option auth_requirement_revision_id authority,
        gr_validation_hash := map_option auth_validation_hash authority, gr_base_commit := map_option auth_base_commit authority\<rparr>)"

definition finish_graph_attempt ::
    "graph_store_env \<Rightarrow> WorkspaceId \<Rightarrow> fresh_ids \<Rightarrow> NewGraphAttempt \<Rightarrow> graph_db \<Rightarrow> (StateError + StoredGraphRevision) \<times> graph_db" where
  "finish_graph_attempt env ws ids a =
     transact (\<lambda>db.
       and_then (validate_new_attempt a) (\<lambda>_.
       and_then (graph_revision_by_id ws db (na_revision_id a)) (\<lambda>found.
       and_then (ok_or (InvalidRecord ''planning graph revision does not exist'') found) (\<lambda>existing.
         if sg_status existing \<noteq> Rev_Planning \<or> sg_session_id existing \<noteq> na_session_id a
            \<or> sg_goal_message_id existing \<noteq> na_goal_message_id a \<or> sg_planner_provider existing \<noteq> Some (na_planner_provider a)
         then Inl (InvalidRecord ''planning graph completion conflicts with its started attempt'')
         else
           and_then (complete_revision ws (na_revision_id a) (set_outcome env a) db) (\<lambda>(changed, db).
             if changed \<noteq> 1 then Inl (OptimisticConflict ''graph revision'' (na_revision_id a))
             else
               let p = (\<lambda>r. pr_workspace r = ws \<and> pr_attempt_id r = na_attempt_id a \<and> pr_revision_id r = na_revision_id a
                            \<and> pr_outcome r = ''planning'')
               in if matching p (gd_attempts db) \<noteq> 1 then Inl (OptimisticConflict ''planning attempt'' (na_attempt_id a))
                  else
                    and_then (record_event env ws
                        (graph_event ids 0 (na_session_id a) GraphRevisionRecorded (Actor_Provider (na_planner_provider a))
                          (na_completed_at a) (attempt_payload env a))
                        (db\<lparr>gd_attempts := update_rows p (\<lambda>r. r\<lparr>pr_outcome := revision_status_text (na_status a),
                              pr_error_redacted := na_error_redacted a, pr_completed_at := Some (na_completed_at a)\<rparr>) (gd_attempts db)\<rparr>)) (\<lambda>db.
                    and_then (graph_revision_by_id ws db (na_revision_id a)) (\<lambda>stored.
                    and_then (ok_or (InvalidRecord ''finished graph revision is missing'') stored) (\<lambda>stored. Inr (stored, db)))))))))"

definition record_graph_attempt ::
    "graph_store_env \<Rightarrow> WorkspaceId \<Rightarrow> fresh_ids \<Rightarrow> NewGraphAttempt \<Rightarrow> graph_db \<Rightarrow> (StateError + StoredGraphRevision) \<times> graph_db" where
  "record_graph_attempt env ws ids a =
     transact (\<lambda>db.
       and_then (validate_new_attempt a) (\<lambda>_.
       and_then (ensure_goal_identity ws db (na_session_id a) (na_goal_message_id a)) (\<lambda>_.
         let ordinal = next_revision_ordinal ws db (na_session_id a) in
         if ordinal \<ge> 2 ^ 63 then Inl (Sqlite ''conversion failure'')
         else
           and_then (insert_revision (set_outcome env a
               \<lparr> gr_workspace = ws, gr_revision_id = na_revision_id a, gr_session_id = na_session_id a,
                 gr_goal_message_id = na_goal_message_id a, gr_ordinal = ordinal, gr_status = [], gr_proposal_hash = None,
                 gr_proposal = None, gr_validation = JNull,
                 gr_planner_provider = Some (legacy_provider_text (na_planner_provider a)),
                 gr_planner_provider_v2 = Some (provider_as_str (na_planner_provider a)), gr_created_at = na_started_at a,
                 gr_completed_at = None, gr_requirement_revision_id = None, gr_validation_hash = None, gr_base_commit = None \<rparr>)
               (supersede_current (na_completed_at a) ws (na_session_id a) db)) (\<lambda>db.
           and_then (insert_attempt
               \<lparr> pr_workspace = ws, pr_attempt_id = na_attempt_id a, pr_revision_id = na_revision_id a, pr_session_id = na_session_id a,
                 pr_goal_message_id = na_goal_message_id a, pr_planner_provider = legacy_provider_text (na_planner_provider a),
                 pr_planner_provider_v2 = Some (provider_as_str (na_planner_provider a)),
                 pr_outcome = revision_status_text (na_status a), pr_error_redacted = na_error_redacted a,
                 pr_started_at = na_started_at a, pr_completed_at = Some (na_completed_at a) \<rparr> db) (\<lambda>db.
           and_then (upsert_head
               \<lparr> gh_workspace = ws, gh_session_id = na_session_id a, gh_revision_id = na_revision_id a,
                 gh_updated_at = na_completed_at a \<rparr> db) (\<lambda>db.
           and_then (record_event env ws
               (graph_event ids 0 (na_session_id a) GraphRevisionRecorded (Actor_Provider (na_planner_provider a))
                 (na_completed_at a) (attempt_payload env a)) db) (\<lambda>db.
           and_then (graph_revision_by_id ws db (na_revision_id a)) (\<lambda>stored.
           and_then (ok_or (InvalidRecord ''recorded graph revision is missing'') stored) (\<lambda>stored. Inr (stored, db))))))))))"

section \<open>Reading a graph\<close>

record GraphTaskProjection =
  gt_task_id :: TaskId
  gt_node_key :: string
  gt_display_order :: u64
  gt_provider :: ProviderId
  gt_profile :: ModelProfile

record GraphProjection =
  gp_revision :: StoredGraphRevision
  gp_tasks :: "GraphTaskProjection list"
  gp_dependencies :: "(TaskId \<times> TaskId) list"

definition tasks_of_revision :: "WorkspaceId \<Rightarrow> graph_db \<Rightarrow> GraphRevisionId \<Rightarrow> session_task_row list" where
  "tasks_of_revision ws db i =
     sort_key st_display_order (filter (\<lambda>r. st_revision_id r = i) (rows_of st_workspace ws (db_session_tasks (graphs db))))"

definition task_ids_for_revision :: "WorkspaceId \<Rightarrow> graph_db \<Rightarrow> GraphRevisionId \<Rightarrow> TaskId list" where
  "task_ids_for_revision ws db i = map st_task_id (tasks_of_revision ws db i)"

definition map_graph_task :: "session_task_row \<Rightarrow> StateError + GraphTaskProjection" where
  "map_graph_task r =
     (if st_display_order r < 0 then Inl (InvalidRecord ''negative graph task order'')
      else
        and_then (map_err (\<lambda>_. InvalidRecord ''unknown provider'')
            (provider_from_str (case st_provider_id_v2 r of None \<Rightarrow> st_provider_id r | Some v2 \<Rightarrow> v2))) (\<lambda>provider.
          Inr \<lparr> gt_task_id = st_task_id r, gt_node_key = st_node_key r, gt_display_order = word_of_int (st_display_order r),
                gt_provider = provider, gt_profile = st_model_profile r \<rparr>))"

definition graph_projection :: "WorkspaceId \<Rightarrow> graph_db \<Rightarrow> GraphRevisionId \<Rightarrow> StateError + GraphProjection" where
  "graph_projection ws db i =
     and_then (graph_revision_by_id ws db i) (\<lambda>found.
     and_then (ok_or (InvalidRecord ''graph head references a missing revision'') found) (\<lambda>revision.
     and_then (try_map map_graph_task (tasks_of_revision ws db i)) (\<lambda>tasks.
       Inr \<lparr> gp_revision = revision, gp_tasks = tasks,
             gp_dependencies = map (\<lambda>d. (td_task_id d, td_depends_on d))
               (sort_key (\<lambda>d. (td_task_id d, td_depends_on d))
                 (filter (\<lambda>d. td_revision_id d = i) (rows_of td_workspace ws (db_task_dependencies (graphs db))))) \<rparr>)))"

definition current_graph :: "WorkspaceId \<Rightarrow> graph_db \<Rightarrow> SessionId \<Rightarrow> StateError + GraphProjection option" where
  "current_graph ws db s =
     (case head_of ws db s of None \<Rightarrow> Inr None | Some i \<Rightarrow> and_then (graph_projection ws db i) (\<lambda>g. Inr (Some g)))"

section \<open>Approval\<close>

definition DEFERRED_BASE_COMMIT :: string where "DEFERRED_BASE_COMMIT = replicate 40 (CHR ''0'')"

definition DEFERRED_GIT_ROOT :: string where "DEFERRED_GIT_ROOT = ''deferred until exact writable approval''"

definition validate_approval_authority ::
    "graph_store_env \<Rightarrow> StoredGraphRevision \<Rightarrow> GraphApprovalRequest \<Rightarrow> (StateError + unit) option" where
  "validate_approval_authority env revision request =
     (let stored = authority_from_validation env (sg_validation revision) in
      if stored = rq_authority request then
        Some (if rq_promotion request = None then Inr ()
              else Inl (InvalidRecord ''unchanged graph approval authority cannot carry promotion evidence''))
      else case (stored, rq_promotion request, rq_authority request) of
        (Some stored, Some promotion, Some requested) \<Rightarrow>
          (case (sg_proposal revision, sg_proposal_hash revision) of
             (None, _) \<Rightarrow> Some (Inl (InvalidRecord ''promoted graph revision has no proposal''))
           | (Some proposal, None) \<Rightarrow> Some (Inl (InvalidRecord ''promoted graph revision has no proposal hash''))
           | (Some proposal, Some proposal_hash) \<Rightarrow>
               if auth_base_commit stored \<noteq> DEFERRED_BASE_COMMIT \<or> auth_git_root_redacted stored \<noteq> DEFERRED_GIT_ROOT
                  \<or> ''writable_git_preflight_deferred'' \<notin> set (auth_validation_checks stored)
                  \<or> promo_graph_revision_id promotion \<noteq> sg_revision_id revision \<or> promo_proposal_hash promotion \<noteq> proposal_hash
                  \<or> promo_proposal_hash promotion \<noteq> rq_expected_proposal_hash request \<or> promo_prior_authority promotion \<noteq> stored
               then Some (Inl (InvalidRecord ''graph authority promotion does not bind the stored deferred validation''))
               else case promoted_authority (seal_env env) promotion of
                 Inl _ \<Rightarrow> Some (Inl (InvalidRecord ''graph authority promotion''))
               | Inr expected \<Rightarrow>
                   if expected \<noteq> requested
                   then Some (Inl (InvalidRecord ''graph authority promotion seal does not match the requested authority''))
                   else map_option (map_err (\<lambda>_. InvalidRecord ''graph authority promotion policy rejects the stored proposal'') \<circ> map_sum id (\<lambda>_. ()))
                     (validate_task_graph_with_authority (seal_env env) proposal (promo_validation_policy promotion) stored))
      | _ \<Rightarrow> Some (Inl (InvalidRecord ''graph approval authority does not match the sealed graph validation'')))"

text \<open>The latest final message of the user in the session itself.\<close>

definition latest_user_message :: "WorkspaceId \<Rightarrow> graph_db \<Rightarrow> SessionId \<Rightarrow> MessageId option" where
  "latest_user_message ws db s =
     (case rev (sort_key ms_ordinal (filter (\<lambda>r. msg_session_id (ms_message r) = s \<and> msg_task_id (ms_message r) = None
             \<and> msg_role (ms_message r) = User \<and> msg_state (ms_message r) = Final) (messages_in ws (gd_db db)))) of
        [] \<Rightarrow> None
      | r # _ \<Rightarrow> Some (msg_message_id (ms_message r)))"

definition approval_in :: "WorkspaceId \<Rightarrow> graph_db \<Rightarrow> GraphRevisionId \<Rightarrow> graph_approval_row option" where
  "approval_in ws db i = find (\<lambda>a. ga_revision_id a = i) (rows_of ga_workspace ws (db_graph_approvals (graphs db)))"

definition approval_matches :: "GraphApprovalRequest \<Rightarrow> SessionId \<Rightarrow> graph_approval_row \<Rightarrow> bool" where
  "approval_matches request s a \<longleftrightarrow>
     ga_proposal_hash a = rq_expected_proposal_hash request \<and> ga_approved_by a = trim (rq_approved_by request) \<and> ga_session_id a = Some s
   \<and> (case rq_authority request of None \<Rightarrow> True | Some authority \<Rightarrow>
        ga_requirement_revision_id a = Some (auth_requirement_revision_id authority)
        \<and> ga_validation_hash a = Some (auth_validation_hash authority) \<and> ga_base_commit a = Some (auth_base_commit authority))"

text \<open>The rows that a node becomes.\<close>

definition new_task_row :: "WorkspaceId \<Rightarrow> DateTime \<Rightarrow> string \<Rightarrow> TaskId \<Rightarrow> TaskGraphNode \<Rightarrow> task_row" where
  "new_task_row ws t original_request task_id node =
     \<lparr> t_workspace = ws, t_task_id = task_id, t_state = Queued, t_paused = False,
       t_envelope = Inr \<lparr> env_schema_version = schema_v1, env_task_id = task_id, env_objective = node_objective node,
         env_original_request_redacted = original_request, env_constraints = node_constraints node,
         env_acceptance_criteria = node_acceptance_criteria node, env_allowed_write_paths = node_write_scopes node,
         env_repository_wide_write_scope = node_repository_wide_write_scope node, env_assessment = None, env_created_at = t \<rparr>,
       t_created_at = t, t_archived_at = None \<rparr>"

definition new_session_task :: "WorkspaceId \<Rightarrow> TaskGraphProposal \<Rightarrow> nat \<Rightarrow> TaskId \<Rightarrow> TaskGraphNode \<Rightarrow> session_task_row" where
  "new_session_task ws proposal index task_id node =
     (let provider = (case node_provider node of None \<Rightarrow> graph_planner_provider proposal | Some p \<Rightarrow> p) in
      \<lparr> st_workspace = ws, st_session_id = graph_session_id proposal, st_revision_id = graph_revision_id proposal, st_task_id = task_id,
        st_node_key = node_key node, st_display_order = int index + 1, st_provider_id = legacy_provider_text provider,
        st_provider_id_v2 = Some (provider_as_str provider), st_model_profile = node_profile node \<rparr>)"

definition task_created_event ::
    "graph_store_env \<Rightarrow> fresh_ids \<Rightarrow> nat \<Rightarrow> SessionId \<Rightarrow> TaskId \<Rightarrow> DateTime \<Rightarrow> GraphRevisionId \<Rightarrow> string \<Rightarrow> TaskEvent" where
  "task_created_event env ids k s task_id t revision_id key =
     (graph_event ids k s TaskCreated Actor_Orchestrator t
        (JObject [(''revision_id'', JString (id_text env revision_id)), (''node_key'', JString key)]))
     \<lparr>ev_task_id := Some task_id, ev_to_state := Some Queued, ev_reason := Some ''approved task graph materialization''\<rparr>"

definition insert_task :: "task_row \<Rightarrow> graph_db \<Rightarrow> StateError + graph_db" where
  "insert_task row db =
     (if list_ex (\<lambda>t. t_workspace t = t_workspace row \<and> t_task_id t = t_task_id row) (db_tasks (graphs db))
         \<or> t_workspace row \<notin> set (sd_workspaces (gd_db db))
      then Inl (Sqlite ''constraint failed'')
      else Inr (set_graphs (\<lambda>g. g\<lparr>db_tasks := db_tasks g @ [row]\<rparr>) db))"

definition insert_session_task :: "session_task_row \<Rightarrow> graph_db \<Rightarrow> StateError + graph_db" where
  "insert_session_task row db =
     (if list_ex (\<lambda>r. st_task_id r = st_task_id row
             \<or> st_session_id r = st_session_id row \<and> st_revision_id r = st_revision_id row
                \<and> (st_node_key r = st_node_key row \<or> st_display_order r = st_display_order row))
           (rows_of st_workspace (st_workspace row) (db_session_tasks (graphs db)))
         \<or> \<not> sql_non_blank (st_node_key row) \<or> \<not> st_display_order row > 0
         \<or> (st_workspace row, st_session_id row) \<notin> set (session_keys (gd_db db))
         \<or> \<not> revision_known (st_workspace row) (st_revision_id row) db
         \<or> (st_workspace row, st_task_id row) \<notin> set (task_keys (gd_db db))
      then Inl (Sqlite ''constraint failed'')
      else Inr (set_graphs (\<lambda>g. g\<lparr>db_session_tasks := db_session_tasks g @ [row]\<rparr>) db))"

definition insert_dependency :: "task_dependency_row \<Rightarrow> graph_db \<Rightarrow> StateError + graph_db" where
  "insert_dependency row db =
     (if list_ex (\<lambda>r. td_workspace r = td_workspace row \<and> td_task_id r = td_task_id row \<and> td_depends_on r = td_depends_on row)
           (db_task_dependencies (graphs db))
         \<or> td_task_id row = td_depends_on row
         \<or> (td_workspace row, td_session_id row) \<notin> set (session_keys (gd_db db))
         \<or> \<not> revision_known (td_workspace row) (td_revision_id row) db
         \<or> (td_workspace row, td_task_id row) \<notin> set (task_keys (gd_db db))
         \<or> (td_workspace row, td_depends_on row) \<notin> set (task_keys (gd_db db))
      then Inl (Sqlite ''constraint failed'')
      else Inr (set_graphs (\<lambda>g. g\<lparr>db_task_dependencies := db_task_dependencies g @ [row]\<rparr>) db))"

definition insert_approval :: "graph_approval_row \<Rightarrow> graph_db \<Rightarrow> StateError + graph_db" where
  "insert_approval row db =
     (if list_ex (\<lambda>r. ga_workspace r = ga_workspace row \<and> ga_revision_id r = ga_revision_id row) (db_graph_approvals (graphs db))
         \<or> length (ga_proposal_hash row) \<noteq> 64 \<or> \<not> sql_non_blank (ga_approved_by row)
         \<or> \<not> hash_column (ga_validation_hash row) \<or> \<not> commit_column (ga_base_commit row)
         \<or> \<not> revision_known (ga_workspace row) (ga_revision_id row) db
         \<or> (case ga_session_id row of None \<Rightarrow> False | Some s \<Rightarrow> (ga_workspace row, s) \<notin> set (session_keys (gd_db db)))
         \<or> \<not> requirement_known (ga_workspace row) (ga_requirement_revision_id row) db
      then Inl (Sqlite ''constraint failed'')
      else Inr (set_graphs (\<lambda>g. g\<lparr>db_graph_approvals := db_graph_approvals g @ [row]\<rparr>) db))"

text \<open>The loop over the nodes: the task identifiers, the map from keys to them, and the database.\<close>

fun materialize_nodes ::
    "graph_store_env \<Rightarrow> WorkspaceId \<Rightarrow> fresh_ids \<Rightarrow> DateTime \<Rightarrow> TaskGraphProposal \<Rightarrow> string \<Rightarrow> nat \<Rightarrow> TaskGraphNode list
     \<Rightarrow> (string \<rightharpoonup> TaskId) \<Rightarrow> graph_db \<Rightarrow> StateError + TaskId list \<times> (string \<rightharpoonup> TaskId) \<times> graph_db" where
  "materialize_nodes env ws ids t proposal original index [] keys db = Inr ([], keys, db)"
| "materialize_nodes env ws ids t proposal original index (node # nodes) keys db =
     (let task_id = fresh_task ids index in
      and_then (insert_task (new_task_row ws t original task_id node) db) (\<lambda>db.
      and_then (insert_session_task (new_session_task ws proposal index task_id node) db) (\<lambda>db.
      and_then (record_event env ws (task_created_event env ids index (graph_session_id proposal) task_id t
          (graph_revision_id proposal) (node_key node)) db) (\<lambda>db.
      and_then (materialize_nodes env ws ids t proposal original (index + 1) nodes (keys(node_key node \<mapsto> task_id)) db)
        (\<lambda>(task_ids, keys, db). Inr (task_id # task_ids, keys, db))))))"

definition graph_edges :: "TaskGraphProposal \<Rightarrow> (string \<times> string) list" where
  "graph_edges proposal = concat (map (\<lambda>node. map (\<lambda>dependency. (node_key node, dependency)) (node_dependencies node)) (graph_nodes proposal))"

definition dependency_row :: "WorkspaceId \<Rightarrow> TaskGraphProposal \<Rightarrow> TaskId \<Rightarrow> TaskId \<Rightarrow> task_dependency_row" where
  "dependency_row ws proposal task_id depends_on =
     \<lparr> td_workspace = ws, td_session_id = graph_session_id proposal, td_revision_id = graph_revision_id proposal,
       td_task_id = task_id, td_depends_on = depends_on \<rparr>"

text \<open>The loop over the dependencies; a key that is not in the map panics.\<close>

fun link_edges ::
    "WorkspaceId \<Rightarrow> TaskGraphProposal \<Rightarrow> (string \<rightharpoonup> TaskId) \<Rightarrow> (string \<times> string) list \<Rightarrow> graph_db \<Rightarrow> (StateError + graph_db) option" where
  "link_edges ws proposal keys [] db = Some (Inr db)"
| "link_edges ws proposal keys ((key, dependency) # rest) db =
     (case (keys key, keys dependency) of
        (Some task_id, Some depends_on) \<Rightarrow>
          (case insert_dependency (dependency_row ws proposal task_id depends_on) db of
             Inl e \<Rightarrow> Some (Inl e)
           | Inr db \<Rightarrow> link_edges ws proposal keys rest db)
      | _ \<Rightarrow> None)"

fun nat_text :: "nat \<Rightarrow> string" where
  "nat_text n = (if n < 10 then [char_of (48 + n)] else nat_text (n div 10) @ [char_of (48 + n mod 10)])"

declare nat_text.simps [simp del]

definition approval_row_of :: "WorkspaceId \<Rightarrow> SessionId \<Rightarrow> GraphApprovalRequest \<Rightarrow> graph_approval_row" where
  "approval_row_of ws s request =
     \<lparr> ga_workspace = ws, ga_revision_id = rq_revision_id request, ga_proposal_hash = rq_expected_proposal_hash request,
       ga_approved_by = trim (rq_approved_by request), ga_approved_at = rq_approved_at request, ga_session_id = Some s,
       ga_requirement_revision_id = map_option auth_requirement_revision_id (rq_authority request),
       ga_validation_hash = map_option auth_validation_hash (rq_authority request),
       ga_base_commit = map_option auth_base_commit (rq_authority request) \<rparr>"

text \<open>After the dependencies: the approval, the status, the message and the two events.\<close>

definition conclude_approval ::
    "graph_store_env \<Rightarrow> WorkspaceId \<Rightarrow> fresh_ids \<Rightarrow> StoredGraphRevision \<Rightarrow> TaskGraphProposal \<Rightarrow> GraphApprovalRequest \<Rightarrow> TaskId list
     \<Rightarrow> graph_db \<Rightarrow> StateError + ApprovedGraph \<times> graph_db" where
  "conclude_approval env ws ids revision proposal request task_ids db =
     (let t = rq_approved_at request; s = graph_session_id proposal; i = id_text env (graph_revision_id proposal) in
      and_then (insert_approval (approval_row_of ws (sg_session_id revision) request) db) (\<lambda>db.
        let db = set_graphs (\<lambda>g. g\<lparr>db_graph_revisions :=
              update_rows (\<lambda>r. gr_workspace r = ws \<and> gr_revision_id r = rq_revision_id request \<and> gr_status r = ''awaiting_approval'')
                (\<lambda>r. r\<lparr>gr_status := ''approved'', gr_completed_at := Some t\<rparr>) (db_graph_revisions g)\<rparr>) db
        in
        and_then (insert_graph_message ws
            \<lparr> msg_message_id = fresh_message ids, msg_session_id = s, msg_task_id = None, msg_role = Orchestrator,
              msg_kind = StateChange, msg_state = Final,
              msg_content_redacted = ''Approved task graph '' @ i @ '' and queued '' @ nat_text (length task_ids) @ '' tasks.'',
              msg_created_at = t, msg_finalized_at = Some t \<rparr> (gd_db db)) (\<lambda>d.
        and_then (record_event env ws (graph_event ids (length task_ids) s MessageAppended Actor_Orchestrator t
            (JObject [(''message_id'', JString (id_text env (fresh_message ids))), (''revision_id'', JString i)])) (db\<lparr>gd_db := d\<rparr>)) (\<lambda>db.
        and_then (record_event env ws (graph_event ids (length task_ids + 1) s GraphApproved Actor_User t
            (JObject [(''revision_id'', JString i), (''proposal_hash'', JString (rq_expected_proposal_hash request)),
                      (''approved_by'', JString (trim (rq_approved_by request))), (''task_count'', JNumber (nat_text (length task_ids)))])) db) (\<lambda>db.
          Inr (\<lparr> ap_revision_id = rq_revision_id request, ap_proposal_hash = rq_expected_proposal_hash request,
                  ap_task_ids = task_ids, ap_replayed = False \<rparr>, db))))))"

text \<open>What the approval requires of the revision and the request, before anything is written.\<close>

definition approvable ::
    "graph_store_env \<Rightarrow> WorkspaceId \<Rightarrow> graph_db \<Rightarrow> StoredGraphRevision \<Rightarrow> GraphApprovalRequest \<Rightarrow> StateError + TaskGraphProposal \<times> string" where
  "approvable env ws db revision request =
     (if head_of ws db (sg_session_id revision) \<noteq> Some (rq_revision_id request)
      then Inl (InvalidRecord ''only the current graph revision may be approved'')
      else if sg_status revision \<noteq> Rev_AwaitingApproval then Inl (InvalidRecord ''graph revision is not awaiting approval'')
      else if latest_user_message ws db (sg_session_id revision) \<noteq> Some (sg_goal_message_id revision)
      then Inl (InvalidRecord ''graph approval is stale because a newer user message exists'')
      else
        and_then (ok_or (InvalidRecord ''approvable graph has no proposal hash'') (sg_proposal_hash revision)) (\<lambda>stored_hash.
          if stored_hash \<noteq> rq_expected_proposal_hash request then Inl (InvalidRecord ''graph proposal hash does not match approval'')
          else
            and_then (ok_or (InvalidRecord ''approvable graph has no proposal'') (sg_proposal revision)) (\<lambda>proposal.
            and_then (map_err Json (summary_of env (sg_validation revision))) (\<lambda>validation.
            and_then (map_err (\<lambda>_. InvalidRecord ''graph seal'') (task_graph_proposal_hash (seal_env env) proposal validation)) (\<lambda>recomputed.
              if recomputed \<noteq> rq_expected_proposal_hash request then Inl (InvalidRecord ''persisted graph seal does not match approval'')
              else if graph_revision_id proposal \<noteq> sg_revision_id revision \<or> graph_session_id proposal \<noteq> sg_session_id revision
                      \<or> graph_goal_message_id proposal \<noteq> sg_goal_message_id revision
              then Inl (InvalidRecord ''persisted graph proposal identity does not match its revision'')
              else
                and_then (ok_or (Sqlite ''query returned no rows'')
                    (find (\<lambda>r. msg_message_id (ms_message r) = graph_goal_message_id proposal
                         \<and> msg_session_id (ms_message r) = graph_session_id proposal) (messages_in ws (gd_db db)))) (\<lambda>goal.
                  Inr (proposal, msg_content_redacted (ms_message goal))))))))"

definition approve_graph_and_materialize_tasks ::
    "graph_store_env \<Rightarrow> WorkspaceId \<Rightarrow> fresh_ids \<Rightarrow> GraphApprovalRequest \<Rightarrow> graph_db \<Rightarrow> ((StateError + ApprovedGraph) \<times> graph_db) option" where
  "approve_graph_and_materialize_tasks env ws ids request db =
     (if trim (rq_approved_by request) = [] then Some (Inl (InvalidRecord ''graph approver must be non-empty''), db)
      else if length (rq_expected_proposal_hash request) \<noteq> 64
      then Some (Inl (InvalidRecord ''expected graph proposal hash must contain 64 hexadecimal characters''), db)
      else case and_then (graph_revision_by_id ws db (rq_revision_id request)) (ok_or (InvalidRecord ''graph revision does not exist'')) of
        Inl e \<Rightarrow> Some (Inl e, db)
      | Inr revision \<Rightarrow>
         (case validate_approval_authority env revision request of
            None \<Rightarrow> None
          | Some (Inl e) \<Rightarrow> Some (Inl e, db)
          | Some (Inr _) \<Rightarrow>
             (case approval_in ws db (rq_revision_id request) of
                Some stored \<Rightarrow>
                  Some (if \<not> approval_matches request (sg_session_id revision) stored
                        then Inl (InvalidRecord ''graph approval replay does not match the stored approval'')
                        else Inr \<lparr> ap_revision_id = rq_revision_id request, ap_proposal_hash = ga_proposal_hash stored,
                                   ap_task_ids = task_ids_for_revision ws db (rq_revision_id request), ap_replayed = True \<rparr>, db)
              | None \<Rightarrow>
                 (case approvable env ws db revision request of
                    Inl e \<Rightarrow> Some (Inl e, db)
                  | Inr (proposal, original) \<Rightarrow>
                     (case materialize_nodes env ws ids (rq_approved_at request) proposal original 0 (graph_nodes proposal) Map.empty db of
                        Inl e \<Rightarrow> Some (Inl e, db)
                      | Inr (task_ids, keys, db1) \<Rightarrow>
                         (case link_edges ws proposal keys (graph_edges proposal) db1 of
                            None \<Rightarrow> None
                          | Some (Inl e) \<Rightarrow> Some (Inl e, db)
                          | Some (Inr db2) \<Rightarrow>
                              Some (case conclude_approval env ws ids revision proposal request task_ids db2 of
                                      Inl e \<Rightarrow> (Inl e, db) | Inr (a, db3) \<Rightarrow> (Inr a, db3))))))))"

section \<open>What the writes touch\<close>

lemma graphs_set_graphs [simp]: "graphs (set_graphs f db) = f (graphs db)"
  by (simp add: graphs_def set_graphs_def)

lemma set_graphs_keeps [simp]:
  "gd_attempts (set_graphs f db) = gd_attempts db" "gd_requirements (set_graphs f db) = gd_requirements db"
  "sd_messages (gd_db (set_graphs f db)) = sd_messages (gd_db db)" "sd_sessions (gd_db (set_graphs f db)) = sd_sessions (gd_db db)"
  by (simp_all add: set_graphs_def)

lemma record_event_graphs: "record_event env ws event db = Inr db' \<Longrightarrow> graphs db' = graphs db"
  by (auto simp: record_event_def append_event_in_transaction_def and_then_eq_Inr graphs_def)

lemma insert_graph_message_graphs: "insert_graph_message ws m d = Inr d' \<Longrightarrow> sd_graphs d' = sd_graphs d"
  by (auto simp: insert_graph_message_def append_message_in_transaction_def insert_message_def Let_def and_then_eq_Inr split: if_split_asm)

lemma insert_rows:
  "insert_task t db = Inr db' \<Longrightarrow> graphs db' = (graphs db)\<lparr>db_tasks := db_tasks (graphs db) @ [t]\<rparr>"
  "insert_session_task st db = Inr db' \<Longrightarrow> graphs db' = (graphs db)\<lparr>db_session_tasks := db_session_tasks (graphs db) @ [st]\<rparr>"
  "insert_dependency d db = Inr db' \<Longrightarrow> graphs db' = (graphs db)\<lparr>db_task_dependencies := db_task_dependencies (graphs db) @ [d]\<rparr>"
  "insert_approval a db = Inr db' \<Longrightarrow> graphs db' = (graphs db)\<lparr>db_graph_approvals := db_graph_approvals (graphs db) @ [a]\<rparr>"
  by (auto simp: insert_task_def insert_session_task_def insert_dependency_def insert_approval_def split: if_split_asm)

text \<open>The loop over the nodes writes one task and one graph task per node, in order.\<close>

lemma materialized_ids:
  "materialize_nodes env ws ids t proposal original i nodes keys db = Inr (task_ids, keys', db') \<Longrightarrow>
     task_ids = map (fresh_task ids) [i..<i + length nodes]"
proof (induction nodes arbitrary: i keys db task_ids)
  case (Cons node nodes)
  obtain rest db1 where step: "task_ids = fresh_task ids i # rest"
      "materialize_nodes env ws ids t proposal original (i + 1) nodes (keys(node_key node \<mapsto> fresh_task ids i)) db1 = Inr (rest, keys', db')"
    using Cons.prems by (auto simp: Let_def and_then_eq_Inr)
  have "[i..<i + length (node # nodes)] = i # [i + 1..<i + 1 + length nodes]" by (simp add: upt_rec)
  then show ?case using step(1) Cons.IH [OF step(2)] by simp
qed simp

lemma materialized_keys:
  "materialize_nodes env ws ids t proposal original i nodes keys db = Inr (task_ids, keys', db') \<Longrightarrow>
     keys' = keys(map node_key nodes [\<mapsto>] task_ids)"
proof (induction nodes arbitrary: i keys db task_ids)
  case (Cons node nodes)
  obtain rest db1 where step: "task_ids = fresh_task ids i # rest"
      "materialize_nodes env ws ids t proposal original (i + 1) nodes (keys(node_key node \<mapsto> fresh_task ids i)) db1 = Inr (rest, keys', db')"
    using Cons.prems by (auto simp: Let_def and_then_eq_Inr)
  show ?case using Cons.IH [OF step(2)] unfolding step(1) list.map map_upds_Cons .
qed simp

lemma materialized:
  "materialize_nodes env ws ids t proposal original i nodes keys db = Inr (task_ids, keys', db') \<Longrightarrow>
     graphs db' = (graphs db)
      \<lparr>db_tasks := db_tasks (graphs db) @ map2 (new_task_row ws t original) task_ids nodes,
       db_session_tasks := db_session_tasks (graphs db)
         @ map2 (\<lambda>k n. new_session_task ws proposal k (fresh_task ids k) n) [i..<i + length nodes] nodes\<rparr>"
proof (induction nodes arbitrary: i keys db task_ids)
  case (Cons node nodes)
  obtain db1 db2 db3 rest where step:
      "insert_task (new_task_row ws t original (fresh_task ids i) node) db = Inr db1"
      "insert_session_task (new_session_task ws proposal i (fresh_task ids i) node) db1 = Inr db2"
      "graphs db3 = graphs db2" "task_ids = fresh_task ids i # rest"
      "materialize_nodes env ws ids t proposal original (i + 1) nodes (keys(node_key node \<mapsto> fresh_task ids i)) db3 = Inr (rest, keys', db')"
    using Cons.prems by (auto simp: Let_def and_then_eq_Inr dest: record_event_graphs)
  have up: "[i..<i + length (node # nodes)] = i # [i + 1..<i + 1 + length nodes]" by (simp add: upt_rec)
  show ?case unfolding step(4) up Cons.IH [OF step(5)]
    by (simp add: insert_rows(1) [OF step(1)] insert_rows(2) [OF step(2)] step(3))
qed simp

lemma linked:
  "link_edges ws proposal keys rest db = Some (Inr db') \<Longrightarrow>
     graphs db' = (graphs db)\<lparr>db_task_dependencies := db_task_dependencies (graphs db)
       @ map (\<lambda>(k, d). dependency_row ws proposal (the (keys k)) (the (keys d))) rest\<rparr>"
proof (induction rest arbitrary: db)
  case (Cons e rest)
  obtain k d where e: "e = (k, d)" by fastforce
  then obtain t u db1 where "keys k = Some t" "keys d = Some u" "insert_dependency (dependency_row ws proposal t u) db = Inr db1"
      "link_edges ws proposal keys rest db1 = Some (Inr db')"
    using Cons.prems by (auto split: option.splits sum.splits)
  then show ?case using Cons.IH [of db1] insert_rows(3) [of "dependency_row ws proposal t u" db db1] e by simp
qed simp

definition approve_revision :: "WorkspaceId \<Rightarrow> GraphRevisionId \<Rightarrow> DateTime \<Rightarrow> graph_revision_row list \<Rightarrow> graph_revision_row list" where
  "approve_revision ws i t = update_rows (\<lambda>r. gr_workspace r = ws \<and> gr_revision_id r = i \<and> gr_status r = ''awaiting_approval'')
     (\<lambda>r. r\<lparr>gr_status := ''approved'', gr_completed_at := Some t\<rparr>)"

lemma concluded:
  assumes "conclude_approval env ws ids revision proposal request task_ids db = Inr (a, db')"
  shows "graphs db' = (graphs db)
      \<lparr>db_graph_approvals := db_graph_approvals (graphs db) @ [approval_row_of ws (sg_session_id revision) request],
       db_graph_revisions := approve_revision ws (rq_revision_id request) (rq_approved_at request) (db_graph_revisions (graphs db))\<rparr>"
    and "a = \<lparr> ap_revision_id = rq_revision_id request, ap_proposal_hash = rq_expected_proposal_hash request,
      ap_task_ids = task_ids, ap_replayed = False \<rparr>"
    and "\<exists>db1. insert_approval (approval_row_of ws (sg_session_id revision) request) db = Inr db1"
proof -
  let ?row = "approval_row_of ws (sg_session_id revision) request"
  define approve where "approve = set_graphs (\<lambda>g. g\<lparr>db_graph_revisions :=
      approve_revision ws (rq_revision_id request) (rq_approved_at request) (db_graph_revisions g)\<rparr>)"
  obtain db1 m d event1 db2 event2 where step: "insert_approval ?row db = Inr db1"
      "insert_graph_message ws m (gd_db (approve db1)) = Inr d"
      "record_event env ws event1 ((approve db1)\<lparr>gd_db := d\<rparr>) = Inr db2" "record_event env ws event2 db2 = Inr db'"
      "a = \<lparr> ap_revision_id = rq_revision_id request, ap_proposal_hash = rq_expected_proposal_hash request,
         ap_task_ids = task_ids, ap_replayed = False \<rparr>"
    using assms unfolding conclude_approval_def Let_def and_then_eq_Inr approve_def approve_revision_def by blast
  have "graphs db' = sd_graphs d" using record_event_graphs [OF step(3)] record_event_graphs [OF step(4)] by (simp add: graphs_def)
  also have "\<dots> = graphs (approve db1)" using insert_graph_message_graphs [OF step(2)] by (simp add: graphs_def)
  finally have final: "graphs db' = graphs (approve db1)" .
  show "graphs db' = (graphs db)
      \<lparr>db_graph_approvals := db_graph_approvals (graphs db) @ [approval_row_of ws (sg_session_id revision) request],
       db_graph_revisions := approve_revision ws (rq_revision_id request) (rq_approved_at request) (db_graph_revisions (graphs db))\<rparr>"
    unfolding final approve_def using insert_rows(4) [OF step(1)] by simp
  show "a = \<lparr> ap_revision_id = rq_revision_id request, ap_proposal_hash = rq_expected_proposal_hash request,
      ap_task_ids = task_ids, ap_replayed = False \<rparr>" using step(5) .
  show "\<exists>db1. insert_approval (approval_row_of ws (sg_session_id revision) request) db = Inr db1" using step(1) by blast
qed

text \<open>What a first approval found and what it wrote.\<close>

lemma guard_eq_Inr: "(if c then Inl e else r) = Inr a \<longleftrightarrow> \<not> c \<and> r = Inr a" by simp

lemma approvable_facts:
  assumes "approvable env ws db revision request = Inr (proposal, original)"
  shows "head_of ws db (sg_session_id revision) = Some (rq_revision_id request)" "sg_status revision = Rev_AwaitingApproval"
    and "latest_user_message ws db (sg_session_id revision) = Some (sg_goal_message_id revision)"
    and "sg_proposal_hash revision = Some (rq_expected_proposal_hash request)" "sg_proposal revision = Some proposal"
    and "\<exists>validation. summary_of env (sg_validation revision) = Inr validation
      \<and> task_graph_proposal_hash (seal_env env) proposal validation = Inr (rq_expected_proposal_hash request)"
    and "graph_revision_id proposal = sg_revision_id revision" "graph_session_id proposal = sg_session_id revision"
    and "graph_goal_message_id proposal = sg_goal_message_id revision"
    and "\<exists>goal \<in> set (messages_in ws (gd_db db)). msg_message_id (ms_message goal) = sg_goal_message_id revision
      \<and> msg_session_id (ms_message goal) = sg_session_id revision \<and> original = msg_content_redacted (ms_message goal)"
proof -
  note steps = assms [unfolded approvable_def guard_eq_Inr and_then_eq_Inr ok_or_eq_Inr map_err_eq_Inr de_Morgan_disj not_not]
  from steps show "head_of ws db (sg_session_id revision) = Some (rq_revision_id request)" "sg_status revision = Rev_AwaitingApproval"
    "latest_user_message ws db (sg_session_id revision) = Some (sg_goal_message_id revision)" by - (elim conjE, assumption)+
  from steps obtain hash p validation recomputed goal where seal: "sg_proposal_hash revision = Some hash" "hash = rq_expected_proposal_hash request"
      "sg_proposal revision = Some p" "summary_of env (sg_validation revision) = Inr validation"
      "task_graph_proposal_hash (seal_env env) p validation = Inr recomputed" "recomputed = rq_expected_proposal_hash request"
      "graph_revision_id p = sg_revision_id revision" "graph_session_id p = sg_session_id revision"
      "graph_goal_message_id p = sg_goal_message_id revision"
    and goal: "find (\<lambda>r. msg_message_id (ms_message r) = graph_goal_message_id p \<and> msg_session_id (ms_message r) = graph_session_id p)
        (messages_in ws (gd_db db)) = Some goal"
      "(p, msg_content_redacted (ms_message goal)) = (proposal, original)"
    unfolding sum.inject by (elim conjE exE) blast
  have p: "p = proposal" "original = msg_content_redacted (ms_message goal)" using goal(2) by simp_all
  show "sg_proposal_hash revision = Some (rq_expected_proposal_hash request)" "sg_proposal revision = Some proposal"
    "\<exists>validation. summary_of env (sg_validation revision) = Inr validation
      \<and> task_graph_proposal_hash (seal_env env) proposal validation = Inr (rq_expected_proposal_hash request)"
    "graph_revision_id proposal = sg_revision_id revision" "graph_session_id proposal = sg_session_id revision"
    "graph_goal_message_id proposal = sg_goal_message_id revision" using seal p by simp_all
  show "\<exists>goal \<in> set (messages_in ws (gd_db db)). msg_message_id (ms_message goal) = sg_goal_message_id revision
      \<and> msg_session_id (ms_message goal) = sg_session_id revision \<and> original = msg_content_redacted (ms_message goal)"
    using find_in_set [OF goal(1)] seal(8,9) p(2) by auto
qed

lemma first_approval:
  assumes "approve_graph_and_materialize_tasks env ws ids request db = Some (Inr a, db')" "\<not> ap_replayed a"
  obtains revision proposal original keys db1 db2 where
    "graph_revision_by_id ws db (rq_revision_id request) = Inr (Some revision)"
    "validate_approval_authority env revision request = Some (Inr ())"
    "approval_in ws db (rq_revision_id request) = None"
    "approvable env ws db revision request = Inr (proposal, original)"
    "materialize_nodes env ws ids (rq_approved_at request) proposal original 0 (graph_nodes proposal) Map.empty db = Inr (ap_task_ids a, keys, db1)"
    "link_edges ws proposal keys (graph_edges proposal) db1 = Some (Inr db2)"
    "conclude_approval env ws ids revision proposal request (ap_task_ids a) db2 = Inr (a, db')"
proof -
  note split = if_split_asm sum.split_asm option.split_asm prod.split_asm
  obtain revision where rev: "graph_revision_by_id ws db (rq_revision_id request) = Inr (Some revision)"
      "validate_approval_authority env revision request = Some (Inr ())" "approval_in ws db (rq_revision_id request) = None"
    using assms unfolding approve_graph_and_materialize_tasks_def
    by (auto simp: and_then_def ok_or_def split: split)
  have len: "trim (rq_approved_by request) \<noteq> []" "length (rq_expected_proposal_hash request) = 64"
    using assms unfolding approve_graph_and_materialize_tasks_def by (auto split: if_split_asm)
  obtain proposal original where ok: "approvable env ws db revision request = Inr (proposal, original)"
    using assms(1) rev len unfolding approve_graph_and_materialize_tasks_def
    by (auto simp: and_then_def ok_or_def split: sum.split_asm)
  obtain task_ids keys db1 where nodes:
      "materialize_nodes env ws ids (rq_approved_at request) proposal original 0 (graph_nodes proposal) Map.empty db = Inr (task_ids, keys, db1)"
    using assms(1) rev len ok unfolding approve_graph_and_materialize_tasks_def
    by (auto simp: and_then_def ok_or_def split: sum.split_asm)
  obtain db2 where edges: "link_edges ws proposal keys (graph_edges proposal) db1 = Some (Inr db2)"
    using assms(1) rev len ok nodes unfolding approve_graph_and_materialize_tasks_def
    by (auto simp: and_then_def ok_or_def split: sum.split_asm option.split_asm)
  have last: "conclude_approval env ws ids revision proposal request task_ids db2 = Inr (a, db')"
    using assms(1) rev len ok nodes edges unfolding approve_graph_and_materialize_tasks_def
    by (auto simp: and_then_def ok_or_def split: sum.split_asm)
  have "ap_task_ids a = task_ids" using concluded(2) [OF last] by simp
  then show ?thesis using that rev ok nodes edges last by blast
qed

lemma first_approval_writes:
  assumes "materialize_nodes env ws ids t proposal original 0 nodes Map.empty db = Inr (task_ids, keys, db1)"
    and "link_edges ws proposal keys rest db1 = Some (Inr db2)"
    and "conclude_approval env ws ids revision proposal request task_ids db2 = Inr (a, db')"
  shows "graphs db' = (graphs db)
      \<lparr>db_tasks := db_tasks (graphs db) @ map2 (new_task_row ws t original) task_ids nodes,
       db_session_tasks := db_session_tasks (graphs db)
         @ map2 (\<lambda>k n. new_session_task ws proposal k (fresh_task ids k) n) [0..<length nodes] nodes,
       db_task_dependencies := db_task_dependencies (graphs db)
         @ map (\<lambda>(k, d). dependency_row ws proposal (the (keys k)) (the (keys d))) rest,
       db_graph_approvals := db_graph_approvals (graphs db) @ [approval_row_of ws (sg_session_id revision) request],
       db_graph_revisions := approve_revision ws (rq_revision_id request) (rq_approved_at request) (db_graph_revisions (graphs db))\<rparr>"
  using concluded(1) [OF assms(3)] linked [OF assms(2)] materialized [OF assms(1)] by simp

section \<open>The life of an approved revision\<close>

text \<open>A revision row apart from its status and its completion. An approved revision keeps it.\<close>

definition payload :: "graph_revision_row \<Rightarrow> graph_revision_row" where
  "payload r = r\<lparr>gr_status := [], gr_completed_at := None\<rparr>"

definition decided :: "graph_revision_row \<Rightarrow> bool" where
  "decided r \<longleftrightarrow> gr_status r \<in> {''approved'', ''superseded''}"

definition evolves :: "graph_revision_row \<Rightarrow> graph_revision_row \<Rightarrow> bool" where
  "evolves r r' \<longleftrightarrow> gr_workspace r' = gr_workspace r \<and> gr_revision_id r' = gr_revision_id r
     \<and> (decided r \<longrightarrow> decided r' \<and> payload r' = payload r)"

definition revision_row :: "WorkspaceId \<Rightarrow> graph_db \<Rightarrow> GraphRevisionId \<Rightarrow> graph_revision_row option" where
  "revision_row ws db i = find (\<lambda>r. gr_revision_id r = i) (revisions_in ws db)"

text \<open>How the operations change revisions, approvals and graph tasks: one row more, or rows that evolve; the tasks of a
  revision come with its approval, or after the tasks it has.\<close>

inductive graph_write :: "graph_db \<Rightarrow> graph_db \<Rightarrow> bool" where
  add_revision: "revision_row (gr_workspace row) db (gr_revision_id row) = None \<Longrightarrow>
    db_graph_revisions (graphs db') = db_graph_revisions (graphs db) @ [row] \<Longrightarrow>
    db_graph_approvals (graphs db') = db_graph_approvals (graphs db) \<Longrightarrow>
    db_session_tasks (graphs db') = db_session_tasks (graphs db) \<Longrightarrow> graph_write db db'"
| revise: "(\<And>r. p r \<Longrightarrow> evolves r (f r)) \<Longrightarrow>
    db_graph_revisions (graphs db') = update_rows p f (db_graph_revisions (graphs db)) \<Longrightarrow>
    db_graph_approvals (graphs db') = db_graph_approvals (graphs db) \<Longrightarrow>
    db_session_tasks (graphs db') = db_session_tasks (graphs db) \<Longrightarrow> graph_write db db'"
| add_approval: "approval_in (ga_workspace row) db (ga_revision_id row) = None \<Longrightarrow>
    (\<And>r. r \<in> set rows \<Longrightarrow> st_workspace r = ga_workspace row \<and> st_revision_id r = ga_revision_id row) \<Longrightarrow>
    db_graph_revisions (graphs db') = db_graph_revisions (graphs db) \<Longrightarrow>
    db_graph_approvals (graphs db') = db_graph_approvals (graphs db) @ [row] \<Longrightarrow>
    db_session_tasks (graphs db') = db_session_tasks (graphs db) @ rows \<Longrightarrow> graph_write db db'"
| add_task: "r \<in> set (tasks_of_revision (st_workspace row) db (st_revision_id row)) \<Longrightarrow>
    (\<And>r. r \<in> set (tasks_of_revision (st_workspace row) db (st_revision_id row)) \<Longrightarrow> st_display_order r < st_display_order row) \<Longrightarrow>
    db_graph_revisions (graphs db') = db_graph_revisions (graphs db) \<Longrightarrow>
    db_graph_approvals (graphs db') = db_graph_approvals (graphs db) \<Longrightarrow>
    db_session_tasks (graphs db') = db_session_tasks (graphs db) @ [row] \<Longrightarrow> graph_write db db'"
| aside: "db_graph_revisions (graphs db') = db_graph_revisions (graphs db) \<Longrightarrow>
    db_graph_approvals (graphs db') = db_graph_approvals (graphs db) \<Longrightarrow>
    db_session_tasks (graphs db') = db_session_tasks (graphs db) \<Longrightarrow> graph_write db db'"

text \<open>Tasks belong to approved revisions.\<close>

definition graph_inv :: "graph_db \<Rightarrow> bool" where
  "graph_inv db \<longleftrightarrow> (\<forall>r \<in> set (db_session_tasks (graphs db)). approval_in (st_workspace r) db (st_revision_id r) \<noteq> None)"

definition approved_as :: "WorkspaceId \<Rightarrow> graph_revision_row \<Rightarrow> graph_approval_row \<Rightarrow> TaskId list \<Rightarrow> graph_db \<Rightarrow> bool" where
  "approved_as ws r0 a task_ids db \<longleftrightarrow>
     (\<exists>r. revision_row ws db (gr_revision_id r0) = Some r \<and> decided r \<and> payload r = payload r0)
   \<and> approval_in ws db (gr_revision_id r0) = Some a
   \<and> (\<exists>more. task_ids_for_revision ws db (gr_revision_id r0) = task_ids @ more)"

lemma find_rows_update:
  assumes "\<And>r. p r \<Longrightarrow> workspace (f r) = workspace r \<and> key (f r) = key r"
  shows "find (\<lambda>r. key r = i) (rows_of workspace ws (update_rows p f rows))
    = map_option (\<lambda>r. if p r then f r else r) (find (\<lambda>r. key r = i) (rows_of workspace ws rows))"
  using assms by (induction rows) (auto simp: rows_of_def update_rows_def)

lemma insort_key_snoc: "f x \<le> f y \<Longrightarrow> insort_key f x (zs @ [y]) = insort_key f x zs @ [y]"
  by (induction zs) auto

lemma sort_key_snoc: "(\<And>x. x \<in> set xs \<Longrightarrow> f x < f y) \<Longrightarrow> sort_key f (xs @ [y]) = sort_key f xs @ [y]"
  by (induction xs) (simp_all add: insort_key_snoc less_imp_le)

lemma approval_in_append:
  "approval_in ws db' i = (case approval_in ws db i of None \<Rightarrow> if ga_workspace row = ws \<and> ga_revision_id row = i then Some row else None | Some a \<Rightarrow> Some a)"
  if "db_graph_approvals (graphs db') = db_graph_approvals (graphs db) @ [row]"
  using that by (simp add: approval_in_def rows_of_def find_append split: option.split)

lemma tasks_of_revision_append:
  "tasks_of_revision ws db' i = sort_key st_display_order
     (filter (\<lambda>r. st_revision_id r = i) (rows_of st_workspace ws (db_session_tasks (graphs db)))
      @ filter (\<lambda>r. st_revision_id r = i) (rows_of st_workspace ws rows))"
  if "db_session_tasks (graphs db') = db_session_tasks (graphs db) @ rows"
  using that by (simp add: tasks_of_revision_def rows_of_def)

lemma graph_inv_write: "graph_write db db' \<Longrightarrow> graph_inv db \<Longrightarrow> graph_inv db'"
proof (induction rule: graph_write.induct)
  case (add_approval row db rows db')
  show ?case unfolding graph_inv_def approval_in_append [OF add_approval(4)] add_approval(5)
    using add_approval(2,6) by (auto simp: graph_inv_def split: option.split)
next
  case (add_task r row db db')
  then have "r \<in> set (db_session_tasks (graphs db))" "st_workspace r = st_workspace row" "st_revision_id r = st_revision_id row"
    by (auto simp: tasks_of_revision_def)
  then show ?case using add_task unfolding graph_inv_def by (auto simp: approval_in_def)
qed (simp_all add: graph_inv_def approval_in_def)

lemma approved_as_write: "graph_write db db' \<Longrightarrow> approved_as ws r0 a task_ids db \<Longrightarrow> approved_as ws r0 a task_ids db'"
proof (induction rule: graph_write.induct)
  case (add_revision row db db')
  then show ?case
    by (auto simp: approved_as_def revision_row_def revisions_in_def approval_in_def task_ids_for_revision_def tasks_of_revision_def
        rows_of_def find_append split: option.splits)
next
  case (revise p f db' db)
  have "revision_row ws db' i = map_option (\<lambda>r. if p r then f r else r) (revision_row ws db i)" for i
    unfolding revision_row_def revisions_in_def revise(2) by (rule find_rows_update) (use revise(1) in \<open>auto simp: evolves_def\<close>)
  moreover obtain r where r: "revision_row ws db (gr_revision_id r0) = Some r" "decided r" "payload r = payload r0"
    using revise(5) by (auto simp: approved_as_def)
  moreover have "decided (if p r then f r else r)" "payload (if p r then f r else r) = payload r0"
    using r(2,3) revise(1) by (auto simp: evolves_def)
  ultimately show ?case using revise(3-5)
    by (simp add: approved_as_def approval_in_def task_ids_for_revision_def tasks_of_revision_def)
next
  case (add_approval row db rows db')
  let ?i = "gr_revision_id r0"
  have "\<not> (ga_workspace row = ws \<and> ga_revision_id row = ?i)" using add_approval(1,6) by (auto simp: approved_as_def)
  then have "filter (\<lambda>r. st_revision_id r = ?i) (rows_of st_workspace ws rows) = []" using add_approval(2) by (auto simp: filter_empty_conv)
  then have "task_ids_for_revision ws db' ?i = task_ids_for_revision ws db ?i"
    unfolding task_ids_for_revision_def tasks_of_revision_append [OF add_approval(5)] by (simp add: tasks_of_revision_def)
  then show ?case using add_approval
    by (auto simp: approved_as_def revision_row_def revisions_in_def approval_in_append [OF add_approval(4)])
next
  case (add_task r row db db')
  let ?i = "gr_revision_id r0"
  have "\<exists>more. task_ids_for_revision ws db' ?i = task_ids_for_revision ws db ?i @ more"
  proof (cases "st_workspace row = ws \<and> st_revision_id row = ?i")
    case True
    then have "tasks_of_revision ws db' ?i = tasks_of_revision ws db ?i @ [row]"
      using add_task(2) unfolding tasks_of_revision_append [OF add_task(5)]
      by (simp add: tasks_of_revision_def rows_of_def) (rule sort_key_snoc, force)
    then show ?thesis by (simp add: task_ids_for_revision_def)
  next
    case False
    then have "filter (\<lambda>r. st_revision_id r = ?i) (rows_of st_workspace ws [row]) = []" by (simp add: rows_of_def)
    then show ?thesis unfolding task_ids_for_revision_def tasks_of_revision_append [OF add_task(5)] by (simp add: tasks_of_revision_def)
  qed
  then show ?case using add_task(3,4,6) by (auto simp: approved_as_def revision_row_def revisions_in_def approval_in_def)
next
  case (aside db' db)
  then show ?case by (simp add: approved_as_def revision_row_def revisions_in_def approval_in_def task_ids_for_revision_def tasks_of_revision_def)
qed

section \<open>The operations as writes\<close>

text \<open>One operation on the graph tables, or a user message, which supersedes a candidate. \<open>resolve\<close> is the row that
  \<open>create_integration_resolution_task\<close> in \<open>integrations.rs\<close> adds after the tasks of a revision; the operations of the other stores leave
  revisions, approvals and graph tasks alone.\<close>

inductive graph_step :: "graph_store_env \<Rightarrow> graph_db \<Rightarrow> graph_db \<Rightarrow> bool" for env where
  step_begin: "begin_graph_attempt env ws ids attempt db = (result, db') \<Longrightarrow> graph_step env db db'"
| step_finish: "finish_graph_attempt env ws ids attempt' db = (result, db') \<Longrightarrow> graph_step env db db'"
| step_record: "record_graph_attempt env ws ids attempt' db = (result, db') \<Longrightarrow> graph_step env db db'"
| step_approve: "approve_graph_and_materialize_tasks env ws ids request db = Some (result', db') \<Longrightarrow> graph_step env db db'"
| step_message: "append_session_message_and_queue_conversation (session_env.truncate env) ws fresh m event source c (gd_db db) = (result'', d) \<Longrightarrow>
    graph_step env db (db\<lparr>gd_db := d\<rparr>)"
| step_resolve: "insert_session_task row db = Inr db' \<Longrightarrow> r \<in> set (tasks_of_revision (st_workspace row) db (st_revision_id row)) \<Longrightarrow>
    (\<And>r. r \<in> set (tasks_of_revision (st_workspace row) db (st_revision_id row)) \<Longrightarrow> st_display_order r < st_display_order row) \<Longrightarrow>
    graph_step env db db'"
| step_elsewhere: "db_graph_revisions (graphs db') = db_graph_revisions (graphs db) \<Longrightarrow>
    db_graph_approvals (graphs db') = db_graph_approvals (graphs db) \<Longrightarrow>
    db_session_tasks (graphs db') = db_session_tasks (graphs db) \<Longrightarrow> graph_step env db db'"

lemma supersede_evolves:
  assumes "graphs db' = supersede_head states t ws s (graphs db)"
  shows "graph_write db db'"
proof (cases "find (\<lambda>h. gh_session_id h = s) (rows_of gh_workspace ws (db_graph_heads (graphs db)))")
  case None
  then show ?thesis using assms by (intro aside) (simp_all add: supersede_head_def)
next
  case (Some h)
  show ?thesis
    by (rule revise [of "\<lambda>r. gr_workspace r = ws \<and> gr_revision_id r = gh_revision_id h \<and> gr_status r \<in> states"
          "\<lambda>r. r\<lparr>gr_status := ''superseded'', gr_completed_at := (case gr_completed_at r of None \<Rightarrow> Some t | c \<Rightarrow> c)\<rparr>"])
      (use assms Some in \<open>simp_all add: supersede_head_def evolves_def decided_def payload_def\<close>)
qed

lemma insert_revision_write: "insert_revision row db = Inr db' \<Longrightarrow> graph_write db db'"
  by (rule add_revision [of row])
    (auto simp: insert_revision_def revision_row_def find_None_iff list_ex_iff split: if_split_asm)

lemma aside_writes:
  "insert_attempt a db = Inr db' \<Longrightarrow> graph_write db db'"
  "upsert_head h db = Inr db' \<Longrightarrow> graph_write db db'"
  "record_event env ws event db = Inr db' \<Longrightarrow> graph_write db db'"
proof -
  show "insert_attempt a db = Inr db' \<Longrightarrow> graph_write db db'"
    by (rule aside) (auto simp: insert_attempt_def graphs_def split: if_split_asm)
  show "upsert_head h db = Inr db' \<Longrightarrow> graph_write db db'"
    by (rule aside) (auto simp: upsert_head_def Let_def split: if_split_asm)
  show "record_event env ws event db = Inr db' \<Longrightarrow> graph_write db db'"
    by (rule aside) (auto dest: record_event_graphs)
qed

lemma complete_revision_write: "complete_revision ws i (set_outcome env a) db = Inr (n, db') \<Longrightarrow> graph_write db db'"
  by (rule revise [of "\<lambda>r. gr_workspace r = ws \<and> gr_revision_id r = i \<and> gr_status r = ''planning''" "set_outcome env a"])
    (auto simp: complete_revision_def evolves_def decided_def set_outcome_def Let_def split: if_split_asm)


lemma invalidate_graph_writes:
  "invalidate_pre_task_candidate_in_transaction env ws fresh s t causation correlation d = Inr d' \<Longrightarrow>
     sd_graphs d' \<in> {sd_graphs d, supersede_candidate t ws s (sd_graphs d)}"
  unfolding invalidate_pre_task_candidate_in_transaction_def
  by (auto simp: and_then_eq_Inr update_sessions_def append_event_in_transaction_def split: if_split_asm)

lemma append_message_graphs: "append_message_in_transaction ws m d = Inr (k, d') \<Longrightarrow> sd_graphs d' = sd_graphs d"
  by (auto simp: append_message_in_transaction_def insert_message_def Let_def and_then_eq_Inr split: if_split_asm)

lemma message_writes:
  "append_session_message_and_queue_conversation env ws fresh m event source c d = (result, d') \<Longrightarrow>
     sd_graphs d' \<in> {sd_graphs d, supersede_candidate (msg_created_at m) ws (msg_session_id m) (sd_graphs d)}"
  unfolding append_session_message_and_queue_conversation_def
  by (elim transact_cases) (auto simp: and_then_eq_Inr append_event_in_transaction_def
      split: if_split_asm option.split_asm dest!: invalidate_graph_writes append_message_graphs)

lemma supersede_current_write: "graph_write db (supersede_current t ws s db)"
  by (rule supersede_evolves [of _ "{''planning'', ''awaiting_approval'', ''approved''}" t ws s]) (simp add: supersede_current_def)

lemma recorded_writes:
  assumes "insert_revision row (supersede_current t ws s db) = Inr db1" "insert_attempt attempt db1 = Inr db2"
    and "upsert_head h db2 = Inr db3" "record_event env ws event db3 = Inr db'"
  shows "graph_write\<^sup>*\<^sup>* db db'"
  using supersede_current_write insert_revision_write [OF assms(1)] aside_writes(1) [OF assms(2)] aside_writes(2) [OF assms(3)]
    aside_writes(3) [OF assms(4)] by (meson converse_rtranclp_into_rtranclp rtranclp.rtrancl_refl)

lemma begin_writes: "begin_graph_attempt env ws ids a db = (result, db') \<Longrightarrow> graph_write\<^sup>*\<^sup>* db db'"
  unfolding begin_graph_attempt_def
  by (elim transact_cases) (auto simp: and_then_eq_Inr Let_def split: option.split_asm if_split_asm intro: recorded_writes)

lemma record_writes: "record_graph_attempt env ws ids a db = (result, db') \<Longrightarrow> graph_write\<^sup>*\<^sup>* db db'"
  unfolding record_graph_attempt_def
  by (elim transact_cases) (auto simp: and_then_eq_Inr Let_def split: if_split_asm intro: recorded_writes)

lemma completed_writes:
  assumes "complete_revision ws i (set_outcome env a) db = Inr (n, db1)" "record_event env ws event (db1\<lparr>gd_attempts := rows\<rparr>) = Inr db'"
  shows "graph_write\<^sup>*\<^sup>* db db'"
proof -
  have "graph_write db1 (db1\<lparr>gd_attempts := rows\<rparr>)" by (rule aside) (simp_all add: graphs_def)
  then show ?thesis using complete_revision_write [OF assms(1)] aside_writes(3) [OF assms(2)]
    by (meson converse_rtranclp_into_rtranclp rtranclp.rtrancl_refl)
qed

lemma finish_attempt_writes: "finish_graph_attempt env ws ids a db = (result, db') \<Longrightarrow> graph_write\<^sup>*\<^sup>* db db'"
  unfolding finish_graph_attempt_def
  by (elim transact_cases) (auto simp: and_then_eq_Inr Let_def split: if_split_asm intro: completed_writes)

lemma approve_unchanged:
  assumes "approve_graph_and_materialize_tasks env ws ids request db = Some (result, db')" "\<And>a. result = Inr a \<Longrightarrow> ap_replayed a"
  shows "db' = db"
  using assms unfolding approve_graph_and_materialize_tasks_def
  by (auto split: if_split_asm sum.split_asm option.split_asm prod.split_asm dest: concluded(2))

lemma map_revision_fields:
  assumes "map_revision r = Inr x"
  shows "sg_revision_id x = gr_revision_id r" "sg_session_id x = gr_session_id r" "sg_proposal_hash x = gr_proposal_hash r"
    and "sg_validation x = gr_validation r" "parse_revision_status (gr_status r) = Some (sg_status x)"
    and "(case gr_proposal r of None \<Rightarrow> sg_proposal x = None | Some (Inl _) \<Rightarrow> False | Some (Inr p) \<Rightarrow> sg_proposal x = Some p)"
  using assms by (auto simp: map_revision_def and_then_eq_Inr split: if_split_asm option.split_asm sum.split_asm)

lemma revision_found:
  "graph_revision_by_id ws db i = Inr (Some x) \<longleftrightarrow> (\<exists>r. revision_row ws db i = Some r \<and> map_revision r = Inr x)"
  by (auto simp: graph_revision_by_id_def revision_row_def and_then_eq_Inr split: option.splits)

lemma parse_awaiting: "parse_revision_status s = Some Rev_AwaitingApproval \<longleftrightarrow> s = ''awaiting_approval''"
  by (auto simp: parse_revision_status_def split: if_split_asm)

definition graph_task_rows :: "WorkspaceId \<Rightarrow> fresh_ids \<Rightarrow> TaskGraphProposal \<Rightarrow> session_task_row list" where
  "graph_task_rows ws ids proposal =
     map2 (\<lambda>k n. new_session_task ws proposal k (fresh_task ids k) n) [0..<length (graph_nodes proposal)] (graph_nodes proposal)"

lemma approved_rows:
  assumes "approve_graph_and_materialize_tasks env ws ids request db = Some (Inr a, db')" "\<not> ap_replayed a"
  obtains revision proposal where
    "graph_revision_by_id ws db (rq_revision_id request) = Inr (Some revision)" "sg_status revision = Rev_AwaitingApproval"
    "validate_approval_authority env revision request = Some (Inr ())" "approval_in ws db (rq_revision_id request) = None"
    "graph_revision_id proposal = rq_revision_id request"
    "ap_task_ids a = map (fresh_task ids) [0..<length (graph_nodes proposal)]"
    "db_graph_approvals (graphs db') = db_graph_approvals (graphs db) @ [approval_row_of ws (sg_session_id revision) request]"
    "db_session_tasks (graphs db') = db_session_tasks (graphs db) @ graph_task_rows ws ids proposal"
    "db_graph_revisions (graphs db') = approve_revision ws (rq_revision_id request) (rq_approved_at request) (db_graph_revisions (graphs db))"
    "a = \<lparr> ap_revision_id = rq_revision_id request, ap_proposal_hash = rq_expected_proposal_hash request,
       ap_task_ids = ap_task_ids a, ap_replayed = False \<rparr>"
proof -
  obtain revision proposal original keys db1 db2 where
    found: "graph_revision_by_id ws db (rq_revision_id request) = Inr (Some revision)"
      "validate_approval_authority env revision request = Some (Inr ())" "approval_in ws db (rq_revision_id request) = None"
    and ok: "approvable env ws db revision request = Inr (proposal, original)"
    and nodes: "materialize_nodes env ws ids (rq_approved_at request) proposal original 0 (graph_nodes proposal) Map.empty db = Inr (ap_task_ids a, keys, db1)"
    and edges: "link_edges ws proposal keys (graph_edges proposal) db1 = Some (Inr db2)"
    and last: "conclude_approval env ws ids revision proposal request (ap_task_ids a) db2 = Inr (a, db')"
    using first_approval [OF assms] .
  obtain r where "revision_row ws db (rq_revision_id request) = Some r" "map_revision r = Inr revision"
    using found(1) revision_found by blast
  then have "graph_revision_id proposal = rq_revision_id request"
    using approvable_facts(7) [OF ok] map_revision_fields(1) [of r revision] find_in_set by (fastforce simp: revision_row_def)
  then show ?thesis
    using that [OF found(1) approvable_facts(2) [OF ok] found(2,3)] materialized_ids [OF nodes] concluded(2) [OF last]
      first_approval_writes [OF nodes edges last] by (simp add: graph_task_rows_def)
qed

lemma approve_writes:
  assumes "approve_graph_and_materialize_tasks env ws ids request db = Some (result, db')"
  shows "graph_write\<^sup>*\<^sup>* db db'"
proof (cases "\<exists>a. result = Inr a \<and> \<not> ap_replayed a")
  case True
  then obtain a where a: "approve_graph_and_materialize_tasks env ws ids request db = Some (Inr a, db')" "\<not> ap_replayed a" using assms by blast
  obtain revision proposal where
    "graph_revision_by_id ws db (rq_revision_id request) = Inr (Some revision)" "sg_status revision = Rev_AwaitingApproval"
    "validate_approval_authority env revision request = Some (Inr ())" and none: "approval_in ws db (rq_revision_id request) = None"
    and rows: "graph_revision_id proposal = rq_revision_id request"
    and "ap_task_ids a = map (fresh_task ids) [0..<length (graph_nodes proposal)]"
    and db': "db_graph_approvals (graphs db') = db_graph_approvals (graphs db) @ [approval_row_of ws (sg_session_id revision) request]"
      "db_session_tasks (graphs db') = db_session_tasks (graphs db) @ graph_task_rows ws ids proposal"
      "db_graph_revisions (graphs db') = approve_revision ws (rq_revision_id request) (rq_approved_at request) (db_graph_revisions (graphs db))"
    and "a = \<lparr> ap_revision_id = rq_revision_id request, ap_proposal_hash = rq_expected_proposal_hash request,
       ap_task_ids = ap_task_ids a, ap_replayed = False \<rparr>"
    using approved_rows [OF a] .
  let ?db = "set_graphs (\<lambda>g. g\<lparr>db_graph_revisions := db_graph_revisions (graphs db)\<rparr>) db'"
  have "graph_write db ?db"
    by (rule add_approval [of "approval_row_of ws (sg_session_id revision) request" _ "graph_task_rows ws ids proposal"])
      (use none rows db' in \<open>auto simp: approval_row_of_def graph_task_rows_def new_session_task_def Let_def\<close>)
  moreover have "graph_write ?db db'"
    by (rule revise [of "\<lambda>r. gr_workspace r = ws \<and> gr_revision_id r = rq_revision_id request \<and> gr_status r = ''awaiting_approval''"
          "\<lambda>r. r\<lparr>gr_status := ''approved'', gr_completed_at := Some (rq_approved_at request)\<rparr>"])
      (use db'(3) in \<open>simp_all add: approve_revision_def evolves_def decided_def\<close>)
  ultimately show ?thesis by (meson converse_rtranclp_into_rtranclp rtranclp.rtrancl_refl)
next
  case False
  then have "db' = db" using approve_unchanged [OF assms] by blast
  then show ?thesis by simp
qed

lemma graph_step_writes: "graph_step env db db' \<Longrightarrow> graph_write\<^sup>*\<^sup>* db db'"
proof (induction rule: graph_step.induct)
  case (step_message ws fresh m event source c db result'' d)
  then have "graphs (db\<lparr>gd_db := d\<rparr>) \<in> {graphs db, supersede_candidate (msg_created_at m) ws (msg_session_id m) (graphs db)}"
    using message_writes by (fastforce simp: graphs_def)
  then show ?case using aside [of "db\<lparr>gd_db := d\<rparr>" db] supersede_evolves [of "db\<lparr>gd_db := d\<rparr>"] by (auto simp: supersede_candidate_def)
next
  case (step_resolve row db db' r)
  then show ?case by (intro r_into_rtranclp) (rule add_task [of r row], simp_all add: insert_rows(2))
qed (auto intro: begin_writes finish_attempt_writes record_writes approve_writes aside r_into_rtranclp)

lemma graph_task_rows_maps:
  "map st_task_id (graph_task_rows ws ids proposal) = map (fresh_task ids) [0..<length (graph_nodes proposal)]"
  "map st_display_order (graph_task_rows ws ids proposal) = map (\<lambda>k. int k + 1) [0..<length (graph_nodes proposal)]"
  "r \<in> set (graph_task_rows ws ids proposal) \<Longrightarrow> st_workspace r = ws \<and> st_revision_id r = graph_revision_id proposal"
  by (auto simp: graph_task_rows_def new_session_task_def Let_def intro!: nth_equalityI)

lemma first_tasks:
  assumes "graph_inv db" "approval_in ws db i = None" "graph_revision_id proposal = i"
    and "db_session_tasks (graphs db') = db_session_tasks (graphs db) @ graph_task_rows ws ids proposal"
  shows "task_ids_for_revision ws db' i = map (fresh_task ids) [0..<length (graph_nodes proposal)]"
proof -
  have "filter (\<lambda>r. st_revision_id r = i) (rows_of st_workspace ws (db_session_tasks (graphs db))) = []"
    using assms(1,2) by (auto simp: graph_inv_def filter_empty_conv)
  moreover have "filter (\<lambda>r. st_revision_id r = i) (rows_of st_workspace ws (graph_task_rows ws ids proposal)) = graph_task_rows ws ids proposal"
    using graph_task_rows_maps(3) assms(3) by (auto simp: rows_of_def filter_id_conv)
  moreover have "sorted (map st_display_order (graph_task_rows ws ids proposal))"
    unfolding graph_task_rows_maps(2) by (simp add: sorted_iff_nth_mono)
  ultimately show ?thesis
    unfolding task_ids_for_revision_def tasks_of_revision_append [OF assms(4)] by (simp add: sort_key_id_if_sorted graph_task_rows_maps(1))
qed

lemma first_approval_approves:
  assumes "graph_inv db" "approve_graph_and_materialize_tasks env ws ids request db = Some (Inr a, db')" "\<not> ap_replayed a"
  obtains r x where "map_revision r = Inr x" "gr_revision_id r = rq_revision_id request"
    "validate_approval_authority env x request = Some (Inr ())"
    "approved_as ws r (approval_row_of ws (sg_session_id x) request) (ap_task_ids a) db'"
proof -
  obtain x proposal where
    x: "graph_revision_by_id ws db (rq_revision_id request) = Inr (Some x)" "sg_status x = Rev_AwaitingApproval"
      "validate_approval_authority env x request = Some (Inr ())" and none: "approval_in ws db (rq_revision_id request) = None"
    and rows: "graph_revision_id proposal = rq_revision_id request"
    and ids: "ap_task_ids a = map (fresh_task ids) [0..<length (graph_nodes proposal)]"
    and db': "db_graph_approvals (graphs db') = db_graph_approvals (graphs db) @ [approval_row_of ws (sg_session_id x) request]"
      "db_session_tasks (graphs db') = db_session_tasks (graphs db) @ graph_task_rows ws ids proposal"
      "db_graph_revisions (graphs db') = approve_revision ws (rq_revision_id request) (rq_approved_at request) (db_graph_revisions (graphs db))"
    and "a = \<lparr> ap_revision_id = rq_revision_id request, ap_proposal_hash = rq_expected_proposal_hash request,
       ap_task_ids = ap_task_ids a, ap_replayed = False \<rparr>"
    using approved_rows [OF assms(2,3)] .
  obtain r where r: "revision_row ws db (rq_revision_id request) = Some r" "map_revision r = Inr x" using x(1) revision_found by blast
  have key: "gr_revision_id r = rq_revision_id request" "gr_workspace r = ws" "gr_status r = ''awaiting_approval''"
    using r find_in_set map_revision_fields(5) [OF r(2)] x(2) parse_awaiting by (fastforce simp: revision_row_def revisions_in_def)+
  have "revision_row ws db' (rq_revision_id request) = Some (r\<lparr>gr_status := ''approved'', gr_completed_at := Some (rq_approved_at request)\<rparr>)"
    unfolding revision_row_def revisions_in_def db'(3) approve_revision_def
    by (subst find_rows_update) (use r(1) key in \<open>simp_all add: revision_row_def revisions_in_def\<close>)
  moreover have "approval_in ws db' (rq_revision_id request) = Some (approval_row_of ws (sg_session_id x) request)"
    unfolding approval_in_append [OF db'(1)] none by (simp add: approval_row_of_def)
  ultimately have "approved_as ws r (approval_row_of ws (sg_session_id x) request) (ap_task_ids a) db'"
    unfolding approved_as_def key(1) first_tasks [OF assms(1) none rows db'(2)] ids by (simp add: decided_def payload_def)
  then show ?thesis using that r(2) key(1) x(3) by blast
qed

lemma payload_fields:
  assumes "payload r' = payload r"
  shows "gr_revision_id r' = gr_revision_id r" "gr_session_id r' = gr_session_id r" "gr_goal_message_id r' = gr_goal_message_id r"
    "gr_ordinal r' = gr_ordinal r" "gr_proposal_hash r' = gr_proposal_hash r" "gr_proposal r' = gr_proposal r"
    "gr_validation r' = gr_validation r" "gr_planner_provider r' = gr_planner_provider r"
    "gr_planner_provider_v2 r' = gr_planner_provider_v2 r" "gr_created_at r' = gr_created_at r"
  using assms by (cases r; cases r'; simp add: payload_def)+

lemma map_revision_decided:
  assumes "map_revision r = Inr x" "payload r' = payload r" "decided r'"
  obtains status where "map_revision r' = Inr (x\<lparr>sg_status := status, sg_completed_at := gr_completed_at r'\<rparr>)"
proof -
  obtain status where status: "parse_revision_status (gr_status r') = Some status"
    using assms(3) by (auto simp: decided_def parse_revision_status_def)
  have "map_revision r' = Inr (x\<lparr>sg_status := status, sg_completed_at := gr_completed_at r'\<rparr>)"
    using assms(1) unfolding map_revision_def payload_fields [OF assms(2)] status guard_eq_Inr and_then_eq_Inr ok_or_eq_Inr by auto
  then show ?thesis using that by blast
qed

lemma validate_approval_authority_status:
  "validate_approval_authority env (x\<lparr>sg_status := status, sg_completed_at := c\<rparr>) request = validate_approval_authority env x request"
proof -
  let ?y = "x\<lparr>sg_status := status, sg_completed_at := c\<rparr>"
  have y: "sg_validation ?y = sg_validation x" "sg_proposal ?y = sg_proposal x" "sg_proposal_hash ?y = sg_proposal_hash x"
    "sg_revision_id ?y = sg_revision_id x" by simp_all
  show ?thesis unfolding validate_approval_authority_def y ..
qed

lemma graph_steps_write: "(graph_step env)\<^sup>*\<^sup>* db db' \<Longrightarrow> graph_write\<^sup>*\<^sup>* db db'"
  by (induction rule: rtranclp_induct) (auto dest: graph_step_writes)

lemma graph_steps_keep:
  assumes "(graph_step env)\<^sup>*\<^sup>* db db'"
  shows "graph_inv db \<Longrightarrow> graph_inv db'" "approved_as ws r a task_ids db \<Longrightarrow> approved_as ws r a task_ids db'"
  using graph_steps_write [OF assms] by (induction rule: rtranclp_induct) (auto intro: graph_inv_write approved_as_write)

lemma approved_unchanged:
  assumes "approval_in ws db (rq_revision_id request) = Some stored"
    and "approve_graph_and_materialize_tasks env ws ids request db = Some (result, db')"
  shows "db' = db"
  using assms unfolding approve_graph_and_materialize_tasks_def by (auto split: if_split_asm sum.split_asm option.split_asm)

lemma approved_replay:
  assumes "trim (rq_approved_by request) \<noteq> []" "length (rq_expected_proposal_hash request) = 64"
    and "graph_revision_by_id ws db (rq_revision_id request) = Inr (Some x)" "validate_approval_authority env x request = Some (Inr ())"
    and "approval_in ws db (rq_revision_id request) = Some (approval_row_of ws (sg_session_id x) request)"
  shows "approve_graph_and_materialize_tasks env ws ids request db =
    Some (Inr \<lparr> ap_revision_id = rq_revision_id request, ap_proposal_hash = rq_expected_proposal_hash request,
      ap_task_ids = task_ids_for_revision ws db (rq_revision_id request), ap_replayed = True \<rparr>, db)"
  using assms by (simp add: approve_graph_and_materialize_tasks_def and_then_def ok_or_def approval_matches_def approval_row_of_def split: option.split)

section \<open>A sample store\<close>

text \<open>The user's message, a recorded plan of three tasks for it, and its approval.\<close>

definition sample_plan :: TaskGraphProposal where
  "sample_plan = sample_graph\<lparr>graph_session_id := 7, graph_goal_message_id := 4\<rparr>"

definition sample_graph_env :: graph_store_env where
  "sample_graph_env = session_env.extend sample_session_env
     (graph_store_env.fields sample_env (\<lambda>_. Inr (validated_validation sample_validated)) (\<lambda>_. Inr JNull))"

definition sample_fresh :: "nat \<Rightarrow> fresh_ids" where
  "sample_fresh n = \<lparr> fresh_task = (\<lambda>k. of_nat (n + k)), fresh_event = (\<lambda>k. of_nat (n + k)), fresh_correlation = (\<lambda>k. of_nat (n + k)),
     fresh_message = of_nat n \<rparr>"

definition sample_graph_db :: graph_db where
  "sample_graph_db = \<lparr> gd_db = snd (append_message 1 sample_message sample_session_db), gd_attempts = [], gd_requirements = [] \<rparr>"

definition sample_planned :: graph_db where
  "sample_planned = snd (record_graph_attempt sample_graph_env 1 (sample_fresh 20)
     (from_validated sample_graph_env 8 (sample_validated\<lparr>validated_proposal := sample_plan\<rparr>) 1 2) sample_graph_db)"

definition sample_approval_request :: GraphApprovalRequest where
  "sample_approval_request = \<lparr> rq_revision_id = 1, rq_expected_proposal_hash = replicate 64 (CHR ''a''), rq_authority = None, rq_promotion = None,
     rq_approved_by = ''user'', rq_approved_at = 3 \<rparr>"

lemma sample_graph_inv: "graph_inv sample_graph_db"
  by code_simp

lemma sample_recorded: "graph_step sample_graph_env sample_graph_db sample_planned"
  unfolding sample_planned_def by (rule step_record) (rule prod.collapse [symmetric])

lemma sample_approved:
  "map_option fst (approve_graph_and_materialize_tasks sample_graph_env 1 (sample_fresh 30) sample_approval_request sample_planned)
     = Some (Inr \<lparr> ap_revision_id = 1, ap_proposal_hash = replicate 64 (CHR ''a''), ap_task_ids = [30, 31, 32], ap_replayed = False \<rparr>)"
  by code_simp

section \<open>Properties\<close>

text \<open>C8: Approving a graph binds what was shown to the user. A revision becomes tasks only when it is the head of its session, awaits
  approval, answers the latest final message of the user, and its stored proposal and validation recompute to the confirmed hash; then
  the transaction adds, in the order of the nodes, one queued task and one graph task per node, and exactly the dependencies of the nodes
  between the tasks of their keys.\<close>

theorem approval_materializes_confirmed_graph:
  assumes "approve_graph_and_materialize_tasks env ws ids request db = Some (Inr a, db')" "\<not> ap_replayed a"
  shows "\<exists>revision proposal validation original keys.
      graph_revision_by_id ws db (rq_revision_id request) = Inr (Some revision)
    \<and> head_of ws db (sg_session_id revision) = Some (rq_revision_id request) \<and> sg_status revision = Rev_AwaitingApproval
    \<and> latest_user_message ws db (sg_session_id revision) = Some (sg_goal_message_id revision)
    \<and> sg_proposal revision = Some proposal \<and> summary_of env (sg_validation revision) = Inr validation
    \<and> task_graph_proposal_hash (seal_env env) proposal validation = Inr (rq_expected_proposal_hash request)
    \<and> ap_task_ids a = map (fresh_task ids) [0..<length (graph_nodes proposal)]
    \<and> keys = [map node_key (graph_nodes proposal) [\<mapsto>] ap_task_ids a]
    \<and> db_tasks (graphs db') = db_tasks (graphs db) @ map2 (new_task_row ws (rq_approved_at request) original) (ap_task_ids a) (graph_nodes proposal)
    \<and> db_session_tasks (graphs db') = db_session_tasks (graphs db) @ graph_task_rows ws ids proposal
    \<and> db_task_dependencies (graphs db') = db_task_dependencies (graphs db)
        @ map (\<lambda>(k, d). dependency_row ws proposal (the (keys k)) (the (keys d))) (graph_edges proposal)"
proof -
  obtain revision proposal original keys db1 db2 where
    found: "graph_revision_by_id ws db (rq_revision_id request) = Inr (Some revision)"
      "validate_approval_authority env revision request = Some (Inr ())" "approval_in ws db (rq_revision_id request) = None"
    and ok: "approvable env ws db revision request = Inr (proposal, original)"
    and nodes: "materialize_nodes env ws ids (rq_approved_at request) proposal original 0 (graph_nodes proposal) Map.empty db = Inr (ap_task_ids a, keys, db1)"
    and edges: "link_edges ws proposal keys (graph_edges proposal) db1 = Some (Inr db2)"
    and last: "conclude_approval env ws ids revision proposal request (ap_task_ids a) db2 = Inr (a, db')"
    using first_approval [OF assms] .
  obtain validation where "summary_of env (sg_validation revision) = Inr validation"
      "task_graph_proposal_hash (seal_env env) proposal validation = Inr (rq_expected_proposal_hash request)"
    using approvable_facts(6) [OF ok] by blast
  moreover have "keys = [map node_key (graph_nodes proposal) [\<mapsto>] ap_task_ids a]" using materialized_keys [OF nodes] .
  moreover have "ap_task_ids a = map (fresh_task ids) [0..<length (graph_nodes proposal)]" using materialized_ids [OF nodes] by simp
  ultimately show ?thesis
    using found(1) approvable_facts(1,2,3,5) [OF ok] first_approval_writes [OF nodes edges last]
    by (intro exI [of _ revision] exI [of _ proposal] exI [of _ validation] exI [of _ original] exI [of _ keys])
      (simp add: graph_task_rows_def)
qed

text \<open>C9: A graph is materialized once. From a store in which tasks belong to approved revisions, whatever planning attempts, user messages,
  approvals and resolution tasks follow a first approval, repeating the request is a replay that changes nothing and returns the same graph,
  with the tasks of the first approval first; any other approval of the revision changes nothing either.\<close>

theorem approval_replays:
  assumes "graph_inv db0" "(graph_step env)\<^sup>*\<^sup>* db0 db"
    and "approve_graph_and_materialize_tasks env ws ids request db = Some (Inr a, db1)" "\<not> ap_replayed a"
    and "(graph_step env)\<^sup>*\<^sup>* db1 db2"
  shows "(\<exists>more. approve_graph_and_materialize_tasks env ws ids2 request db2
      = Some (Inr (a\<lparr>ap_task_ids := ap_task_ids a @ more, ap_replayed := True\<rparr>), db2))
    \<and> (\<forall>request' result db3. rq_revision_id request' = rq_revision_id request
        \<longrightarrow> approve_graph_and_materialize_tasks env ws ids2 request' db2 = Some (result, db3) \<longrightarrow> db3 = db2)"
proof -
  have inv: "graph_inv db" using graph_steps_keep(1) [OF assms(2,1)] .
  obtain r x where r: "map_revision r = Inr x" "gr_revision_id r = rq_revision_id request"
      "validate_approval_authority env x request = Some (Inr ())"
    and ap: "approved_as ws r (approval_row_of ws (sg_session_id x) request) (ap_task_ids a) db1"
    using first_approval_approves [OF inv assms(3,4)] .
  have "approved_as ws r (approval_row_of ws (sg_session_id x) request) (ap_task_ids a) db2"
    using graph_steps_keep(2) [OF assms(5) ap] .
  then obtain r' more where r': "revision_row ws db2 (rq_revision_id request) = Some r'" "decided r'" "payload r' = payload r"
      "approval_in ws db2 (rq_revision_id request) = Some (approval_row_of ws (sg_session_id x) request)"
      "task_ids_for_revision ws db2 (rq_revision_id request) = ap_task_ids a @ more"
    unfolding approved_as_def r(2) by blast
  obtain status where "map_revision r' = Inr (x\<lparr>sg_status := status, sg_completed_at := gr_completed_at r'\<rparr>)"
    using map_revision_decided [OF r(1) r'(3,2)] .
  then have x': "graph_revision_by_id ws db2 (rq_revision_id request) = Inr (Some (x\<lparr>sg_status := status, sg_completed_at := gr_completed_at r'\<rparr>))"
    using r'(1) revision_found by blast
  have guards: "trim (rq_approved_by request) \<noteq> []" "length (rq_expected_proposal_hash request) = 64"
    using assms(3) unfolding approve_graph_and_materialize_tasks_def by (auto split: if_split_asm)
  have "a = \<lparr> ap_revision_id = rq_revision_id request, ap_proposal_hash = rq_expected_proposal_hash request,
      ap_task_ids = ap_task_ids a, ap_replayed = False \<rparr>"
    using approved_rows [OF assms(3,4)] by blast
  moreover have "approve_graph_and_materialize_tasks env ws ids2 request db2 =
    Some (Inr \<lparr> ap_revision_id = rq_revision_id request, ap_proposal_hash = rq_expected_proposal_hash request,
      ap_task_ids = ap_task_ids a @ more, ap_replayed = True \<rparr>, db2)"
    using approved_replay [OF guards x'] r(3) r'(4,5) by (simp add: validate_approval_authority_status)
  ultimately have "approve_graph_and_materialize_tasks env ws ids2 request db2
      = Some (Inr (a\<lparr>ap_task_ids := ap_task_ids a @ more, ap_replayed := True\<rparr>), db2)" by (cases a) simp
  then show ?thesis using approved_unchanged r'(4) by metis
qed

lemma sample_approval_made:
  obtains a db where "approve_graph_and_materialize_tasks sample_graph_env 1 (sample_fresh 30) sample_approval_request sample_planned = Some (Inr a, db)"
    "\<not> ap_replayed a" "ap_task_ids a = [30, 31, 32]"
proof -
  obtain result db where made: "approve_graph_and_materialize_tasks sample_graph_env 1 (sample_fresh 30) sample_approval_request sample_planned
      = Some (result, db)"
    using sample_approved by auto
  then show ?thesis using sample_approved that by simp
qed

theorem approval_materializes_confirmed_graph_witness:
  "\<exists>revision. graph_revision_by_id 1 sample_planned 1 = Inr (Some revision)
     \<and> head_of 1 sample_planned (sg_session_id revision) = Some 1 \<and> sg_status revision = Rev_AwaitingApproval"
proof -
  obtain a db where made: "approve_graph_and_materialize_tasks sample_graph_env 1 (sample_fresh 30) sample_approval_request sample_planned
      = Some (Inr a, db)" "\<not> ap_replayed a" by (rule sample_approval_made)
  from approval_materializes_confirmed_graph [OF this] show ?thesis by (auto simp: sample_approval_request_def)
qed

theorem approval_replays_witness:
  "\<exists>a db more. approve_graph_and_materialize_tasks sample_graph_env 1 (sample_fresh 30) sample_approval_request sample_planned = Some (Inr a, db)
     \<and> approve_graph_and_materialize_tasks sample_graph_env 1 (sample_fresh 50) sample_approval_request db
       = Some (Inr (a\<lparr>ap_task_ids := [30, 31, 32] @ more, ap_replayed := True\<rparr>), db)"
proof -
  obtain a db where made: "approve_graph_and_materialize_tasks sample_graph_env 1 (sample_fresh 30) sample_approval_request sample_planned
      = Some (Inr a, db)" "\<not> ap_replayed a" and ids: "ap_task_ids a = [30, 31, 32]" by (rule sample_approval_made)
  have "(graph_step sample_graph_env)\<^sup>*\<^sup>* sample_graph_db sample_planned" using sample_recorded by (rule r_into_rtranclp)
  from approval_replays [OF sample_graph_inv this made rtranclp.rtrancl_refl, of "sample_fresh 50"]
  show ?thesis using made(1) ids by auto
qed

end
