(* ===== verification/Integration.thy ===== *)
theory Integration
  imports Documents
begin

text \<open>
  \<open>crates/orchestrator-domain/src/integration.rs\<close>: sealed previews of the changes to integrate and the
  approvals that refer to them. The serializer of the seal is a parameter.
\<close>

section \<open>Previews and approvals\<close>

record IntegrationSource =
  is_task_id :: TaskId
  is_checkpoint_id :: CheckpointId
  is_verification_id :: VerificationId
  is_base_revision :: string
  is_diff_sha256 :: string
  is_changed_files :: "RepoPath list"

datatype IntegrationBlocker =
    MissingEvidence TaskId string
  | VerificationFailed TaskId
  | StaleBase TaskId string
  | SourceChanged TaskId
  | PathOverlap TaskId TaskId RepoPath
  | PatchFailed TaskId string

text \<open>The fields the hash covers; \<open>created_at\<close> is not among them.\<close>

record PreviewSeal =
  ps_schema_version :: SchemaVersion
  ps_batch_id :: IntegrationBatchId
  ps_session_id :: SessionId
  ps_graph_revision_id :: GraphRevisionId
  ps_base_revision :: string
  ps_sources :: "IntegrationSource list"
  ps_blockers :: "IntegrationBlocker list"

record IntegrationPreview = PreviewSeal +
  ps_created_at :: DateTime
  ps_preview_hash :: string

datatype IntegrationError =
    InvalidObjectId
  | InvalidHash
  | DuplicateTask TaskId
  | BlankApprover
  | ApprovalMismatch
  | Integration_Integrity IntegrityError

record integration_env = integrity_env +
  preview_value :: "PreviewSeal \<Rightarrow> string + json"

definition integration_validate_object_id :: "string \<Rightarrow> IntegrationError + unit" where
  "integration_validate_object_id value =
     (if is_hex_with_len value 40 64 then Inr () else Inl InvalidObjectId)"

definition validate_sha256 :: "string \<Rightarrow> IntegrationError + unit" where
  "validate_sha256 value = (if is_hex_with_len value 64 64 then Inr () else Inl InvalidHash)"

fun validate_sources_from :: "TaskId set \<Rightarrow> IntegrationSource list \<Rightarrow> IntegrationError + unit" where
  "validate_sources_from seen [] = Inr ()"
| "validate_sources_from seen (source # sources) =
     (if is_task_id source \<in> seen then Inl (DuplicateTask (is_task_id source))
      else
        and_then (integration_validate_object_id (is_base_revision source)) (\<lambda>_.
        and_then (validate_sha256 (is_diff_sha256 source)) (\<lambda>_.
          validate_sources_from (insert (is_task_id source) seen) sources)))"

definition validate_sources :: "IntegrationSource list \<Rightarrow> IntegrationError + unit" where
  "validate_sources sources = validate_sources_from {} sources"

definition pair_blocker :: "IntegrationSource \<Rightarrow> IntegrationSource \<Rightarrow> IntegrationBlocker list" where
  "pair_blocker left right =
     (case find (\<lambda>l. list_ex (\<lambda>r. repo_paths_overlap l r) (is_changed_files right)) (is_changed_files left) of
        None \<Rightarrow> []
      | Some path \<Rightarrow> [PathOverlap (is_task_id left) (is_task_id right) path])"

fun overlap_blockers :: "IntegrationSource list \<Rightarrow> IntegrationBlocker list" where
  "overlap_blockers [] = []"
| "overlap_blockers (left # rest) = concat (map (pair_blocker left) rest) @ overlap_blockers rest"

definition compute_hash :: "integration_env \<Rightarrow> IntegrationPreview \<Rightarrow> IntegrationError + string" where
  "compute_hash env preview =
     map_err Integration_Integrity
       (canonical_sha256 (integrity_env.truncate env) (preview_value env (PreviewSeal.truncate preview)))"

definition preview_seal ::
    "integration_env \<Rightarrow> IntegrationBatchId \<Rightarrow> SessionId \<Rightarrow> GraphRevisionId \<Rightarrow> string
     \<Rightarrow> IntegrationSource list \<Rightarrow> IntegrationBlocker list \<Rightarrow> DateTime
     \<Rightarrow> IntegrationError + IntegrationPreview" where
  "preview_seal env batch_id session_id graph_revision_id base_revision sources blockers created_at =
     and_then (integration_validate_object_id base_revision) (\<lambda>_.
     and_then (validate_sources sources) (\<lambda>_.
       let preview =
             \<lparr> ps_schema_version = schema_v1, ps_batch_id = batch_id, ps_session_id = session_id,
               ps_graph_revision_id = graph_revision_id, ps_base_revision = base_revision,
               ps_sources = sources, ps_blockers = blockers @ overlap_blockers sources,
               ps_created_at = created_at, ps_preview_hash = [] \<rparr>
       in and_then (compute_hash env preview) (\<lambda>h. Inr (preview\<lparr>ps_preview_hash := h\<rparr>))))"

definition preview_verify_integrity :: "integration_env \<Rightarrow> IntegrationPreview \<Rightarrow> bool" where
  "preview_verify_integrity env preview =
     (case compute_hash env preview of Inl _ \<Rightarrow> False | Inr hash \<Rightarrow> hash = ps_preview_hash preview)"

definition is_approvable :: "integration_env \<Rightarrow> IntegrationPreview \<Rightarrow> bool" where
  "is_approvable env preview \<longleftrightarrow>
     ps_sources preview \<noteq> [] \<and> ps_blockers preview = [] \<and> preview_verify_integrity env preview"

record IntegrationApproval =
  ia_batch_id :: IntegrationBatchId
  ia_preview_hash :: string
  ia_approved_by :: string
  ia_approved_at :: DateTime

definition approval_validate_for ::
    "integration_env \<Rightarrow> IntegrationApproval \<Rightarrow> IntegrationPreview \<Rightarrow> IntegrationError + unit" where
  "approval_validate_for env approval preview =
     (if is_blank (ia_approved_by approval) then Inl BlankApprover
      else if ia_batch_id approval \<noteq> ps_batch_id preview
              \<or> ia_preview_hash approval \<noteq> ps_preview_hash preview
              \<or> \<not> is_approvable env preview
      then Inl ApprovalMismatch
      else Inr ())"

record IntegrationApplication =
  app_application_id :: IntegrationApplicationId
  app_batch_id :: IntegrationBatchId
  app_preview_hash :: string
  app_integration_worktree :: string
  app_integration_branch :: string
  app_resulting_tree :: "string option"
  app_succeeded :: bool
  app_detail_redacted :: string
  app_completed_at :: DateTime

section \<open>Lemmas\<close>

lemma validate_sources_from_ok:
  "validate_sources_from seen sources = Inr () \<Longrightarrow>
     distinct (map is_task_id sources) \<and> set (map is_task_id sources) \<inter> seen = {}"
  by (induction seen sources rule: validate_sources_from.induct) (auto simp: and_then_eq_Inr split: if_splits)

lemma pair_blocker_Nil:
  "pair_blocker left right = [] \<longleftrightarrow>
     (\<forall>l \<in> set (is_changed_files left). \<forall>r \<in> set (is_changed_files right). \<not> repo_paths_overlap l r)"
  using find_None_iff [of "\<lambda>l. list_ex (\<lambda>r. repo_paths_overlap l r) (is_changed_files right)" "is_changed_files left"]
  by (cases "find (\<lambda>l. list_ex (\<lambda>r. repo_paths_overlap l r) (is_changed_files right)) (is_changed_files left)")
    (auto simp: pair_blocker_def list_ex_iff)

lemma overlap_blockers_Nil:
  "overlap_blockers sources = [] \<longleftrightarrow> sorted_wrt (\<lambda>l r. pair_blocker l r = []) sources"
  by (induction sources) (auto simp: concat_eq_Nil_conv)

lemma preview_seal_Inr:
  assumes "preview_seal env batch session revision base sources blockers created = Inr preview"
  shows "distinct (map is_task_id sources)" and "ps_sources preview = sources"
    and "ps_blockers preview = blockers @ overlap_blockers sources"
    and "preview_verify_integrity env preview"
  using assms validate_sources_from_ok [of "{}" sources]
  by (auto simp: preview_seal_def and_then_eq_Inr validate_sources_def Let_def preview_verify_integrity_def
      compute_hash_def PreviewSeal.defs map_err_def split: sum.splits)

lemma approval_validate_for_Inr:
  "approval_validate_for env approval preview = Inr () \<longleftrightarrow>
     \<not> is_blank (ia_approved_by approval) \<and> ia_batch_id approval = ps_batch_id preview
     \<and> ia_preview_hash approval = ps_preview_hash preview \<and> is_approvable env preview"
  by (auto simp: approval_validate_for_def)

lemma verified_preview_hash:
  "preview_verify_integrity env preview \<longleftrightarrow>
     canonical_sha256 (integrity_env.truncate env) (preview_value env (PreviewSeal.truncate preview))
     = Inr (ps_preview_hash preview)"
  by (auto simp: preview_verify_integrity_def compute_hash_def map_err_def split: sum.splits)

text \<open>C32: what is approved for integration is disjoint and fixed. When an approval validates for a preview
  that \<open>seal\<close> made, the sources are distinct tasks, no two of them touch a common location, there are no
  blockers, and the approval validates for exactly the previews that agree with this one in everything but the creation time, which the
  hash does not cover.\<close>

theorem approved_integration_is_disjoint:
  assumes "ideal_digest (integrity_env.truncate env)" and "faithful_serializer (preview_value env)"
    and "preview_seal env batch_id session_id graph_revision_id base_revision sources blockers created_at
         = Inr preview"
    and "approval_validate_for env approval preview = Inr ()"
  shows "sources \<noteq> [] \<and> blockers = [] \<and> distinct (map is_task_id sources)
       \<and> sorted_wrt (\<lambda>a b. \<forall>l \<in> set (is_changed_files a). \<forall>r \<in> set (is_changed_files b).
            \<not> (\<exists>location. prefix (components (as_path l)) location \<and> prefix (components (as_path r)) location))
           sources
       \<and> (\<forall>other. approval_validate_for env approval other = Inr () \<longleftrightarrow> other\<lparr>ps_created_at := ps_created_at preview\<rparr> = preview)"
proof -
  note sealed = preview_seal_Inr [OF assms(3)]
  note a = assms(4) [unfolded approval_validate_for_Inr is_approvable_def]
  have "sources \<noteq> []" "blockers = []" "overlap_blockers sources = []"
    using a sealed(2,3) by auto
  moreover have "approval_validate_for env approval other = Inr () \<longleftrightarrow> other\<lparr>ps_created_at := ps_created_at preview\<rparr> = preview" for other
  proof
    assume "approval_validate_for env approval other = Inr ()"
    note o = this [unfolded approval_validate_for_Inr is_approvable_def]
    have "PreviewSeal.truncate other = PreviewSeal.truncate preview"
      using a o by (intro canonical_sha256_separates [OF assms(1,2)]) (auto simp: verified_preview_hash)
    moreover have "ps_preview_hash other = ps_preview_hash preview" using a o by simp
    ultimately show "other\<lparr>ps_created_at := ps_created_at preview\<rparr> = preview"
      by (cases other; cases preview) (simp add: PreviewSeal.defs)
  next
    assume "other\<lparr>ps_created_at := ps_created_at preview\<rparr> = preview"
    then have "other = preview\<lparr>ps_created_at := ps_created_at other\<rparr>" by (cases other; cases preview) simp
    moreover have "approval_validate_for env approval (preview\<lparr>ps_created_at := t\<rparr>) = Inr ()" for t
    proof -
      have "PreviewSeal.truncate (preview\<lparr>ps_created_at := t\<rparr>) = PreviewSeal.truncate preview" by (simp add: PreviewSeal.defs)
      then show ?thesis using assms(4) by (simp add: approval_validate_for_Inr is_approvable_def verified_preview_hash)
    qed
    ultimately show "approval_validate_for env approval other = Inr ()" by metis
  qed
  ultimately show ?thesis
    using sealed(1) unfolding overlap_blockers_Nil pair_blocker_Nil overlap_common_descendant by blast
qed

text \<open>Two disjoint sources, sealed with a serializer that knows the sample's seal only.\<close>

definition sample_source :: "TaskId \<Rightarrow> string \<Rightarrow> IntegrationSource" where
  "sample_source task path =
     \<lparr> is_task_id = task, is_checkpoint_id = task, is_verification_id = task,
       is_base_revision = replicate 40 CHR ''a'', is_diff_sha256 = replicate 64 CHR ''b'',
       is_changed_files = [RepoPath path] \<rparr>"

definition sample_sources :: "IntegrationSource list" where
  "sample_sources = [sample_source 1 ''src/a'', sample_source 2 ''src/b'']"

definition sample_preview :: IntegrationPreview where
  "sample_preview =
     \<lparr> ps_schema_version = schema_v1, ps_batch_id = 1, ps_session_id = 2, ps_graph_revision_id = 3,
       ps_base_revision = replicate 40 CHR ''a'', ps_sources = sample_sources, ps_blockers = [],
       ps_created_at = 4, ps_preview_hash = ''sha:null'' \<rparr>"

definition sample_integration_env :: integration_env where
  "sample_integration_env =
     \<lparr> json_quote = sample_quote, sha256_hex = (\<lambda>s. ''sha:'' @ s),
       preview_value = (\<lambda>p. if p = PreviewSeal.truncate sample_preview then Inr JNull else Inl ''unknown'') \<rparr>"

definition sample_approval :: IntegrationApproval where
  "sample_approval = \<lparr> ia_batch_id = 1, ia_preview_hash = ''sha:null'', ia_approved_by = ''operator'', ia_approved_at = 5 \<rparr>"

lemma sample_integration_truncate: "integrity_env.truncate sample_integration_env = sample_integrity_env"
  by (simp add: sample_integration_env_def sample_integrity_env_def integrity_env.defs)

lemma sample_preview_faithful: "faithful_serializer (preview_value sample_integration_env)"
  by (auto simp: faithful_serializer_def sample_integration_env_def split: if_splits)

lemma sample_preview_hash:
  "preview_value sample_integration_env (PreviewSeal.truncate sample_preview) = Inr JNull"
  "canonical_sha256 sample_integrity_env (Inr JNull) = Inr ''sha:null''"
  by (simp_all add: sample_integration_env_def canonical_sha256_def canonical_json_def sample_integrity_env_def)

lemma sample_preview_unsealed:
  "PreviewSeal.truncate (sample_preview\<lparr>ps_preview_hash := []\<rparr>) = PreviewSeal.truncate sample_preview"
  by (simp add: PreviewSeal.defs)

lemma sample_sources_disjoint: "overlap_blockers sample_sources = []"
  unfolding sample_sources_def sample_source_def by code_simp

lemma sample_sources_valid:
  "validate_sources sample_sources = Inr ()" "integration_validate_object_id (replicate 40 CHR ''a'') = Inr ()"
  unfolding sample_sources_def sample_source_def by code_simp+

lemma sample_preview_sealed:
  "preview_seal sample_integration_env 1 2 3 (replicate 40 CHR ''a'') sample_sources [] 4 = Inr sample_preview"
proof -
  have "\<lparr> ps_schema_version = schema_v1, ps_batch_id = 1, ps_session_id = 2, ps_graph_revision_id = 3,
          ps_base_revision = replicate 40 CHR ''a'', ps_sources = sample_sources, ps_blockers = [],
          ps_created_at = 4, ps_preview_hash = [] \<rparr> = sample_preview\<lparr>ps_preview_hash := []\<rparr>"
    by (simp add: sample_preview_def)
  then show ?thesis
    by (simp add: preview_seal_def sample_sources_valid sample_sources_disjoint compute_hash_def
        sample_integration_truncate sample_preview_unsealed sample_preview_hash map_err_def)
      (simp add: sample_preview_def)
qed

lemma sample_approval_valid:
  "approval_validate_for sample_integration_env sample_approval sample_preview = Inr ()"
proof -
  have "preview_verify_integrity sample_integration_env sample_preview"
    by (simp add: verified_preview_hash sample_integration_truncate sample_preview_hash)
      (simp add: sample_preview_def)
  moreover have "\<not> is_blank (ia_approved_by sample_approval)" unfolding sample_approval_def by code_simp
  ultimately show ?thesis
    by (simp add: approval_validate_for_Inr is_approvable_def)
      (simp add: sample_preview_def sample_approval_def sample_sources_def)
qed

theorem approved_integration_is_disjoint_witness:
  "sample_sources \<noteq> [] \<and> distinct (map is_task_id sample_sources)
   \<and> approval_validate_for sample_integration_env sample_approval (sample_preview\<lparr>ps_created_at := 9\<rparr>) = Inr ()"
  using approved_integration_is_disjoint [of sample_integration_env, unfolded sample_integration_truncate,
      OF sample_ideal_digest sample_preview_faithful sample_preview_sealed sample_approval_valid]
  by simp

end
