(* ===== verification/Leases.thy ===== *)
theory Leases
  imports State_Store Partitioned_Store
begin

text \<open>
  \<open>crates/orchestrator-state/src/leases.rs\<close>: coordinator and worker leases and the disposition of a resume
  request, over the tables \<open>coordinator_leases\<close> and \<open>worker_leases\<close> with the keys and unique indexes of
  \<open>migrations/0013_workspace_partitions.sql\<close>. Each operation is one immediate transaction: an error leaves
  the database as it was. The text forms of identifiers and times decode (see \<open>State_Store\<close>); the provider and
  the mode of a worker are read back from their text. Fresh identifiers, the addition of \<open>chrono\<close> and the checkpoint
  that \<open>latest_sealed_checkpoint\<close> (\<open>records.rs\<close>) verifies before the transaction are parameters.
\<close>

section \<open>Tables\<close>

text \<open>Of the tables other than the two lease tables, the columns that the queries of \<open>leases.rs\<close> read.\<close>

record coordinator_row =
  cl_workspace :: WorkspaceId
  cl_lease_id :: uuid
  cl_task_id :: TaskId
  cl_worktree_id :: "uuid option"
  cl_owner_id :: uuid
  cl_acquired_at :: DateTime
  cl_renewed_at :: DateTime
  cl_expires_at :: DateTime
  cl_released_at :: "DateTime option"

record worker_row =
  wl_workspace :: WorkspaceId
  wl_lease_id :: uuid
  wl_task_id :: TaskId
  wl_worktree_id :: "uuid option"
  wl_coordinator_lease_id :: "uuid option"
  wl_provider_id :: string
  wl_mode :: string
  wl_acquired_at :: DateTime
  wl_expires_at :: DateTime
  wl_released_at :: "DateTime option"

record lease_task_row =
  lt_workspace :: WorkspaceId
  lt_task_id :: TaskId
  lt_state :: TaskState
  lt_resume_state :: "TaskState option"

record worktree_row =
  wt_workspace :: WorkspaceId
  wt_worktree_id :: uuid
  wt_task_id :: TaskId
  wt_state :: string
  wt_archived_at :: "DateTime option"

record attempt_row =
  at_workspace :: WorkspaceId
  at_attempt_id :: AttemptId
  at_task_id :: TaskId
  at_worker_mode :: "string option"
  at_ended_at :: "DateTime option"
  at_outcome :: "string option"

text \<open>The position in the list is the \<open>rowid\<close>.\<close>

record checkpoint_row =
  ck_workspace :: WorkspaceId
  ck_checkpoint_id :: CheckpointId
  ck_task_id :: TaskId
  ck_attempt_id :: "AttemptId option"
  ck_created_at :: DateTime

record lease_db =
  ld_coordinators :: "coordinator_row list"
  ld_workers :: "worker_row list"
  ld_tasks :: "lease_task_row list"
  ld_worktrees :: "worktree_row list"
  ld_attempts :: "attempt_row list"
  ld_checkpoints :: "checkpoint_row list"
  ld_schedule_claims :: "schedule_claim_row list"

section \<open>Leases\<close>

record CoordinatorLease =
  co_lease_id :: uuid
  co_task_id :: TaskId
  co_worktree_id :: "uuid option"
  co_owner_id :: uuid
  co_acquired_at :: DateTime
  co_renewed_at :: DateTime
  co_expires_at :: DateTime
  co_released_at :: "DateTime option"

record CoordinatorLeaseRequest =
  cq_task_id :: TaskId
  cq_worktree_id :: "uuid option"
  cq_owner_id :: uuid
  cq_acquired_at :: DateTime
  cq_ttl :: TimeDelta

datatype ResumeDisposition = Attached | Requeued | Rejected

record LeaseRenewal =
  lr_renewed_at :: DateTime
  lr_ttl :: TimeDelta

datatype WorkerLeaseMode = Lease_ReadOnly | Lease_Writable

fun lease_mode_as_str :: "WorkerLeaseMode \<Rightarrow> string" where
  "lease_mode_as_str Lease_ReadOnly = ''read_only''"
| "lease_mode_as_str Lease_Writable = ''writable''"

definition lease_mode_parse :: "string \<Rightarrow> WorkerLeaseMode option" where
  "lease_mode_parse value =
     (if value = ''read_only'' then Some Lease_ReadOnly
      else if value = ''writable'' then Some Lease_Writable else None)"

record WorkerLease =
  wo_lease_id :: uuid
  wo_task_id :: TaskId
  wo_worktree_id :: "uuid option"
  wo_coordinator_lease_id :: "uuid option"
  wo_provider :: ProviderId
  wo_mode :: WorkerLeaseMode
  wo_acquired_at :: DateTime
  wo_expires_at :: DateTime
  wo_released_at :: "DateTime option"

record WorkerLeaseRequest =
  wq_task_id :: TaskId
  wq_worktree_id :: "uuid option"
  wq_coordinator_lease_id :: uuid
  wq_provider :: ProviderId
  wq_mode :: WorkerLeaseMode
  wq_acquired_at :: DateTime
  wq_ttl :: TimeDelta

definition map_coordinator :: "coordinator_row \<Rightarrow> CoordinatorLease" where
  "map_coordinator r =
     \<lparr> co_lease_id = cl_lease_id r, co_task_id = cl_task_id r, co_worktree_id = cl_worktree_id r,
       co_owner_id = cl_owner_id r, co_acquired_at = cl_acquired_at r, co_renewed_at = cl_renewed_at r,
       co_expires_at = cl_expires_at r, co_released_at = cl_released_at r \<rparr>"

definition map_worker :: "worker_row \<Rightarrow> StateError + WorkerLease" where
  "map_worker r =
     and_then (map_err (\<lambda>_. Sqlite ''conversion failure'') (provider_from_str (wl_provider_id r))) (\<lambda>provider.
     and_then (ok_or (Sqlite ''conversion failure'') (lease_mode_parse (wl_mode r))) (\<lambda>mode.
       Inr \<lparr> wo_lease_id = wl_lease_id r, wo_task_id = wl_task_id r, wo_worktree_id = wl_worktree_id r,
             wo_coordinator_lease_id = wl_coordinator_lease_id r, wo_provider = provider, wo_mode = mode,
             wo_acquired_at = wl_acquired_at r, wo_expires_at = wl_expires_at r,
             wo_released_at = wl_released_at r \<rparr>))"

section \<open>Queries and checks\<close>

definition validate_owner :: "uuid \<Rightarrow> StateError + unit" where
  "validate_owner owner_id =
     (if owner_id = 0 then Inl (InvalidRecord ''coordinator owner ID cannot be nil'') else Inr ())"

definition checked_expiry :: "(DateTime \<Rightarrow> TimeDelta \<Rightarrow> DateTime option) \<Rightarrow> DateTime \<Rightarrow> TimeDelta \<Rightarrow> StateError + DateTime" where
  "checked_expiry add started_at ttl =
     (if ttl \<le> 0 then Inl (InvalidRecord ''lease TTL must be positive'')
      else ok_or (InvalidRecord ''lease expiry is outside the supported time range'') (add started_at ttl))"

definition coordinators_in :: "WorkspaceId \<Rightarrow> lease_db \<Rightarrow> coordinator_row list" where
  "coordinators_in ws db = rows_of cl_workspace ws (ld_coordinators db)"

definition workers_in :: "WorkspaceId \<Rightarrow> lease_db \<Rightarrow> worker_row list" where
  "workers_in ws db = rows_of wl_workspace ws (ld_workers db)"

definition expire_stale_leases :: "WorkspaceId \<Rightarrow> DateTime \<Rightarrow> lease_db \<Rightarrow> lease_db" where
  "expire_stale_leases ws now db =
     (let db = db\<lparr>ld_coordinators :=
            update_rows (\<lambda>r. cl_workspace r = ws \<and> cl_released_at r = None \<and> cl_expires_at r \<le> now)
              (\<lambda>r. r\<lparr>cl_released_at := Some now\<rparr>) (ld_coordinators db)\<rparr>;
          released = map cl_lease_id (filter (\<lambda>r. cl_released_at r \<noteq> None) (coordinators_in ws db))
      in db\<lparr>ld_workers :=
            update_rows (\<lambda>r. wl_workspace r = ws \<and> wl_released_at r = None
                             \<and> (wl_expires_at r \<le> now \<or> wl_coordinator_lease_id r \<in> Some ` set released))
              (\<lambda>r. r\<lparr>wl_released_at := Some now\<rparr>) (ld_workers db)\<rparr>)"

definition coordinator_by_id :: "WorkspaceId \<Rightarrow> lease_db \<Rightarrow> uuid \<Rightarrow> CoordinatorLease option" where
  "coordinator_by_id ws db lease_id =
     map_option map_coordinator (find (\<lambda>r. cl_lease_id r = lease_id) (coordinators_in ws db))"

definition worker_by_id :: "WorkspaceId \<Rightarrow> lease_db \<Rightarrow> uuid \<Rightarrow> StateError + WorkerLease option" where
  "worker_by_id ws db lease_id =
     (case find (\<lambda>r. wl_lease_id r = lease_id) (workers_in ws db) of
        None \<Rightarrow> Inr None
      | Some r \<Rightarrow> and_then (map_worker r) (\<lambda>lease. Inr (Some lease)))"

definition active_coordinator_exists :: "WorkspaceId \<Rightarrow> lease_db \<Rightarrow> TaskId \<Rightarrow> bool" where
  "active_coordinator_exists ws db task \<longleftrightarrow>
     list_ex (\<lambda>r. cl_task_id r = task \<and> cl_released_at r = None) (coordinators_in ws db)"

definition active_worker_exists :: "WorkspaceId \<Rightarrow> lease_db \<Rightarrow> TaskId \<Rightarrow> bool" where
  "active_worker_exists ws db task \<longleftrightarrow>
     list_ex (\<lambda>r. wl_task_id r = task \<and> wl_released_at r = None) (workers_in ws db)"

definition active_writable_exists :: "WorkspaceId \<Rightarrow> lease_db \<Rightarrow> TaskId \<Rightarrow> bool" where
  "active_writable_exists ws db task \<longleftrightarrow>
     list_ex (\<lambda>r. wl_task_id r = task \<and> wl_mode r = ''writable'' \<and> wl_released_at r = None) (workers_in ws db)"

definition active_children :: "WorkspaceId \<Rightarrow> lease_db \<Rightarrow> uuid \<Rightarrow> worker_row list" where
  "active_children ws db lease_id =
     filter (\<lambda>r. wl_coordinator_lease_id r = Some lease_id \<and> wl_released_at r = None) (workers_in ws db)"

text \<open>The constraints of the two tables: primary keys, references and the unique indexes
  \<open>one_active_coordinator_lease_per_task\<close> and \<open>one_active_writable_lease_per_task\<close>.\<close>

definition task_and_worktree_exist :: "WorkspaceId \<Rightarrow> lease_db \<Rightarrow> TaskId \<Rightarrow> uuid option \<Rightarrow> bool" where
  "task_and_worktree_exist ws db task worktree \<longleftrightarrow>
     list_ex (\<lambda>t. lt_workspace t = ws \<and> lt_task_id t = task) (ld_tasks db)
     \<and> (case worktree of
          None \<Rightarrow> True
        | Some w \<Rightarrow> list_ex (\<lambda>t. wt_workspace t = ws \<and> wt_worktree_id t = w) (ld_worktrees db))"

definition insert_coordinator :: "WorkspaceId \<Rightarrow> coordinator_row \<Rightarrow> lease_db \<Rightarrow> StateError + lease_db" where
  "insert_coordinator ws row db =
     (if list_ex (\<lambda>r. cl_lease_id r = cl_lease_id row) (coordinators_in ws db)
         \<or> \<not> task_and_worktree_exist ws db (cl_task_id row) (cl_worktree_id row)
         \<or> active_coordinator_exists ws db (cl_task_id row)
      then Inl (Sqlite ''constraint failed'')
      else Inr (db\<lparr>ld_coordinators := ld_coordinators db @ [row]\<rparr>))"

definition insert_worker :: "WorkspaceId \<Rightarrow> worker_row \<Rightarrow> lease_db \<Rightarrow> StateError + lease_db" where
  "insert_worker ws row db =
     (if list_ex (\<lambda>r. wl_lease_id r = wl_lease_id row) (workers_in ws db)
         \<or> \<not> task_and_worktree_exist ws db (wl_task_id row) (wl_worktree_id row)
         \<or> (case wl_coordinator_lease_id row of
              None \<Rightarrow> False
            | Some c \<Rightarrow> \<not> list_ex (\<lambda>r. cl_lease_id r = c) (coordinators_in ws db))
         \<or> wl_mode row = ''writable'' \<and> active_writable_exists ws db (wl_task_id row)
      then Inl (Sqlite ''constraint failed'')
      else Inr (db\<lparr>ld_workers := ld_workers db @ [row]\<rparr>))"

section \<open>Coordinators\<close>

definition acquire_coordinator_lease ::
    "(DateTime \<Rightarrow> TimeDelta \<Rightarrow> DateTime option) \<Rightarrow> WorkspaceId \<Rightarrow> uuid \<Rightarrow> CoordinatorLeaseRequest \<Rightarrow> lease_db
     \<Rightarrow> (StateError + CoordinatorLease) \<times> lease_db" where
  "acquire_coordinator_lease add ws fresh request =
     transact (\<lambda>db.
       and_then (validate_owner (cq_owner_id request)) (\<lambda>_.
       and_then (checked_expiry add (cq_acquired_at request) (cq_ttl request)) (\<lambda>expires_at.
         let db = expire_stale_leases ws (cq_acquired_at request) db in
         if active_coordinator_exists ws db (cq_task_id request)
         then Inl (LeaseConflict (cq_task_id request) ''another coordinator lease is active'')
         else if active_worker_exists ws db (cq_task_id request)
         then Inl (LeaseConflict (cq_task_id request)
                ''an active worker without this coordinator must finish or expire'')
         else
           and_then (insert_coordinator ws
               \<lparr> cl_workspace = ws, cl_lease_id = fresh, cl_task_id = cq_task_id request,
                 cl_worktree_id = cq_worktree_id request, cl_owner_id = cq_owner_id request,
                 cl_acquired_at = cq_acquired_at request, cl_renewed_at = cq_acquired_at request,
                 cl_expires_at = expires_at, cl_released_at = None \<rparr> db) (\<lambda>db.
           and_then (ok_or (InvalidRecord ''new coordinator lease was not readable'')
               (coordinator_by_id ws db fresh)) (\<lambda>lease. Inr (lease, db))))))"

definition renewable_coordinator :: "WorkspaceId \<Rightarrow> uuid \<Rightarrow> uuid \<Rightarrow> coordinator_row \<Rightarrow> bool" where
  "renewable_coordinator ws lease_id owner_id r \<longleftrightarrow>
     cl_workspace r = ws \<and> cl_lease_id r = lease_id \<and> cl_owner_id r = owner_id \<and> cl_released_at r = None"

definition renew_coordinator_lease ::
    "(DateTime \<Rightarrow> TimeDelta \<Rightarrow> DateTime option) \<Rightarrow> WorkspaceId \<Rightarrow> uuid \<Rightarrow> uuid \<Rightarrow> LeaseRenewal \<Rightarrow> lease_db
     \<Rightarrow> (StateError + CoordinatorLease) \<times> lease_db" where
  "renew_coordinator_lease add ws lease_id owner_id renewal =
     transact (\<lambda>db.
       and_then (validate_owner owner_id) (\<lambda>_.
       and_then (checked_expiry add (lr_renewed_at renewal) (lr_ttl renewal)) (\<lambda>expires_at.
         let db = expire_stale_leases ws (lr_renewed_at renewal) db in
         case coordinator_by_id ws db lease_id of
           None \<Rightarrow> Inl (LeaseOwnership lease_id)
         | Some current \<Rightarrow>
             if co_released_at current \<noteq> None \<or> co_owner_id current \<noteq> owner_id then Inl (LeaseOwnership lease_id)
             else if list_ex (\<lambda>child. wl_expires_at child > expires_at) (active_children ws db lease_id)
             then Inl (LeaseConflict (co_task_id current)
                    ''coordinator renewal would expire before an active child worker'')
             else if matching (renewable_coordinator ws lease_id owner_id) (ld_coordinators db) \<noteq> 1
             then Inl (LeaseOwnership lease_id)
             else
               let db = db\<lparr>ld_coordinators :=
                     update_rows (renewable_coordinator ws lease_id owner_id)
                       (\<lambda>r. r\<lparr>cl_renewed_at := lr_renewed_at renewal, cl_expires_at := expires_at\<rparr>)
                       (ld_coordinators db)\<rparr>
               in and_then (ok_or (InvalidRecord ''renewed coordinator lease was not readable'')
                    (coordinator_by_id ws db lease_id)) (\<lambda>lease. Inr (lease, db)))))"

definition release_coordinator_lease ::
    "WorkspaceId \<Rightarrow> uuid \<Rightarrow> uuid \<Rightarrow> DateTime \<Rightarrow> lease_db \<Rightarrow> (StateError + bool) \<times> lease_db" where
  "release_coordinator_lease ws lease_id owner_id released_at =
     transact (\<lambda>db.
       and_then (validate_owner owner_id) (\<lambda>_.
         let db = expire_stale_leases ws released_at db in
         case coordinator_by_id ws db lease_id of
           None \<Rightarrow> Inl (LeaseOwnership lease_id)
         | Some current \<Rightarrow>
             if co_owner_id current \<noteq> owner_id then Inl (LeaseOwnership lease_id)
             else if co_released_at current \<noteq> None then Inr (False, db)
             else if active_children ws db lease_id \<noteq> []
             then Inl (LeaseConflict (co_task_id current)
                    ''active child workers must be released before the coordinator'')
             else if matching (renewable_coordinator ws lease_id owner_id) (ld_coordinators db) \<noteq> 1
             then Inl (LeaseOwnership lease_id)
             else Inr (True, db\<lparr>ld_coordinators :=
                    update_rows (renewable_coordinator ws lease_id owner_id)
                      (\<lambda>r. r\<lparr>cl_released_at := Some released_at\<rparr>) (ld_coordinators db)\<rparr>)))"

definition active_coordinator_lease ::
    "WorkspaceId \<Rightarrow> TaskId \<Rightarrow> DateTime \<Rightarrow> lease_db \<Rightarrow> (StateError + CoordinatorLease option) \<times> lease_db" where
  "active_coordinator_lease ws task now =
     transact (\<lambda>db.
       let db = expire_stale_leases ws now db in
       Inr (map_option map_coordinator
              (find (\<lambda>r. cl_task_id r = task \<and> cl_released_at r = None) (coordinators_in ws db)), db))"

section \<open>Workers\<close>

definition acquire_worker_lease ::
    "(DateTime \<Rightarrow> TimeDelta \<Rightarrow> DateTime option) \<Rightarrow> WorkspaceId \<Rightarrow> uuid \<Rightarrow> WorkerLeaseRequest \<Rightarrow> lease_db
     \<Rightarrow> (StateError + WorkerLease) \<times> lease_db" where
  "acquire_worker_lease add ws fresh request =
     transact (\<lambda>db.
       and_then (checked_expiry add (wq_acquired_at request) (wq_ttl request)) (\<lambda>expires_at.
         let db = expire_stale_leases ws (wq_acquired_at request) db in
         case coordinator_by_id ws db (wq_coordinator_lease_id request) of
           None \<Rightarrow> Inl (LeaseOwnership (wq_coordinator_lease_id request))
         | Some coordinator \<Rightarrow>
             if co_released_at coordinator \<noteq> None then Inl (LeaseOwnership (wq_coordinator_lease_id request))
             else if co_task_id coordinator \<noteq> wq_task_id request
             then Inl (LeaseConflict (wq_task_id request) ''worker and coordinator belong to different tasks'')
             else if co_worktree_id coordinator \<noteq> None \<and> co_worktree_id coordinator \<noteq> wq_worktree_id request
             then Inl (LeaseConflict (wq_task_id request) ''worker worktree differs from its coordinator worktree'')
             else if expires_at > co_expires_at coordinator
             then Inl (LeaseConflict (wq_task_id request) ''worker lease cannot outlive its coordinator'')
             else if wq_mode request = Lease_Writable \<and> active_writable_exists ws db (wq_task_id request)
             then Inl (LeaseConflict (wq_task_id request) ''another writable worker lease is active'')
             else
               and_then (insert_worker ws
                   \<lparr> wl_workspace = ws, wl_lease_id = fresh, wl_task_id = wq_task_id request,
                     wl_worktree_id = wq_worktree_id request,
                     wl_coordinator_lease_id = Some (wq_coordinator_lease_id request),
                     wl_provider_id = provider_as_str (wq_provider request),
                     wl_mode = lease_mode_as_str (wq_mode request), wl_acquired_at = wq_acquired_at request,
                     wl_expires_at = expires_at, wl_released_at = None \<rparr> db) (\<lambda>db.
               and_then (worker_by_id ws db fresh) (\<lambda>found.
               and_then (ok_or (InvalidRecord ''new worker lease was not readable'') found) (\<lambda>lease.
                 Inr (lease, db))))))"

definition held_worker :: "WorkspaceId \<Rightarrow> uuid \<Rightarrow> uuid \<Rightarrow> worker_row \<Rightarrow> bool" where
  "held_worker ws coordinator_id lease_id r \<longleftrightarrow>
     wl_workspace r = ws \<and> wl_lease_id r = lease_id \<and> wl_coordinator_lease_id r = Some coordinator_id
     \<and> wl_released_at r = None"

definition renew_worker_lease ::
    "(DateTime \<Rightarrow> TimeDelta \<Rightarrow> DateTime option) \<Rightarrow> WorkspaceId \<Rightarrow> uuid \<Rightarrow> uuid \<Rightarrow> LeaseRenewal \<Rightarrow> lease_db
     \<Rightarrow> (StateError + WorkerLease) \<times> lease_db" where
  "renew_worker_lease add ws coordinator_id lease_id renewal =
     transact (\<lambda>db.
       and_then (checked_expiry add (lr_renewed_at renewal) (lr_ttl renewal)) (\<lambda>expires_at.
         let db = expire_stale_leases ws (lr_renewed_at renewal) db in
         and_then (worker_by_id ws db lease_id) (\<lambda>found.
         case found of
           None \<Rightarrow> Inl (LeaseOwnership lease_id)
         | Some worker \<Rightarrow>
             if wo_released_at worker \<noteq> None \<or> wo_coordinator_lease_id worker \<noteq> Some coordinator_id
             then Inl (LeaseOwnership lease_id)
             else
               case coordinator_by_id ws db coordinator_id of
                 None \<Rightarrow> Inl (LeaseOwnership coordinator_id)
               | Some coordinator \<Rightarrow>
                   if co_released_at coordinator \<noteq> None then Inl (LeaseOwnership coordinator_id)
                   else if expires_at > co_expires_at coordinator
                   then Inl (LeaseConflict (wo_task_id worker) ''worker renewal cannot outlive its coordinator'')
                   else if matching (held_worker ws coordinator_id lease_id) (ld_workers db) \<noteq> 1
                   then Inl (LeaseOwnership lease_id)
                   else
                     let db = db\<lparr>ld_workers :=
                           update_rows (held_worker ws coordinator_id lease_id)
                             (\<lambda>r. r\<lparr>wl_expires_at := expires_at\<rparr>) (ld_workers db)\<rparr>
                     in and_then (worker_by_id ws db lease_id) (\<lambda>found.
                        and_then (ok_or (InvalidRecord ''renewed worker lease was not readable'') found)
                          (\<lambda>lease. Inr (lease, db))))))"

definition release_worker_lease ::
    "WorkspaceId \<Rightarrow> uuid \<Rightarrow> uuid \<Rightarrow> DateTime \<Rightarrow> lease_db \<Rightarrow> (StateError + bool) \<times> lease_db" where
  "release_worker_lease ws coordinator_id lease_id released_at =
     transact (\<lambda>db.
       let db = expire_stale_leases ws released_at db in
       and_then (worker_by_id ws db lease_id) (\<lambda>found.
       case found of
         None \<Rightarrow> Inl (LeaseOwnership lease_id)
       | Some worker \<Rightarrow>
           if wo_coordinator_lease_id worker \<noteq> Some coordinator_id then Inl (LeaseOwnership lease_id)
           else if wo_released_at worker \<noteq> None then Inr (False, db)
           else if matching (held_worker ws coordinator_id lease_id) (ld_workers db) \<noteq> 1
           then Inl (LeaseOwnership lease_id)
           else Inr (True, db\<lparr>ld_workers :=
                  update_rows (held_worker ws coordinator_id lease_id)
                    (\<lambda>r. r\<lparr>wl_released_at := Some released_at\<rparr>) (ld_workers db)\<rparr>)))"

definition active_worker_leases ::
    "WorkspaceId \<Rightarrow> TaskId \<Rightarrow> DateTime \<Rightarrow> lease_db \<Rightarrow> (StateError + WorkerLease list) \<times> lease_db" where
  "active_worker_leases ws task now =
     transact (\<lambda>db.
       let db = expire_stale_leases ws now db in
       and_then (try_map map_worker
         (sort_key wl_acquired_at (sort_key wl_lease_id
           (filter (\<lambda>r. wl_task_id r = task \<and> wl_released_at r = None) (workers_in ws db)))))
         (\<lambda>leases. Inr (leases, db)))"

section \<open>Resuming\<close>

definition runtime_resume_state :: "TaskState \<Rightarrow> bool" where
  "runtime_resume_state s \<longleftrightarrow>
     s \<in> {Running, CheckpointRequested, Checkpointing, Checkpointed, HandoverRequested, HandingOver, Resuming, Verifying}"

definition has_no_worker_replay_evidence :: "WorkspaceId \<Rightarrow> lease_db \<Rightarrow> TaskId \<Rightarrow> bool" where
  "has_no_worker_replay_evidence ws db task \<longleftrightarrow>
     \<not> list_ex (\<lambda>a. at_task_id a = task) (rows_of at_workspace ws (ld_attempts db))
     \<and> \<not> list_ex (\<lambda>w. wt_task_id w = task \<and> wt_archived_at w = None) (rows_of wt_workspace ws (ld_worktrees db))"

definition latest_checkpoint :: "WorkspaceId \<Rightarrow> lease_db \<Rightarrow> TaskId \<Rightarrow> checkpoint_row option" where
  "latest_checkpoint ws db task =
     (case sort_key ck_created_at (filter (\<lambda>c. ck_task_id c = task) (rows_of ck_workspace ws (ld_checkpoints db))) of
        [] \<Rightarrow> None
      | cs \<Rightarrow> Some (last cs))"

definition has_persisted_replay_evidence :: "WorkspaceId \<Rightarrow> lease_db \<Rightarrow> TaskId \<Rightarrow> CheckpointId option \<Rightarrow> bool" where
  "has_persisted_replay_evidence ws db task verified =
     (case verified of
        None \<Rightarrow> False
      | Some checkpoint \<Rightarrow>
          list_ex (\<lambda>c. ck_task_id c = task \<and> ck_checkpoint_id c = checkpoint
              \<and> map_option ck_checkpoint_id (latest_checkpoint ws db task) = Some checkpoint
              \<and> list_ex (\<lambda>a. at_task_id a = task \<and> Some (at_attempt_id a) = ck_attempt_id c
                    \<and> at_worker_mode a = Some ''workspace_write'' \<and> at_ended_at a \<noteq> None
                    \<and> at_outcome a \<noteq> None \<and> at_outcome a \<noteq> Some ''termination_unconfirmed'')
                  (rows_of at_workspace ws (ld_attempts db)))
            (rows_of ck_workspace ws (ld_checkpoints db))
          \<and> list_ex (\<lambda>w. wt_task_id w = task \<and> wt_state w = ''active'' \<and> wt_archived_at w = None)
              (rows_of wt_workspace ws (ld_worktrees db)))"

definition classify_replay_safe_projection ::
    "WorkspaceId \<Rightarrow> lease_db \<Rightarrow> TaskId \<Rightarrow> CheckpointId option \<Rightarrow> ResumeDisposition" where
  "classify_replay_safe_projection ws db task verified =
     (let replay_safe =
        (case find (\<lambda>t. lt_task_id t = task) (rows_of lt_workspace ws (ld_tasks db)) of
           None \<Rightarrow> False
         | Some t \<Rightarrow>
             if lt_state t = Queued then True
             else if lt_state t \<in> {Analyzing, Planned} then has_no_worker_replay_evidence ws db task
             else if lt_state t = Checkpointed then has_persisted_replay_evidence ws db task verified
             else
               case lt_resume_state t of
                 None \<Rightarrow> False
               | Some r \<Rightarrow>
                   if lt_state t = Blocked \<and> r \<in> {Analyzing, Planned} then has_no_worker_replay_evidence ws db task
                   else if lt_state t = Blocked \<and> runtime_resume_state r
                   then has_persisted_replay_evidence ws db task verified
                   else False)
      in if replay_safe then Requeued else Rejected)"

definition unfinished_attempt :: "attempt_row \<Rightarrow> bool" where
  "unfinished_attempt a \<longleftrightarrow>
     at_ended_at a = None \<or> at_outcome a = None \<or> at_outcome a = Some ''termination_unconfirmed''"

text \<open>The newest unexpired schedule claim, by \<open>acquired_at\<close>; among equals the order is SQLite's, here the
  last row.\<close>

definition schedule_owner :: "WorkspaceId \<Rightarrow> lease_db \<Rightarrow> TaskId \<Rightarrow> DateTime \<Rightarrow> DaemonInstanceId option" where
  "schedule_owner ws db task now =
     (case sort_key sc_acquired_at
             (filter (\<lambda>c. sc_task_id c = task \<and> sc_released_at c = None \<and> sc_expires_at c > now)
               (rows_of sc_workspace ws (ld_schedule_claims db))) of
        [] \<Rightarrow> None
      | cs \<Rightarrow> Some (sc_daemon_instance_id (last cs)))"

definition classify_resume_disposition ::
    "WorkspaceId \<Rightarrow> lease_db \<Rightarrow> TaskId \<Rightarrow> DaemonInstanceId \<Rightarrow> DateTime \<Rightarrow> CheckpointId option \<Rightarrow> ResumeDisposition" where
  "classify_resume_disposition ws db task daemon now verified =
     (case schedule_owner ws db task now of
        Some owner \<Rightarrow> if owner = daemon then Attached else Rejected
      | None \<Rightarrow>
          case find (\<lambda>r. cl_task_id r = task \<and> cl_released_at r = None) (coordinators_in ws db) of
            Some r \<Rightarrow> if cl_owner_id r = daemon then Attached else Rejected
          | None \<Rightarrow>
              if active_worker_exists ws db task
                 \<or> list_ex (\<lambda>a. at_task_id a = task \<and> unfinished_attempt a) (rows_of at_workspace ws (ld_attempts db))
              then Rejected
              else classify_replay_safe_projection ws db task verified)"

definition resume_disposition ::
    "(lease_db \<Rightarrow> TaskId \<Rightarrow> CheckpointId option) \<Rightarrow> WorkspaceId \<Rightarrow> TaskId \<Rightarrow> DaemonInstanceId \<Rightarrow> DateTime \<Rightarrow> lease_db
     \<Rightarrow> (StateError + ResumeDisposition) \<times> lease_db" where
  "resume_disposition verified_checkpoint ws task daemon now db =
     (let verified = verified_checkpoint db task in
      transact (\<lambda>db.
        let db = expire_stale_leases ws now db in
        Inr (classify_resume_disposition ws db task daemon now verified, db)) db)"

section \<open>The invariant\<close>

definition live_coordinator :: "WorkspaceId \<Rightarrow> lease_db \<Rightarrow> coordinator_row \<Rightarrow> bool" where
  "live_coordinator ws db c \<longleftrightarrow> c \<in> set (ld_coordinators db) \<and> cl_workspace c = ws \<and> cl_released_at c = None"

definition live_worker :: "WorkspaceId \<Rightarrow> lease_db \<Rightarrow> worker_row \<Rightarrow> bool" where
  "live_worker ws db w \<longleftrightarrow> w \<in> set (ld_workers db) \<and> wl_workspace w = ws \<and> wl_released_at w = None"

text \<open>A worker runs under a coordinator when that is live, coordinates the same task and does not expire first; a
  worker without a coordinator, from before coordinators existed, excludes one for its task.\<close>

definition under_coordinator :: "WorkspaceId \<Rightarrow> lease_db \<Rightarrow> worker_row \<Rightarrow> bool" where
  "under_coordinator ws db w \<longleftrightarrow>
     (case wl_coordinator_lease_id w of
        None \<Rightarrow> \<not> (\<exists>c. live_coordinator ws db c \<and> cl_task_id c = wl_task_id w)
      | Some i \<Rightarrow> \<exists>c. live_coordinator ws db c \<and> cl_lease_id c = i \<and> cl_task_id c = wl_task_id w
                      \<and> wl_expires_at w \<le> cl_expires_at c)"

definition lease_invariant :: "WorkspaceId \<Rightarrow> lease_db \<Rightarrow> bool" where
  "lease_invariant ws db \<longleftrightarrow>
     distinct (map cl_lease_id (coordinators_in ws db)) \<and> distinct (map wl_lease_id (workers_in ws db))
   \<and> (\<forall>a b. live_coordinator ws db a \<and> live_coordinator ws db b \<and> cl_task_id a = cl_task_id b \<longrightarrow>
        cl_lease_id a = cl_lease_id b)
   \<and> (\<forall>a b. live_worker ws db a \<and> live_worker ws db b \<and> wl_mode a = ''writable'' \<and> wl_mode b = ''writable''
        \<and> wl_task_id a = wl_task_id b \<longrightarrow> wl_lease_id a = wl_lease_id b)
   \<and> (\<forall>w. live_worker ws db w \<longrightarrow> under_coordinator ws db w)"

lemma lease_invariantI [intro?]:
  assumes "distinct (map cl_lease_id (coordinators_in ws db))" and "distinct (map wl_lease_id (workers_in ws db))"
    and "\<And>a b. live_coordinator ws db a \<Longrightarrow> live_coordinator ws db b \<Longrightarrow> cl_task_id a = cl_task_id b \<Longrightarrow>
      cl_lease_id a = cl_lease_id b"
    and "\<And>a b. live_worker ws db a \<Longrightarrow> live_worker ws db b \<Longrightarrow> wl_mode a = ''writable'' \<Longrightarrow> wl_mode b = ''writable''
      \<Longrightarrow> wl_task_id a = wl_task_id b \<Longrightarrow> wl_lease_id a = wl_lease_id b"
    and "\<And>w. live_worker ws db w \<Longrightarrow> under_coordinator ws db w"
  shows "lease_invariant ws db"
  using assms unfolding lease_invariant_def by blast

lemma lease_invariantD:
  assumes "lease_invariant ws db"
  shows "distinct (map cl_lease_id (coordinators_in ws db))" and "distinct (map wl_lease_id (workers_in ws db))"
    and "\<And>a b. live_coordinator ws db a \<Longrightarrow> live_coordinator ws db b \<Longrightarrow> cl_task_id a = cl_task_id b \<Longrightarrow>
      cl_lease_id a = cl_lease_id b"
    and "\<And>a b. live_worker ws db a \<Longrightarrow> live_worker ws db b \<Longrightarrow> wl_mode a = ''writable'' \<Longrightarrow> wl_mode b = ''writable''
      \<Longrightarrow> wl_task_id a = wl_task_id b \<Longrightarrow> wl_lease_id a = wl_lease_id b"
    and "\<And>w. live_worker ws db w \<Longrightarrow> under_coordinator ws db w"
  using assms unfolding lease_invariant_def by blast+

lemma live_in_view:
  "live_coordinator ws db c \<longleftrightarrow> c \<in> set (coordinators_in ws db) \<and> cl_released_at c = None"
  "live_worker ws db w \<longleftrightarrow> w \<in> set (workers_in ws db) \<and> wl_released_at w = None"
  by (auto simp: live_coordinator_def live_worker_def coordinators_in_def workers_in_def)

lemma exists_live:
  "active_coordinator_exists ws db task \<longleftrightarrow> (\<exists>c. live_coordinator ws db c \<and> cl_task_id c = task)"
  "active_worker_exists ws db task \<longleftrightarrow> (\<exists>w. live_worker ws db w \<and> wl_task_id w = task)"
  "active_writable_exists ws db task \<longleftrightarrow>
     (\<exists>w. live_worker ws db w \<and> wl_task_id w = task \<and> wl_mode w = ''writable'')"
  by (auto simp: active_coordinator_exists_def active_worker_exists_def active_writable_exists_def live_in_view
      list_ex_iff)

lemma set_active_children:
  "w \<in> set (active_children ws db i) \<longleftrightarrow> live_worker ws db w \<and> wl_coordinator_lease_id w = Some i"
  by (auto simp: active_children_def live_in_view)

text \<open>Updates keep the keys of a table.\<close>

lemma map_rows_of_update:
  assumes "\<And>r. workspace (f r) = workspace r" and "\<And>r. k (f r) = k r"
  shows "map k (rows_of workspace ws (update_rows p f rows)) = map k (rows_of workspace ws rows)"
  by (induction rows) (auto simp: rows_of_def update_rows_def assms)

lemma same_id_same_row:
  "distinct (map k xs) \<Longrightarrow> a \<in> set xs \<Longrightarrow> b \<in> set xs \<Longrightarrow> k a = k b \<Longrightarrow> a = b"
  by (meson distinct_map inj_onD)

lemma under_coordinator_fields:
  "wl_task_id w' = wl_task_id w \<Longrightarrow> wl_coordinator_lease_id w' = wl_coordinator_lease_id w \<Longrightarrow>
     wl_expires_at w' = wl_expires_at w \<Longrightarrow> under_coordinator ws db w' = under_coordinator ws db w"
  by (simp only: under_coordinator_def)

section \<open>Expiry keeps the invariant\<close>

definition expired_coordinators :: "WorkspaceId \<Rightarrow> DateTime \<Rightarrow> lease_db \<Rightarrow> lease_db" where
  "expired_coordinators ws now db =
     db\<lparr>ld_coordinators :=
       update_rows (\<lambda>r. cl_workspace r = ws \<and> cl_released_at r = None \<and> cl_expires_at r \<le> now)
         (\<lambda>r. r\<lparr>cl_released_at := Some now\<rparr>) (ld_coordinators db)\<rparr>"

text \<open>The tables after expiry.\<close>

abbreviation released_ids :: "WorkspaceId \<Rightarrow> DateTime \<Rightarrow> lease_db \<Rightarrow> uuid option set" where
  "released_ids ws now db \<equiv>
     Some ` cl_lease_id ` {c \<in> set (coordinators_in ws (expired_coordinators ws now db)). cl_released_at c \<noteq> None}"

lemma expired_table:
  "ld_coordinators (expired_coordinators ws now db) =
     update_rows (\<lambda>r. cl_workspace r = ws \<and> cl_released_at r = None \<and> cl_expires_at r \<le> now)
       (\<lambda>r. r\<lparr>cl_released_at := Some now\<rparr>) (ld_coordinators db)"
  by (simp add: expired_coordinators_def)

lemma expire_stale_fields:
  "ld_coordinators (expire_stale_leases ws now db) = ld_coordinators (expired_coordinators ws now db)"
  "ld_workers (expire_stale_leases ws now db) =
     update_rows (\<lambda>r. wl_workspace r = ws \<and> wl_released_at r = None
         \<and> (wl_expires_at r \<le> now \<or> wl_coordinator_lease_id r \<in> released_ids ws now db))
       (\<lambda>r. r\<lparr>wl_released_at := Some now\<rparr>) (ld_workers db)"
  by (simp_all add: expire_stale_leases_def expired_coordinators_def Let_def)

lemma live_expired_coordinators:
  "live_coordinator ws (expired_coordinators ws now db) c \<longleftrightarrow> live_coordinator ws db c \<and> now < cl_expires_at c"
proof -
  let ?q = "\<lambda>r. cl_workspace r = ws \<and> cl_released_at r = None"
  have "c \<in> set (ld_coordinators (expired_coordinators ws now db)) \<and> ?q c \<longleftrightarrow>
      c \<in> set (ld_coordinators db)
      \<and> \<not> (cl_workspace c = ws \<and> cl_released_at c = None \<and> cl_expires_at c \<le> now) \<and> ?q c"
    unfolding expired_table by (rule update_rows_drops) simp
  then show ?thesis by (auto simp: live_coordinator_def not_le)
qed

lemma live_expire_stale:
  "live_coordinator ws (expire_stale_leases ws now db) c \<longleftrightarrow> live_coordinator ws db c \<and> now < cl_expires_at c"
  using live_expired_coordinators [of ws now db c] by (simp add: live_coordinator_def expire_stale_fields)

lemma live_worker_expire_stale:
  "live_worker ws (expire_stale_leases ws now db) w \<longleftrightarrow>
     live_worker ws db w \<and> now < wl_expires_at w
     \<and> wl_coordinator_lease_id w \<notin> released_ids ws now db"
proof -
  let ?q = "\<lambda>r. wl_workspace r = ws \<and> wl_released_at r = None"
  have "w \<in> set (ld_workers (expire_stale_leases ws now db)) \<and> ?q w \<longleftrightarrow>
      w \<in> set (ld_workers db)
      \<and> \<not> (wl_workspace w = ws \<and> wl_released_at w = None
          \<and> (wl_expires_at w \<le> now \<or> wl_coordinator_lease_id w \<in> released_ids ws now db)) \<and> ?q w"
    unfolding expire_stale_fields by (rule update_rows_drops) simp
  then show ?thesis unfolding live_worker_def not_le [symmetric] by blast
qed

lemma expire_keys:
  "map cl_lease_id (coordinators_in ws (expire_stale_leases ws now db)) = map cl_lease_id (coordinators_in ws db)"
  "map cl_lease_id (coordinators_in ws (expired_coordinators ws now db)) = map cl_lease_id (coordinators_in ws db)"
  "map wl_lease_id (workers_in ws (expire_stale_leases ws now db)) = map wl_lease_id (workers_in ws db)"
  unfolding coordinators_in_def workers_in_def expire_stale_fields expired_table
  by (rule map_rows_of_update; simp)+

lemma lease_expire_invariant:
  assumes "lease_invariant ws db"
  shows "lease_invariant ws (expire_stale_leases ws now db)"
proof
  note inv = lease_invariantD [OF assms]
  let ?db = "expire_stale_leases ws now db"
  show "distinct (map cl_lease_id (coordinators_in ws ?db))" using inv(1) by (simp only: expire_keys)
  show "distinct (map wl_lease_id (workers_in ws ?db))" using inv(2) by (simp only: expire_keys)
  show "cl_lease_id a = cl_lease_id b"
    if "live_coordinator ws ?db a" "live_coordinator ws ?db b" "cl_task_id a = cl_task_id b" for a b
    using that inv(3) by (simp only: live_expire_stale)
  show "wl_lease_id a = wl_lease_id b"
    if "live_worker ws ?db a" "live_worker ws ?db b" "wl_mode a = ''writable''" "wl_mode b = ''writable''"
      "wl_task_id a = wl_task_id b" for a b
    using that inv(4) by (simp only: live_worker_expire_stale)
  show "under_coordinator ws ?db w" if w: "live_worker ws ?db w" for w
  proof (cases "wl_coordinator_lease_id w")
    case None
    then show ?thesis
      using inv(5) [of w] w by (simp add: under_coordinator_def live_expire_stale live_worker_expire_stale)
  next
    case (Some i)
    then obtain c where c: "live_coordinator ws db c" "cl_lease_id c = i" "cl_task_id c = wl_task_id w"
      "wl_expires_at w \<le> cl_expires_at c"
      using inv(5) [of w] w by (auto simp: under_coordinator_def live_worker_expire_stale)
    moreover have "now < wl_expires_at w" using w by (simp add: live_worker_expire_stale)
    ultimately have "live_coordinator ws ?db c" by (simp add: live_expire_stale)
    then show ?thesis using c Some by (auto simp: under_coordinator_def)
  qed
qed

section \<open>Changes to the tables keep the invariant\<close>

lemma in_update_rows: "r \<in> set (update_rows p f rows) \<longleftrightarrow> (\<exists>r0 \<in> set rows. r = (if p r0 then f r0 else r0))"
  by (auto simp: update_rows_def)

text \<open>Only the coordinators change.\<close>

lemma invariant_coordinators:
  assumes "lease_invariant ws db" and "ld_workers db' = ld_workers db"
    and "distinct (map cl_lease_id (coordinators_in ws db'))"
    and "\<And>a b. live_coordinator ws db' a \<Longrightarrow> live_coordinator ws db' b \<Longrightarrow> cl_task_id a = cl_task_id b \<Longrightarrow>
      cl_lease_id a = cl_lease_id b"
    and "\<And>w. live_worker ws db w \<Longrightarrow> under_coordinator ws db' w"
  shows "lease_invariant ws db'"
proof -
  note inv = lease_invariantD [OF assms(1)]
  have live: "live_worker ws db' w \<longleftrightarrow> live_worker ws db w" for w by (simp add: live_worker_def assms(2))
  have "workers_in ws db' = workers_in ws db" by (simp add: workers_in_def assms(2))
  then have "distinct (map wl_lease_id (workers_in ws db'))" using inv(2) by simp
  from lease_invariantI [OF assms(3) this assms(4), unfolded live, OF _ _ _ inv(4) assms(5)] show ?thesis by blast
qed

lemma insert_coordinator_Inr:
  assumes "insert_coordinator ws row db = Inr db'"
  shows "db' = db\<lparr>ld_coordinators := ld_coordinators db @ [row]\<rparr>"
    and "\<not> list_ex (\<lambda>r. cl_lease_id r = cl_lease_id row) (coordinators_in ws db)"
    and "\<not> active_coordinator_exists ws db (cl_task_id row)"
  using assms unfolding insert_coordinator_def by (simp_all split: if_split_asm)

lemma insert_coordinator_invariant:
  assumes inv: "lease_invariant ws db" and "insert_coordinator ws row db = Inr db'"
    and "cl_workspace row = ws" and "cl_released_at row = None"
    and "\<not> active_worker_exists ws db (cl_task_id row)"
  shows "lease_invariant ws db'"
proof -
  note eq = insert_coordinator_Inr(1) [OF assms(2)] and key = insert_coordinator_Inr(2) [OF assms(2)]
    and none = insert_coordinator_Inr(3) [OF assms(2)]
  have db': "ld_coordinators db' = ld_coordinators db @ [row]" "ld_workers db' = ld_workers db"
    by (simp_all add: eq)
  have fresh: "\<forall>r \<in> set (coordinators_in ws db). cl_lease_id r \<noteq> cl_lease_id row"
    using key unfolding list_ex_iff by blast
  have live: "live_coordinator ws db' c \<longleftrightarrow> live_coordinator ws db c \<or> c = row" for c
    using assms(3,4) by (auto simp: live_coordinator_def db')
  show ?thesis
  proof (rule invariant_coordinators [OF inv db'(2)])
    have "coordinators_in ws db' = coordinators_in ws db @ [row]"
      by (simp add: coordinators_in_def db' rows_of_def assms(3))
    then show "distinct (map cl_lease_id (coordinators_in ws db'))"
      using fresh lease_invariantD(1) [OF inv] by auto
    show "cl_lease_id a = cl_lease_id b"
      if "live_coordinator ws db' a" "live_coordinator ws db' b" "cl_task_id a = cl_task_id b" for a b
      using that none lease_invariantD(3) [OF inv] unfolding live exists_live by metis
    show "under_coordinator ws db' w" if "live_worker ws db w" for w
      using lease_invariantD(5) [OF inv that] that assms(5)
      by (cases "wl_coordinator_lease_id w") (auto simp: under_coordinator_def live exists_live)
  qed
qed

lemma renew_coordinator_invariant:
  assumes inv: "lease_invariant ws db"
    and db': "db' = db\<lparr>ld_coordinators := update_rows (renewable_coordinator ws i owner)
          (\<lambda>r. r\<lparr>cl_renewed_at := now, cl_expires_at := e\<rparr>) (ld_coordinators db)\<rparr>"
    and children: "\<forall>w \<in> set (active_children ws db i). wl_expires_at w \<le> e"
  shows "lease_invariant ws db'"
proof -
  let ?p = "renewable_coordinator ws i owner" and ?f = "\<lambda>r. r\<lparr>cl_renewed_at := now, cl_expires_at := e\<rparr>"
  have fields: "ld_coordinators db' = update_rows ?p ?f (ld_coordinators db)" "ld_workers db' = ld_workers db"
    by (simp_all add: db')
  have live: "live_coordinator ws db' c \<longleftrightarrow> (\<exists>c0. live_coordinator ws db c0 \<and> c = (if ?p c0 then ?f c0 else c0))" for c
    unfolding live_coordinator_def fields in_update_rows by (auto split: if_splits)
  show ?thesis
  proof (rule invariant_coordinators [OF inv fields(2)])
    show "distinct (map cl_lease_id (coordinators_in ws db'))"
      using lease_invariantD(1) [OF inv] unfolding coordinators_in_def fields
      by (subst map_rows_of_update) simp_all
    show "cl_lease_id a = cl_lease_id b"
      if ab: "live_coordinator ws db' a" "live_coordinator ws db' b" "cl_task_id a = cl_task_id b" for a b
    proof -
      obtain a0 b0 where "live_coordinator ws db a0" "a = (if ?p a0 then ?f a0 else a0)"
        "live_coordinator ws db b0" "b = (if ?p b0 then ?f b0 else b0)" using ab(1,2) unfolding live by blast
      moreover have "cl_task_id (if ?p r then ?f r else r) = cl_task_id r"
        "cl_lease_id (if ?p r then ?f r else r) = cl_lease_id r" for r by simp_all
      ultimately show ?thesis using lease_invariantD(3) [OF inv, of a0 b0] ab(3) by metis
    qed
    show "under_coordinator ws db' w" if w: "live_worker ws db w" for w
    proof (cases "wl_coordinator_lease_id w")
      case None
      then show ?thesis using lease_invariantD(5) [OF inv w] unfolding under_coordinator_def live
        by (auto split: if_splits)
    next
      case (Some j)
      then obtain c where c: "live_coordinator ws db c" "cl_lease_id c = j" "cl_task_id c = wl_task_id w"
        "wl_expires_at w \<le> cl_expires_at c"
        using lease_invariantD(5) [OF inv w] by (auto simp: under_coordinator_def)
      let ?c = "if ?p c then ?f c else c"
      have "live_coordinator ws db' ?c" using c(1) live by blast
      moreover have "wl_expires_at w \<le> cl_expires_at ?c"
        using c Some w children by (auto simp: renewable_coordinator_def set_active_children)
      ultimately show ?thesis using c Some by (auto simp: under_coordinator_def intro!: exI [of _ ?c])
    qed
  qed
qed

lemma release_coordinator_invariant:
  assumes inv: "lease_invariant ws db"
    and db': "db' = db\<lparr>ld_coordinators := update_rows (renewable_coordinator ws i owner)
          (\<lambda>r. r\<lparr>cl_released_at := Some now\<rparr>) (ld_coordinators db)\<rparr>"
    and children: "active_children ws db i = []"
  shows "lease_invariant ws db'"
proof -
  let ?p = "renewable_coordinator ws i owner"
  have fields: "ld_coordinators db' = update_rows ?p (\<lambda>r. r\<lparr>cl_released_at := Some now\<rparr>) (ld_coordinators db)"
    "ld_workers db' = ld_workers db" by (simp_all add: db')
  have live: "live_coordinator ws db' c \<longleftrightarrow> live_coordinator ws db c \<and> \<not> ?p c" for c
  proof -
    let ?q = "\<lambda>r. cl_workspace r = ws \<and> cl_released_at r = None"
    have "c \<in> set (ld_coordinators db') \<and> ?q c \<longleftrightarrow> c \<in> set (ld_coordinators db) \<and> \<not> ?p c \<and> ?q c"
      unfolding fields by (rule update_rows_drops) simp
    then show ?thesis unfolding live_coordinator_def by blast
  qed
  show ?thesis
  proof (rule invariant_coordinators [OF inv fields(2)])
    show "distinct (map cl_lease_id (coordinators_in ws db'))"
      using lease_invariantD(1) [OF inv] unfolding coordinators_in_def fields
      by (subst map_rows_of_update) simp_all
    show "cl_lease_id a = cl_lease_id b"
      if "live_coordinator ws db' a" "live_coordinator ws db' b" "cl_task_id a = cl_task_id b" for a b
      using that lease_invariantD(3) [OF inv] unfolding live by blast
    show "under_coordinator ws db' w" if w: "live_worker ws db w" for w
    proof (cases "wl_coordinator_lease_id w")
      case None
      then show ?thesis using lease_invariantD(5) [OF inv w] unfolding under_coordinator_def live by auto
    next
      case (Some j)
      then have "j \<noteq> i" using w children set_active_children [of w ws db i] by auto
      then show ?thesis using Some lease_invariantD(5) [OF inv w] unfolding under_coordinator_def live
        by (auto simp: renewable_coordinator_def)
    qed
  qed
qed


text \<open>Only the workers change.\<close>

lemma invariant_workers:
  assumes "lease_invariant ws db" and "ld_coordinators db' = ld_coordinators db"
    and "distinct (map wl_lease_id (workers_in ws db'))"
    and "\<And>a b. live_worker ws db' a \<Longrightarrow> live_worker ws db' b \<Longrightarrow> wl_mode a = ''writable'' \<Longrightarrow> wl_mode b = ''writable''
      \<Longrightarrow> wl_task_id a = wl_task_id b \<Longrightarrow> wl_lease_id a = wl_lease_id b"
    and "\<And>w. live_worker ws db' w \<Longrightarrow> under_coordinator ws db w"
  shows "lease_invariant ws db'"
proof -
  note inv = lease_invariantD [OF assms(1)]
  have live: "live_coordinator ws db' c \<longleftrightarrow> live_coordinator ws db c" for c
    by (simp add: live_coordinator_def assms(2))
  have under: "under_coordinator ws db' w \<longleftrightarrow> under_coordinator ws db w" for w
    by (simp only: under_coordinator_def live)
  have "coordinators_in ws db' = coordinators_in ws db" by (simp add: coordinators_in_def assms(2))
  then have "distinct (map cl_lease_id (coordinators_in ws db'))" using inv(1) by simp
  from lease_invariantI [OF this assms(3), unfolded live under, OF inv(3) assms(4,5)] show ?thesis by blast
qed

lemma insert_worker_Inr:
  assumes "insert_worker ws row db = Inr db'"
  shows "db' = db\<lparr>ld_workers := ld_workers db @ [row]\<rparr>"
    and "\<not> list_ex (\<lambda>r. wl_lease_id r = wl_lease_id row) (workers_in ws db)"
    and "wl_mode row = ''writable'' \<Longrightarrow> \<not> active_writable_exists ws db (wl_task_id row)"
  using assms unfolding insert_worker_def by (simp_all only: split: if_split_asm) simp_all

lemma insert_worker_invariant:
  assumes inv: "lease_invariant ws db" and ins: "insert_worker ws row db = Inr db'"
    and "wl_workspace row = ws" and "wl_released_at row = None" and under: "under_coordinator ws db row"
  shows "lease_invariant ws db'"
proof -
  have db': "ld_workers db' = ld_workers db @ [row]" "ld_coordinators db' = ld_coordinators db"
    by (simp_all add: insert_worker_Inr(1) [OF ins])
  have fresh: "\<forall>r \<in> set (workers_in ws db). wl_lease_id r \<noteq> wl_lease_id row"
    using insert_worker_Inr(2) [OF ins] unfolding list_ex_iff by blast
  have live: "live_worker ws db' w \<longleftrightarrow> live_worker ws db w \<or> w = row" for w
    using assms(3,4) by (auto simp: live_worker_def db')
  show ?thesis
  proof (rule invariant_workers [OF inv db'(2)])
    have "workers_in ws db' = workers_in ws db @ [row]" by (simp add: workers_in_def db' rows_of_def assms(3))
    then show "distinct (map wl_lease_id (workers_in ws db'))" using fresh lease_invariantD(2) [OF inv] by auto
    show "wl_lease_id a = wl_lease_id b"
      if "live_worker ws db' a" "live_worker ws db' b" "wl_mode a = ''writable''" "wl_mode b = ''writable''"
        "wl_task_id a = wl_task_id b" for a b
      using that insert_worker_Inr(3) [OF ins] lease_invariantD(4) [OF inv] unfolding live exists_live by metis
    show "under_coordinator ws db w" if "live_worker ws db' w" for w
      using that under lease_invariantD(5) [OF inv] unfolding live by blast
  qed
qed

lemma live_coordinator_unique:
  assumes "lease_invariant ws db" "live_coordinator ws db a" "live_coordinator ws db b" "cl_lease_id a = cl_lease_id b"
  shows "a = b"
  using same_id_same_row [OF lease_invariantD(1) [OF assms(1)]] assms(2-4) unfolding live_in_view by blast

lemma renew_worker_invariant:
  assumes inv: "lease_invariant ws db"
    and db': "db' = db\<lparr>ld_workers := update_rows (held_worker ws i j) (\<lambda>r. r\<lparr>wl_expires_at := e\<rparr>) (ld_workers db)\<rparr>"
    and c: "live_coordinator ws db c" "cl_lease_id c = i" "e \<le> cl_expires_at c"
  shows "lease_invariant ws db'"
proof -
  let ?p = "held_worker ws i j" and ?f = "\<lambda>r. r\<lparr>wl_expires_at := e\<rparr>"
  let ?g = "\<lambda>r. if ?p r then ?f r else r"
  have fields: "ld_workers db' = update_rows ?p ?f (ld_workers db)" "ld_coordinators db' = ld_coordinators db"
    by (simp_all add: db')
  have live: "live_worker ws db' w \<longleftrightarrow> (\<exists>w0. live_worker ws db w0 \<and> w = ?g w0)" for w
    unfolding live_worker_def fields in_update_rows by (auto split: if_splits)
  have same: "wl_task_id (?g r) = wl_task_id r" "wl_lease_id (?g r) = wl_lease_id r" "wl_mode (?g r) = wl_mode r" for r
    by simp_all
  show ?thesis
  proof (rule invariant_workers [OF inv fields(2)])
    show "distinct (map wl_lease_id (workers_in ws db'))"
      using lease_invariantD(2) [OF inv] unfolding workers_in_def fields by (subst map_rows_of_update) simp_all
    show "wl_lease_id a = wl_lease_id b"
      if ab: "live_worker ws db' a" "live_worker ws db' b" "wl_mode a = ''writable''" "wl_mode b = ''writable''"
        "wl_task_id a = wl_task_id b" for a b
    proof -
      obtain a0 b0 where 0: "live_worker ws db a0" "a = ?g a0" "live_worker ws db b0" "b = ?g b0"
        using ab(1,2) unfolding live by blast
      show ?thesis using lease_invariantD(4) [OF inv 0(1,3)] ab(3-5) unfolding 0(2,4) same by blast
    qed
    show "under_coordinator ws db w" if w: "live_worker ws db' w" for w
    proof -
      obtain w0 where w0: "live_worker ws db w0" "w = ?g w0" using w unfolding live by blast
      note under = lease_invariantD(5) [OF inv w0(1)]
      show ?thesis
      proof (cases "?p w0")
        case True
        then have i: "wl_coordinator_lease_id w0 = Some i" by (simp add: held_worker_def)
        obtain c' where "live_coordinator ws db c'" "cl_lease_id c' = i" "cl_task_id c' = wl_task_id w0"
          using under unfolding under_coordinator_def i option.simps by blast
        moreover from this(1,2) have "c' = c" using live_coordinator_unique [OF inv, of c' c] c(1,2) by simp
        ultimately have "cl_task_id c = wl_task_id w0" by simp
        moreover have "wl_coordinator_lease_id w = Some i" "wl_task_id w = wl_task_id w0" "wl_expires_at w = e"
          using i True w0(2) by simp_all
        ultimately show ?thesis unfolding under_coordinator_def using c by auto
      qed (use w0 under in simp)
    qed
  qed
qed

lemma release_worker_invariant:
  assumes inv: "lease_invariant ws db"
    and db': "db' = db\<lparr>ld_workers := update_rows (held_worker ws i j) (\<lambda>r. r\<lparr>wl_released_at := Some t\<rparr>) (ld_workers db)\<rparr>"
  shows "lease_invariant ws db'"
proof -
  have fields: "ld_workers db' = update_rows (held_worker ws i j) (\<lambda>r. r\<lparr>wl_released_at := Some t\<rparr>) (ld_workers db)"
    "ld_coordinators db' = ld_coordinators db" by (simp_all add: db')
  let ?q = "\<lambda>r. wl_workspace r = ws \<and> wl_released_at r = None"
  have "w \<in> set (ld_workers db') \<and> ?q w \<longleftrightarrow> w \<in> set (ld_workers db) \<and> \<not> held_worker ws i j w \<and> ?q w" for w
    unfolding fields by (rule update_rows_drops) simp
  then have live: "live_worker ws db w" if "live_worker ws db' w" for w
    using that unfolding live_worker_def by blast
  show ?thesis
  proof (rule invariant_workers [OF inv fields(2)])
    show "distinct (map wl_lease_id (workers_in ws db'))"
      using lease_invariantD(2) [OF inv] unfolding workers_in_def fields by (subst map_rows_of_update) simp_all
  qed (use live lease_invariantD(4,5) [OF inv] in blast)+
qed

end
