(* ===== verification/Lease_Store.thy ===== *)
theory Lease_Store
  imports Leases
begin

text \<open>
  The lease store as a whole: every operation of \<open>leases.rs\<close> expires stale leases and then makes at most one
  write; these writes keep the invariant of \<open>Leases\<close> and other workspaces. The properties say who can
  hold a task and when a resume request may requeue it.
\<close>

section \<open>The writes behind the operations\<close>

inductive lease_write :: "WorkspaceId \<Rightarrow> lease_db \<Rightarrow> lease_db \<Rightarrow> bool" for ws where
  write_nothing: "lease_write ws db db"
| write_coordinator: "insert_coordinator ws row db = Inr db' \<Longrightarrow> cl_workspace row = ws \<Longrightarrow> cl_released_at row = None
    \<Longrightarrow> \<not> active_worker_exists ws db (cl_task_id row) \<Longrightarrow> lease_write ws db db'"
| write_coordinator_renewal: "\<forall>w \<in> set (active_children ws db i). wl_expires_at w \<le> e
    \<Longrightarrow> lease_write ws db (db\<lparr>ld_coordinators := update_rows (renewable_coordinator ws i owner)
          (\<lambda>r. r\<lparr>cl_renewed_at := now, cl_expires_at := e\<rparr>) (ld_coordinators db)\<rparr>)"
| write_coordinator_release: "active_children ws db i = []
    \<Longrightarrow> lease_write ws db (db\<lparr>ld_coordinators := update_rows (renewable_coordinator ws i owner)
          (\<lambda>r. r\<lparr>cl_released_at := Some now\<rparr>) (ld_coordinators db)\<rparr>)"
| write_worker: "insert_worker ws row db = Inr db' \<Longrightarrow> wl_workspace row = ws \<Longrightarrow> wl_released_at row = None
    \<Longrightarrow> under_coordinator ws db row \<Longrightarrow> wl_coordinator_lease_id row \<noteq> None \<Longrightarrow> lease_write ws db db'"
| write_worker_renewal: "live_coordinator ws db c \<Longrightarrow> cl_lease_id c = i \<Longrightarrow> e \<le> cl_expires_at c
    \<Longrightarrow> lease_write ws db (db\<lparr>ld_workers := update_rows (held_worker ws i j) (\<lambda>r. r\<lparr>wl_expires_at := e\<rparr>) (ld_workers db)\<rparr>)"
| write_worker_release:
    "lease_write ws db (db\<lparr>ld_workers := update_rows (held_worker ws i j) (\<lambda>r. r\<lparr>wl_released_at := Some t\<rparr>) (ld_workers db)\<rparr>)"

lemma lease_write_invariant: "lease_write ws db db' \<Longrightarrow> lease_invariant ws db \<Longrightarrow> lease_invariant ws db'"
proof (induction rule: lease_write.induct)
  case (write_coordinator row db db')
  then show ?case by (blast intro: insert_coordinator_invariant)
next
  case (write_coordinator_renewal db i e owner now)
  then show ?case by (blast intro: renew_coordinator_invariant [OF _ refl])
next
  case (write_coordinator_release db i owner now)
  then show ?case by (blast intro: release_coordinator_invariant [OF _ refl])
next
  case (write_worker row db db')
  then show ?case by (blast intro: insert_worker_invariant)
next
  case (write_worker_renewal db c i e j)
  then show ?case by (blast intro: renew_worker_invariant [OF _ refl])
next
  case (write_worker_release db i j t)
  then show ?case by (blast intro: release_worker_invariant [OF _ refl])
qed

definition lease_view :: "WorkspaceId \<Rightarrow> lease_db \<Rightarrow> coordinator_row list \<times> worker_row list" where
  "lease_view ws db = (coordinators_in ws db, workers_in ws db)"

lemma lease_expire_view: "v \<noteq> ws \<Longrightarrow> lease_view v (expire_stale_leases ws now db) = lease_view v db"
  unfolding lease_view_def coordinators_in_def workers_in_def expire_stale_fields expired_table prod.inject
  by (intro conjI rows_of_update_other) auto

lemma lease_write_view: "lease_write ws db db' \<Longrightarrow> v \<noteq> ws \<Longrightarrow> lease_view v db' = lease_view v db"
proof (induction rule: lease_write.induct)
  case (write_coordinator row db db')
  with insert_coordinator_Inr(1) [OF write_coordinator(1)] show ?case
    by (simp add: lease_view_def coordinators_in_def workers_in_def rows_of_def)
next
  case (write_worker row db db')
  with insert_worker_Inr(1) [OF write_worker(1)] show ?case
    by (simp add: lease_view_def coordinators_in_def workers_in_def rows_of_def)
qed (auto simp: lease_view_def coordinators_in_def workers_in_def renewable_coordinator_def held_worker_def
    intro!: rows_of_update_other)

section \<open>Each operation is an expiry and one write\<close>

lemma coordinator_by_id_live:
  assumes "coordinator_by_id ws db i = Some co" and "co_released_at co = None"
  obtains c where "live_coordinator ws db c" "cl_lease_id c = i" "co = map_coordinator c"
proof -
  obtain c where c: "find (\<lambda>r. cl_lease_id r = i) (coordinators_in ws db) = Some c" "co = map_coordinator c"
    using assms(1) by (auto simp: coordinator_by_id_def)
  then have "c \<in> set (coordinators_in ws db)" "cl_lease_id c = i" by (auto dest: find_in_set)
  moreover have "cl_released_at c = None" using assms(2) c(2) by (simp add: map_coordinator_def)
  ultimately show ?thesis using that c(2) by (simp add: live_in_view)
qed

abbreviation expire_and_write :: "WorkspaceId \<Rightarrow> DateTime \<Rightarrow> lease_db \<Rightarrow> lease_db \<Rightarrow> bool" where
  "expire_and_write ws t db db' \<equiv> db' = db \<or> lease_write ws (expire_stale_leases ws t db) db'"

lemma acquire_coordinator_writes:
  assumes "acquire_coordinator_lease add ws fresh request db = (r, db')"
  shows "expire_and_write ws (cq_acquired_at request) db db'"
  using assms unfolding acquire_coordinator_lease_def
proof (cases rule: transact_cases)
  case (2 a)
  then show ?thesis
    by (auto simp: and_then_eq_Inr Let_def split: if_splits intro!: write_coordinator)
qed simp


lemma renew_coordinator_writes:
  assumes "renew_coordinator_lease add ws i owner renewal db = (r, db')"
  shows "expire_and_write ws (lr_renewed_at renewal) db db'"
  using assms unfolding renew_coordinator_lease_def
proof (cases rule: transact_cases)
  case (2 a)
  then show ?thesis
    by (auto simp: and_then_eq_Inr Let_def list_ex_iff not_less split: if_splits option.splits
        intro!: write_coordinator_renewal)
qed simp

lemma release_coordinator_writes:
  assumes "release_coordinator_lease ws i owner t db = (r, db')"
  shows "expire_and_write ws t db db'"
  using assms unfolding release_coordinator_lease_def
proof (cases rule: transact_cases)
  case (2 a)
  then show ?thesis
    by (auto simp: and_then_eq_Inr Let_def split: if_splits option.splits
        intro!: write_nothing write_coordinator_release)
qed simp

lemma acquire_worker_writes:
  assumes "acquire_worker_lease add ws fresh request db = (r, db')"
  shows "expire_and_write ws (wq_acquired_at request) db db'"
  using assms unfolding acquire_worker_lease_def
proof (cases rule: transact_cases)
  case (2 a)
  then show ?thesis
    by (auto simp: and_then_eq_Inr Let_def under_coordinator_def map_coordinator_def not_less
        split: if_splits option.splits intro!: write_worker elim!: coordinator_by_id_live)
qed simp

lemma renew_worker_writes:
  assumes "renew_worker_lease add ws i j renewal db = (r, db')"
  shows "expire_and_write ws (lr_renewed_at renewal) db db'"
  using assms unfolding renew_worker_lease_def
proof (cases rule: transact_cases)
  case (2 a)
  then show ?thesis
    by (cases "worker_by_id ws (expire_stale_leases ws (lr_renewed_at renewal) db) j";
        cases "checked_expiry add (lr_renewed_at renewal) (lr_ttl renewal)")
      (auto simp: and_then_eq_Inr Let_def map_coordinator_def not_less split: if_splits option.splits
        elim!: coordinator_by_id_live intro: write_worker_renewal)
qed simp

lemma release_worker_writes:
  assumes "release_worker_lease ws i j t db = (r, db')"
  shows "expire_and_write ws t db db'"
  using assms unfolding release_worker_lease_def
proof (cases rule: transact_cases)
  case (2 a)
  then show ?thesis
    by (cases "worker_by_id ws (expire_stale_leases ws t db) j")
      (auto simp: Let_def split: if_splits option.splits intro: write_nothing write_worker_release)
qed simp

lemma lease_queries_write:
  "active_coordinator_lease ws task now db = (r, db') \<Longrightarrow> expire_and_write ws now db db'"
  "active_worker_leases ws task now db = (s, db') \<Longrightarrow> expire_and_write ws now db db'"
  "resume_disposition verified ws task daemon now db = (d, db') \<Longrightarrow> expire_and_write ws now db db'"
  unfolding active_coordinator_lease_def active_worker_leases_def resume_disposition_def transact_def
  by (auto simp: Let_def and_then_eq_Inr split: sum.splits intro: write_nothing)

section \<open>All operations together\<close>

text \<open>One step of the lease store in a workspace: one of its operations, or any change that leaves both lease
  tables alone.\<close>

inductive lease_step :: "(DateTime \<Rightarrow> TimeDelta \<Rightarrow> DateTime option) \<Rightarrow> WorkspaceId \<Rightarrow> lease_db \<Rightarrow> lease_db \<Rightarrow> bool"
  for add ws where
  acquire_coordinator: "acquire_coordinator_lease add ws fresh request db = (r, db') \<Longrightarrow> lease_step add ws db db'"
| renew_coordinator: "renew_coordinator_lease add ws i owner renewal db = (r, db') \<Longrightarrow> lease_step add ws db db'"
| release_coordinator: "release_coordinator_lease ws i owner t db = (b, db') \<Longrightarrow> lease_step add ws db db'"
| query_coordinator: "active_coordinator_lease ws task now db = (c, db') \<Longrightarrow> lease_step add ws db db'"
| acquire_worker: "acquire_worker_lease add ws fresh wrequest db = (w, db') \<Longrightarrow> lease_step add ws db db'"
| renew_worker: "renew_worker_lease add ws i j renewal db = (w, db') \<Longrightarrow> lease_step add ws db db'"
| release_worker: "release_worker_lease ws i j t db = (b, db') \<Longrightarrow> lease_step add ws db db'"
| query_workers: "active_worker_leases ws task now db = (l, db') \<Longrightarrow> lease_step add ws db db'"
| resume: "resume_disposition verified ws task daemon now db = (d, db') \<Longrightarrow> lease_step add ws db db'"
| other_tables: "ld_coordinators db' = ld_coordinators db \<Longrightarrow> ld_workers db' = ld_workers db \<Longrightarrow> lease_step add ws db db'"

lemmas lease_op_writes =
  acquire_coordinator_writes renew_coordinator_writes release_coordinator_writes acquire_worker_writes
  renew_worker_writes release_worker_writes lease_queries_write

lemma lease_step_writes:
  assumes "lease_step add ws db db'"
  obtains t where "expire_and_write ws t db db'"
    | "ld_coordinators db' = ld_coordinators db" "ld_workers db' = ld_workers db"
  using assms by cases (blast dest: lease_op_writes)+

lemma lease_invariant_view:
  assumes "lease_view ws db' = lease_view ws db"
  shows "lease_invariant ws db' \<longleftrightarrow> lease_invariant ws db"
proof -
  have view: "coordinators_in ws db' = coordinators_in ws db" "workers_in ws db' = workers_in ws db"
    using assms by (simp_all add: lease_view_def)
  have live: "live_coordinator ws db' = live_coordinator ws db" "live_worker ws db' = live_worker ws db"
    by (intro ext, simp only: live_in_view view)+
  have "under_coordinator ws db' = under_coordinator ws db" by (intro ext) (simp only: under_coordinator_def live)
  then show ?thesis by (simp only: lease_invariant_def live view)
qed

interpretation lease_store: partitioned_store "lease_step add" lease_view lease_invariant for add
proof
  fix w db db'
  assume step: "lease_step add w db db'" and inv: "lease_invariant w db"
  from step show "lease_invariant w db'"
  proof (cases rule: lease_step_writes)
    case (1 t)
    then show ?thesis using inv lease_write_invariant lease_expire_invariant by blast
  next
    case 2
    then show ?thesis
      using inv lease_invariant_view [of w db' db] by (simp add: lease_view_def coordinators_in_def workers_in_def)
  qed
next
  fix w v db db'
  assume "lease_step add w db db'" "v \<noteq> w"
  then show "lease_view v db' = lease_view v db"
    by (cases rule: lease_step_writes)
      (auto simp: lease_write_view lease_expire_view, simp add: lease_view_def coordinators_in_def workers_in_def)
next
  fix w db db'
  assume "lease_view w db' = lease_view w db" "lease_invariant w db"
  then show "lease_invariant w db'" using lease_invariant_view by blast
qed

section \<open>Properties\<close>

lemma empty_lease_invariant: "ld_coordinators db = [] \<Longrightarrow> ld_workers db = [] \<Longrightarrow> lease_invariant ws db"
  by (simp add: lease_invariant_def live_coordinator_def live_worker_def coordinators_in_def workers_in_def rows_of_def)

lemma live_worker_unique:
  assumes "lease_invariant ws db" "live_worker ws db a" "live_worker ws db b" "wl_lease_id a = wl_lease_id b"
  shows "a = b"
  using same_id_same_row [OF lease_invariantD(2) [OF assms(1)]] assms(2-4) unfolding live_in_view by blast

text \<open>Every worker that the operations insert names its coordinator; rows without one are from before coordinators existed.\<close>

definition all_coordinated :: "lease_db \<Rightarrow> bool" where
  "all_coordinated db \<longleftrightarrow> (\<forall>w \<in> set (ld_workers db). wl_coordinator_lease_id w \<noteq> None)"

lemma lease_write_coordinated: "lease_write ws db db' \<Longrightarrow> all_coordinated db \<Longrightarrow> all_coordinated db'"
proof (induction rule: lease_write.induct)
  case (write_coordinator row db db')
  then show ?case using insert_coordinator_Inr(1) [OF write_coordinator(1)] by (simp add: all_coordinated_def)
next
  case (write_worker row db db')
  then show ?case using insert_worker_Inr(1) [OF write_worker(1)] by (auto simp: all_coordinated_def)
qed (auto simp: all_coordinated_def set_update_rows)

lemma lease_step_coordinated:
  assumes "lease_step add ws db db'" and "all_coordinated db"
  shows "all_coordinated db'"
  using assms(1)
proof (cases rule: lease_step_writes)
  case (1 t)
  note assms(2)
  moreover from this have "all_coordinated (expire_stale_leases ws t db)"
    unfolding all_coordinated_def expire_stale_fields by (auto simp: set_update_rows)
  ultimately show ?thesis using 1 lease_write_coordinated by blast
qed (use assms(2) in \<open>simp add: all_coordinated_def\<close>)

lemma lease_run_coordinated: "(\<lambda>d d'. \<exists>w. lease_step add w d d')\<^sup>*\<^sup>* db db' \<Longrightarrow> all_coordinated db \<Longrightarrow> all_coordinated db'"
  by (induction rule: rtranclp_induct) (auto dest: lease_step_coordinated)

text \<open>C24: leases are exclusive. In every interleaving of lease operations over all workspaces, with changes to other
  tables in between, a task of a workspace has at most one unreleased coordinator and at most one unreleased writable
  worker, and every unreleased worker runs under an unreleased coordinator of its own task that does not
  expire before it.\<close>

theorem leases_exclusive:
  assumes "(\<lambda>d d'. \<exists>w. lease_step add w d d')\<^sup>*\<^sup>* db0 db" and "ld_coordinators db0 = []" and "ld_workers db0 = []"
  shows "(live_coordinator ws db a \<and> live_coordinator ws db b \<and> cl_task_id a = cl_task_id b \<longrightarrow> a = b)
       \<and> (live_worker ws db u \<and> live_worker ws db v \<and> wl_mode u = ''writable'' \<and> wl_mode v = ''writable''
            \<and> wl_task_id u = wl_task_id v \<longrightarrow> u = v)
       \<and> (live_worker ws db w \<longrightarrow>
            (\<exists>c. live_coordinator ws db c \<and> wl_coordinator_lease_id w = Some (cl_lease_id c) \<and> cl_task_id c = wl_task_id w
               \<and> wl_expires_at w \<le> cl_expires_at c))"
proof -
  have inv: "lease_invariant ws db"
    using lease_store.reachable_keeps [of add db0 db ws] assms empty_lease_invariant [of db0 ws]
    by (simp add: lease_store.any_run_def [abs_def])
  note parts = lease_invariantD [OF inv]
  have "all_coordinated db" using lease_run_coordinated [OF assms(1)] assms(3) by (simp add: all_coordinated_def)
  then have "\<exists>c. live_coordinator ws db c \<and> wl_coordinator_lease_id w = Some (cl_lease_id c) \<and> cl_task_id c = wl_task_id w
      \<and> wl_expires_at w \<le> cl_expires_at c" if "live_worker ws db w"
    using parts(5) [OF that] that by (auto simp: under_coordinator_def all_coordinated_def live_worker_def split: option.splits)
  then show ?thesis
    using parts(3) [of a b] parts(4) [of u v] live_coordinator_unique [OF inv, of a b]
      live_worker_unique [OF inv, of u v] by blast
qed

lemma schedule_owner_cases:
  "schedule_owner ws db task now = None \<longleftrightarrow>
     \<not> (\<exists>c \<in> set (ld_schedule_claims db). sc_workspace c = ws \<and> sc_task_id c = task \<and> sc_released_at c = None
          \<and> now < sc_expires_at c)"
  "schedule_owner ws db task now = Some owner \<Longrightarrow>
     \<exists>c \<in> set (ld_schedule_claims db). sc_workspace c = ws \<and> sc_task_id c = task \<and> sc_released_at c = None
          \<and> now < sc_expires_at c \<and> sc_daemon_instance_id c = owner"
proof -
  define cs where "cs = sort_key sc_acquired_at
    (filter (\<lambda>c. sc_task_id c = task \<and> sc_released_at c = None \<and> sc_expires_at c > now)
       (rows_of sc_workspace ws (ld_schedule_claims db)))"
  have set_cs: "set cs = {c \<in> set (ld_schedule_claims db). sc_workspace c = ws \<and> sc_task_id c = task
      \<and> sc_released_at c = None \<and> now < sc_expires_at c}" by (auto simp: cs_def)
  have owner: "schedule_owner ws db task now = (if cs = [] then None else Some (sc_daemon_instance_id (last cs)))"
    by (simp add: schedule_owner_def cs_def split: list.splits)
  show "schedule_owner ws db task now = None \<longleftrightarrow>
     \<not> (\<exists>c \<in> set (ld_schedule_claims db). sc_workspace c = ws \<and> sc_task_id c = task \<and> sc_released_at c = None
          \<and> now < sc_expires_at c)"
    using set_cs by (auto simp: owner set_empty [symmetric] simp del: set_empty)
  show "\<exists>c \<in> set (ld_schedule_claims db). sc_workspace c = ws \<and> sc_task_id c = task \<and> sc_released_at c = None
          \<and> now < sc_expires_at c \<and> sc_daemon_instance_id c = owner"
    if "schedule_owner ws db task now = Some owner"
    using that last_in_set [of cs] set_cs by (auto simp: owner split: if_splits)
qed

lemma expire_other_tables [simp]:
  "ld_tasks (expire_stale_leases ws now db) = ld_tasks db"
  "ld_worktrees (expire_stale_leases ws now db) = ld_worktrees db"
  "ld_attempts (expire_stale_leases ws now db) = ld_attempts db"
  "ld_checkpoints (expire_stale_leases ws now db) = ld_checkpoints db"
  "ld_schedule_claims (expire_stale_leases ws now db) = ld_schedule_claims db"
  by (simp_all add: expire_stale_leases_def Let_def)

lemma find_live_coordinator:
  "find (\<lambda>r. cl_task_id r = task \<and> cl_released_at r = None) (coordinators_in ws db) = None \<longleftrightarrow>
     \<not> (\<exists>c. live_coordinator ws db c \<and> cl_task_id c = task)"
  "find (\<lambda>r. cl_task_id r = task \<and> cl_released_at r = None) (coordinators_in ws db) = Some c \<Longrightarrow>
     live_coordinator ws db c \<and> cl_task_id c = task"
  by (auto simp: live_in_view find_None_iff dest: find_in_set)

lemma classify_requeued:
  assumes "classify_resume_disposition ws db task daemon now verified = Requeued"
  shows "schedule_owner ws db task now = None" and "\<not> (\<exists>c. live_coordinator ws db c \<and> cl_task_id c = task)"
    and "\<not> (\<exists>w. live_worker ws db w \<and> wl_task_id w = task)"
    and "\<not> (\<exists>a \<in> set (ld_attempts db). at_workspace a = ws \<and> at_task_id a = task \<and> unfinished_attempt a)"
    and "classify_replay_safe_projection ws db task verified = Requeued"
  using assms unfolding classify_resume_disposition_def exists_live(2) list_ex_iff find_live_coordinator(1) [symmetric]
  by (auto split: option.splits if_splits)

lemma classify_attached:
  assumes "classify_resume_disposition ws db task daemon now verified = Attached"
  shows "schedule_owner ws db task now = Some daemon
    \<or> (\<exists>c. live_coordinator ws db c \<and> cl_task_id c = task \<and> cl_owner_id c = daemon)"
  using assms unfolding classify_resume_disposition_def
  by (auto simp: classify_replay_safe_projection_def Let_def split: option.splits if_splits dest!: find_live_coordinator(2))

text \<open>The evidence that makes starting over safe: nothing ran yet, or the task stopped at its newest checkpoint.\<close>

definition replay_evidence :: "WorkspaceId \<Rightarrow> lease_db \<Rightarrow> TaskId \<Rightarrow> CheckpointId option \<Rightarrow> lease_task_row \<Rightarrow> bool" where
  "replay_evidence ws db task verified t \<longleftrightarrow>
     lt_state t = Queued
   \<or> lt_state t \<in> {Analyzing, Planned, Blocked}
       \<and> \<not> (\<exists>a \<in> set (ld_attempts db). at_workspace a = ws \<and> at_task_id a = task)
   \<or> lt_state t \<in> {Checkpointed, Blocked}
       \<and> (\<exists>c. latest_checkpoint ws db task = Some c \<and> verified = Some (ck_checkpoint_id c))"

lemma persisted_evidence_latest:
  assumes "has_persisted_replay_evidence ws db task verified"
  shows "\<exists>c. latest_checkpoint ws db task = Some c \<and> verified = Some (ck_checkpoint_id c)"
  using assms unfolding has_persisted_replay_evidence_def by (auto simp: list_ex_iff split: option.splits)

lemma projection_requeued:
  assumes "classify_replay_safe_projection ws db task verified = Requeued"
  shows "\<exists>t \<in> set (ld_tasks db). lt_workspace t = ws \<and> lt_task_id t = task \<and> replay_evidence ws db task verified t"
proof (cases "find (\<lambda>t. lt_task_id t = task) (rows_of lt_workspace ws (ld_tasks db))")
  case None
  then show ?thesis using assms by (simp add: classify_replay_safe_projection_def)
next
  case (Some t)
  then have "t \<in> set (rows_of lt_workspace ws (ld_tasks db))" "lt_task_id t = task" by (auto dest: find_in_set)
  moreover have "replay_evidence ws db task verified t"
    using assms persisted_evidence_latest [of ws db task verified] unfolding replay_evidence_def
    by (auto simp: classify_replay_safe_projection_def Some has_no_worker_replay_evidence_def list_ex_iff
        split: if_splits option.splits)
  ultimately show ?thesis by auto
qed

text \<open>Expiry releases a worker's coordinator only together with the worker.\<close>

lemma no_worker_survives_expiry:
  assumes "lease_invariant ws db" and "\<not> (\<exists>c. live_coordinator ws (expire_stale_leases ws now db) c \<and> cl_task_id c = task)"
    and "\<not> (\<exists>w. live_worker ws (expire_stale_leases ws now db) w \<and> wl_task_id w = task)"
  shows "\<not> (\<exists>w. live_worker ws db w \<and> wl_task_id w = task \<and> now < wl_expires_at w)"
proof
  assume "\<exists>w. live_worker ws db w \<and> wl_task_id w = task \<and> now < wl_expires_at w"
  then obtain w where w: "live_worker ws db w" "wl_task_id w = task" "now < wl_expires_at w" by blast
  show False
  proof (cases "wl_coordinator_lease_id w")
    case None
    then have "live_worker ws (expire_stale_leases ws now db) w" using w by (simp add: live_worker_expire_stale image_iff)
    then show False using assms(3) w(2) by blast
  next
    case (Some i)
    then obtain c where "live_coordinator ws db c" "cl_task_id c = wl_task_id w" "wl_expires_at w \<le> cl_expires_at c"
      using lease_invariantD(5) [OF assms(1) w(1)] unfolding under_coordinator_def by auto
    then show False using assms(2) w by (auto simp: live_expire_stale)
  qed
qed

text \<open>C25: a resume request never steals a task. It is answered with a requeue only when no unexpired schedule claim, no
  unexpired coordinator or worker and no unfinished attempt of the task is left, and when the task has run
  nothing yet or stopped at its newest sealed checkpoint; it is answered with an attachment only when the asking
  daemon itself holds the task.\<close>

theorem resume_never_steals:
  assumes "lease_invariant ws db" and "resume_disposition verified ws task daemon now db = (Inr disposition, db')"
  shows "(disposition = Requeued \<longrightarrow>
      \<not> (\<exists>c \<in> set (ld_schedule_claims db). sc_workspace c = ws \<and> sc_task_id c = task \<and> sc_released_at c = None
          \<and> now < sc_expires_at c)
      \<and> \<not> (\<exists>c. live_coordinator ws db c \<and> cl_task_id c = task \<and> now < cl_expires_at c)
      \<and> \<not> (\<exists>w. live_worker ws db w \<and> wl_task_id w = task \<and> now < wl_expires_at w)
      \<and> \<not> (\<exists>a \<in> set (ld_attempts db). at_workspace a = ws \<and> at_task_id a = task \<and> unfinished_attempt a)
      \<and> (\<exists>t \<in> set (ld_tasks db). lt_workspace t = ws \<and> lt_task_id t = task
          \<and> replay_evidence ws db task (verified db task) t))
    \<and> (disposition = Attached \<longrightarrow>
      (\<exists>c \<in> set (ld_schedule_claims db). sc_workspace c = ws \<and> sc_task_id c = task \<and> sc_released_at c = None
          \<and> now < sc_expires_at c \<and> sc_daemon_instance_id c = daemon)
      \<or> (\<exists>c. live_coordinator ws db c \<and> cl_task_id c = task \<and> now < cl_expires_at c \<and> cl_owner_id c = daemon))"
proof -
  let ?db = "expire_stale_leases ws now db"
  have d: "disposition = classify_resume_disposition ws ?db task daemon now (verified db task)"
    using assms(2) by (auto simp: resume_disposition_def transact_def Let_def)
  have owner: "schedule_owner ws ?db task now = schedule_owner ws db task now"
    and evidence: "replay_evidence ws ?db task = replay_evidence ws db task"
    by (simp add: schedule_owner_def) (intro ext, simp add: replay_evidence_def latest_checkpoint_def)
  show ?thesis
  proof (intro conjI impI)
    assume "disposition = Requeued"
    note req = classify_requeued [OF this [unfolded d]]
    show "\<not> (\<exists>c \<in> set (ld_schedule_claims db). sc_workspace c = ws \<and> sc_task_id c = task \<and> sc_released_at c = None
        \<and> now < sc_expires_at c)" using req(1) unfolding owner schedule_owner_cases(1) .
    show "\<not> (\<exists>c. live_coordinator ws db c \<and> cl_task_id c = task \<and> now < cl_expires_at c)"
      using req(2) unfolding live_expire_stale by blast
    show "\<not> (\<exists>w. live_worker ws db w \<and> wl_task_id w = task \<and> now < wl_expires_at w)" using no_worker_survives_expiry [OF assms(1) req(2,3)] .
    show "\<not> (\<exists>a \<in> set (ld_attempts db). at_workspace a = ws \<and> at_task_id a = task \<and> unfinished_attempt a)"
      using req(4) by simp
    show "\<exists>t \<in> set (ld_tasks db). lt_workspace t = ws \<and> lt_task_id t = task
        \<and> replay_evidence ws db task (verified db task) t"
      using projection_requeued [OF req(5)] by (simp add: evidence)
  next
    assume "disposition = Attached"
    from classify_attached [OF this [unfolded d]]
    show "(\<exists>c \<in> set (ld_schedule_claims db). sc_workspace c = ws \<and> sc_task_id c = task \<and> sc_released_at c = None
          \<and> now < sc_expires_at c \<and> sc_daemon_instance_id c = daemon)
      \<or> (\<exists>c. live_coordinator ws db c \<and> cl_task_id c = task \<and> now < cl_expires_at c \<and> cl_owner_id c = daemon)"
      unfolding owner live_expire_stale using schedule_owner_cases(2) [of ws db task now daemon] by blast
  qed
qed

section \<open>Sample tables\<close>

definition lease_add :: "DateTime \<Rightarrow> TimeDelta \<Rightarrow> DateTime option" where
  "lease_add t d = Some (t + d)"

definition sample_lease_db :: lease_db where
  "sample_lease_db = \<lparr> ld_coordinators = [], ld_workers = [],
     ld_tasks = [\<lparr> lt_workspace = 1, lt_task_id = 7, lt_state = Queued, lt_resume_state = None \<rparr>],
     ld_worktrees = [], ld_attempts = [], ld_checkpoints = [], ld_schedule_claims = [] \<rparr>"

definition sample_coordinated :: lease_db where
  "sample_coordinated = snd (acquire_coordinator_lease lease_add 1 11
     \<lparr> cq_task_id = 7, cq_worktree_id = None, cq_owner_id = 3, cq_acquired_at = 100, cq_ttl = 60 \<rparr> sample_lease_db)"

definition sample_worker_request :: WorkerLeaseRequest where
  "sample_worker_request = \<lparr> wq_task_id = 7, wq_worktree_id = None, wq_coordinator_lease_id = 11, wq_provider = Claude,
     wq_mode = Lease_Writable, wq_acquired_at = 110, wq_ttl = 30 \<rparr>"

definition sample_working :: lease_db where
  "sample_working = snd (acquire_worker_lease lease_add 1 12 sample_worker_request sample_coordinated)"

lemma sample_coordinators: "map cl_lease_id (ld_coordinators sample_coordinated) = [11]"
  by code_simp

lemma sample_workers:
  "map (\<lambda>w. (wl_lease_id w, wl_workspace w, wl_task_id w, wl_mode w, wl_released_at w)) (ld_workers sample_working)
     = [(12, 1, 7, ''writable'', None)]"
  by code_simp

lemma sample_second_writer:
  "fst (acquire_worker_lease lease_add 1 13 sample_worker_request sample_working)
     = Inl (LeaseConflict 7 ''another writable worker lease is active'')"
  by code_simp

lemma sample_lease_run: "(\<lambda>d d'. \<exists>w. lease_step lease_add w d d')\<^sup>*\<^sup>* sample_lease_db sample_working"
proof -
  have "lease_step lease_add 1 sample_lease_db sample_coordinated"
    unfolding sample_coordinated_def by (rule acquire_coordinator [OF prod.collapse [symmetric]])
  moreover have "lease_step lease_add 1 sample_coordinated sample_working"
    unfolding sample_working_def by (rule acquire_worker [OF prod.collapse [symmetric]])
  ultimately show ?thesis
    by (intro converse_rtranclp_into_rtranclp [OF _ r_into_rtranclp]) blast+
qed

theorem leases_exclusive_witness:
  "\<exists>w. live_worker 1 sample_working w \<and> wl_mode w = ''writable''
     \<and> (\<exists>c. live_coordinator 1 sample_working c \<and> wl_coordinator_lease_id w = Some (cl_lease_id c) \<and> cl_task_id c = wl_task_id w
          \<and> wl_expires_at w \<le> cl_expires_at c)
     \<and> fst (acquire_worker_lease lease_add 1 13 sample_worker_request sample_working)
       = Inl (LeaseConflict 7 ''another writable worker lease is active'')"
proof -
  obtain w where "ld_workers sample_working = [w]" "wl_workspace w = 1" "wl_mode w = ''writable''" "wl_released_at w = None"
    using sample_workers by auto
  moreover from this have live: "live_worker 1 sample_working w" by (simp add: live_worker_def)
  moreover have "\<exists>c. live_coordinator 1 sample_working c \<and> wl_coordinator_lease_id w = Some (cl_lease_id c) \<and> cl_task_id c = wl_task_id w
      \<and> wl_expires_at w \<le> cl_expires_at c"
    using leases_exclusive [OF sample_lease_run, of 1 undefined undefined undefined undefined w] live
    by (simp add: sample_lease_db_def)
  ultimately show ?thesis using sample_second_writer by blast
qed

text \<open>While the lease runs its owner attaches and another daemon is refused; after it has expired the task is requeued.\<close>

lemma sample_resumes:
  "map (\<lambda>(daemon, now). fst (resume_disposition (\<lambda>_ _. None) 1 7 daemon now sample_working))
     [(3, 120), (4, 120), (4, 200)] = [Inr Attached, Inr Rejected, Inr Requeued]"
  by code_simp

theorem resume_never_steals_witness:
  "fst (resume_disposition (\<lambda>_ _. None) 1 7 4 200 sample_working) = Inr Requeued
   \<and> \<not> (\<exists>c. live_coordinator 1 sample_working c \<and> cl_task_id c = 7 \<and> 200 < cl_expires_at c)
   \<and> fst (resume_disposition (\<lambda>_ _. None) 1 7 3 120 sample_working) = Inr Attached
   \<and> (\<exists>c. live_coordinator 1 sample_working c \<and> cl_task_id c = 7 \<and> 120 < cl_expires_at c \<and> cl_owner_id c = 3)"
proof -
  have inv: "lease_invariant 1 sample_working"
    using lease_store.reachable_keeps [of lease_add sample_lease_db sample_working 1] sample_lease_run
      empty_lease_invariant [of sample_lease_db 1]
    by (simp add: lease_store.any_run_def [abs_def] sample_lease_db_def)
  have r: "fst (resume_disposition (\<lambda>_ _. None) 1 7 4 200 sample_working) = Inr Requeued"
    "fst (resume_disposition (\<lambda>_ _. None) 1 7 3 120 sample_working) = Inr Attached" using sample_resumes by simp_all
  have "ld_schedule_claims sample_working = []" by code_simp
  then show ?thesis using r
      resume_never_steals [OF inv, of "\<lambda>_ _. None" 7 4 200 Requeued]
      resume_never_steals [OF inv, of "\<lambda>_ _. None" 7 3 120 Attached]
    by (metis empty_iff empty_set prod.collapse)
qed

end
