(* ===== verification/Key_Redaction.thy ===== *)
theory Key_Redaction
  imports Rust_Str
begin

text \<open>
  \<open>crates/orchestrator-process/src/redaction.rs\<close>, \<open>PrivateKeyStreamRedaction\<close>: the byte automaton that finds PEM
  private keys in process output that arrives in frames. The source promises that it recognizes exactly the grammar of the
  regular expression for private keys; the reference definition \<open>pem_scan\<close> is that expression's
  leftmost matching of \<open>-----BEGIN [A-Z ]*PRIVATE KEY-----\<close> and \<open>-----END [A-Z ]*PRIVATE KEY-----\<close> on the whole
  stream. Bytes are characters of the model.
\<close>

section \<open>The automaton\<close>

definition key_label :: string where "key_label = ''PRIVATE KEY''"

fun key_prefix :: "bool \<Rightarrow> string" where
  "key_prefix False = ''-----BEGIN ''"
| "key_prefix True = ''-----END ''"

definition label_byte :: "char \<Rightarrow> bool" where
  "label_byte c \<longleftrightarrow> (byte c \<ge> 65 \<and> byte c \<le> 90) \<or> c = CHR '' ''"

definition line_end :: "char \<Rightarrow> bool" where
  "line_end c \<longleftrightarrow> byte c = 10 \<or> byte c = 13"

record key_stream =
  ks_active :: bool
  ks_prefix_match :: nat
  ks_label_candidate :: bool
  ks_label_tail :: string
  ks_label_tail_len :: nat
  ks_trailing_dashes :: nat

definition key_stream_default :: key_stream where
  "key_stream_default = \<lparr> ks_active = False, ks_prefix_match = 0, ks_label_candidate = False,
     ks_label_tail = replicate 11 (CHR 0x00), ks_label_tail_len = 0, ks_trailing_dashes = 0 \<rparr>"

fun advance_from :: "string \<Rightarrow> nat \<Rightarrow> char \<Rightarrow> nat \<Rightarrow> nat" where
  "advance_from pattern matched b 0 = 0"
| "advance_from pattern matched b (Suc overlap) =
     (if pattern ! overlap = b \<and> (overlap = 0 \<or> take overlap pattern = drop (matched - overlap) (take matched pattern))
      then Suc overlap else advance_from pattern matched b overlap)"

definition advance_literal_match :: "string \<Rightarrow> nat \<Rightarrow> char \<Rightarrow> nat" where
  "advance_literal_match pattern matched b = advance_from pattern matched b (min (matched + 1) (length pattern))"

definition reset_candidate :: "key_stream \<Rightarrow> key_stream" where
  "reset_candidate st = st\<lparr>ks_prefix_match := 0, ks_label_candidate := False, ks_label_tail_len := 0, ks_trailing_dashes := 0\<rparr>"

definition has_pending_candidate :: "key_stream \<Rightarrow> bool" where
  "has_pending_candidate st \<longleftrightarrow> ks_prefix_match st > 0 \<or> ks_label_candidate st"

definition label_tail :: "key_stream \<Rightarrow> string" where
  "label_tail st = take (ks_label_tail_len st) (ks_label_tail st)"

definition push_label_byte :: "char \<Rightarrow> key_stream \<Rightarrow> key_stream" where
  "push_label_byte b st =
     (if ks_label_tail_len st < length (ks_label_tail st)
      then st\<lparr>ks_label_tail := (ks_label_tail st)[ks_label_tail_len st := b], ks_label_tail_len := ks_label_tail_len st + 1\<rparr>
      else st\<lparr>ks_label_tail := (tl (ks_label_tail st) @ [last (ks_label_tail st)])[length key_label - 1 := b]\<rparr>)"

definition advance_prefix :: "char \<Rightarrow> key_stream \<Rightarrow> key_stream" where
  "advance_prefix b st =
     (let prefix = key_prefix (ks_active st);
          m = advance_literal_match prefix (ks_prefix_match st) b
      in if m = length prefix
         then st\<lparr>ks_prefix_match := 0, ks_label_candidate := True, ks_label_tail_len := 0, ks_trailing_dashes := 0\<rparr>
         else st\<lparr>ks_prefix_match := m\<rparr>)"

definition inspect_byte :: "char \<Rightarrow> key_stream \<Rightarrow> bool \<times> key_stream" where
  "inspect_byte b st =
     (if \<not> ks_label_candidate st then (False, advance_prefix b st)
      else if ks_trailing_dashes st > 0 then
        if b = CHR ''-'' then
          let st = st\<lparr>ks_trailing_dashes := ks_trailing_dashes st + 1\<rparr>
          in if ks_trailing_dashes st = 5
             then (\<not> ks_active st, reset_candidate (st\<lparr>ks_active := \<not> ks_active st\<rparr>))
             else (False, st)
        else (False, advance_prefix b (reset_candidate st))
      else if label_byte b then (False, push_label_byte b st)
      else if b = CHR ''-'' \<and> label_tail st = key_label then (False, st\<lparr>ks_trailing_dashes := 1\<rparr>)
      else (False, advance_prefix b (reset_candidate st)))"

text \<open>The loop of \<open>inspect_frame\<close>: whether a key started, and the state.\<close>

fun inspect_bytes :: "string \<Rightarrow> key_stream \<Rightarrow> bool \<times> key_stream" where
  "inspect_bytes [] st = (False, st)"
| "inspect_bytes (b # bs) st =
     (if line_end b then inspect_bytes bs (reset_candidate st)
      else
        let (started, st) = inspect_byte b st; (later, st) = inspect_bytes bs st
        in (started \<or> later, st))"

definition inspect_frame :: "string \<Rightarrow> key_stream \<Rightarrow> bool \<times> key_stream" where
  "inspect_frame bs st =
     (let sensitive_at_start = ks_active st \<or> has_pending_candidate st;
          (started, st) = inspect_bytes bs st
      in (sensitive_at_start \<or> started \<or> ks_active st \<or> has_pending_candidate st, st))"

section \<open>The grammar\<close>

text \<open>A boundary at the start of a text, and the text after it.\<close>

definition boundary_at :: "bool \<Rightarrow> string \<Rightarrow> string option" where
  "boundary_at a s =
     (let t = drop (length (key_prefix a)) s; label = takeWhile label_byte t; rest = dropWhile label_byte t
      in if take (length (key_prefix a)) s = key_prefix a \<and> drop (length label - 11) label = key_label
            \<and> take 5 rest = ''-----''
         then Some (drop 5 rest) else None)"

lemma boundary_shorter: "boundary_at a s = Some rest \<Longrightarrow> length rest < length s"
proof -
  assume b: "boundary_at a s = Some rest"
  let ?t = "drop (length (key_prefix a)) s"
  have "take 5 (dropWhile label_byte ?t) = ''-----''" and r: "rest = drop 5 (dropWhile label_byte ?t)"
    using b by (auto simp: boundary_at_def Let_def split: if_splits)
  from arg_cong [OF this(1), of length] have "5 \<le> length (dropWhile label_byte ?t)" by simp
  moreover have "length (dropWhile label_byte ?t) \<le> length s" using length_dropWhile_le [of label_byte ?t] by simp
  ultimately show ?thesis using r by simp
qed

text \<open>Leftmost matching: which bytes belong to a key, and whether a key is open at the end.\<close>

function pem_scan :: "bool \<Rightarrow> string \<Rightarrow> bool list \<times> bool" where
  "pem_scan a [] = ([], a)"
| "pem_scan a (c # s) =
     (case boundary_at a (c # s) of
        Some rest \<Rightarrow> let (ms, e) = pem_scan (\<not> a) rest in (replicate (length (c # s) - length rest) True @ ms, e)
      | None \<Rightarrow> let (ms, e) = pem_scan a s in (a # ms, e))"
  by pat_completeness auto
termination
  by (relation "measure (length \<circ> snd)") (auto dest: boundary_shorter)

definition key_bytes :: "string \<Rightarrow> bool list" where
  "key_bytes s = fst (pem_scan False s)"

section \<open>Where a boundary cannot start\<close>

lemma boundary_prefix: "boundary_at a s \<noteq> None \<Longrightarrow> take (length (key_prefix a)) s = key_prefix a"
  by (auto simp: boundary_at_def Let_def split: if_splits)

lemma boundary_five_dashes:
  assumes "boundary_at a s \<noteq> None"
  shows "take 5 s = ''-----''"
proof -
  have "take 5 s = take 5 (take (length (key_prefix a)) s)" by (cases a) (simp_all add: min_def)
  also have "\<dots> = take 5 (key_prefix a)" unfolding boundary_prefix [OF assms] ..
  also have "\<dots> = ''-----''" by (cases a) simp_all
  finally show ?thesis .
qed

lemma boundary_not_dash: "c \<noteq> CHR ''-'' \<Longrightarrow> boundary_at a (c # s) = None"
  using boundary_five_dashes [of a "c # s"] by (cases "boundary_at a (c # s)") auto

lemma label_byte_not_dash: "label_byte c \<Longrightarrow> c \<noteq> CHR ''-''"
  by (auto simp: label_byte_def byte_def)

lemma scan_skip:
  "(\<And>i. i < length u \<Longrightarrow> boundary_at a (drop i (u @ v)) = None) \<Longrightarrow>
     pem_scan a (u @ v) = (replicate (length u) a @ fst (pem_scan a v), snd (pem_scan a v))"
proof (induction u)
  case (Cons c u)
  have "boundary_at a (c # u @ v) = None" using Cons.prems [of 0] by simp
  moreover have "pem_scan a (u @ v) = (replicate (length u) a @ fst (pem_scan a v), snd (pem_scan a v))"
    using Cons.prems [of "Suc i" for i] by (intro Cons.IH) simp
  ultimately show ?case by simp
qed simp

lemma inside_prefix:
  assumes "0 < i" "i < length (key_prefix a)"
  shows "boundary_at a (drop i (key_prefix a @ x)) = None"
proof (cases a)
  case True
  then have "i \<in> set [1..<9]" using assms by simp
  then show ?thesis using True boundary_five_dashes [of True "drop i (key_prefix a @ x)"]
    by (cases "boundary_at True (drop i (key_prefix a @ x))") (auto simp: upt_rec)
next
  case False
  then have "i \<in> set [1..<11]" using assms by simp
  then show ?thesis using False boundary_five_dashes [of False "drop i (key_prefix a @ x)"]
    by (cases "boundary_at False (drop i (key_prefix a @ x))") (auto simp: upt_rec)
qed

text \<open>Nothing starts inside a prefix and a label, unless the boundary is complete there.\<close>

lemma after_prefix:
  assumes "list_all label_byte label" and "r = [] \<or> \<not> label_byte (hd r)"
  shows "boundary_at a (key_prefix a @ label @ r)
    = (if drop (length label - 11) label = key_label \<and> take 5 r = ''-----'' then Some (drop 5 r) else None)"
proof -
  have "takeWhile label_byte (label @ r) = label" "dropWhile label_byte (label @ r) = r"
    using assms by (auto simp: list_all_iff takeWhile_append dropWhile_append takeWhile_eq_all_conv [THEN iffD2])
      (cases r; auto)+
  then show ?thesis by (simp add: boundary_at_def Let_def)
qed

lemma inside_label:
  assumes "list_all label_byte label" and "boundary_at a (key_prefix a @ label @ r) = None" and "i < length (key_prefix a @ label)"
  shows "boundary_at a (drop i (key_prefix a @ label @ r)) = None"
proof (cases "i < length (key_prefix a)")
  case True
  then show ?thesis using assms(2) inside_prefix [of i a] by (cases "i = 0") simp_all
next
  case False
  define j where "j = i - length (key_prefix a)"
  have j: "j < length label" "drop i (key_prefix a @ label @ r) = drop j (label @ r)" using False assms(3) by (simp_all add: j_def)
  then have "drop j (label @ r) = label ! j # drop (Suc j) (label @ r)"
    by (metis Cons_nth_drop_Suc length_append nth_append trans_less_add1)
  moreover have "label_byte (label ! j)" using assms(1) j(1) by (simp add: list_all_length)
  ultimately show ?thesis using j(2) boundary_not_dash label_byte_not_dash by metis
qed

lemma few_dashes:
  assumes "k < 5" and "y = [] \<or> hd y \<noteq> CHR ''-''"
  shows "take 5 (replicate k (CHR ''-'') @ y) \<noteq> ''-----''"
proof
  assume e: "take 5 (replicate k (CHR ''-'') @ y) = ''-----''"
  have "y \<noteq> []" using arg_cong [OF e, of length] assms(1) by (cases y) auto
  have "take 5 (replicate k (CHR ''-'') @ y) ! k = hd y" using assms(1) \<open>y \<noteq> []\<close> by (simp add: nth_append hd_conv_nth)
  moreover have "''-----'' ! k = CHR ''-''" using assms(1) by (auto simp: less_Suc_eq numeral_eq_Suc nth_Cons')
  ultimately show False using e assms(2) \<open>y \<noteq> []\<close> by simp
qed

lemma inside_dashes:
  assumes "k < 5" and "y = [] \<or> hd y \<noteq> CHR ''-''" and "i < k"
  shows "boundary_at a (drop i (replicate k (CHR ''-'') @ y)) = None"
proof -
  have "drop i (replicate k (CHR ''-'') @ y) = replicate (k - i) (CHR ''-'') @ y" using assms(3) by simp
  then have "take 5 (drop i (replicate k (CHR ''-'') @ y)) \<noteq> ''-----''" using few_dashes [of "k - i" y] assms(1,2) by simp
  then show ?thesis using boundary_five_dashes [of a "drop i (replicate k (CHR ''-'') @ y)"] by blast
qed

section \<open>The prefix matcher\<close>

lemma advance_from_spec:
  assumes "c \<le> m + 1" "c \<le> length p" "m < length p" "m' = advance_from p m b c"
  shows "m' \<le> c" "take m' p = drop (m + 1 - m') (take m p @ [b])"
    and "\<And>k. m' < k \<Longrightarrow> k \<le> c \<Longrightarrow> take k p \<noteq> drop (m + 1 - k) (take m p @ [b])"
proof -
  have cand: "take (Suc n) p = drop (m - n) (take m p @ [b]) \<longleftrightarrow>
      p ! n = b \<and> (n = 0 \<or> take n p = drop (m - n) (take m p))" if "n \<le> m" for n
  proof -
    have "drop (m - n) (take m p @ [b]) = drop (m - n) (take m p) @ [b]" using assms(3) by simp
    moreover have "take (Suc n) p = take n p @ [p ! n]" using that assms(3) by (simp add: take_Suc_conv_app_nth)
    moreover have "n = 0 \<Longrightarrow> drop (m - n) (take m p) = []" by simp
    ultimately show ?thesis by auto
  qed
  have "m' \<le> c \<and> take m' p = drop (m + 1 - m') (take m p @ [b])
      \<and> (\<forall>k. m' < k \<longrightarrow> k \<le> c \<longrightarrow> take k p \<noteq> drop (m + 1 - k) (take m p @ [b]))"
    using assms(1,2,4)
  proof (induction c)
    case 0
    then show ?case using assms(3) by simp
  next
    case (Suc c)
    show ?case
    proof (cases "p ! c = b \<and> (c = 0 \<or> take c p = drop (m - c) (take m p))")
      case True
      then have "m' = Suc c" using Suc.prems(3) by simp
      then show ?thesis using True cand [of c] Suc.prems(1) by auto
    next
      case False
      then have "m' = advance_from p m b c" using Suc.prems(3) by auto
      then have "m' \<le> c \<and> take m' p = drop (m + 1 - m') (take m p @ [b])
        \<and> (\<forall>k. m' < k \<longrightarrow> k \<le> c \<longrightarrow> take k p \<noteq> drop (m + 1 - k) (take m p @ [b]))"
        using Suc by (intro Suc.IH) simp_all
      moreover have "take (Suc c) p \<noteq> drop (m - c) (take m p @ [b])" using False cand [of c] Suc.prems(1) by auto
      ultimately show ?thesis by (auto simp: le_Suc_eq)
    qed
  qed
  then show "m' \<le> c" "take m' p = drop (m + 1 - m') (take m p @ [b])"
    "\<And>k. m' < k \<Longrightarrow> k \<le> c \<Longrightarrow> take k p \<noteq> drop (m + 1 - k) (take m p @ [b])" by blast+
qed

lemma scan_prefix:
  assumes "m < length (key_prefix a)" and "m' = advance_literal_match (key_prefix a) m b"
  shows "m' \<le> m + 1" "m' \<le> length (key_prefix a)"
    and "pem_scan a (take m (key_prefix a) @ b # x)
      = (replicate (m + 1 - m') a @ fst (pem_scan a (take m' (key_prefix a) @ x)), snd (pem_scan a (take m' (key_prefix a) @ x)))"
proof -
  let ?p = "key_prefix a" and ?q = "take m (key_prefix a) @ [b]"
  have c: "min (m + 1) (length ?p) = m + 1" using assms(1) by simp
  note spec = advance_from_spec [of "m + 1" m ?p m' b, OF order_refl _ assms(1)]
  have m': "m' = advance_from ?p m b (m + 1)" unfolding assms(2) advance_literal_match_def c ..
  have le: "m + 1 \<le> length ?p" using assms(1) by simp
  show "m' \<le> m + 1" "m' \<le> length ?p" using spec(1) [OF le m'] le by simp_all
  have suffix: "take m' ?p = drop (m + 1 - m') ?q" using spec(2) [OF le m'] .
  have "boundary_at a (drop i (?q @ x)) = None" if "i < m + 1 - m'" for i
  proof (rule ccontr)
    assume "boundary_at a (drop i (?q @ x)) \<noteq> None"
    from boundary_prefix [OF this] have "take (m + 1 - i) ?p = take (m + 1 - i) (drop i (?q @ x))"
      using le by (metis min_absorb1 take_take diff_le_self order_trans)
    also have "\<dots> = drop i ?q" using that assms(1) by (simp add: min_def)
    finally have "take (m + 1 - i) ?p = drop (m + 1 - (m + 1 - i)) ?q" using that by simp
    moreover have "m' < m + 1 - i" using that by arith
    ultimately show False using spec(3) [OF le m', of "m + 1 - i"] by simp
  qed
  moreover have "?q = take (m + 1 - m') ?q @ take m' ?p" unfolding suffix by (metis append_take_drop_id)
  moreover have "length (take (m + 1 - m') ?q) = m + 1 - m'" using assms(1) by simp
  ultimately show "pem_scan a (take m ?p @ b # x)
      = (replicate (m + 1 - m') a @ fst (pem_scan a (take m' ?p @ x)), snd (pem_scan a (take m' ?p @ x)))"
    using scan_skip [of "take (m + 1 - m') ?q" a "take m' ?p @ x"]
    by (metis (no_types, lifting) append.assoc append_Cons append_Nil)
qed

section \<open>What the automaton remembers\<close>

text \<open>The candidate is the end of the stream that may still become a boundary.\<close>

definition candidate_text :: "key_stream \<Rightarrow> string \<Rightarrow> bool" where
  "candidate_text st q \<longleftrightarrow> length (ks_label_tail st) = 11 \<and> ks_label_tail_len st \<le> 11 \<and>
     (if ks_label_candidate st
      then ks_trailing_dashes st < 5 \<and> (ks_trailing_dashes st > 0 \<longrightarrow> label_tail st = key_label)
         \<and> (\<exists>label. list_all label_byte label \<and> label_tail st = drop (length label - 11) label
             \<and> q = key_prefix (ks_active st) @ label @ replicate (ks_trailing_dashes st) (CHR ''-''))
      else ks_prefix_match st < length (key_prefix (ks_active st))
         \<and> q = take (ks_prefix_match st) (key_prefix (ks_active st)))"

lemma key_prefix_nonempty: "key_prefix a \<noteq> []"
  by (cases a) simp_all

lemma pending_iff: "candidate_text st q \<Longrightarrow> has_pending_candidate st \<longleftrightarrow> q \<noteq> []"
  by (auto simp: candidate_text_def has_pending_candidate_def key_prefix_nonempty split: if_splits)

lemma candidate_reset: "candidate_text st q \<Longrightarrow> candidate_text (reset_candidate st) []"
  by (auto simp: candidate_text_def reset_candidate_def key_prefix_nonempty)

lemma reset_active [simp]: "ks_active (reset_candidate st) = ks_active st"
  by (simp add: reset_candidate_def)

text \<open>The window over the label is its last eleven bytes.\<close>

lemma label_tail_push:
  assumes "length (ks_label_tail st) = 11" "ks_label_tail_len st \<le> 11" "label_tail st = drop (length label - 11) label"
  shows "label_tail (push_label_byte b st) = drop (length (label @ [b]) - 11) (label @ [b])"
    and "length (ks_label_tail (push_label_byte b st)) = 11" "ks_label_tail_len (push_label_byte b st) \<le> 11"
proof -
  have n: "ks_label_tail_len st = min (length label) 11"
    using arg_cong [OF assms(3), of length] assms(1,2) by (simp add: label_tail_def min_def split: if_splits)
  show "label_tail (push_label_byte b st) = drop (length (label @ [b]) - 11) (label @ [b])"
  proof (cases "length label < 11")
    case True
    then have t: "take (length label) (ks_label_tail st) = label" using assms(3) n by (simp add: label_tail_def)
    have "label_tail (push_label_byte b st) = take (length label + 1) ((ks_label_tail st)[length label := b])"
      using True n assms(1) by (simp add: push_label_byte_def label_tail_def)
    also have "\<dots> = take (length label) (ks_label_tail st) @ [b]"
      using True assms(1) by (simp add: take_Suc_conv_app_nth take_update_cancel)
    also have "\<dots> = label @ [b]" unfolding t ..
    finally show ?thesis using True by simp
  next
    case False
    then have w: "ks_label_tail st = drop (length label - 11) label" using assms n by (simp add: label_tail_def)
    obtain c ws where cw: "ks_label_tail st = c # ws" "length ws = 10" using assms(1) by (cases "ks_label_tail st") auto
    have "label_tail (push_label_byte b st) = (ws @ [last (c # ws)])[10 := b]"
      using False n assms(1) cw by (simp add: push_label_byte_def label_tail_def key_label_def numeral_eq_Suc)
    also have "\<dots> = ws @ [b]" using cw(2) by (simp add: list_update_append)
    also have "ws = drop (Suc (length label - 11)) label" using w cw(1) by (metis list.sel(3) drop_Suc tl_drop)
    finally show ?thesis using False Suc_diff_le [of 11 "length label"] by simp
  qed
  show "length (ks_label_tail (push_label_byte b st)) = 11" using assms(1) by (auto simp: push_label_byte_def)
  show "ks_label_tail_len (push_label_byte b st) \<le> 11" using assms(1,2) by (auto simp: push_label_byte_def)
qed

lemma push_label_byte_keeps [simp]:
  "ks_active (push_label_byte b st) = ks_active st" "ks_label_candidate (push_label_byte b st) = ks_label_candidate st"
  "ks_trailing_dashes (push_label_byte b st) = ks_trailing_dashes st"
  by (simp_all add: push_label_byte_def)

text \<open>A candidate that the next byte does not continue was no boundary, and none starts inside it.\<close>

lemma scan_dead_label:
  assumes "list_all label_byte label" and "k < 5"
    and "y = [] \<or> (hd y \<noteq> CHR ''-'' \<and> (k = 0 \<longrightarrow> \<not> label_byte (hd y)))"
  shows "pem_scan a (key_prefix a @ label @ replicate k (CHR ''-'') @ y)
    = (replicate (length (key_prefix a) + length label + k) a @ fst (pem_scan a y), snd (pem_scan a y))"
proof -
  let ?q = "key_prefix a @ label" and ?d = "replicate k (CHR ''-'')"
  have r: "?d @ y = [] \<or> \<not> label_byte (hd (?d @ y))"
    using assms(3) label_byte_not_dash by (cases k; cases y) auto
  have "boundary_at a (?q @ ?d @ y) = None"
    using after_prefix [OF assms(1) r] few_dashes [OF assms(2), of y] assms(3) by auto
  then have "pem_scan a (?q @ ?d @ y) = (replicate (length ?q) a @ fst (pem_scan a (?d @ y)), snd (pem_scan a (?d @ y)))"
    using inside_label [OF assms(1), of a "?d @ y"] by (intro scan_skip) simp
  moreover have "pem_scan a (?d @ y) = (replicate (length ?d) a @ fst (pem_scan a y), snd (pem_scan a y))"
    using inside_dashes [OF assms(2)] assms(3) by (intro scan_skip) auto
  ultimately show ?thesis by (simp add: replicate_add)
qed

lemma scan_wrong_label:
  assumes "list_all label_byte label" and "drop (length label - 11) label \<noteq> key_label" and "y = [] \<or> \<not> label_byte (hd y)"
  shows "pem_scan a (key_prefix a @ label @ y)
    = (replicate (length (key_prefix a) + length label) a @ fst (pem_scan a y), snd (pem_scan a y))"
proof -
  have "boundary_at a (key_prefix a @ label @ y) = None" using after_prefix [OF assms(1,3)] assms(2) by simp
  then have "pem_scan a ((key_prefix a @ label) @ y)
      = (replicate (length (key_prefix a @ label)) a @ fst (pem_scan a y), snd (pem_scan a y))"
    using inside_label [OF assms(1), of a y] by (intro scan_skip) simp
  then show ?thesis by simp
qed

lemma scan_boundary:
  assumes "list_all label_byte label" and "drop (length label - 11) label = key_label"
  shows "pem_scan a (key_prefix a @ label @ ''-----'' @ x)
    = (replicate (length (key_prefix a) + length label + 5) True @ fst (pem_scan (\<not> a) x), snd (pem_scan (\<not> a) x))"
proof -
  let ?s = "key_prefix a @ label @ ''-----'' @ x"
  have "boundary_at a ?s = Some x" using after_prefix [OF assms(1), of "''-----'' @ x" a] assms(2)
    by (simp add: label_byte_def byte_def)
  moreover obtain c s where "?s = c # s" using key_prefix_nonempty [of a] by (cases ?s) auto
  moreover have "length ?s - length x = length (key_prefix a) + length label + 5" by simp
  ultimately show ?thesis by (simp add: case_prod_beta)
qed

section \<open>One byte\<close>

text \<open>
  Reading a byte replaces the candidate, settles the bytes before the new candidate, and opens or closes a key exactly
  where the scan does.
\<close>

definition settles :: "key_stream \<Rightarrow> string \<Rightarrow> string \<Rightarrow> bool \<Rightarrow> key_stream \<Rightarrow> bool" where
  "settles st q bs started st' \<longleftrightarrow>
     (\<exists>ms q'. candidate_text st' q' \<and> length ms + length q' = length q + length bs
        \<and> (\<forall>x. pem_scan (ks_active st) (q @ bs @ x)
              = (ms @ fst (pem_scan (ks_active st') (q' @ x)), snd (pem_scan (ks_active st') (q' @ x))))
        \<and> (\<not> ks_active st \<and> \<not> started \<longrightarrow> \<not> ks_active st' \<and> True \<notin> set ms))"

lemma settlesI:
  assumes "candidate_text st' q'" "n + length q' = length q + length bs"
    "\<And>x. pem_scan (ks_active st) (q @ bs @ x)
        = (replicate n a @ fst (pem_scan (ks_active st') (q' @ x)), snd (pem_scan (ks_active st') (q' @ x)))"
    "\<not> ks_active st \<Longrightarrow> \<not> started \<Longrightarrow> \<not> ks_active st' \<and> \<not> a"
  shows "settles st q bs started st'"
  unfolding settles_def using assms by (intro exI [of _ "replicate n a"] exI [of _ q']) auto

lemma advance_prefix_settles:
  assumes "candidate_text st q" and "\<not> ks_label_candidate st"
  shows "settles st q [b] False (advance_prefix b st)"
proof -
  let ?a = "ks_active st" and ?m = "ks_prefix_match st" and ?p = "key_prefix (ks_active st)"
  define m' where "m' = advance_literal_match ?p ?m b"
  have c: "?m < length ?p" "q = take ?m ?p" "length (ks_label_tail st) = 11" "ks_label_tail_len st \<le> 11"
    using assms by (simp_all add: candidate_text_def)
  note scan = scan_prefix [OF c(1) m'_def]
  have act: "ks_active (advance_prefix b st) = ?a" by (simp add: advance_prefix_def Let_def)
  have "candidate_text (advance_prefix b st) (take m' ?p)"
  proof (cases "m' = length ?p")
    case True
    then show ?thesis using c(3) unfolding advance_prefix_def Let_def m'_def [symmetric]
      by (auto simp: candidate_text_def label_tail_def intro: exI [of _ "[]"])
  next
    case False
    then have "m' < length ?p" using scan(2) by simp
    then show ?thesis using False assms(2) c(3,4) unfolding advance_prefix_def Let_def m'_def [symmetric]
      by (simp add: candidate_text_def)
  qed
  then show ?thesis
    by (rule settlesI [where n = "?m + 1 - m'" and a = ?a]) (use scan c(1,2) act in simp_all)
qed

text \<open>Giving up a candidate and reading the byte afresh.\<close>

lemma settles_after_reset:
  assumes "settles (reset_candidate st) [] [b] False st'"
    and "\<And>x. pem_scan (ks_active st) (q @ b # x) =
      (replicate (length q) (ks_active st) @ fst (pem_scan (ks_active st) (b # x)), snd (pem_scan (ks_active st) (b # x)))"
  shows "settles st q [b] False st'"
proof -
  obtain ms q' where ms: "candidate_text st' q'" "length ms + length q' = 1"
      "\<forall>x. pem_scan (ks_active st) (b # x)
        = (ms @ fst (pem_scan (ks_active st') (q' @ x)), snd (pem_scan (ks_active st') (q' @ x)))"
      "\<not> ks_active st \<longrightarrow> \<not> ks_active st' \<and> True \<notin> set ms"
    using assms(1) by (auto simp: settles_def)
  show ?thesis unfolding settles_def
    by (intro exI [of _ "replicate (length q) (ks_active st) @ ms"] exI [of _ q']) (use ms assms(2) in auto)
qed

lemma restart_settles:
  assumes "candidate_text st q"
    and "\<And>x. pem_scan (ks_active st) (q @ b # x) =
      (replicate (length q) (ks_active st) @ fst (pem_scan (ks_active st) (b # x)), snd (pem_scan (ks_active st) (b # x)))"
  shows "settles st q [b] False (advance_prefix b (reset_candidate st))"
  using advance_prefix_settles [OF candidate_reset [OF assms(1)], of b] settles_after_reset [OF _ assms(2)]
  by (simp add: reset_candidate_def)

lemma inspect_byte_settles:
  assumes cand: "candidate_text st q" and step: "inspect_byte b st = (started, st')"
  shows "settles st q [b] started st'"
proof (cases "ks_label_candidate st")
  case False
  then show ?thesis using step advance_prefix_settles [OF cand] by (auto simp: inspect_byte_def)
next
  case True
  let ?a = "ks_active st" and ?k = "ks_trailing_dashes st"
  obtain label where label: "list_all label_byte label" "label_tail st = drop (length label - 11) label"
      "q = key_prefix ?a @ label @ replicate ?k (CHR ''-'')" "?k < 5" "?k > 0 \<longrightarrow> label_tail st = key_label"
      and tail: "length (ks_label_tail st) = 11" "ks_label_tail_len st \<le> 11"
    using cand True by (auto simp: candidate_text_def)
  consider (stop) "?k > 0" "b \<noteq> CHR ''-''" | (dash) "?k > 0" "b = CHR ''-''" "?k < 4" | (five) "?k = 4" "b = CHR ''-''"
    | (letter) "?k = 0" "label_byte b" | (first) "?k = 0" "b = CHR ''-''" "label_tail st = key_label"
    | (wrong) "?k = 0" "\<not> label_byte b" "b \<noteq> CHR ''-'' \<or> label_tail st \<noteq> key_label"
    using label(4) by linarith
  then show ?thesis
  proof cases
    case stop
    have "settles st q [b] False (advance_prefix b (reset_candidate st))"
      using scan_dead_label [OF label(1,4), of "b # x" ?a for x] stop label(3) by (intro restart_settles [OF cand]) simp
    then show ?thesis using step True stop by (simp add: inspect_byte_def)
  next
    case dash
    then have st': "started = False" "st' = st\<lparr>ks_trailing_dashes := ?k + 1\<rparr>" using step True by (simp_all add: inspect_byte_def)
    have "candidate_text st' (q @ [b])" using dash label tail True st'
      by (auto simp: candidate_text_def label_tail_def replicate_append_same)
    then show ?thesis by (rule settlesI [where n = 0 and a = False]) (simp_all add: st')
  next
    case five
    then have st': "started = (\<not> ?a)" "st' = reset_candidate (st\<lparr>ks_trailing_dashes := 5, ks_active := \<not> ?a\<rparr>)"
      using step True by (auto simp: inspect_byte_def)
    have key: "drop (length label - 11) label = key_label" using five label(2,5) by simp
    have "candidate_text st' []" using tail by (auto simp: st' candidate_text_def reset_candidate_def key_prefix_nonempty)
    then show ?thesis
      by (rule settlesI [where n = "length q + 1" and a = True])
        (use scan_boundary [OF label(1) key] five in \<open>simp_all add: st' label(3) numeral_eq_Suc\<close>)
  next
    case letter
    then have st': "started = False" "st' = push_label_byte b st" using step True by (simp_all add: inspect_byte_def)
    have "candidate_text st' (q @ [b])" unfolding candidate_text_def
      using letter label(1,3) label_tail_push [OF tail label(2), of b] True
      by (auto simp: st' intro!: exI [of _ "label @ [b]"])
    then show ?thesis by (rule settlesI [where n = 0 and a = False]) (simp_all add: st')
  next
    case first
    then have st': "started = False" "st' = st\<lparr>ks_trailing_dashes := 1\<rparr>"
      using step True by (auto simp: inspect_byte_def label_byte_def byte_def)
    have "candidate_text st' (q @ [b])" using first label tail True st' by (auto simp: candidate_text_def label_tail_def)
    then show ?thesis by (rule settlesI [where n = 0 and a = False]) (simp_all add: st')
  next
    case wrong
    have "pem_scan ?a (q @ b # x) = (replicate (length q) ?a @ fst (pem_scan ?a (b # x)), snd (pem_scan ?a (b # x)))" for x
    proof (cases "b = CHR ''-''")
      case True
      then show ?thesis using scan_wrong_label [OF label(1), of "b # x" ?a] wrong label(2,3) by simp
    next
      case False
      then show ?thesis using scan_dead_label [OF label(1,4), of "b # x" ?a] wrong label(3) by simp
    qed
    then have "settles st q [b] False (advance_prefix b (reset_candidate st))" by (intro restart_settles [OF cand])
    then show ?thesis using step True wrong by (auto simp: inspect_byte_def)
  qed
qed

section \<open>Frames\<close>

lemma scan_candidate:
  assumes "candidate_text st q" and "x = [] \<or> line_end (hd x)"
  shows "pem_scan (ks_active st) (q @ x)
    = (replicate (length q) (ks_active st) @ fst (pem_scan (ks_active st) x), snd (pem_scan (ks_active st) x))"
proof (cases "ks_label_candidate st")
  case True
  then obtain label where "list_all label_byte label" "ks_trailing_dashes st < 5"
      "q = key_prefix (ks_active st) @ label @ replicate (ks_trailing_dashes st) (CHR ''-'')"
    using assms(1) by (auto simp: candidate_text_def)
  moreover have "x = [] \<or> (hd x \<noteq> CHR ''-'' \<and> (ks_trailing_dashes st = 0 \<longrightarrow> \<not> label_byte (hd x)))"
    using assms(2) by (auto simp: line_end_def label_byte_def byte_def)
  ultimately show ?thesis using scan_dead_label by simp
next
  case False
  let ?a = "ks_active st" and ?m = "ks_prefix_match st" and ?p = "key_prefix (ks_active st)"
  have m: "?m < length ?p" and q: "q = take ?m ?p" using assms(1) False by (simp_all add: candidate_text_def)
  have "boundary_at ?a (drop i (q @ x)) = None" if "i < length q" for i
  proof (rule ccontr)
    let ?n = "length q - i"
    assume "boundary_at ?a (drop i (q @ x)) \<noteq> None"
    then have e: "take (length ?p) (drop i q @ x) = ?p" using boundary_prefix that by fastforce
    have n: "?n < length ?p" using m q by simp
    have "x \<noteq> []" using arg_cong [OF e, of length] n by auto
    then have "hd x = ?p ! ?n" using e n by (metis (no_types) hd_conv_nth length_drop nth_append_length_plus nth_take add.right_neutral)
    moreover have "\<not> line_end (?p ! ?n)" using n
      by (cases ?a) (auto simp: line_end_def byte_def less_Suc_eq numeral_eq_Suc nth_Cons')
    ultimately show False using assms(2) \<open>x \<noteq> []\<close> by simp
  qed
  then show ?thesis by (rule scan_skip)
qed

lemma line_end_settles:
  assumes "candidate_text st q" and "line_end b"
  shows "settles st q [b] False (reset_candidate st)"
proof -
  have "b \<noteq> CHR ''-''" using assms(2) by (auto simp: line_end_def byte_def)
  then have "pem_scan a (b # x) = (a # fst (pem_scan a x), snd (pem_scan a x))" for a x
    by (simp add: boundary_not_dash case_prod_beta)
  then show ?thesis
    using candidate_reset [OF assms(1)] scan_candidate [OF assms(1), of "b # x" for x] assms(2)
    by (intro settlesI [where q' = "[]" and n = "length q + 1" and a = "ks_active st"])
      (simp_all add: replicate_append_same [symmetric])
qed

lemma settles_append:
  assumes "settles st q bs started st'" and "\<And>q'. candidate_text st' q' \<Longrightarrow> settles st' q' cs later st''"
  shows "settles st q (bs @ cs) (started \<or> later) st''"
proof -
  obtain ms q' where 1: "candidate_text st' q'" "length ms + length q' = length q + length bs"
      "\<And>x. pem_scan (ks_active st) (q @ bs @ x)
        = (ms @ fst (pem_scan (ks_active st') (q' @ x)), snd (pem_scan (ks_active st') (q' @ x)))"
      "\<not> ks_active st \<and> \<not> started \<longrightarrow> \<not> ks_active st' \<and> True \<notin> set ms"
    using assms(1) unfolding settles_def by blast
  obtain ns q'' where 2: "candidate_text st'' q''" "length ns + length q'' = length q' + length cs"
      "\<And>x. pem_scan (ks_active st') (q' @ cs @ x)
        = (ns @ fst (pem_scan (ks_active st'') (q'' @ x)), snd (pem_scan (ks_active st'') (q'' @ x)))"
      "\<not> ks_active st' \<and> \<not> later \<longrightarrow> \<not> ks_active st'' \<and> True \<notin> set ns"
    using assms(2) [OF 1(1)] unfolding settles_def by blast
  show ?thesis unfolding settles_def
    by (intro exI [of _ "ms @ ns"] exI [of _ q'']) (use 1 2 in auto)
qed

lemma inspect_bytes_settles:
  "candidate_text st q \<Longrightarrow> settles st q bs (fst (inspect_bytes bs st)) (snd (inspect_bytes bs st))"
proof (induction bs arbitrary: st q)
  case Nil
  then show ?case by (intro settlesI [where n = 0 and a = False]) simp_all
next
  case (Cons b bs)
  show ?case
  proof (cases "line_end b")
    case True
    then show ?thesis
      using settles_append [OF line_end_settles [OF Cons.prems True] Cons.IH] by simp
  next
    case False
    obtain started st' where "inspect_byte b st = (started, st')" by fastforce
    then show ?thesis
      using settles_append [OF inspect_byte_settles [OF Cons.prems] Cons.IH] False by (simp add: case_prod_beta)
  qed
qed

text \<open>The frames of a stream, each with what is reported of it.\<close>

fun inspect_frames :: "string list \<Rightarrow> key_stream \<Rightarrow> bool list \<times> key_stream" where
  "inspect_frames [] st = ([], st)"
| "inspect_frames (f # fs) st =
     (let (sensitive, st) = inspect_frame f st; (flags, st) = inspect_frames fs st in (sensitive # flags, st))"

lemma snd_inspect_frame [simp]: "snd (inspect_frame f st) = snd (inspect_bytes f st)"
  by (simp add: inspect_frame_def case_prod_beta Let_def)

lemma inspect_frame_plain:
  assumes "\<not> fst (inspect_frame f st)"
  shows "\<not> ks_active st" "\<not> has_pending_candidate st" "\<not> fst (inspect_bytes f st)"
    "\<not> has_pending_candidate (snd (inspect_bytes f st))"
  using assms by (simp_all add: inspect_frame_def case_prod_beta Let_def)

lemma candidate_default: "candidate_text key_stream_default []"
  by (simp add: candidate_text_def key_stream_default_def key_prefix_nonempty)

lemma default_inactive: "ks_active key_stream_default = False"
  by (simp add: key_stream_default_def)

lemma inspect_frames_append:
  "fst (inspect_frames (fs @ gs) st) = fst (inspect_frames fs st) @ fst (inspect_frames gs (snd (inspect_frames fs st)))"
  by (induction fs arbitrary: st) (simp_all add: case_prod_beta Let_def)

lemma length_inspect_frames [simp]: "length (fst (inspect_frames fs st)) = length fs"
  by (induction fs arbitrary: st) (simp_all add: case_prod_beta Let_def)

lemma inspect_frames_settles:
  "candidate_text st q \<Longrightarrow> \<exists>started. settles st q (concat fs) started (snd (inspect_frames fs st))"
proof (induction fs arbitrary: st q)
  case Nil
  then show ?case by (intro exI [of _ False] settlesI [where n = 0 and a = False]) simp_all
next
  case (Cons f fs)
  let ?st' = "snd (inspect_bytes f st)"
  obtain q' where "candidate_text ?st' q'" using inspect_bytes_settles [OF Cons.prems, of f] by (auto simp: settles_def)
  have "settles st q f True ?st'" using inspect_bytes_settles [OF Cons.prems, of f] unfolding settles_def by blast
  moreover have "settles ?st' p (concat fs) True (snd (inspect_frames fs ?st'))" if "candidate_text ?st' p" for p
    using Cons.IH [OF that] unfolding settles_def by blast
  ultimately show ?case using settles_append [of st q f True ?st' "concat fs" True] by (force simp: case_prod_beta)
qed

text \<open>A frame that is not reported settles to bytes of no key.\<close>

lemma plain_frame_settles:
  assumes "candidate_text st q" and "\<not> fst (inspect_frame f st)"
  shows "q = []" "candidate_text (snd (inspect_frame f st)) []" "\<not> ks_active st" "\<not> ks_active (snd (inspect_frame f st))"
    and "fst (pem_scan False (f @ x)) = replicate (length f) False @ fst (pem_scan False x)"
proof -
  note plain = inspect_frame_plain [OF assms(2)]
  show q: "q = []" "\<not> ks_active st" using pending_iff [OF assms(1)] plain by simp_all
  obtain ms q' where ms: "candidate_text (snd (inspect_bytes f st)) q'" "length ms + length q' = length f"
      "\<And>x. pem_scan False (f @ x) = (ms @ fst (pem_scan (ks_active (snd (inspect_bytes f st))) (q' @ x)),
          snd (pem_scan (ks_active (snd (inspect_bytes f st))) (q' @ x)))"
      "\<not> ks_active (snd (inspect_bytes f st))" "True \<notin> set ms"
    using inspect_bytes_settles [OF assms(1), of f] plain q by (auto simp: settles_def)
  have "q' = []" using pending_iff [OF ms(1)] plain(4) by simp
  moreover from this have "ms = replicate (length f) False" using ms(2,5)
    by (metis (full_types) replicate_eqI add.right_neutral list.size(3))
  ultimately show "candidate_text (snd (inspect_frame f st)) []" "\<not> ks_active (snd (inspect_frame f st))"
    "fst (pem_scan False (f @ x)) = replicate (length f) False @ fst (pem_scan False x)"
    using ms by simp_all
qed

text \<open>
  No byte of a private key is in a frame that is reported as not sensitive, wherever the frames cut the boundaries and
  whatever comes later in the stream.
\<close>

lemma unreported_frame_holds_no_key_byte:
  assumes "inspect_frames (before @ f # after) key_stream_default = (flags, st)" and "\<not> flags ! length before"
    and "length (concat before) \<le> i" and "i < length (concat before) + length f"
  shows "\<not> key_bytes (concat (before @ f # after)) ! i"
proof -
  let ?st = "snd (inspect_frames before key_stream_default)"
  obtain ms q' where ms: "candidate_text ?st q'" "length ms + length q' = length (concat before)"
      "\<And>x. pem_scan False (concat before @ x)
        = (ms @ fst (pem_scan (ks_active ?st) (q' @ x)), snd (pem_scan (ks_active ?st) (q' @ x)))"
    using inspect_frames_settles [OF candidate_default, of before] unfolding settles_def default_inactive by auto
  have "flags ! length before = fst (inspect_frame f ?st)"
    using assms(1) inspect_frames_append [of before "f # after" key_stream_default]
    by (simp add: nth_append case_prod_beta Let_def)
  then have plain: "\<not> fst (inspect_frame f ?st)" using assms(2) by simp
  note settled = plain_frame_settles [OF ms(1) plain]
  have "key_bytes (concat (before @ f # after)) = ms @ replicate (length f) False @ fst (pem_scan False (concat after))"
    using ms(3) [of "f @ concat after"] settled(1,3,5) by (simp add: key_bytes_def)
  moreover have "i - length ms < length f" "\<not> i < length ms" using ms(2) settled(1) assms(3,4) by auto
  ultimately show ?thesis by (simp add: nth_append)
qed

lemma automaton_active:
  "ks_active (snd (inspect_frames frames key_stream_default)) = snd (pem_scan False (concat frames))"
proof -
  let ?st = "snd (inspect_frames frames key_stream_default)"
  obtain ms q' where "candidate_text ?st q'"
      "pem_scan False (concat frames @ []) = (ms @ fst (pem_scan (ks_active ?st) (q' @ [])), snd (pem_scan (ks_active ?st) (q' @ [])))"
    using inspect_frames_settles [OF candidate_default, of frames]
    unfolding settles_def default_inactive append_Nil by blast
  then show ?thesis using scan_candidate [of ?st q' "[]"] by simp
qed

section \<open>Properties\<close>

text \<open>C21: However the output is cut into frames, after the last of them the automaton says that a private key is open exactly
  when the regular expression's grammar, matched on the whole output, has a \<open>BEGIN\<close> boundary with no \<open>END\<close> boundary after
  it.
\<close>

theorem key_automaton_matches_grammar:
  "ks_active (snd (inspect_frames frames key_stream_default)) = snd (pem_scan False (concat frames))"
  by (rule automaton_active)

end
