(* ===== verification/F64_Rounding.thy ===== *)
theory F64_Rounding
  imports F64
begin

text \<open>
  More on binary64: rounding is monotone with respect to representable magnitudes, its results are
  representable, positive magnitudes of ordinary size stay positive, a weighted mean of two numbers of the
  unit interval stays there after all rounding.
\<close>

section \<open>Representable magnitudes\<close>

definition representable :: "rat \<Rightarrow> bool" where
  "representable m \<longleftrightarrow> (\<exists>k e. m = of_nat k * 2 powi e \<and> k < 2 ^ 53 \<and> - 1074 \<le> e \<and> e \<le> 971)"

lemma exponent_of_gt:
  assumes "0 < q"
  shows "q < 2 powi (exponent_of q + 1)"
proof -
  obtain a b where ab: "quotient_of q = (a, b)" by (cases "quotient_of q")
  have b: "0 < b" using quotient_of_denom_pos [OF ab] .
  have q: "q = of_int a / of_int b" by (rule quotient_of_div [OF ab])
  have a: "0 < a" using assms b by (simp add: q zero_less_divide_iff)
  define m n where "m = nat (int_log2 a)" and "n = nat (int_log2 b)"
  have m: "int_log2 a = int m" "a < 2 ^ Suc m" using int_log2_bounds [OF a] by (simp_all add: m_def)
  have n: "int_log2 b = int n" "2 ^ n \<le> b" using int_log2_bounds [OF b] by (simp_all add: n_def)
  have "of_int a / of_int b < (2 :: rat) ^ Suc m / 2 ^ n"
  proof (rule frac_less)
    show "(of_int a :: rat) < 2 ^ Suc m" using m(2) by (metis of_int_less_iff of_int_numeral of_int_power)
    show "(2 :: rat) ^ n \<le> of_int b" using n(2) by (metis of_int_le_iff of_int_numeral of_int_power)
  qed (use a in simp_all)
  also have "\<dots> = 2 powi (int m - int n + 1)"
    by (simp add: power_int_diff power_int_add)
  finally show ?thesis
    by (auto simp: exponent_of_def ab m(1) n(1) Let_def q [symmetric])
qed

lemma round_half_even_ge_int: "of_int n \<le> x \<Longrightarrow> n \<le> round_half_even x"
  by (auto simp: round_half_even_def Let_def le_floor_iff intro: order.trans [of n "\<lfloor>x\<rfloor>"])

lemma round_half_even_lt: "x < of_int n + 1 / 2 \<Longrightarrow> round_half_even x \<le> n"
proof -
  assume x: "x < of_int n + 1 / 2"
  show ?thesis
  proof (cases "x \<le> of_int n")
    case True
    then show ?thesis by (rule round_half_even_mono_int)
  next
    case False
    then have "\<lfloor>x\<rfloor> = n" using x by (intro floor_unique) auto
    then show ?thesis using x by (simp add: round_half_even_def)
  qed
qed

lemma powi_two_mono: "(i :: int) \<le> j \<Longrightarrow> (2 :: rat) powi i \<le> 2 powi j"
  by (rule power_int_increasing) simp_all

lemma powi_two_less_imp: "(2 :: rat) powi i < 2 powi j \<Longrightarrow> i < j"
  using powi_two_mono [of j i] by (meson leD not_le)

lemma powi_two_split: "(2 :: rat) powi (i + j) = 2 powi i * 2 powi j"
  by (simp add: power_int_add)

text \<open>Rounding never passes a representable magnitude, since that is a multiple of the rounding unit.\<close>

lemma representable_below: "representable m \<Longrightarrow> m < 2 ^ 1024"
proof -
  assume "representable m"
  then obtain k e where m: "m = of_nat k * 2 powi e" and k: "k < 2 ^ 53" and e: "e \<le> 971"
    by (auto simp: representable_def)
  have "(of_nat k :: rat) < of_nat (2 ^ 53)" using k by (simp only: of_nat_less_iff)
  then have "m < 2 powi (53 + e)" by (simp add: m powi_two_split [of 53 e])
  also have "\<dots> \<le> 2 powi 1024" using e by (intro powi_two_mono) simp
  finally show ?thesis by simp
qed

lemma representable_multiple:
  assumes "0 < q" and "q \<le> m" and "representable m"
  shows "\<exists>n. m = of_int n * 2 powi (max (- 1074) (exponent_of q - 52))"
proof -
  obtain k e where m: "m = of_nat k * 2 powi e" and k: "k < 2 ^ 53" and e: "- 1074 \<le> e"
    using assms(3) by (auto simp: representable_def)
  define u where "u = max (- 1074) (exponent_of q - 52)"
  have "(of_nat k :: rat) < of_nat (2 ^ 53)" using k by (simp only: of_nat_less_iff)
  then have "m < 2 powi (53 + e)" by (simp add: m powi_two_split [of 53 e])
  then have "(2 :: rat) powi exponent_of q < 2 powi (53 + e)"
    using exponent_of_le [OF assms(1)] assms(2) by linarith
  then have "exponent_of q - 52 \<le> e" by (drule_tac powi_two_less_imp) simp
  then have "u \<le> e" using e by (simp add: u_def)
  then obtain j where j: "e = int j + u" by (metis add.commute diff_add_cancel diff_ge_0_iff_ge nonneg_int_cases)
  have "m = of_int (int k * 2 ^ j) * 2 powi u" by (simp add: m j powi_two_split)
  then show ?thesis unfolding u_def by blast
qed

lemma round_magnitude_le_representable:
  assumes "0 \<le> q" and "q \<le> m" and "representable m"
  shows "\<exists>r. round_magnitude s q = Finite s r \<and> 0 \<le> r \<and> r \<le> m"
proof (cases "q = 0")
  case True
  then show ?thesis using assms(2) by (simp add: round_magnitude_def)
next
  case False
  define u where "u = max (- 1074) (exponent_of q - 52)"
  define r where "r = of_int (round_half_even (q / 2 powi u)) * (2 :: rat) powi u"
  obtain n where n: "m = of_int n * 2 powi u"
    using representable_multiple [of q m] False assms by (auto simp: u_def)
  have "q / 2 powi u \<le> of_int n" using assms(2) by (simp add: n divide_le_eq)
  then have "round_half_even (q / 2 powi u) \<le> n" by (rule round_half_even_mono_int)
  then have "r \<le> m" unfolding r_def n by (rule mult_right_mono [OF of_int_le_iff [THEN iffD2]]) simp
  moreover have "0 \<le> r" unfolding r_def using assms(1) by (simp add: round_half_even_nonneg)
  moreover have "\<not> 2 ^ 1024 \<le> r" using representable_below [OF assms(3)] \<open>r \<le> m\<close> by simp
  ultimately show ?thesis using False by (auto simp: round_magnitude_def Let_def u_def r_def)
qed

lemma round_magnitude_exact:
  assumes "0 \<le> m" and "representable m"
  shows "round_magnitude s m = Finite s m"
proof (cases "m = 0")
  case False
  define u where "u = max (- 1074) (exponent_of m - 52)"
  obtain n where n: "m = of_int n * 2 powi u"
    using representable_multiple [of m m] False assms by (auto simp: u_def)
  define r where "r = of_int (round_half_even (m / 2 powi u)) * (2 :: rat) powi u"
  have "round_half_even (m / 2 powi u) = n" by (simp add: n round_half_even_def)
  then have "r = m" by (simp add: r_def n [symmetric])
  moreover have "round_magnitude s m = (if 2 ^ 1024 \<le> r then Infinity s else Finite s r)"
    using False unfolding round_magnitude_def Let_def u_def r_def by simp
  ultimately show ?thesis using representable_below [OF assms(2)] by (simp add: not_le)
qed (simp add: round_magnitude_def)

lemma round_magnitude_representable:
  assumes "0 \<le> q" and "round_magnitude s q = Finite t r"
  shows "representable r"
proof (cases "q = 0")
  case True
  then show ?thesis using assms(2)
    by (auto simp: round_magnitude_def representable_def intro!: exI [of _ "0 :: nat"] exI [of _ "0 :: int"])
next
  case False
  then have q: "0 < q" using assms(1) by simp
  define u where "u = max (- 1074) (exponent_of q - 52)"
  define n where "n = round_half_even (q / 2 powi u)"
  have r: "r = of_int n * 2 powi u" and big: "\<not> 2 ^ 1024 \<le> r"
    using False assms(2) by (auto simp: round_magnitude_def Let_def u_def n_def split: if_splits)
  have n0: "0 \<le> n" using assms(1) by (simp add: n_def round_half_even_nonneg)
  have "q / 2 powi u \<le> of_int (2 ^ 53)"
  proof -
    have "q < 2 powi (exponent_of q + 1)" by (rule exponent_of_gt [OF q])
    also have "\<dots> \<le> 2 powi (53 + u)" by (intro powi_two_mono) (simp add: u_def)
    finally show ?thesis by (simp add: powi_two_split divide_le_eq)
  qed
  then have n53: "n \<le> 2 ^ 53" unfolding n_def by (rule round_half_even_mono_int)
  have ulow: "- 1074 \<le> u" by (simp add: u_def)
  have uhigh: "u \<le> 971" if "u \<noteq> - 1074"
  proof -
    have "u = exponent_of q - 52" using that by (simp add: u_def max_def split: if_splits)
    then have "(2 :: rat) powi (52 + u) \<le> q" using exponent_of_le [OF q] by simp
    then have "of_int (2 ^ 52) \<le> q / 2 powi u" by (simp add: powi_two_split le_divide_eq)
    then have "2 ^ 52 \<le> n" unfolding n_def by (rule round_half_even_ge_int)
    then have "(2 :: rat) ^ 52 \<le> of_int n" by (metis of_int_le_iff of_int_numeral of_int_power)
    then have "2 powi (52 + u) \<le> r" by (simp add: r powi_two_split)
    then have "(2 :: rat) powi (52 + u) < 2 powi 1024" using big by simp
    then show ?thesis by (drule_tac powi_two_less_imp) simp
  qed
  show ?thesis
  proof (cases "n = 2 ^ 53")
    case True
    have "r = of_nat (2 ^ 52) * 2 powi (1 + u)" by (simp add: r True powi_two_split)
    moreover have "1 + u \<le> 971"
    proof -
      have "r = 2 powi (53 + u)" by (simp add: r True powi_two_split)
      then have "(2 :: rat) powi (53 + u) < 2 powi 1024" using big by simp
      then show ?thesis by (drule_tac powi_two_less_imp) simp
    qed
    ultimately show ?thesis using ulow unfolding representable_def
      by (intro exI [of _ "2 ^ 52 :: nat"] exI [of _ "1 + u"]) simp
  next
    case False
    then have "nat n < 2 ^ 53" using n53 n0 by (simp add: nat_less_iff)
    moreover have "r = of_nat (nat n) * 2 powi u" using n0 by (simp add: r)
    ultimately show ?thesis using ulow uhigh unfolding representable_def
      by (intro exI [of _ "nat n"] exI [of _ u]) force
  qed
qed

lemma round_magnitude_nonneg:
  assumes "0 \<le> q"
  shows "round_magnitude s q = Infinity s \<or> (\<exists>r. round_magnitude s q = Finite s r \<and> 0 \<le> r \<and> (q = 0 \<longrightarrow> r = 0))"
proof (cases "round_magnitude s q")
  case NaN
  then show ?thesis by (auto simp: round_magnitude_def Let_def split: if_splits)
next
  case (Infinity t)
  then show ?thesis by (auto simp: round_magnitude_def Let_def split: if_splits)
next
  case (Finite t r)
  then have "t = s" "q = 0 \<longrightarrow> r = 0" by (auto simp: round_magnitude_def Let_def split: if_splits)
  moreover have "0 \<le> r"
  proof -
    obtain k e where "r = of_nat k * 2 powi e"
      using round_magnitude_representable [OF assms Finite] by (auto simp: representable_def)
    then show ?thesis by simp
  qed
  ultimately show ?thesis using Finite by simp
qed

text \<open>Magnitudes that are not too small do not round to zero.\<close>

lemma round_magnitude_positive:
  assumes "2 powi (- 1074) \<le> q"
  shows "round_magnitude s q = Infinity s \<or> (\<exists>r. round_magnitude s q = Finite s r \<and> 0 < r)"
proof -
  have q: "0 < q" using assms zero_less_power_int [of "2 :: rat" "- 1074"] by simp
  define u where "u = max (- 1074) (exponent_of q - 52)"
  define r where "r = of_int (round_half_even (q / 2 powi u)) * (2 :: rat) powi u"
  have "2 powi u \<le> q"
  proof (cases "u = - 1074")
    case False
    then have "u \<le> exponent_of q" by (simp add: u_def max_def split: if_splits)
    then show ?thesis using exponent_of_le [OF q] powi_two_mono [of u "exponent_of q"] by simp
  qed (use assms in simp)
  then have "of_int 1 \<le> q / 2 powi u" by (simp add: le_divide_eq)
  then have "1 \<le> round_half_even (q / 2 powi u)" by (rule round_half_even_ge_int)
  then have "0 < r" by (simp add: r_def)
  then show ?thesis using q by (simp add: round_magnitude_def Let_def u_def [symmetric] r_def [symmetric])
qed

lemma representable_positive:
  assumes "representable m" and "0 < m"
  shows "2 powi (- 1074) \<le> m"
proof -
  obtain k e where m: "m = of_nat k * 2 powi e" and e: "- 1074 \<le> e"
    using assms(1) by (auto simp: representable_def)
  have "1 \<le> k" using assms(2) by (cases k) (simp_all add: m)
  then have "1 * (2 :: rat) powi (- 1074) \<le> of_nat k * 2 powi e"
    using powi_two_mono [OF e] by (intro mult_mono) simp_all
  then show ?thesis by (simp add: m)
qed

section \<open>Weighted means\<close>

lemma representable_of_nat: "n < 2 ^ 53 \<Longrightarrow> representable (of_nat n)"
  unfolding representable_def by (intro exI [of _ n] exI [of _ "0 :: int"]) simp

lemma representable_fixed:
  assumes "k \<le> 2 ^ 53"
  shows "representable (of_nat k / 2 ^ 53)"
proof (cases "k = 2 ^ 53")
  case True
  then have "(of_nat k / 2 ^ 53 :: rat) = of_nat 1" by simp
  then show ?thesis using representable_of_nat [of 1] by simp
next
  case False
  then have "k < 2 ^ 53" using assms by simp
  moreover have "(of_nat k / 2 ^ 53 :: rat) = of_nat k * 2 powi (- 53)"
    by (simp add: power_int_minus field_simps)
  ultimately show ?thesis unfolding representable_def
    by (intro exI [of _ k] exI [of _ "- 53 :: int"]) simp
qed

text \<open>The complement of a number of the unit interval overshoots by less than \<open>2 powi (- 53)\<close>.\<close>

lemma round_complement:
  assumes "0 \<le> a" and "a \<le> 1"
  shows "\<exists>b. round_magnitude s (1 - a) = Finite s b \<and> 0 \<le> b \<and> b < 1 - a + 1 / 2 ^ 53"
proof -
  define k where "k = nat \<lceil>(1 - a) * 2 ^ 53\<rceil>"
  have k: "(of_nat k :: rat) = of_int \<lceil>(1 - a) * 2 ^ 53\<rceil>"
    unfolding k_def using assms by (simp add: le_ceiling_iff order_less_le_trans [of _ 0])
  have "(1 - a) * 2 ^ 53 \<le> of_int (2 ^ 53)" using assms by simp
  then have "\<lceil>(1 - a) * 2 ^ 53\<rceil> \<le> 2 ^ 53" by (simp only: ceiling_le_iff)
  then have "k \<le> 2 ^ 53" by (simp add: k_def nat_le_iff)
  then have "representable (of_nat k / 2 ^ 53)" by (rule representable_fixed)
  moreover have "1 - a \<le> of_nat k / 2 ^ 53"
    unfolding k using le_of_int_ceiling [of "(1 - a) * 2 ^ 53"] by (simp add: le_divide_eq)
  ultimately obtain b where b: "round_magnitude s (1 - a) = Finite s b" "0 \<le> b" "b \<le> of_nat k / 2 ^ 53"
    using round_magnitude_le_representable [of "1 - a" "of_nat k / 2 ^ 53" s] assms by auto
  have "of_nat k < (1 - a) * 2 ^ 53 + 1"
    unfolding k using ceiling_correct [of "(1 - a) * 2 ^ 53"] by linarith
  then have "of_nat k / 2 ^ 53 < 1 - a + 1 / 2 ^ 53" by (simp add: field_simps)
  then show ?thesis using b by auto
qed

text \<open>Slightly above one rounds to one.\<close>

lemma round_magnitude_near_one:
  assumes "0 \<le> q" and "q < 1 + 1 / 2 ^ 53"
  shows "\<exists>r. round_magnitude s q = Finite s r \<and> 0 \<le> r \<and> r \<le> 1"
proof (cases "q \<le> 1")
  case True
  then show ?thesis using round_magnitude_le_int [of q 1 s] assms by simp
next
  case False
  have "exponent_of q = 0"
  proof (rule antisym)
    have "(2 :: rat) powi exponent_of q < 2 powi 1" using exponent_of_le [of q] False assms(2) by simp
    then show "exponent_of q \<le> 0" by (drule_tac powi_two_less_imp) simp
    have "(2 :: rat) powi 0 < 2 powi (exponent_of q + 1)" using exponent_of_gt [of q] False by simp
    then show "0 \<le> exponent_of q" by (drule_tac powi_two_less_imp) simp
  qed
  then have u: "max (- 1074) (exponent_of q - 52) = (- 52 :: int)" by simp
  have p: "(2 :: rat) powi (- 52) = 1 / 2 ^ 52" by (simp add: power_int_minus field_simps)
  define n where "n = round_half_even (q / 2 powi (- 52))"
  have "q / 2 powi (- 52) < of_int (2 ^ 52) + 1 / 2" using assms(2) by (simp add: p field_simps)
  then have "n \<le> 2 ^ 52" unfolding n_def by (rule round_half_even_lt)
  then have n: "(of_int n :: rat) \<le> 2 ^ 52" by (metis of_int_le_iff of_int_numeral of_int_power)
  have n0: "0 \<le> n" unfolding n_def using assms(1) by (intro round_half_even_nonneg) simp
  define r :: rat where "r = of_int n * (1 / 2 ^ 52)"
  have "round_magnitude s q = (if 2 ^ 1024 \<le> r then Infinity s else Finite s r)"
    using False assms(1) unfolding round_magnitude_def u Let_def n_def p r_def by auto
  moreover have "r \<le> 1" "0 \<le> r" using n n0 by (simp_all add: r_def)
  moreover have "\<not> 2 ^ 1024 \<le> r"
    using order.trans [of "2 ^ 1024" r "1 :: rat"] \<open>r \<le> 1\<close> by auto
  ultimately show ?thesis by (simp only: if_False) blast
qed

section \<open>Values\<close>

text \<open>The values a binary64 number can have, and that the operations only make such values.\<close>

fun binary64 :: "f64 \<Rightarrow> bool" where
  "binary64 (Finite s m) = representable m"
| "binary64 _ = True"

lemma representable_nonneg: "representable m \<Longrightarrow> 0 \<le> m"
  by (auto simp: representable_def)

lemma binary64_round: "0 \<le> q \<Longrightarrow> binary64 (round_magnitude s q)"
  using round_magnitude_representable [of q s] by (cases "round_magnitude s q") auto

lemma representable_zero [simp]: "representable 0"
  using representable_of_nat [of 0] by simp

lemma binary64_constants [simp]: "binary64 f64_zero" "binary64 f64_one" "binary64 f64_hundred"
  using representable_of_nat [of 1] representable_of_nat [of 100]
  by (simp_all add: f64_zero_def f64_one_def f64_hundred_def)

lemma binary64_of_rat [simp]: "binary64 (f64_of_rat q)"
  by (simp add: f64_of_rat_def binary64_round)

lemma binary64_neg [simp]: "binary64 (f64_neg x) = binary64 x"
  by (cases x) simp_all

lemma binary64_add [simp]: "binary64 x \<Longrightarrow> binary64 y \<Longrightarrow> binary64 (f64_add x y)"
  by (cases x; cases y) (simp_all add: Let_def)

lemma binary64_sub [simp]: "binary64 x \<Longrightarrow> binary64 y \<Longrightarrow> binary64 (f64_sub x y)"
  by (simp add: f64_sub_def)

lemma binary64_mul [simp]: "binary64 x \<Longrightarrow> binary64 y \<Longrightarrow> binary64 (f64_mul x y)"
  by (cases x; cases y) (simp_all add: binary64_round representable_nonneg)

lemma binary64_div [simp]: "binary64 x \<Longrightarrow> binary64 y \<Longrightarrow> binary64 (f64_div x y)"
  by (cases x; cases y) (simp_all add: binary64_round representable_nonneg)

lemma binary64_clamp [simp]: "binary64 lo \<Longrightarrow> binary64 hi \<Longrightarrow> binary64 x \<Longrightarrow> binary64 (f64_clamp lo hi x)"
  by (simp add: f64_clamp_def Let_def)

section \<open>The unit interval\<close>

definition unit_f64 :: "f64 \<Rightarrow> bool" where
  "unit_f64 x \<longleftrightarrow> f64_in_range f64_zero f64_one x"

lemma unit_f64_iff: "unit_f64 x \<longleftrightarrow> (\<exists>s m. x = Finite s m \<and> 0 \<le> f64_val s m \<and> f64_val s m \<le> 1)"
  by (cases x) (auto simp: unit_f64_def f64_in_range_def f64_le_def f64_zero_def f64_one_def f64_val_def)

lemma unit_binary64:
  assumes "unit_f64 x" and "binary64 x"
  obtains s m where "x = Finite s m" "0 \<le> m" "m \<le> 1" "s \<longrightarrow> m = 0" "f64_val s m = m"
proof -
  obtain s m where x: "x = Finite s m" and v: "0 \<le> f64_val s m" "f64_val s m \<le> 1"
    using assms(1) by (auto simp: unit_f64_iff)
  have m: "0 \<le> m" using assms(2) representable_nonneg by (simp add: x)
  show thesis
    by (rule that [OF x m]) (use v m in \<open>auto simp: f64_val_def split: if_splits\<close>)
qed

lemma round_below:
  assumes "0 \<le> q" and "q \<le> m" and "representable m"
  obtains r where "round_magnitude s q = Finite s r" "0 \<le> r" "r \<le> m"
  using round_magnitude_le_representable [OF assms] by blast

lemma f64_add_nonneg:
  assumes "0 \<le> f64_val s m" and "0 \<le> f64_val t n" and "f64_val s m + f64_val t n \<noteq> 0"
  shows "f64_add (Finite s m) (Finite t n) = round_magnitude False (f64_val s m + f64_val t n)"
proof -
  have "\<not> f64_val s m + f64_val t n < 0" "\<bar>f64_val s m + f64_val t n\<bar> = f64_val s m + f64_val t n"
    using assms by simp_all
  then show ?thesis using assms(3) by (simp add: Let_def f64_of_rat_def)
qed

text \<open>One step of exponential smoothing: \<open>a * v + (1.0 - a) * p\<close>.\<close>

lemma unit_f64_mean:
  assumes a: "unit_f64 a" "binary64 a" and v: "unit_f64 v" "binary64 v" and p: "unit_f64 p" "binary64 p"
  shows "unit_f64 (f64_add (f64_mul a v) (f64_mul (f64_sub f64_one a) p))"
proof -
  obtain sa ma where A: "a = Finite sa ma" "0 \<le> ma" "ma \<le> 1" "sa \<longrightarrow> ma = 0" "f64_val sa ma = ma"
    by (rule unit_binary64 [OF a])
  obtain sv mv where V: "v = Finite sv mv" "0 \<le> mv" "mv \<le> 1" "sv \<longrightarrow> mv = 0" "f64_val sv mv = mv"
    by (rule unit_binary64 [OF v])
  obtain sp mp where P: "p = Finite sp mp" "0 \<le> mp" "mp \<le> 1" "sp \<longrightarrow> mp = 0" "f64_val sp mp = mp"
    by (rule unit_binary64 [OF p])
  have ra: "representable ma" using a(2) A(1) by simp
  obtain x where x: "round_magnitude (sa \<noteq> sv) (ma * mv) = Finite (sa \<noteq> sv) x" "0 \<le> x" "x \<le> ma"
    by (rule round_below [OF _ _ ra, where q = "ma * mv"]) (use A V in \<open>simp_all add: mult_left_le\<close>)
  have x0: "sa \<noteq> sv \<Longrightarrow> x = 0"
    using A(4) V(4) x(1) by (cases sa; cases sv) (simp_all add: round_magnitude_def)
  have sub: "f64_sub f64_one a = (if ma = 1 then Finite (\<not> sa \<and> False) 0 else round_magnitude False (1 - ma))"
    using A by (cases sa) (auto simp: f64_sub_def f64_one_def Let_def f64_of_rat_def f64_val_def)
  obtain b where b: "f64_sub f64_one a = Finite False b" "0 \<le> b" "b < 1 - ma + 1 / 2 ^ 53" "representable b"
  proof (cases "ma = 1")
    case True
    then show thesis using that [of 0] by (simp add: sub)
  next
    case False
    obtain b where "round_magnitude False (1 - ma) = Finite False b" "0 \<le> b" "b < 1 - ma + 1 / 2 ^ 53"
      using round_complement [OF A(2,3), of False] by blast
    then show thesis using that [of b] False A(3) round_magnitude_representable [of "1 - ma" False False b]
      by (simp add: sub)
  qed
  obtain y where y: "round_magnitude sp (b * mp) = Finite sp y" "0 \<le> y" "y \<le> b"
    by (rule round_below [OF _ _ b(4), where q = "b * mp"]) (use b P in \<open>simp_all add: mult_left_le\<close>)
  have y0: "sp \<Longrightarrow> y = 0" using P(4) y(1) by (simp add: round_magnitude_def)
  have vals: "f64_val (sa \<noteq> sv) x = x" "f64_val sp y = y" using x0 y0 by (auto simp: f64_val_def)
  obtain r where r: "round_magnitude False (x + y) = Finite False r" "0 \<le> r" "r \<le> 1"
    using round_magnitude_near_one [of "x + y" False] x y b by auto
  have terms: "f64_mul a v = Finite (sa \<noteq> sv) x" "f64_mul (f64_sub f64_one a) p = Finite sp y"
    using x y unfolding b(1) by (simp_all add: A(1) V(1) P(1))
  show ?thesis
  proof (cases "x + y = 0")
    case True
    then have "f64_add (Finite (sa \<noteq> sv) x) (Finite sp y) = Finite ((sa \<noteq> sv) \<and> sp) 0"
      using vals by simp
    then show ?thesis unfolding terms by (simp add: unit_f64_iff f64_val_def)
  next
    case False
    then have "f64_add (Finite (sa \<noteq> sv) x) (Finite sp y) = Finite False r"
      using f64_add_nonneg [of "sa \<noteq> sv" x sp y] x(2) y(2) r(1) vals by simp
    then have "\<exists>s m. f64_add (Finite (sa \<noteq> sv) x) (Finite sp y) = Finite s m \<and> 0 \<le> f64_val s m \<and> f64_val s m \<le> 1"
      using r(2,3) by (intro exI [of _ False] exI [of _ r]) (simp add: f64_val_def)
    then show ?thesis unfolding terms unit_f64_iff .
  qed
qed

lemma f64_of_int_exact: "0 \<le> i \<Longrightarrow> i < 2 ^ 53 \<Longrightarrow> f64_of_int i = Finite False (of_int i)"
  using round_magnitude_exact [of "of_nat (nat i)" False] representable_of_nat [of "nat i"]
  by (simp add: f64_of_int_def f64_of_rat_def nat_less_iff)

end
