(* ===== verification/Period.thy ===== *)
theory Period
  imports Usage F64_Rounding
begin

text \<open>
  \<open>crates/orchestrator-policy/src/period.rs\<close>: the quota window that contains an instant, for calendar,
  rolling and custom periods. The \<open>chrono\<close> and \<open>chrono_tz\<close> crates are a parameter: their operations
  are the fields of \<open>chrono\<close>, and \<open>None\<close> of \<open>ch_seconds\<close> stands for the panic of \<open>Duration::seconds\<close>. A local
  time of a zone (\<open>DateTime<Tz>\<close>) is its instant; a \<open>NaiveDateTime\<close> counts nanoseconds and a
  \<open>NaiveDate\<close> is a number in the order of the calendar.
\<close>

section \<open>Time\<close>

type_synonym Tz = string
type_synonym NaiveDateTime = int
type_synonym NaiveDate = int

datatype LocalResult = LocalNone | Single DateTime | Ambiguous DateTime DateTime

record chrono =
  ch_num_seconds :: "TimeDelta \<Rightarrow> int"
  ch_seconds :: "int \<Rightarrow> TimeDelta option"
  ch_minutes :: "int \<Rightarrow> TimeDelta"
  ch_checked_add_signed :: "DateTime \<Rightarrow> TimeDelta \<Rightarrow> DateTime option"
  ch_naive_checked_add_signed :: "NaiveDateTime \<Rightarrow> TimeDelta \<Rightarrow> NaiveDateTime option"
  ch_naive_local :: "Tz \<Rightarrow> DateTime \<Rightarrow> NaiveDateTime"
  ch_from_local_datetime :: "Tz \<Rightarrow> NaiveDateTime \<Rightarrow> LocalResult"
  ch_date :: "NaiveDateTime \<Rightarrow> NaiveDate"
  ch_and_midnight :: "NaiveDate \<Rightarrow> NaiveDateTime option"
  ch_succ_opt :: "NaiveDate \<Rightarrow> NaiveDate option"
  ch_pred_opt :: "NaiveDate \<Rightarrow> NaiveDate option"
  ch_from_ymd_opt :: "int \<Rightarrow> nat \<Rightarrow> nat \<Rightarrow> NaiveDate option"
  ch_year :: "NaiveDate \<Rightarrow> int"
  ch_month :: "NaiveDate \<Rightarrow> nat"
  ch_day :: "NaiveDate \<Rightarrow> nat"

section \<open>Policies and windows\<close>

record ResetPolicy =
  rp_quota_period :: QuotaPeriod
  rp_timezone :: Tz
  rp_reset_day :: "u8 option"
  rp_rolling_anchor :: "DateTime option"
  rp_rolling_period_seconds :: "int option"
  rp_custom_started_at :: "DateTime option"
  rp_custom_resets_at :: "DateTime option"

definition ResetPolicy_calendar_day :: "Tz \<Rightarrow> ResetPolicy" where
  "ResetPolicy_calendar_day timezone =
     \<lparr> rp_quota_period = CalendarDay, rp_timezone = timezone, rp_reset_day = None,
       rp_rolling_anchor = None, rp_rolling_period_seconds = None,
       rp_custom_started_at = None, rp_custom_resets_at = None \<rparr>"

definition ResetPolicy_calendar_month :: "Tz \<Rightarrow> u8 \<Rightarrow> ResetPolicy" where
  "ResetPolicy_calendar_month timezone reset_day =
     \<lparr> rp_quota_period = CalendarMonth, rp_timezone = timezone, rp_reset_day = Some reset_day,
       rp_rolling_anchor = None, rp_rolling_period_seconds = None,
       rp_custom_started_at = None, rp_custom_resets_at = None \<rparr>"

datatype PeriodError =
    InvalidResetDay u8
  | MissingRollingAnchor
  | InvalidRollingDuration int
  | MissingCustomWindow
  | InvalidWindow
  | DateOverflow
  | UnresolvableLocalBoundary

record PeriodWindow =
  pw_started_at :: DateTime
  pw_resets_at :: DateTime

definition PeriodWindow_new :: "DateTime \<Rightarrow> DateTime \<Rightarrow> PeriodError + PeriodWindow" where
  "PeriodWindow_new started_at resets_at =
     (if resets_at \<le> started_at then Inl InvalidWindow
      else Inr \<lparr> pw_started_at = started_at, pw_resets_at = resets_at \<rparr>)"

text \<open>\<open>std::time::Duration::as_secs_f64\<close>: the whole seconds plus the fraction of the nanoseconds.\<close>

definition as_secs_f64 :: "int \<Rightarrow> f64" where
  "as_secs_f64 nanos =
     f64_add (f64_of_int (nanos div 10 ^ 9)) (f64_div (f64_of_int (nanos mod 10 ^ 9)) (f64_of_int (10 ^ 9)))"

text \<open>\<open>to_std\<close> fails on a negative span only.\<close>

definition secs_or_infinity :: "TimeDelta \<Rightarrow> f64" where
  "secs_or_infinity delta = (if delta < 0 then Infinity False else as_secs_f64 delta)"

definition window_duration_seconds :: "PeriodWindow \<Rightarrow> f64" where
  "window_duration_seconds w = secs_or_infinity (pw_resets_at w - pw_started_at w)"

definition elapsed_seconds :: "PeriodWindow \<Rightarrow> DateTime \<Rightarrow> f64" where
  "elapsed_seconds w now =
     (let elapsed = now - pw_started_at w in
      if elapsed < 0 then f64_neg (secs_or_infinity \<bar>elapsed\<bar>) else secs_or_infinity elapsed)"

definition progress_at :: "PeriodWindow \<Rightarrow> DateTime \<Rightarrow> f64" where
  "progress_at w now =
     f64_clamp f64_zero f64_one (f64_div (elapsed_seconds w now) (window_duration_seconds w))"

section \<open>Calendar arithmetic\<close>

definition midnight :: "chrono \<Rightarrow> NaiveDate \<Rightarrow> PeriodError + NaiveDateTime" where
  "midnight ch date = ok_or DateOverflow (ch_and_midnight ch date)"

definition next_month :: "int \<Rightarrow> nat \<Rightarrow> PeriodError + int \<times> nat" where
  "next_month year month =
     (if 1 \<le> month \<and> month \<le> 11 then Inr (year, month + 1)
      else if month = 12 then (if year + 1 < 2 ^ 31 then Inr (year + 1, 1) else Inl DateOverflow)
      else Inl DateOverflow)"

definition previous_month :: "int \<Rightarrow> nat \<Rightarrow> PeriodError + int \<times> nat" where
  "previous_month year month =
     (if 2 \<le> month \<and> month \<le> 12 then Inr (year, month - 1)
      else if month = 1 then (if - (2 ^ 31) \<le> year - 1 then Inr (year - 1, 12) else Inl DateOverflow)
      else Inl DateOverflow)"

definition days_in_month :: "chrono \<Rightarrow> int \<Rightarrow> nat \<Rightarrow> PeriodError + nat" where
  "days_in_month ch year month =
     and_then (next_month year month) (\<lambda>(next_year, next_month).
     and_then (ok_or DateOverflow (ch_from_ymd_opt ch next_year next_month 1)) (\<lambda>first_next.
     and_then (ok_or DateOverflow (ch_pred_opt ch first_next)) (\<lambda>last_current.
       Inr (ch_day ch last_current))))"

definition month_reset :: "chrono \<Rightarrow> int \<Rightarrow> nat \<Rightarrow> u8 \<Rightarrow> PeriodError + NaiveDate" where
  "month_reset ch year month reset_day =
     and_then (days_in_month ch year month) (\<lambda>last_day.
       ok_or DateOverflow (ch_from_ymd_opt ch year month (min (unat reset_day) last_day)))"

text \<open>The loop of \<open>resolve_boundary\<close>: 181 attempts, a minute apart.\<close>

fun resolve_attempts :: "chrono \<Rightarrow> Tz \<Rightarrow> nat \<Rightarrow> NaiveDateTime \<Rightarrow> PeriodError + DateTime" where
  "resolve_attempts ch timezone 0 value = Inl UnresolvableLocalBoundary"
| "resolve_attempts ch timezone (Suc n) value =
     (case ch_from_local_datetime ch timezone value of
        Single result \<Rightarrow> Inr result
      | Ambiguous first second \<Rightarrow> Inr (min first second)
      | LocalNone \<Rightarrow>
          (case ch_naive_checked_add_signed ch value (ch_minutes ch 1) of
             None \<Rightarrow> Inl DateOverflow
           | Some value \<Rightarrow> resolve_attempts ch timezone n value))"

definition resolve_boundary :: "chrono \<Rightarrow> Tz \<Rightarrow> NaiveDateTime \<Rightarrow> PeriodError + DateTime" where
  "resolve_boundary ch timezone value = resolve_attempts ch timezone 181 value"

definition midnight_boundary :: "chrono \<Rightarrow> Tz \<Rightarrow> NaiveDate \<Rightarrow> PeriodError + DateTime" where
  "midnight_boundary ch timezone date = and_then (midnight ch date) (resolve_boundary ch timezone)"

section \<open>Windows\<close>

definition calendar_day_window :: "chrono \<Rightarrow> Tz \<Rightarrow> DateTime \<Rightarrow> PeriodError + PeriodWindow" where
  "calendar_day_window ch timezone now =
     (let date = ch_date ch (ch_naive_local ch timezone now) in
      and_then (ok_or DateOverflow (ch_succ_opt ch date)) (\<lambda>next_date.
      and_then (midnight_boundary ch timezone date) (\<lambda>start.
      and_then (midnight_boundary ch timezone next_date) (\<lambda>end.
        PeriodWindow_new start end))))"

definition calendar_month_window :: "chrono \<Rightarrow> Tz \<Rightarrow> u8 \<Rightarrow> DateTime \<Rightarrow> PeriodError + PeriodWindow" where
  "calendar_month_window ch timezone reset_day now =
     (if \<not> (1 \<le> reset_day \<and> reset_day \<le> 31) then Inl (InvalidResetDay reset_day)
      else
        let date = ch_date ch (ch_naive_local ch timezone now);
            y = ch_year ch date;
            m = ch_month ch date
        in
        and_then (month_reset ch y m reset_day) (\<lambda>this_candidate.
        and_then (midnight_boundary ch timezone this_candidate) (\<lambda>this_boundary.
        and_then
          (if this_boundary \<le> now
           then and_then (next_month y m) (\<lambda>(ny, nm).
                and_then (month_reset ch ny nm reset_day) (\<lambda>next_reset.
                  Inr (this_candidate, next_reset)))
           else and_then (previous_month y m) (\<lambda>(py, pm).
                and_then (month_reset ch py pm reset_day) (\<lambda>previous_reset.
                  Inr (previous_reset, this_candidate)))) (\<lambda>(start_date, end_date).
        and_then (midnight_boundary ch timezone start_date) (\<lambda>start.
        and_then (midnight_boundary ch timezone end_date) (\<lambda>end.
          PeriodWindow_new start end))))))"

text \<open>\<open>i64\<close> products that leave the 64-bit range are an error; the outer \<open>None\<close> is a panic.\<close>

definition checked_mul_i64 :: "int \<Rightarrow> int \<Rightarrow> int option" where
  "checked_mul_i64 a b = (if - (2 ^ 63) \<le> a * b \<and> a * b < 2 ^ 63 then Some (a * b) else None)"

definition add_seconds :: "chrono \<Rightarrow> DateTime \<Rightarrow> int \<Rightarrow> (PeriodError + DateTime) option" where
  "add_seconds ch t seconds =
     map_option (\<lambda>delta. ok_or DateOverflow (ch_checked_add_signed ch t delta)) (ch_seconds ch seconds)"

definition rolling_window ::
    "chrono \<Rightarrow> ResetPolicy \<Rightarrow> DateTime \<Rightarrow> int \<Rightarrow> (PeriodError + PeriodWindow) option" where
  "rolling_window ch policy now default_seconds =
     (case rp_rolling_anchor policy of
        None \<Rightarrow> Some (Inl MissingRollingAnchor)
      | Some anchor \<Rightarrow>
          (let seconds = (case rp_rolling_period_seconds policy of Some s \<Rightarrow> s | None \<Rightarrow> default_seconds) in
           if seconds \<le> 0 then Some (Inl (InvalidRollingDuration seconds))
           else
             let index = ch_num_seconds ch (now - anchor) div seconds in
             case checked_mul_i64 index seconds of
               None \<Rightarrow> Some (Inl DateOverflow)
             | Some offset \<Rightarrow>
                 (case add_seconds ch anchor offset of
                    None \<Rightarrow> None
                  | Some (Inl e) \<Rightarrow> Some (Inl e)
                  | Some (Inr start) \<Rightarrow>
                      map_option (\<lambda>r. and_then r (PeriodWindow_new start)) (add_seconds ch start seconds))))"

definition period_window :: "chrono \<Rightarrow> ResetPolicy \<Rightarrow> DateTime \<Rightarrow> (PeriodError + PeriodWindow) option" where
  "period_window ch policy now =
     (case rp_quota_period policy of
        CalendarDay \<Rightarrow> Some (calendar_day_window ch (rp_timezone policy) now)
      | CalendarMonth \<Rightarrow>
          Some (calendar_month_window ch (rp_timezone policy)
                  (case rp_reset_day policy of Some d \<Rightarrow> d | None \<Rightarrow> 1) now)
      | RollingDay \<Rightarrow> rolling_window ch policy now (24 * 60 * 60)
      | RollingMonth \<Rightarrow> rolling_window ch policy now (30 * 24 * 60 * 60)
      | Period_Custom \<Rightarrow>
          Some (and_then (ok_or MissingCustomWindow (rp_custom_started_at policy)) (\<lambda>start.
                and_then (ok_or MissingCustomWindow (rp_custom_resets_at policy)) (\<lambda>reset.
                  PeriodWindow_new start reset))))"

section \<open>Progress\<close>

text \<open>The instants \<open>chrono\<close> can represent lie within \<open>2 ^ 73\<close> nanoseconds of the epoch.\<close>

definition chrono_instant :: "DateTime \<Rightarrow> bool" where
  "chrono_instant t \<longleftrightarrow> \<bar>t\<bar> < 2 ^ 73"

lemma as_secs_f64_bounds:
  assumes "0 \<le> n" and "n < 2 ^ 74"
  shows "\<exists>r. as_secs_f64 n = Finite False r \<and> 0 \<le> r \<and> (0 < n \<longrightarrow> 0 < r)"
proof -
  define s k where "s = n div 10 ^ 9" and "k = n mod 10 ^ 9"
  have "s * 10 ^ 9 \<le> n" by (simp add: s_def)
  then have s: "0 \<le> s" "s < 2 ^ 45" using assms by (simp_all add: s_def pos_imp_zdiv_nonneg_iff)
  have s53: "0 \<le> s" "s < 2 ^ 53" using s by simp_all
  have k: "0 \<le> k" "k < 10 ^ 9" by (simp_all add: k_def)
  obtain f where f: "round_magnitude False (of_int k / 10 ^ 9) = Finite False f" "0 \<le> f" "f \<le> 1"
    using round_magnitude_le_int [of "of_int k / 10 ^ 9" 1 False] k by auto
  have f0: "0 < f" if "0 < k"
  proof -
    have "(2 :: rat) powi (- 1074) \<le> 2 powi (- 30)" by (rule powi_two_mono) simp
    also have "\<dots> \<le> of_int k / 10 ^ 9" using that by (simp add: power_int_minus field_simps)
    finally have "round_magnitude False (of_int k / 10 ^ 9) = Infinity False
        \<or> (\<exists>r. round_magnitude False (of_int k / 10 ^ 9) = Finite False r \<and> 0 < r)"
      by (rule round_magnitude_positive)
    then show ?thesis using f by auto
  qed
  have "f64_div (f64_of_int k) (f64_of_int (10 ^ 9)) = Finite False f"
    using f k by (simp add: f64_of_int_exact)
  then have eq: "as_secs_f64 n = f64_add (Finite False (of_int s)) (Finite False f)"
    unfolding as_secs_f64_def s_def [symmetric] k_def [symmetric] f64_of_int_exact [OF s53] by (rule arg_cong)
  show ?thesis
  proof (cases "of_int s + f = 0")
    case True
    then have "s = 0" "f = 0" using s(1) f(2) by linarith+
    moreover have "k = 0" using f0 k \<open>f = 0\<close> by force
    ultimately have "n = 0" using s_def k_def by (metis add.left_neutral mult_zero_left div_mult_mod_eq)
    moreover have "as_secs_f64 n = Finite False 0" using True unfolding eq by (simp add: f64_val_def)
    ultimately show ?thesis by simp
  next
    case False
    then have pos: "0 < of_int s + f" using s(1) f(2) by (simp add: add_nonneg_eq_0_iff less_le)
    have "as_secs_f64 n = round_magnitude False (of_int s + f)"
      using False s f f64_add_nonneg [of False "of_int s" False f] by (simp add: eq f64_val_def)
    moreover have "nat s + 1 < 2 ^ 53" using s by (simp add: nat_less_iff)
    then obtain r where r: "round_magnitude False (of_int s + f) = Finite False r" "0 \<le> r"
      using round_magnitude_le_int [of "of_int s + f" "nat s + 1" False] s f by auto
    moreover have "2 powi (- 1074) \<le> of_int s + f"
    proof (cases "0 < f")
      case True
      have "representable f" using round_magnitude_representable [OF _ f(1)] k by simp
      then show ?thesis using representable_positive [OF _ True] s(1)
        by (simp add: add_increasing)
    next
      case False
      then have "1 \<le> s" using pos f(2) s(1) by (cases "s = 0") auto
      moreover have "(2 :: rat) powi (- 1074) \<le> 2 powi 0" by (rule powi_two_mono) simp
      ultimately have "(2 :: rat) powi (- 1074) \<le> of_int s"
        using of_int_le_iff [where 'a = rat, of 1 s] by simp
      then show ?thesis using f(2) by simp
    qed
    ultimately show ?thesis using round_magnitude_positive [of "of_int s + f" False] by auto
  qed
qed

lemma window_duration_positive:
  assumes "pw_started_at w < pw_resets_at w" and "chrono_instant (pw_started_at w)" and "chrono_instant (pw_resets_at w)"
  shows "\<exists>r. window_duration_seconds w = Finite False r \<and> 0 < r"
proof -
  have "0 < pw_resets_at w - pw_started_at w" "pw_resets_at w - pw_started_at w < 2 ^ 74"
    using assms by (simp_all add: chrono_instant_def)
  then show ?thesis
    using as_secs_f64_bounds [of "pw_resets_at w - pw_started_at w"]
    by (auto simp: window_duration_seconds_def secs_or_infinity_def)
qed

lemma elapsed_finite:
  assumes "chrono_instant (pw_started_at w)" and "chrono_instant now"
  shows "\<exists>s r. elapsed_seconds w now = Finite s r \<and> 0 \<le> r"
proof -
  define d where "d = \<bar>now - pw_started_at w\<bar>"
  have "0 \<le> d" "d < 2 ^ 74" using assms by (simp_all add: d_def chrono_instant_def)
  then obtain r where "as_secs_f64 d = Finite False r" "0 \<le> r" using as_secs_f64_bounds by blast
  then show ?thesis by (auto simp: elapsed_seconds_def secs_or_infinity_def Let_def d_def)
qed

lemma binary64_as_secs [simp]: "binary64 (as_secs_f64 n)"
  by (simp add: as_secs_f64_def f64_of_int_def)

lemma progress_at_unit:
  assumes "pw_started_at w < pw_resets_at w" and "chrono_instant (pw_started_at w)"
    and "chrono_instant (pw_resets_at w)" and "chrono_instant now"
  shows "unit_f64 (progress_at w now)" and "binary64 (progress_at w now)"
proof -
  obtain d where d: "window_duration_seconds w = Finite False d" "0 < d"
    using window_duration_positive [OF assms(1-3)] by blast
  obtain s r where r: "elapsed_seconds w now = Finite s r" using elapsed_finite [OF assms(2,4)] by blast
  have "f64_div (elapsed_seconds w now) (window_duration_seconds w) \<noteq> NaN"
    using d by (simp add: r round_magnitude_def Let_def)
  then show "unit_f64 (progress_at w now)"
    unfolding progress_at_def unit_f64_def
    by (intro f64_clamp_in_range) (simp_all add: f64_le_def f64_zero_def f64_one_def f64_val_def)
  show "binary64 (progress_at w now)"
    unfolding progress_at_def
    by (simp add: elapsed_seconds_def window_duration_seconds_def secs_or_infinity_def Let_def)
qed

section \<open>Rolling windows\<close>

text \<open>What is used of the span arithmetic of \<open>chrono\<close>: whole seconds are counted towards zero, and sums and
  spans that are returned are exact.\<close>

definition NANOS :: int where "NANOS = 10 ^ 9"

definition lawful_spans :: "chrono \<Rightarrow> bool" where
  "lawful_spans ch \<longleftrightarrow>
     (\<forall>d. ch_num_seconds ch d = (if 0 \<le> d then d div NANOS else - (- d div NANOS)))
   \<and> (\<forall>s d. ch_seconds ch s = Some d \<longrightarrow> d = s * NANOS)
   \<and> (\<forall>t d u. ch_checked_add_signed ch t d = Some u \<longrightarrow> u = t + d)"

lemma add_seconds_exact:
  "lawful_spans ch \<Longrightarrow> add_seconds ch t s = Some (Inr u) \<Longrightarrow> u = t + s * NANOS"
  by (auto simp: add_seconds_def lawful_spans_def)

lemma checked_mul_i64_Some: "checked_mul_i64 a b = Some c \<Longrightarrow> c = a * b"
  by (simp add: checked_mul_i64_def split: if_splits)

lemma rolling_window_Inr:
  assumes "lawful_spans ch" and "rolling_window ch policy now default_seconds = Some (Inr w)"
  obtains anchor seconds where "rp_rolling_anchor policy = Some anchor" "0 < seconds"
    "seconds = (case rp_rolling_period_seconds policy of Some s \<Rightarrow> s | None \<Rightarrow> default_seconds)"
    "pw_started_at w = anchor + ch_num_seconds ch (now - anchor) div seconds * seconds * NANOS"
    "pw_resets_at w = pw_started_at w + seconds * NANOS"
proof -
  define seconds where "seconds = (case rp_rolling_period_seconds policy of Some s \<Rightarrow> s | None \<Rightarrow> default_seconds)"
  obtain anchor where a: "rp_rolling_anchor policy = Some anchor"
    using assms(2) by (auto simp: rolling_window_def split: option.splits)
  have pos: "0 < seconds"
    using assms(2) by (auto simp: rolling_window_def a seconds_def [symmetric] Let_def split: if_splits)
  then obtain offset start reset where
    "checked_mul_i64 (ch_num_seconds ch (now - anchor) div seconds) seconds = Some offset"
    and st: "add_seconds ch anchor offset = Some (Inr start)"
    and re: "add_seconds ch start seconds = Some (Inr reset)"
    and w: "PeriodWindow_new start reset = Inr w"
    using assms(2)
    by (auto simp: rolling_window_def a seconds_def [symmetric] Let_def and_then_eq_Inr bind_eq_Some_conv
        split: option.splits sum.splits if_splits)
  then show thesis
    using that [OF a pos seconds_def] add_seconds_exact [OF assms(1) st] add_seconds_exact [OF assms(1) re]
      checked_mul_i64_Some by (auto simp: PeriodWindow_new_def split: if_splits)
qed

text \<open>Truncation towards zero: an instant strictly between two whole seconds before the anchor counts as the
  later one.\<close>

lemma trunc_seconds:
  assumes "lawful_spans ch"
  shows "ch_num_seconds ch d = (if 0 \<le> d \<or> NANOS dvd d then d div NANOS else d div NANOS + 1)"
proof (cases "0 \<le> d")
  case False
  then have "ch_num_seconds ch d = - (- d div NANOS)" using assms by (simp add: lawful_spans_def)
  also have "\<dots> = (if NANOS dvd d then d div NANOS else d div NANOS + 1)"
    by (simp add: zdiv_zminus1_eq_if NANOS_def dvd_eq_mod_eq_0)
  finally show ?thesis using False by simp
qed (use assms in \<open>simp add: lawful_spans_def\<close>)

lemma rolling_slot:
  fixes d s e :: int
  assumes "0 < s" and "e = (if 0 \<le> d \<or> NANOS dvd d then d div NANOS else d div NANOS + 1)"
  shows "e div s * s * NANOS \<le> d \<and> d < e div s * s * NANOS + s * NANOS \<longleftrightarrow>
     0 \<le> d \<or> NANOS dvd d \<or> \<not> s dvd e"
proof -
  define k m where "k = e div s" and "m = e mod s"
  have e: "e = k * s + m" "0 \<le> m" "m < s" using assms(1) by (simp_all add: k_def m_def)
  define f r where "f = d div NANOS" and "r = d mod NANOS"
  have d: "d = f * NANOS + r" "0 \<le> r" "r < NANOS" by (simp_all add: f_def r_def NANOS_def)
  have dv: "NANOS dvd d \<longleftrightarrow> r = 0" "s dvd e \<longleftrightarrow> m = 0" by (simp_all add: r_def m_def dvd_eq_mod_eq_0)
  show ?thesis
  proof (cases "0 \<le> d \<or> r = 0")
    case True
    then have "e = f" using assms(2) by (simp add: dv(1) f_def)
    then have "f = k * s + m" using e(1) by simp
    then have "d = (k * s + m) * NANOS + r" using d(1) by simp
    then have "k * s * NANOS \<le> d \<and> d < k * s * NANOS + s * NANOS"
      using e(2,3) d(2,3) by (simp add: NANOS_def)
    then show ?thesis using True by (auto simp: dv k_def)
  next
    case False
    then have "e = f + 1" using assms(2) by (simp add: dv(1) f_def)
    then have "f = k * s + m - 1" using e(1) by simp
    then have "d = (k * s + m - 1) * NANOS + r" using d(1) by simp
    then have "k * s * NANOS \<le> d \<and> d < k * s * NANOS + s * NANOS \<longleftrightarrow> m \<noteq> 0"
      using e(2,3) d(2,3) by (auto simp: NANOS_def)
    then show ?thesis using False by (simp add: dv k_def)
  qed
qed

text \<open>C38: a rolling window has the configured length, starts a whole number of periods from the anchor, and
  contains the instant it was computed for, except for one case: an instant before the anchor that is not on
  a whole second and whose truncated distance is a whole number of periods lies before its window.\<close>

theorem rolling_window_contains_now:
  assumes "lawful_spans ch" and "rolling_window ch policy now default_seconds = Some (Inr w)"
    and "rp_rolling_anchor policy = Some anchor"
    and "seconds = (case rp_rolling_period_seconds policy of Some s \<Rightarrow> s | None \<Rightarrow> default_seconds)"
  shows "pw_resets_at w - pw_started_at w = seconds * NANOS \<and> seconds * NANOS dvd pw_started_at w - anchor
       \<and> (pw_started_at w \<le> now \<and> now < pw_resets_at w \<longleftrightarrow>
            anchor \<le> now \<or> NANOS dvd now - anchor \<or> \<not> seconds dvd ch_num_seconds ch (now - anchor))"
proof -
  define e where "e = ch_num_seconds ch (now - anchor)"
  obtain a s where as: "rp_rolling_anchor policy = Some a" "0 < s"
    "s = (case rp_rolling_period_seconds policy of Some s \<Rightarrow> s | None \<Rightarrow> default_seconds)"
    "pw_started_at w = a + ch_num_seconds ch (now - a) div s * s * NANOS"
    "pw_resets_at w = pw_started_at w + s * NANOS"
    using rolling_window_Inr [OF assms(1,2)] .
  have "a = anchor" "s = seconds" using as(1,3) assms(3,4) by simp_all
  then have w: "0 < seconds" "pw_started_at w = anchor + e div seconds * seconds * NANOS"
    "pw_resets_at w = pw_started_at w + seconds * NANOS"
    using as(2,4,5) by (simp_all only: e_def)
  define x y where "x = e div seconds * seconds * NANOS" and "y = seconds * NANOS"
  have "x \<le> now - anchor \<and> now - anchor < x + y \<longleftrightarrow>
      0 \<le> now - anchor \<or> NANOS dvd now - anchor \<or> \<not> seconds dvd e"
    unfolding x_def y_def by (rule rolling_slot [OF w(1)]) (simp add: e_def trunc_seconds [OF assms(1)])
  moreover have "pw_started_at w = anchor + x" "pw_resets_at w = anchor + x + y"
    using w(2,3) by (simp_all add: x_def y_def)
  moreover have "anchor + x \<le> now \<longleftrightarrow> x \<le> now - anchor" "now < anchor + x + y \<longleftrightarrow> now - anchor < x + y"
    "anchor \<le> now \<longleftrightarrow> 0 \<le> now - anchor" by linarith+
  ultimately have "pw_started_at w \<le> now \<and> now < pw_resets_at w \<longleftrightarrow>
      anchor \<le> now \<or> NANOS dvd now - anchor \<or> \<not> seconds dvd e"
    by metis
  moreover have "seconds * NANOS dvd pw_started_at w - anchor" by (simp add: w(2) mult.assoc)
  ultimately show ?thesis by (simp add: w(3) e_def)
qed

text \<open>A concrete \<open>chrono\<close>: the spans of the crate, and for the calendar a zone without offset in which every
  month has 31 days.\<close>

definition sample_chrono :: chrono where
  "sample_chrono =
     \<lparr> ch_num_seconds = (\<lambda>d. if 0 \<le> d then d div NANOS else - (- d div NANOS)),
       ch_seconds = (\<lambda>s. if \<bar>s\<bar> \<le> 9223372036854775 then Some (s * NANOS) else None),
       ch_minutes = (\<lambda>m. m * 60 * NANOS),
       ch_checked_add_signed = (\<lambda>t d. if \<bar>t + d\<bar> < 2 ^ 73 then Some (t + d) else None),
       ch_naive_checked_add_signed = (\<lambda>t d. if \<bar>t + d\<bar> < 2 ^ 73 then Some (t + d) else None),
       ch_naive_local = (\<lambda>_ t. t),
       ch_from_local_datetime = (\<lambda>_ v. Single v),
       ch_date = (\<lambda>v. v div (86400 * NANOS)),
       ch_and_midnight = (\<lambda>x. Some (x * (86400 * NANOS))),
       ch_succ_opt = (\<lambda>x. Some (x + 1)),
       ch_pred_opt = (\<lambda>x. Some (x - 1)),
       ch_from_ymd_opt = (\<lambda>y m d. if 1 \<le> m \<and> m \<le> 12 \<and> 1 \<le> d \<and> d \<le> 31
                                   then Some (372 * y + 31 * (int m - 1) + (int d - 1)) else None),
       ch_year = (\<lambda>x. x div 372),
       ch_month = (\<lambda>x. nat (x mod 372 div 31 + 1)),
       ch_day = (\<lambda>x. nat (x mod 31 + 1)) \<rparr>"

lemma sample_chrono_fields:
  "ch_num_seconds sample_chrono d = (if 0 \<le> d then d div NANOS else - (- d div NANOS))"
  "ch_seconds sample_chrono s = (if \<bar>s\<bar> \<le> 9223372036854775 then Some (s * NANOS) else None)"
  "ch_checked_add_signed sample_chrono t d = (if \<bar>t + d\<bar> < 2 ^ 73 then Some (t + d) else None)"
  "ch_minutes sample_chrono q = q * 60 * NANOS"
  "ch_naive_checked_add_signed sample_chrono v d = (if \<bar>v + d\<bar> < 2 ^ 73 then Some (v + d) else None)"
  "ch_naive_local sample_chrono timezone t = t"
  "ch_from_local_datetime sample_chrono timezone v = Single v"
  "ch_date sample_chrono v = v div (86400 * NANOS)"
  "ch_and_midnight sample_chrono x = Some (x * (86400 * NANOS))"
  "ch_succ_opt sample_chrono x = Some (x + 1)"
  "ch_pred_opt sample_chrono x = Some (x - 1)"
  "ch_from_ymd_opt sample_chrono y m k =
     (if 1 \<le> m \<and> m \<le> 12 \<and> 1 \<le> k \<and> k \<le> 31 then Some (372 * y + 31 * (int m - 1) + (int k - 1)) else None)"
  "ch_year sample_chrono x = x div 372"
  "ch_month sample_chrono x = nat (x mod 372 div 31 + 1)"
  "ch_day sample_chrono x = nat (x mod 31 + 1)"
  by (simp_all only: sample_chrono_def chrono.simps)

lemma sample_lawful_spans: "lawful_spans sample_chrono"
  by (simp add: lawful_spans_def sample_chrono_def)

text \<open>A one-hour window anchored at the epoch, computed half a second before the anchor, starts after that
  instant.\<close>

definition sample_rolling :: ResetPolicy where
  "sample_rolling =
     \<lparr> rp_quota_period = RollingDay, rp_timezone = ''UTC'', rp_reset_day = None,
       rp_rolling_anchor = Some 0, rp_rolling_period_seconds = Some 3600,
       rp_custom_started_at = None, rp_custom_resets_at = None \<rparr>"

lemma sample_rolling_window:
  "rolling_window sample_chrono sample_rolling (- 500000000) 86400 =
     Some (Inr \<lparr> pw_started_at = 0, pw_resets_at = 3600 * NANOS \<rparr>)"
  by (simp add: rolling_window_def sample_chrono_def sample_rolling_def NANOS_def checked_mul_i64_def
      add_seconds_def ok_or_def PeriodWindow_new_def)

theorem rolling_window_contains_now_witness:
  "\<exists>w. rolling_window sample_chrono sample_rolling (- 500000000) 86400 = Some (Inr w)
     \<and> pw_resets_at w - pw_started_at w = 3600 * NANOS
     \<and> \<not> (pw_started_at w \<le> - 500000000 \<and> - 500000000 < pw_resets_at w)"
proof -
  have "rp_rolling_anchor sample_rolling = Some 0"
    "3600 = (case rp_rolling_period_seconds sample_rolling of Some s \<Rightarrow> s | None \<Rightarrow> 86400)"
    by (simp_all add: sample_rolling_def)
  note rolling_window_contains_now [OF sample_lawful_spans sample_rolling_window this]
  moreover have "ch_num_seconds sample_chrono (- 500000000 - 0) = 0" by (simp add: sample_chrono_def NANOS_def)
  moreover have "\<not> NANOS dvd - 500000000 - 0" by (simp add: NANOS_def)
  ultimately show ?thesis using sample_rolling_window
    by (intro exI [of _ "\<lparr> pw_started_at = 0, pw_resets_at = 3600 * NANOS \<rparr>"] conjI) simp_all
qed

text \<open>A configured period beyond the range of \<open>Duration::seconds\<close> panics instead of returning
  \<open>DateOverflow\<close>.\<close>

lemma rolling_window_panics:
  assumes "rp_rolling_anchor policy = Some anchor" and "rp_rolling_period_seconds policy = Some seconds"
    and "0 < seconds" and "ch_seconds ch seconds = None"
    and "ch_num_seconds ch (now - anchor) div seconds = 0" and "ch_seconds ch 0 = Some 0"
    and "ch_checked_add_signed ch anchor 0 = Some anchor"
  shows "rolling_window ch policy now default_seconds = None"
  using assms by (simp add: rolling_window_def Let_def checked_mul_i64_def add_seconds_def ok_or_def)

section \<open>Calendar windows\<close>

text \<open>What is used of the calendar: dates are ordered as their year and month are, the day after a date is
  the next one in the order, and midnight is where a date begins.\<close>

definition month_before :: "int \<times> nat \<Rightarrow> int \<times> nat \<Rightarrow> bool" where
  "month_before a b \<longleftrightarrow> fst a < fst b \<or> fst a = fst b \<and> snd a < snd b"

definition lawful_calendar :: "chrono \<Rightarrow> bool" where
  "lawful_calendar ch \<longleftrightarrow>
     (\<forall>y m d x z. ch_from_ymd_opt ch y m d = Some x \<longrightarrow>
        (month_before (ch_year ch z, ch_month ch z) (y, m) \<longrightarrow> z < x)
        \<and> (month_before (y, m) (ch_year ch z, ch_month ch z) \<longrightarrow> x < z))
   \<and> (\<forall>x y z. ch_succ_opt ch x = Some y \<longrightarrow> (y \<le> z \<longleftrightarrow> x < z))
   \<and> (\<forall>x n v. ch_and_midnight ch x = Some n \<longrightarrow> (n \<le> v \<longleftrightarrow> x \<le> ch_date ch v))"

text \<open>What is used of the clock of a zone: \<open>from_local_datetime\<close> gives the instants whose local time is the given one, none, one or two of
  them, and adding a minute is exact. A zone may set its clock forward and back at any time.\<close>

definition MINUTE :: int where "MINUTE = 60 * NANOS"

definition lawful_clock :: "chrono \<Rightarrow> Tz \<Rightarrow> bool" where
  "lawful_clock ch timezone \<longleftrightarrow>
     (\<forall>v. {t. ch_naive_local ch timezone t = v} =
        (case ch_from_local_datetime ch timezone v of LocalNone \<Rightarrow> {} | Single t \<Rightarrow> {t} | Ambiguous t u \<Rightarrow> {t, u}))
   \<and> (\<forall>v v'. ch_naive_checked_add_signed ch v (ch_minutes ch 1) = Some v' \<longrightarrow> v' = v + MINUTE)"

text \<open>The first instant at which the clock shows the first whole minute it ever shows from a given local time on, within three hours.\<close>

definition first_shown :: "chrono \<Rightarrow> Tz \<Rightarrow> NaiveDateTime \<Rightarrow> DateTime \<Rightarrow> bool" where
  "first_shown ch timezone n b \<longleftrightarrow>
     (\<exists>k \<le> 180. ch_naive_local ch timezone b = n + int k * MINUTE
        \<and> (\<forall>t. ch_naive_local ch timezone t = n + int k * MINUTE \<longrightarrow> b \<le> t)
        \<and> (\<forall>j < k. \<forall>t. ch_naive_local ch timezone t \<noteq> n + int j * MINUTE))"

lemma resolve_attempts_first:
  assumes "lawful_clock ch timezone"
  shows "resolve_attempts ch timezone a v = Inr b \<Longrightarrow> \<exists>k < a. ch_naive_local ch timezone b = v + int k * MINUTE
      \<and> (\<forall>t. ch_naive_local ch timezone t = v + int k * MINUTE \<longrightarrow> b \<le> t)
      \<and> (\<forall>j < k. \<forall>t. ch_naive_local ch timezone t \<noteq> v + int j * MINUTE)"
proof (induction a arbitrary: v)
  case (Suc a)
  have law: "{t. ch_naive_local ch timezone t = v} =
      (case ch_from_local_datetime ch timezone v of LocalNone \<Rightarrow> {} | Single t \<Rightarrow> {t} | Ambiguous t u \<Rightarrow> {t, u})"
    using assms unfolding lawful_clock_def by blast
  show ?case
  proof (cases "ch_from_local_datetime ch timezone v")
    case LocalNone
    then obtain v' where v': "ch_naive_checked_add_signed ch v (ch_minutes ch 1) = Some v'" "resolve_attempts ch timezone a v' = Inr b"
      using Suc.prems by (auto split: option.splits)
    have "v' = v + MINUTE" using assms v'(1) unfolding lawful_clock_def by blast
    moreover obtain k where k: "k < a" "ch_naive_local ch timezone b = v' + int k * MINUTE"
        "\<forall>t. ch_naive_local ch timezone t = v' + int k * MINUTE \<longrightarrow> b \<le> t" "\<forall>j < k. \<forall>t. ch_naive_local ch timezone t \<noteq> v' + int j * MINUTE"
      using Suc.IH [OF v'(2)] by blast
    moreover have shift: "v + MINUTE + int j * MINUTE = v + int (Suc j) * MINUTE" for j by (simp add: algebra_simps)
    moreover have "ch_naive_local ch timezone t \<noteq> v + int j * MINUTE" if "j < Suc k" for j t
      using that k(4) law LocalNone \<open>v' = v + MINUTE\<close> shift by (cases j) auto
    ultimately show ?thesis by (intro exI [of _ "Suc k"]) auto
  next
    case (Single t)
    then show ?thesis using Suc.prems law by (intro exI [of _ 0]) auto
  next
    case (Ambiguous t u)
    then have b: "b = min t u" and law: "{x. ch_naive_local ch timezone x = v} = {t, u}" using Suc.prems law by simp_all
    have "ch_naive_local ch timezone b = v" using b law by (cases "t \<le> u") (auto simp: min_def)
    moreover have "b \<le> x" if "ch_naive_local ch timezone x = v" for x
    proof -
      have "x = t \<or> x = u" using that law by blast
      then show ?thesis using b by auto
    qed
    ultimately show ?thesis by (intro exI [of _ 0]) simp
  qed
qed simp

lemma midnight_boundary_first:
  assumes "lawful_clock ch timezone" and "midnight_boundary ch timezone x = Inr b"
  obtains n where "ch_and_midnight ch x = Some n" "first_shown ch timezone n b"
proof -
  obtain n where n: "ch_and_midnight ch x = Some n" "resolve_attempts ch timezone 181 n = Inr b"
    using assms(2) by (auto simp: midnight_boundary_def midnight_def resolve_boundary_def and_then_eq_Inr)
  obtain k where "k < 181" "ch_naive_local ch timezone b = n + int k * MINUTE"
    "\<forall>t. ch_naive_local ch timezone t = n + int k * MINUTE \<longrightarrow> b \<le> t" "\<forall>j < k. \<forall>t. ch_naive_local ch timezone t \<noteq> n + int j * MINUTE"
    using resolve_attempts_first [OF assms(1) n(2)] by blast
  then have "first_shown ch timezone n b" unfolding first_shown_def by (intro exI [of _ k]) simp
  then show ?thesis using that n(1) by blast
qed

text \<open>An instant before the boundary whose date has begun, and one from the boundary on whose date is still before.\<close>

lemma first_shown_order:
  assumes "first_shown ch timezone n b"
  shows "n \<le> ch_naive_local ch timezone t \<Longrightarrow> t < b \<Longrightarrow>
      ch_naive_local ch timezone b < ch_naive_local ch timezone t \<or> ch_naive_local ch timezone t < ch_naive_local ch timezone b"
    and "ch_naive_local ch timezone t < n \<Longrightarrow> ch_naive_local ch timezone t < ch_naive_local ch timezone b"
proof -
  obtain k where k: "ch_naive_local ch timezone b = n + int k * MINUTE" "\<And>t. ch_naive_local ch timezone t = n + int k * MINUTE \<Longrightarrow> b \<le> t"
    using assms unfolding first_shown_def by blast
  show "ch_naive_local ch timezone b < ch_naive_local ch timezone t \<or> ch_naive_local ch timezone t < ch_naive_local ch timezone b" if "t < b"
    using that k(1) k(2) [of t] by linarith
  have "0 \<le> int k * MINUTE" by (simp add: MINUTE_def NANOS_def)
  then show "ch_naive_local ch timezone t < ch_naive_local ch timezone b" if "ch_naive_local ch timezone t < n" using that k(1) by linarith
qed

lemma month_reset_order:
  assumes "lawful_calendar ch" and "month_reset ch y m reset_day = Inr x"
  shows "month_before (ch_year ch z, ch_month ch z) (y, m) \<Longrightarrow> z < x"
    and "month_before (y, m) (ch_year ch z, ch_month ch z) \<Longrightarrow> x < z"
  using assms unfolding lawful_calendar_def by (auto simp: month_reset_def and_then_eq_Inr)

lemma next_month_before: "next_month y m = Inr r \<Longrightarrow> month_before (y, m) r"
  by (auto simp: next_month_def month_before_def split: if_splits)

lemma previous_month_before: "previous_month y m = Inr r \<Longrightarrow> month_before r (y, m)"
  by (auto simp: previous_month_def month_before_def split: if_splits)

lemma PeriodWindow_new_Inr:
  "PeriodWindow_new a b = Inr w \<longleftrightarrow> a < b \<and> w = \<lparr> pw_started_at = a, pw_resets_at = b \<rparr>"
  by (auto simp: PeriodWindow_new_def)

text \<open>The dates on which a window begins and ends: those of the day, and the reset days of two months in a row around the month of the
  instant.\<close>

definition window_dates :: "chrono \<Rightarrow> ResetPolicy \<Rightarrow> NaiveDate \<Rightarrow> NaiveDate \<Rightarrow> NaiveDate \<Rightarrow> bool" where
  "window_dates ch policy date opens closes \<longleftrightarrow>
     (let d = (case rp_reset_day policy of Some d \<Rightarrow> d | None \<Rightarrow> 1); y = ch_year ch date; m = ch_month ch date in
      if rp_quota_period policy = CalendarDay then opens = date \<and> ch_succ_opt ch date = Some closes
      else (\<exists>y' m'. next_month y m = Inr (y', m') \<and> month_reset ch y m d = Inr opens \<and> month_reset ch y' m' d = Inr closes)
         \<or> (\<exists>y' m'. previous_month y m = Inr (y', m') \<and> month_reset ch y' m' d = Inr opens \<and> month_reset ch y m d = Inr closes))"

text \<open>The window of an instant, with the order of its dates around the date of the instant.\<close>

lemma calendar_window_dates:
  assumes "lawful_calendar ch" "rp_quota_period policy = CalendarDay \<or> rp_quota_period policy = CalendarMonth"
    and "period_window ch policy now = Some (Inr w)" "date = ch_date ch (ch_naive_local ch (rp_timezone policy) now)"
  obtains opens closes where "window_dates ch policy date opens closes"
    "midnight_boundary ch (rp_timezone policy) opens = Inr (pw_started_at w)" "midnight_boundary ch (rp_timezone policy) closes = Inr (pw_resets_at w)"
    "opens \<le> date \<or> pw_started_at w \<le> now" "date < closes \<or> now < pw_resets_at w" "pw_started_at w < pw_resets_at w"
proof (cases "rp_quota_period policy = CalendarDay")
  case True
  then have "calendar_day_window ch (rp_timezone policy) now = Inr w" using assms(3) by (simp add: period_window_def)
  then obtain nd where nd: "ch_succ_opt ch date = Some nd" "midnight_boundary ch (rp_timezone policy) date = Inr (pw_started_at w)"
    "midnight_boundary ch (rp_timezone policy) nd = Inr (pw_resets_at w)" "pw_started_at w < pw_resets_at w"
    by (auto simp: calendar_day_window_def assms(4) and_then_eq_Inr PeriodWindow_new_Inr Let_def)
  moreover have "date < nd" using assms(1) nd(1) unfolding lawful_calendar_def by blast
  ultimately show ?thesis using that [of date nd] True by (simp add: window_dates_def)
next
  case False
  define d where "d = (case rp_reset_day policy of Some d \<Rightarrow> d | None \<Rightarrow> 1)"
  let ?y = "ch_year ch date" and ?m = "ch_month ch date" and ?b = "midnight_boundary ch (rp_timezone policy)"
  have month: "calendar_month_window ch (rp_timezone policy) d now = Inr w"
    using False assms(2,3) by (simp add: period_window_def d_def)
  note unfold = calendar_month_window_def assms(4) [symmetric] and_then_eq_Inr PeriodWindow_new_Inr Let_def
  obtain x boundary where cur: "month_reset ch ?y ?m d = Inr x" "?b x = Inr boundary" using month by (auto simp: unfold split: if_splits)
  show ?thesis
  proof (cases "boundary \<le> now")
    case True
    then obtain ny nm nx where n: "next_month ?y ?m = Inr (ny, nm)" "month_reset ch ny nm d = Inr nx" "?b nx = Inr (pw_resets_at w)"
      "pw_started_at w = boundary" "pw_started_at w < pw_resets_at w"
      using month cur by (auto simp: unfold split: if_splits)
    have "date < nx" using month_reset_order(1) [OF assms(1) n(2)] next_month_before [OF n(1)] .
    then show ?thesis using that [of x nx] True False cur n by (simp add: window_dates_def d_def [symmetric])
  next
    case later: False
    then obtain py pm px where p: "previous_month ?y ?m = Inr (py, pm)" "month_reset ch py pm d = Inr px" "?b px = Inr (pw_started_at w)"
      "pw_resets_at w = boundary" "pw_started_at w < pw_resets_at w"
      using month cur by (auto simp: unfold split: if_splits)
    have "px < date" using month_reset_order(2) [OF assms(1) p(2)] previous_month_before [OF p(1)] .
    then show ?thesis using that [of px x] later False cur p by (simp add: window_dates_def d_def [symmetric])
  qed
qed

text \<open>C37: a calendar window lies around the instant it is computed for, as far as the clock of the zone allows. It runs from the first instant
  that shows the beginning of the day, or of the reset day, to the first that shows the beginning of the next one, for every reset day,
  including those that do not exist in a month, and for every zone. The instant is before the window only when the clock is set back on the way
  to its start, or when the instant shows a time between midnight and the first whole minute the clock shows; it is after the window only when the
  clock was set back after its end.\<close>

theorem calendar_window_surrounds_now:
  assumes "lawful_calendar ch" and "lawful_clock ch (rp_timezone policy)"
    and "rp_quota_period policy = CalendarDay \<or> rp_quota_period policy = CalendarMonth"
    and "period_window ch policy now = Some (Inr w)"
  shows "\<exists>opens closes n m. window_dates ch policy (ch_date ch (ch_naive_local ch (rp_timezone policy) now)) opens closes
       \<and> ch_and_midnight ch opens = Some n \<and> first_shown ch (rp_timezone policy) n (pw_started_at w)
       \<and> ch_and_midnight ch closes = Some m \<and> first_shown ch (rp_timezone policy) m (pw_resets_at w)
       \<and> pw_started_at w < pw_resets_at w
       \<and> (now < pw_started_at w \<longrightarrow>
            ch_naive_local ch (rp_timezone policy) (pw_started_at w) < ch_naive_local ch (rp_timezone policy) now
            \<or> n \<le> ch_naive_local ch (rp_timezone policy) now
              \<and> ch_naive_local ch (rp_timezone policy) now < ch_naive_local ch (rp_timezone policy) (pw_started_at w))
       \<and> (pw_resets_at w \<le> now \<longrightarrow>
            ch_naive_local ch (rp_timezone policy) now < ch_naive_local ch (rp_timezone policy) (pw_resets_at w))"
proof -
  let ?local = "ch_naive_local ch (rp_timezone policy)"
  obtain opens closes where d: "window_dates ch policy (ch_date ch (?local now)) opens closes"
    "midnight_boundary ch (rp_timezone policy) opens = Inr (pw_started_at w)" "midnight_boundary ch (rp_timezone policy) closes = Inr (pw_resets_at w)"
    "opens \<le> ch_date ch (?local now) \<or> pw_started_at w \<le> now" "ch_date ch (?local now) < closes \<or> now < pw_resets_at w"
    "pw_started_at w < pw_resets_at w"
    using calendar_window_dates [OF assms(1,3,4) refl] .
  obtain n where n: "ch_and_midnight ch opens = Some n" "first_shown ch (rp_timezone policy) n (pw_started_at w)"
    using midnight_boundary_first [OF assms(2) d(2)] .
  obtain m where m: "ch_and_midnight ch closes = Some m" "first_shown ch (rp_timezone policy) m (pw_resets_at w)"
    using midnight_boundary_first [OF assms(2) d(3)] .
  have begins: "k \<le> v \<longleftrightarrow> x \<le> ch_date ch v" if "ch_and_midnight ch x = Some k" for x k v
    using assms(1) that unfolding lawful_calendar_def by blast
  have "?local (pw_started_at w) < ?local now \<or> n \<le> ?local now \<and> ?local now < ?local (pw_started_at w)" if "now < pw_started_at w"
    using that d(4) begins [OF n(1)] first_shown_order(1) [OF n(2) _ that] by auto
  moreover have "?local now < ?local (pw_resets_at w)" if "pw_resets_at w \<le> now"
    using that d(5) begins [OF m(1)] first_shown_order(2) [OF m(2)] by (meson not_le)
  ultimately show ?thesis using d(1,6) n m by blast
qed

lemma grid_order:
  fixes y z :: int and m d :: nat
  assumes "1 \<le> m" "m \<le> 12" "1 \<le> d" "d \<le> 31"
  shows "month_before (z div 372, nat (z mod 372 div 31 + 1)) (y, m) \<Longrightarrow> z < 372 * y + 31 * (int m - 1) + (int d - 1)"
    and "month_before (y, m) (z div 372, nat (z mod 372 div 31 + 1)) \<Longrightarrow> 372 * y + 31 * (int m - 1) + (int d - 1) < z"
proof -
  define q r where "q = z div 372" and "r = z mod 372"
  define g where "g = r div 31"
  have z: "z = 372 * q + r" "0 \<le> r" "r < 372" by (simp_all add: q_def r_def)
  have g: "31 * g \<le> r" "r < 31 * g + 31" unfolding g_def using z by presburger+
  have "0 \<le> g" using g z by simp
  have k: "nat (z mod 372 div 31 + 1) < m \<longleftrightarrow> g + 1 < int m" "m < nat (z mod 372 div 31 + 1) \<longleftrightarrow> int m < g + 1"
    using \<open>0 \<le> g\<close> by (simp_all add: r_def [symmetric] g_def [symmetric]) linarith+
  show "z < 372 * y + 31 * (int m - 1) + (int d - 1)"
    if "month_before (z div 372, nat (z mod 372 div 31 + 1)) (y, m)"
  proof -
    have "q < y \<or> q = y \<and> g + 1 < int m" using that by (simp add: month_before_def k q_def)
    then show ?thesis using z g assms by auto
  qed
  show "372 * y + 31 * (int m - 1) + (int d - 1) < z"
    if "month_before (y, m) (z div 372, nat (z mod 372 div 31 + 1))"
  proof -
    have "y < q \<or> y = q \<and> int m < g + 1" using that by (simp add: month_before_def k q_def)
    then show ?thesis using z g assms by auto
  qed
qed

lemma le_div_iff_mult:
  fixes x v c :: int
  assumes "0 < c"
  shows "x \<le> v div c \<longleftrightarrow> x * c \<le> v"
proof
  assume "x \<le> v div c"
  then have "x * c \<le> v div c * c" using assms by (simp add: mult_right_mono)
  also have "\<dots> = v - v mod c" by (simp add: minus_mod_eq_div_mult)
  also have "\<dots> \<le> v" using pos_mod_sign [OF assms, of v] by simp
  finally show "x * c \<le> v" .
next
  assume "x * c \<le> v"
  then have "x * c div c \<le> v div c" using assms by (rule zdiv_mono1)
  then show "x \<le> v div c" using assms by simp
qed

lemma sample_lawful_calendar: "lawful_calendar sample_chrono"
proof (unfold lawful_calendar_def, intro conjI allI impI)
  fix y z x :: int and m d :: nat
  assume x: "ch_from_ymd_opt sample_chrono y m d = Some x"
  show "z < x" if "month_before (ch_year sample_chrono z, ch_month sample_chrono z) (y, m)"
    using x that grid_order(1) [of m d z y] by (simp add: sample_chrono_fields split: if_splits)
  show "x < z" if "month_before (y, m) (ch_year sample_chrono z, ch_month sample_chrono z)"
    using x that grid_order(2) [of m d y z] by (simp add: sample_chrono_fields split: if_splits)
next
  fix x y z :: int
  show "y \<le> z \<longleftrightarrow> x < z" if "ch_succ_opt sample_chrono x = Some y"
    using that by (auto simp: sample_chrono_fields)
next
  fix x n v :: int
  assume n: "ch_and_midnight sample_chrono x = Some n"
  have "n = x * (86400 * NANOS)" using n by (simp add: sample_chrono_fields)
  then show "n \<le> v \<longleftrightarrow> x \<le> ch_date sample_chrono v"
    by (simp add: sample_chrono_fields le_div_iff_mult NANOS_def)
qed

lemma sample_resolve: "resolve_boundary sample_chrono timezone v = Inr v"
proof -
  have "(181 :: nat) = Suc 180" by simp
  then show ?thesis
    by (simp only: resolve_boundary_def resolve_attempts.simps sample_chrono_fields LocalResult.case)
qed

lemma sample_lawful_clock: "lawful_clock sample_chrono timezone"
  by (simp add: lawful_clock_def sample_chrono_fields MINUTE_def)

lemma sample_midnight_boundary: "midnight_boundary sample_chrono timezone x = Inr (x * (86400 * NANOS))"
  by (simp add: midnight_boundary_def midnight_def sample_resolve sample_chrono_fields ok_or_def)

lemma sample_month_reset:
  assumes "1 \<le> m" and "m \<le> 12" and "y < 1000"
  shows "month_reset sample_chrono y m 31 = Inr (372 * y + 31 * (int m - 1) + 30)"
proof -
  have "(30 + (12 * y + int m - 1) * 31) mod 31 = 30" "(30 + (12 * y + 11) * 31) mod 31 = 30"
    by (simp_all only: mod_mult_self1) simp_all
  moreover have "30 + (12 * y + int m - 1) * 31 = 372 * y + 31 * int m - 1" "30 + (12 * y + 11) * 31 = 372 * (y + 1) - 1"
    by (simp_all add: algebra_simps)
  ultimately have "(372 * y + 31 * int m - 1) mod 31 = 30" "(372 * (y + 1) - 1) mod 31 = 30" by metis+
  then have "days_in_month sample_chrono y m = Inr 31"
    using assms by (cases "m = 12") (simp_all add: days_in_month_def next_month_def sample_chrono_fields ok_or_def)
  then show ?thesis using assms by (simp add: month_reset_def sample_chrono_fields ok_or_def)
qed

theorem calendar_window_surrounds_now_witness:
  "period_window sample_chrono (ResetPolicy_calendar_month ''UTC'' 31) 0 =
     Some (Inr \<lparr> pw_started_at = - 1 * (86400 * NANOS), pw_resets_at = 30 * (86400 * NANOS) \<rparr>)
   \<and> (\<exists>n. first_shown sample_chrono ''UTC'' n (- 1 * (86400 * NANOS)))"
proof -
  have w: "period_window sample_chrono (ResetPolicy_calendar_month ''UTC'' 31) 0 =
     Some (Inr \<lparr> pw_started_at = - 1 * (86400 * NANOS), pw_resets_at = 30 * (86400 * NANOS) \<rparr>)"
    by (simp add: period_window_def ResetPolicy_calendar_month_def calendar_month_window_def sample_chrono_fields
        sample_month_reset sample_midnight_boundary previous_month_def PeriodWindow_new_def NANOS_def)
  have "rp_quota_period (ResetPolicy_calendar_month ''UTC'' 31) = CalendarMonth" "rp_timezone (ResetPolicy_calendar_month ''UTC'' 31) = ''UTC''"
    by (simp_all add: ResetPolicy_calendar_month_def)
  then show ?thesis
    using w calendar_window_surrounds_now [OF sample_lawful_calendar sample_lawful_clock _ w] by auto
qed

text \<open>A clock that is set back by an hour one minute after midnight, as in St. John's until 2011. Seventy seconds after midnight it shows the
  evening before, and the window of that day has ended.\<close>

definition straddling_chrono :: chrono where
  "straddling_chrono = sample_chrono\<lparr>
     ch_naive_local := (\<lambda>_ t. if t < 86460 * NANOS then t else t - 3600 * NANOS),
     ch_from_local_datetime := (\<lambda>_ v. if v < 82860 * NANOS then Single v
       else if v < 86460 * NANOS then Ambiguous v (v + 3600 * NANOS) else Single (v + 3600 * NANOS))\<rparr>"

lemma straddling_lawful_clock: "lawful_clock straddling_chrono timezone"
  by (auto simp: lawful_clock_def straddling_chrono_def sample_chrono_fields MINUTE_def NANOS_def)

lemma straddling_window_misses_now:
  "period_window straddling_chrono (ResetPolicy_calendar_day ''America/St_Johns'') (86470 * NANOS) =
     Some (Inr \<lparr> pw_started_at = 0, pw_resets_at = 86400 * NANOS \<rparr>)"
proof -
  have "(181 :: nat) = Suc 180" by simp
  then have "resolve_boundary straddling_chrono tz 0 = Inr 0" "resolve_boundary straddling_chrono tz (86400 * NANOS) = Inr (86400 * NANOS)" for tz
    unfolding resolve_boundary_def straddling_chrono_def by (simp_all only: resolve_attempts.simps) (simp_all add: NANOS_def)
  then show ?thesis
    by (simp add: period_window_def ResetPolicy_calendar_day_def calendar_day_window_def midnight_boundary_def midnight_def
        straddling_chrono_def sample_chrono_fields ok_or_def PeriodWindow_new_def) (simp add: NANOS_def)
qed

end
