(* ===== verification/Budget.thy ===== *)
theory Budget
  imports Period
begin

text \<open>
  \<open>crates/orchestrator-policy/src/budget.rs\<close>: the forecast of a quota from a usage snapshot, its history
  and the quota window. All numbers are binary64 and every operation rounds.
\<close>

section \<open>Configuration\<close>

record ForecastConfig =
  fc_minimum_progress :: f64
  fc_grace_window_daily_seconds :: int
  fc_grace_window_monthly_seconds :: int
  fc_ewma_alpha :: f64
  fc_minimum_observations :: usize
  fc_reserve_percent :: f64
  fc_amber_safe_remaining_percent :: f64
  fc_green_safe_remaining_percent :: f64
  fc_hard_limit_remaining_percent :: f64
  fc_projected_limit_percent :: f64

definition ForecastConfig_default :: ForecastConfig where
  "ForecastConfig_default =
     \<lparr> fc_minimum_progress = f64_of_rat (5 / 100), fc_grace_window_daily_seconds = 60 * 60,
       fc_grace_window_monthly_seconds = 24 * 60 * 60, fc_ewma_alpha = f64_of_rat (3 / 10),
       fc_minimum_observations = 3, fc_reserve_percent = f64_of_int 15,
       fc_amber_safe_remaining_percent = f64_of_int 20, fc_green_safe_remaining_percent = f64_of_int 50,
       fc_hard_limit_remaining_percent = f64_of_int 5, fc_projected_limit_percent = f64_hundred \<rparr>"

datatype ForecastError =
    InvalidConfig string
  | Forecast_InvalidWindow
  | InvalidUsage UsageError

definition check_threshold :: "string \<times> f64 \<Rightarrow> ForecastError + unit" where
  "check_threshold nv =
     (if \<not> f64_is_finite (snd nv) \<or> \<not> f64_in_range f64_zero f64_hundred (snd nv)
      then Inl (InvalidConfig (fst nv)) else Inr ())"

definition config_validate :: "ForecastConfig \<Rightarrow> ForecastError + unit" where
  "config_validate c =
     (if \<not> f64_in_range f64_zero f64_one (fc_minimum_progress c) \<or> f64_eq (fc_minimum_progress c) f64_zero
      then Inl (InvalidConfig ''minimum_progress'')
      else if \<not> f64_in_range f64_zero f64_one (fc_ewma_alpha c) \<or> f64_eq (fc_ewma_alpha c) f64_zero
      then Inl (InvalidConfig ''ewma_alpha'')
      else if fc_minimum_observations c = 0 \<or> fc_grace_window_daily_seconds c < 0
              \<or> fc_grace_window_monthly_seconds c < 0
      then Inl (InvalidConfig ''observation maturity'')
      else
        and_then (try_each check_threshold
          [(''reserve_percent'', fc_reserve_percent c),
           (''amber_safe_remaining_percent'', fc_amber_safe_remaining_percent c),
           (''green_safe_remaining_percent'', fc_green_safe_remaining_percent c),
           (''hard_limit_remaining_percent'', fc_hard_limit_remaining_percent c),
           (''projected_limit_percent'', fc_projected_limit_percent c)]) (\<lambda>_.
        if f64_lt (fc_amber_safe_remaining_percent c) (fc_hard_limit_remaining_percent c)
           \<or> f64_lt (fc_green_safe_remaining_percent c) (fc_amber_safe_remaining_percent c)
        then Inl (InvalidConfig ''status thresholds'')
        else Inr ()))"

datatype ForecastStatus = Green | Amber | Red | Exhausted | Status_Unknown

record BudgetForecast =
  bf_provider :: ProviderId
  bf_quota_scope :: QuotaScope
  bf_confidence :: UsageConfidence
  bf_status :: ForecastStatus
  bf_period_progress :: f64
  bf_usage_progress :: "f64 option"
  bf_burn_index :: "f64 option"
  bf_projected_end_usage_percent :: "f64 option"
  bf_safe_remaining_percent :: "f64 option"
  bf_remaining_units :: "f64 option"
  bf_smoothed_usage_progress :: "f64 option"
  bf_observation_count :: usize
  bf_projection_mature :: bool
  bf_resets_at :: DateTime
  bf_rationale :: "string list"

section \<open>Smoothing\<close>

definition forecast_used_percent :: "UsageSnapshot \<Rightarrow> f64 option" where
  "forecast_used_percent s =
     or_else (effective_used_percent s)
       (map_option (\<lambda>remaining. f64_sub f64_hundred remaining) (effective_remaining_percent s))"

type_synonym sample = "DateTime \<times> f64 \<times> f64"

definition sample_of :: "UsageSnapshot \<Rightarrow> sample option" where
  "sample_of s =
     map_option (\<lambda>used. (us_collected_at s, f64_div used f64_hundred, confidence_weight (us_confidence s)))
       (forecast_used_percent s)"

definition same_quota :: "UsageSnapshot \<Rightarrow> UsageSnapshot \<Rightarrow> bool" where
  "same_quota snapshot s \<longleftrightarrow>
     us_provider s = us_provider snapshot \<and> us_quota_scope s = us_quota_scope snapshot
     \<and> us_confidence s \<noteq> Confidence_Unknown \<and> us_collected_at s \<le> us_collected_at snapshot"

text \<open>\<open>Vec::dedup_by\<close> on equal timestamps: of a run with the same timestamp the first sample stays.\<close>

fun dedup_samples :: "sample list \<Rightarrow> sample list" where
  "dedup_samples (a # b # xs) =
     (if fst b = fst a then dedup_samples (a # xs) else a # dedup_samples (b # xs))"
| "dedup_samples xs = xs"

definition forecast_samples :: "UsageSnapshot \<Rightarrow> UsageSnapshot list \<Rightarrow> sample list" where
  "forecast_samples snapshot history =
     dedup_samples (sort_key fst
       (List.map_filter sample_of (filter (same_quota snapshot) history)
        @ (if us_confidence snapshot \<noteq> Confidence_Unknown
           then (case sample_of snapshot of None \<Rightarrow> [] | Some x \<Rightarrow> [x]) else [])))"

definition smooth :: "f64 \<Rightarrow> sample \<Rightarrow> f64 option \<Rightarrow> f64 option" where
  "smooth alpha x smoothed =
     Some (case smoothed of
             None \<Rightarrow> fst (snd x)
           | Some previous \<Rightarrow>
               (let effective_alpha = f64_mul alpha (snd (snd x)) in
                f64_add (f64_mul effective_alpha (fst (snd x)))
                        (f64_mul (f64_sub f64_one effective_alpha) previous)))"

definition smoothed_progress :: "UsageSnapshot \<Rightarrow> UsageSnapshot list \<Rightarrow> f64 \<Rightarrow> f64 option \<times> usize" where
  "smoothed_progress snapshot history alpha =
     (let samples = forecast_samples snapshot history in
      (fold (smooth alpha) samples None, of_nat (length samples)))"

section \<open>Forecast\<close>

definition grace_seconds :: "ForecastConfig \<Rightarrow> QuotaPeriod \<Rightarrow> int" where
  "grace_seconds c period =
     (case period of
        CalendarDay \<Rightarrow> fc_grace_window_daily_seconds c
      | RollingDay \<Rightarrow> fc_grace_window_daily_seconds c
      | CalendarMonth \<Rightarrow> fc_grace_window_monthly_seconds c
      | RollingMonth \<Rightarrow> fc_grace_window_monthly_seconds c
      | Period_Custom \<Rightarrow> fc_grace_window_monthly_seconds c)"

definition classify ::
    "ForecastConfig \<Rightarrow> UsageSnapshot \<Rightarrow> bool \<Rightarrow> f64 option \<Rightarrow> f64 option \<Rightarrow> f64 option \<Rightarrow> f64 option \<Rightarrow> bool
     \<Rightarrow> ForecastStatus \<times> string" where
  "classify c snapshot quota_exceeded_error used remaining safe_remaining projected mature =
     (if quota_exceeded_error \<or> is_confirmed_exhausted snapshot
      then (Exhausted, ''provider reported quota exhaustion or confirmed remaining is zero'')
      else if us_confidence snapshot = Confidence_Unknown \<or> remaining = None \<or> used = None
      then (Status_Unknown, ''reliable usage and remaining values are unavailable'')
      else if is_some_and remaining (\<lambda>r. f64_le r (fc_hard_limit_remaining_percent c))
              \<or> is_some_and safe_remaining (\<lambda>r. f64_lt r (fc_amber_safe_remaining_percent c))
      then (Red, ''safe remaining quota is below the red threshold'')
      else if mature \<and> is_some_and projected (\<lambda>p. f64_lt (fc_projected_limit_percent c) p)
      then (Amber, ''mature projection exceeds the configured period limit'')
      else if is_some_and safe_remaining (\<lambda>r. f64_lt r (fc_green_safe_remaining_percent c))
      then (Amber, ''safe remaining quota is below the green threshold'')
      else if \<not> mature
      then (Amber, ''known headroom retained, but projection is not yet mature'')
      else (Green, ''safe remaining and projected usage are within policy''))"

definition forecast ::
    "chrono \<Rightarrow> UsageSnapshot \<Rightarrow> UsageSnapshot list \<Rightarrow> PeriodWindow \<Rightarrow> DateTime \<Rightarrow> bool \<Rightarrow> ForecastConfig
     \<Rightarrow> ForecastError + BudgetForecast" where
  "forecast ch snapshot history window now quota_exceeded_error config =
     and_then (config_validate config) (\<lambda>_.
     and_then (map_err InvalidUsage (snapshot_validate snapshot)) (\<lambda>_.
     if pw_resets_at window \<le> pw_started_at window then Inl Forecast_InvalidWindow
     else
       let period_progress = progress_at window now;
           used_percent = forecast_used_percent snapshot;
           remaining_percent = effective_remaining_percent snapshot;
           (smoothed, observation_count) = smoothed_progress snapshot history (fc_ewma_alpha config);
           usage_progress = map_option (\<lambda>v. f64_div v f64_hundred) used_percent;
           denominator = f64_max period_progress (fc_minimum_progress config);
           burn_index = map_option (\<lambda>p. f64_div p denominator) smoothed;
           projected = map_option (\<lambda>i. f64_mul i f64_hundred) burn_index;
           safe_remaining = map_option (\<lambda>r. f64_sub r (fc_reserve_percent config)) remaining_percent;
           mature = (fc_minimum_observations config \<le> observation_count
                     \<and> grace_seconds config (us_quota_period snapshot)
                         \<le> ch_num_seconds ch (now - pw_started_at window));
           (status, reason) = classify config snapshot quota_exceeded_error used_percent remaining_percent
                                safe_remaining projected mature
       in Inr \<lparr> bf_provider = us_provider snapshot, bf_quota_scope = us_quota_scope snapshot,
                bf_confidence = us_confidence snapshot, bf_status = status,
                bf_period_progress = period_progress, bf_usage_progress = usage_progress,
                bf_burn_index = burn_index, bf_projected_end_usage_percent = projected,
                bf_safe_remaining_percent = safe_remaining, bf_remaining_units = us_remaining snapshot,
                bf_smoothed_usage_progress = smoothed, bf_observation_count = observation_count,
                bf_projection_mature = mature, bf_resets_at = pw_resets_at window,
                bf_rationale = [reason] \<rparr>))"

section \<open>Bounds\<close>

definition snapshot_binary64 :: "UsageSnapshot \<Rightarrow> bool" where
  "snapshot_binary64 s \<longleftrightarrow>
     list_all (pred_option binary64)
       [us_used s, us_limit s, us_remaining s, us_used_percent s, us_remaining_percent s]"

lemma binary64_percent_of: "binary64 x \<Longrightarrow> binary64 y \<Longrightarrow> binary64 (percent_of x y)"
  by (simp add: percent_of_def)

lemma clamped_percent_binary64: "clamped_percent x limit = Some p \<Longrightarrow> binary64 x \<Longrightarrow> binary64 limit \<Longrightarrow> binary64 p"
  by (auto simp: clamped_percent_def binary64_percent_of split: if_splits)

lemma effective_used_binary64:
  "snapshot_binary64 s \<Longrightarrow> effective_used_percent s = Some p \<Longrightarrow> binary64 p"
  by (cases "us_used_percent s")
    (auto simp: snapshot_binary64_def effective_used_percent_def bind_eq_Some_conv option.pred_set
      intro: clamped_percent_binary64)

lemma effective_remaining_binary64:
  assumes "snapshot_binary64 s" and "effective_remaining_percent s = Some p"
  shows "binary64 p"
proof (cases "us_remaining_percent s")
  case None
  then show ?thesis
    using assms effective_used_binary64 [OF assms(1)]
    by (auto simp: effective_remaining_percent_def snapshot_binary64_def option.pred_set
        intro: clamped_percent_binary64 split: option.splits)
qed (use assms in \<open>simp add: effective_remaining_percent_def snapshot_binary64_def\<close>)

lemma forecast_used_in_range:
  assumes "snapshot_validate s = Inr ()" and "forecast_used_percent s = Some p"
  shows "f64_in_range f64_zero f64_hundred p"
  using assms(2) effective_used_in_range [OF assms(1)] effective_remaining_in_range [OF assms(1)]
  by (cases "effective_used_percent s") (auto simp: forecast_used_percent_def f64_percent_complement)

lemma forecast_used_binary64:
  assumes "snapshot_binary64 s" and "forecast_used_percent s = Some p"
  shows "binary64 p"
  using assms(2) effective_used_binary64 [OF assms(1)] effective_remaining_binary64 [OF assms(1)]
  by (cases "effective_used_percent s") (auto simp: forecast_used_percent_def)

lemma percent_binary64:
  assumes "f64_in_range f64_zero f64_hundred x" and "binary64 x"
  obtains s m where "x = Finite s m" "0 \<le> m" "m \<le> 100" "s \<longrightarrow> m = 0" "f64_val s m = m"
proof -
  obtain s m where x: "x = Finite s m" and v: "0 \<le> f64_val s m" "f64_val s m \<le> 100"
    using assms(1) by (auto simp: f64_in_percent_iff)
  have m: "0 \<le> m" using assms(2) representable_nonneg by (simp add: x)
  show thesis
    by (rule that [OF x m]) (use v m in \<open>auto simp: f64_val_def split: if_splits\<close>)
qed

lemma unit_round:
  assumes "0 \<le> q" and "q \<le> 1" and "s \<longrightarrow> q = 0"
  shows "unit_f64 (round_magnitude s q)"
proof -
  obtain r where "round_magnitude s q = Finite s r" "0 \<le> r" "r \<le> 1"
    using round_magnitude_le_int [of q 1 s] assms by auto
  moreover have "s \<longrightarrow> r = 0" using assms(3) calculation(1) by (auto simp: round_magnitude_def)
  ultimately show ?thesis by (auto simp: unit_f64_iff f64_val_def)
qed

lemma unit_of_percent:
  assumes "f64_in_range f64_zero f64_hundred x" and "binary64 x"
  shows "unit_f64 (f64_div x f64_hundred)"
  by (rule percent_binary64 [OF assms]) (simp add: f64_hundred_def unit_round)

lemma unit_mul:
  assumes "unit_f64 x" "binary64 x" and "unit_f64 y" "binary64 y"
  shows "unit_f64 (f64_mul x y)"
proof -
  obtain s m where x: "x = Finite s m" "0 \<le> m" "m \<le> 1" "s \<longrightarrow> m = 0" "f64_val s m = m"
    by (rule unit_binary64 [OF assms(1,2)])
  obtain t n where y: "y = Finite t n" "0 \<le> n" "n \<le> 1" "t \<longrightarrow> n = 0" "f64_val t n = n"
    by (rule unit_binary64 [OF assms(3,4)])
  have "unit_f64 (round_magnitude (s \<noteq> t) (m * n))"
    using x y by (intro unit_round) (auto intro: mult_le_one)
  then show ?thesis by (simp add: x(1) y(1))
qed

lemma confidence_weight_unit: "unit_f64 (confidence_weight c)" "binary64 (confidence_weight c)"
proof -
  have "unit_f64 (f64_of_rat (6 / 10))" unfolding f64_of_rat_def by (rule unit_round) simp_all
  then show "unit_f64 (confidence_weight c)"
    by (cases c) (simp_all add: unit_f64_def f64_in_range_def f64_le_def f64_zero_def f64_one_def f64_val_def)
  show "binary64 (confidence_weight c)" by (cases c) simp_all
qed

text \<open>Every sample holds a progress and a weight of the unit interval, and so does every smoothed value.\<close>

definition unit_sample :: "sample \<Rightarrow> bool" where
  "unit_sample x \<longleftrightarrow> unit_f64 (fst (snd x)) \<and> binary64 (fst (snd x)) \<and> unit_f64 (snd (snd x)) \<and> binary64 (snd (snd x))"

lemma sample_of_unit:
  assumes "snapshot_validate s = Inr ()" and "snapshot_binary64 s" and "sample_of s = Some x"
  shows "unit_sample x"
proof -
  obtain used where "forecast_used_percent s = Some used"
    "x = (us_collected_at s, f64_div used f64_hundred, confidence_weight (us_confidence s))"
    using assms(3) by (auto simp: sample_of_def)
  then show ?thesis
    using unit_of_percent forecast_used_in_range [OF assms(1)] forecast_used_binary64 [OF assms(2)]
    by (simp add: unit_sample_def confidence_weight_unit)
qed

lemma dedup_samples_subset: "set (dedup_samples xs) \<subseteq> set xs"
  by (induction xs rule: dedup_samples.induct) auto

lemma forecast_samples_unit:
  assumes "\<And>s. s \<in> set (snapshot # history) \<Longrightarrow> snapshot_validate s = Inr () \<and> snapshot_binary64 s"
    and "x \<in> set (forecast_samples snapshot history)"
  shows "unit_sample x"
proof -
  obtain s where "s \<in> set (snapshot # history)" "sample_of s = Some x"
    using assms(2) dedup_samples_subset
    by (fastforce simp: forecast_samples_def List.map_filter_def split: if_splits option.splits)
  then show ?thesis using assms(1) sample_of_unit by blast
qed

lemma smooth_unit:
  assumes "unit_f64 alpha" "binary64 alpha" "unit_sample x" "pred_option (\<lambda>p. unit_f64 p \<and> binary64 p) smoothed"
  shows "pred_option (\<lambda>p. unit_f64 p \<and> binary64 p) (smooth alpha x smoothed)"
  using assms unit_f64_mean unit_mul
  by (cases smoothed) (simp_all add: smooth_def unit_sample_def Let_def)

lemma fold_smooth_unit:
  assumes "unit_f64 alpha" "binary64 alpha" "\<forall>x \<in> set xs. unit_sample x"
    "pred_option (\<lambda>p. unit_f64 p \<and> binary64 p) smoothed"
  shows "pred_option (\<lambda>p. unit_f64 p \<and> binary64 p) (fold (smooth alpha) xs smoothed)"
  using assms(3,4) by (induction xs arbitrary: smoothed) (simp_all add: smooth_unit [OF assms(1,2)])

lemma config_validate_Inr:
  assumes "config_validate c = Inr ()"
  shows "unit_f64 (fc_minimum_progress c)" "\<not> f64_eq (fc_minimum_progress c) f64_zero" "unit_f64 (fc_ewma_alpha c)"
    "f64_in_range f64_zero f64_hundred (fc_reserve_percent c)" "fc_minimum_observations c \<noteq> 0"
  using assms by (auto simp: config_validate_def unit_f64_def and_then_eq_Inr check_threshold_def split: if_splits)

lemma denominator_positive:
  assumes "unit_f64 p" "binary64 p" "unit_f64 m" "binary64 m" "\<not> f64_eq m f64_zero"
  obtains d where "f64_max p m = Finite False d" "0 < d" "binary64 (f64_max p m)"
proof -
  obtain s x where p: "p = Finite s x" "0 \<le> x" "x \<le> 1" "s \<longrightarrow> x = 0" "f64_val s x = x"
    by (rule unit_binary64 [OF assms(1,2)])
  obtain t y where m: "m = Finite t y" "0 \<le> y" "y \<le> 1" "t \<longrightarrow> y = 0" "f64_val t y = y"
    by (rule unit_binary64 [OF assms(3,4)])
  have "0 < y" using assms(5) m by (simp add: f64_zero_def f64_val_def less_le)
  moreover have "\<not> t" using calculation m(4) by auto
  moreover have "\<not> s" if "\<not> x < y" using that calculation(1) p(4) by auto
  ultimately show thesis
    using that [of "if x < y then y else x"] assms(2,4) p m by (cases "x < y") (auto simp: f64_max_def)
qed

lemma burn_index_nonneg:
  assumes "unit_f64 p" "binary64 p" "0 < d"
  shows "f64_le f64_zero (f64_div p (Finite False d))" "f64_le f64_zero (f64_mul (f64_div p (Finite False d)) f64_hundred)"
proof -
  obtain s m where p: "p = Finite s m" "0 \<le> m" "m \<le> 1" "s \<longrightarrow> m = 0" "f64_val s m = m"
    by (rule unit_binary64 [OF assms(1,2)])
  have nonneg: "f64_le f64_zero (round_magnitude s q)
      \<and> (round_magnitude s q = Infinity False \<or> (\<exists>r. round_magnitude s q = Finite s r \<and> 0 \<le> r \<and> (s \<longrightarrow> r = 0)))"
    if "0 \<le> q" "s \<longrightarrow> q = 0" for q
    using that round_magnitude_nonneg [of q s]
    by (cases s) (auto simp: f64_le_def f64_zero_def f64_val_def less_le round_magnitude_def)
  have q: "0 \<le> m / d" "s \<longrightarrow> m / d = 0" using p assms(3) by simp_all
  have div: "f64_div p (Finite False d) = round_magnitude s (m / d)" using assms(3) by (simp add: p(1))
  show "f64_le f64_zero (f64_div p (Finite False d))" using nonneg [OF q] by (simp add: div)
  consider "round_magnitude s (m / d) = Infinity False"
    | r where "round_magnitude s (m / d) = Finite s r" "0 \<le> r" "s \<longrightarrow> r = 0"
    using nonneg [OF q] by blast
  then show "f64_le f64_zero (f64_mul (f64_div p (Finite False d)) f64_hundred)"
  proof cases
    case 1
    then show ?thesis by (simp add: div f64_hundred_def f64_le_def f64_zero_def)
  next
    case 2
    then show ?thesis using nonneg [of "r * 100"] by (simp add: div f64_hundred_def)
  qed
qed

definition f64_minus_hundred :: f64 where "f64_minus_hundred = Finite True 100"

lemma safe_remaining_in_range:
  assumes "f64_in_range f64_zero f64_hundred x" and "f64_in_range f64_zero f64_hundred y"
  shows "f64_in_range f64_minus_hundred f64_hundred (f64_sub x y)"
proof -
  obtain s m t n where x: "x = Finite s m" "0 \<le> f64_val s m" "f64_val s m \<le> 100"
    and y: "y = Finite t n" "0 \<le> f64_val t n" "f64_val t n \<le> 100"
    using assms by (auto simp: f64_in_percent_iff)
  define q where "q = f64_val s m - f64_val t n"
  have bound: "\<bar>q\<bar> \<le> 100" using x y by (simp add: q_def abs_le_iff)
  obtain r where r: "round_magnitude (q < 0) \<bar>q\<bar> = Finite (q < 0) r" "0 \<le> r" "r \<le> 100"
    using round_magnitude_le_int [of "\<bar>q\<bar>" 100 "q < 0"] bound by auto
  have "f64_val s m + f64_val (\<not> t) n = q" by (simp add: q_def f64_val_def)
  then have "f64_sub x y = (if q = 0 then Finite (s \<and> \<not> t) 0 else Finite (q < 0) r)"
    using r(1) by (simp add: f64_sub_def x(1) y(1) f64_of_rat_def Let_def)
  then show ?thesis
    using r(2,3) by (auto simp: f64_in_range_def f64_le_def f64_minus_hundred_def f64_hundred_def f64_val_def)
qed

lemma forecast_Inr:
  assumes "forecast ch snapshot history window now quota_exceeded config = Inr f"
  shows "config_validate config = Inr ()" "snapshot_validate snapshot = Inr ()"
    "pw_started_at window < pw_resets_at window"
    "bf_period_progress f = progress_at window now"
    "bf_usage_progress f = map_option (\<lambda>v. f64_div v f64_hundred) (forecast_used_percent snapshot)"
    "bf_smoothed_usage_progress f = fst (smoothed_progress snapshot history (fc_ewma_alpha config))"
    "bf_burn_index f = map_option (\<lambda>p. f64_div p (f64_max (progress_at window now) (fc_minimum_progress config)))
       (bf_smoothed_usage_progress f)"
    "bf_projected_end_usage_percent f = map_option (\<lambda>i. f64_mul i f64_hundred) (bf_burn_index f)"
    "bf_safe_remaining_percent f = map_option (\<lambda>r. f64_sub r (fc_reserve_percent config))
       (effective_remaining_percent snapshot)"
    "bf_status f = fst (classify config snapshot quota_exceeded (forecast_used_percent snapshot)
       (effective_remaining_percent snapshot) (bf_safe_remaining_percent f) (bf_projected_end_usage_percent f)
       (bf_projection_mature f))"
    "bf_projection_mature f \<Longrightarrow> fc_minimum_observations config \<le> bf_observation_count f"
  using assms by (auto simp: forecast_def and_then_eq_Inr Let_def split: if_splits prod.splits)

lemma classify_Green:
  "fst (classify c snapshot e used remaining safe projected mature) = Green \<longleftrightarrow>
     \<not> e \<and> \<not> is_confirmed_exhausted snapshot \<and> us_confidence snapshot \<noteq> Confidence_Unknown
     \<and> remaining \<noteq> None \<and> used \<noteq> None
     \<and> \<not> is_some_and remaining (\<lambda>r. f64_le r (fc_hard_limit_remaining_percent c))
     \<and> \<not> is_some_and safe (\<lambda>r. f64_lt r (fc_amber_safe_remaining_percent c))
     \<and> \<not> is_some_and projected (\<lambda>p. f64_lt (fc_projected_limit_percent c) p)
     \<and> \<not> is_some_and safe (\<lambda>r. f64_lt r (fc_green_safe_remaining_percent c)) \<and> mature"
  by (auto simp: classify_def)

lemma threshold_not_NaN:
  "config_validate c = Inr () \<Longrightarrow> fc_green_safe_remaining_percent c \<noteq> NaN \<and> fc_projected_limit_percent c \<noteq> NaN"
  by (auto simp: config_validate_def and_then_eq_Inr check_threshold_def split: if_splits)

lemma in_range_not_NaN: "f64_in_range a b x \<Longrightarrow> x \<noteq> NaN"
  by (auto simp: f64_in_range_def)

lemma forecast_smoothed:
  assumes "forecast ch snapshot history window now quota_exceeded config = Inr f"
    and "\<forall>s \<in> set history. snapshot_validate s = Inr ()"
    and "\<forall>s \<in> set (snapshot # history). snapshot_binary64 s" and "binary64 (fc_ewma_alpha config)"
  shows "pred_option (\<lambda>p. unit_f64 p \<and> binary64 p) (bf_smoothed_usage_progress f)"
proof -
  note f = forecast_Inr [OF assms(1)]
  have "\<forall>x \<in> set (forecast_samples snapshot history). unit_sample x"
    using forecast_samples_unit [of snapshot history] assms(2,3) f(2) by auto
  then show ?thesis
    using fold_smooth_unit [OF config_validate_Inr(3) [OF f(1)] assms(4), of _ None]
    by (simp add: f(6) smoothed_progress_def Let_def)
qed

lemma forecast_safe_remaining:
  assumes "forecast ch snapshot history window now quota_exceeded config = Inr f"
  shows "pred_option (f64_in_range f64_minus_hundred f64_hundred) (bf_safe_remaining_percent f)"
  using forecast_Inr(9) [OF assms] effective_remaining_in_range [OF forecast_Inr(2) [OF assms]]
    config_validate_Inr(4) [OF forecast_Inr(1) [OF assms]]
  by (auto simp: option.pred_set safe_remaining_in_range)

lemma forecast_green:
  assumes "forecast ch snapshot history window now quota_exceeded config = Inr f" and "bf_status f = Green"
    and "pred_option (f64_le f64_zero) (bf_projected_end_usage_percent f)"
  shows "fc_minimum_observations config \<le> bf_observation_count f"
    and "\<exists>r. bf_safe_remaining_percent f = Some r \<and> f64_le (fc_green_safe_remaining_percent config) r"
    and "pred_option (\<lambda>p. f64_le p (fc_projected_limit_percent config)) (bf_projected_end_usage_percent f)"
proof -
  note f = forecast_Inr [OF assms(1)]
  note green = assms(2) [unfolded f(10) classify_Green]
  note nan = threshold_not_NaN [OF f(1)]
  show "fc_minimum_observations config \<le> bf_observation_count f" using f(11) green by blast
  obtain r where r: "bf_safe_remaining_percent f = Some r" using green f(9) by auto
  moreover have "r \<noteq> NaN" using forecast_safe_remaining [OF assms(1)] r in_range_not_NaN by auto
  ultimately show "\<exists>r. bf_safe_remaining_percent f = Some r \<and> f64_le (fc_green_safe_remaining_percent config) r"
    using green nan f64_not_lt by (auto simp: is_some_and_iff)
  show "pred_option (\<lambda>p. f64_le p (fc_projected_limit_percent config)) (bf_projected_end_usage_percent f)"
  proof (cases "bf_projected_end_usage_percent f")
    case (Some p)
    then have "p \<noteq> NaN" "\<not> f64_lt (fc_projected_limit_percent config) p"
      using assms(3) green by (auto simp: is_some_and_iff)
    then show ?thesis using nan f64_not_lt Some by simp
  qed simp
qed

text \<open>C36: a forecast stays in range after all rounding. For a validated configuration, snapshot and history the
  progress of the period, of the usage and its exponential smoothing lie in the unit interval, the burn
  index and the projection are numbers and not negative, and the safe remainder lies within 100 percent of
  zero; and a green forecast rests on enough observations, on a remainder above the green threshold and on
  a projection within the limit.\<close>

theorem forecast_bounded:
  assumes "forecast ch snapshot history window now quota_exceeded config = Inr f"
    and "\<forall>s \<in> set history. snapshot_validate s = Inr ()"
    and "\<forall>s \<in> set (snapshot # history). snapshot_binary64 s"
    and "binary64 (fc_ewma_alpha config)" and "binary64 (fc_minimum_progress config)"
    and "chrono_instant (pw_started_at window)" and "chrono_instant (pw_resets_at window)" and "chrono_instant now"
  shows "unit_f64 (bf_period_progress f) \<and> pred_option unit_f64 (bf_usage_progress f)
       \<and> pred_option unit_f64 (bf_smoothed_usage_progress f)
       \<and> pred_option (f64_le f64_zero) (bf_burn_index f)
       \<and> pred_option (f64_le f64_zero) (bf_projected_end_usage_percent f)
       \<and> pred_option (f64_in_range f64_minus_hundred f64_hundred) (bf_safe_remaining_percent f)
       \<and> (bf_status f = Green \<longrightarrow>
            fc_minimum_observations config \<le> bf_observation_count f
            \<and> (\<exists>r. bf_safe_remaining_percent f = Some r \<and> f64_le (fc_green_safe_remaining_percent config) r)
            \<and> pred_option (\<lambda>p. f64_le p (fc_projected_limit_percent config)) (bf_projected_end_usage_percent f))"
proof -
  note f = forecast_Inr [OF assms(1)]
  note c = config_validate_Inr [OF f(1)]
  note p = progress_at_unit [OF f(3) assms(6-8)]
  have smoothed: "pred_option (\<lambda>p. unit_f64 p \<and> binary64 p) (bf_smoothed_usage_progress f)"
    by (rule forecast_smoothed [OF assms(1-4)])
  obtain d where d: "f64_max (progress_at window now) (fc_minimum_progress config) = Finite False d" "0 < d"
    using denominator_positive [OF p c(1) assms(5) c(2)] .
  have burn: "pred_option (f64_le f64_zero) (bf_burn_index f)"
    and projected: "pred_option (f64_le f64_zero) (bf_projected_end_usage_percent f)"
    using smoothed d(2) by (auto simp: f(7,8) d(1) option.pred_set burn_index_nonneg)
  have "pred_option unit_f64 (bf_usage_progress f)"
    using forecast_used_in_range [OF f(2)] forecast_used_binary64 [of snapshot] assms(3)
    by (auto simp: f(5) option.pred_set unit_of_percent)
  moreover have "pred_option unit_f64 (bf_smoothed_usage_progress f)"
    using smoothed by (auto simp: option.pred_set)
  ultimately show ?thesis
    using p(1) burn projected forecast_safe_remaining [OF assms(1)] forecast_green [OF assms(1) _ projected]
    by (auto simp: f(4))
qed

definition sample_window :: PeriodWindow where
  "sample_window = \<lparr> pw_started_at = 0, pw_resets_at = 30 * 86400 * NANOS \<rparr>"

definition sample_usage :: "int \<Rightarrow> DateTime \<Rightarrow> UsageSnapshot" where
  "sample_usage used t =
     (UsageSnapshot_unknown Codex (QuotaScope_new ''monthly'' CalendarMonth Credits) t)
       \<lparr> us_used_percent := Some (Finite False (of_int used)), us_source := OfficialCli, us_confidence := Confirmed \<rparr>"

lemma forecast_total:
  assumes "config_validate config = Inr ()" and "snapshot_validate snapshot = Inr ()"
    and "pw_started_at window < pw_resets_at window"
  shows "\<exists>f. forecast ch snapshot history window now quota_exceeded config = Inr f"
  using assms by (auto simp: forecast_def map_err_def Let_def split: prod.split)

lemma positive_fraction_config:
  assumes "1 / 2 ^ 30 \<le> q" and "q \<le> 1"
  shows "f64_in_range f64_zero f64_one (f64_of_rat q)" "\<not> f64_eq (f64_of_rat q) f64_zero"
proof -
  have "0 < q" using assms(1) by (rule less_le_trans [rotated]) simp
  then have q: "f64_of_rat q = round_magnitude False q" by (simp add: f64_of_rat_def)
  show "f64_in_range f64_zero f64_one (f64_of_rat q)"
    using unit_round [of q False] assms(2) \<open>0 < q\<close> by (simp add: q unit_f64_def)
  have "(2 :: rat) powi (- 1074) \<le> 2 powi (- 30)" by (rule powi_two_mono) simp
  also have "(2 :: rat) powi (- 30) = 1 / 2 ^ 30" by (simp add: power_int_minus field_simps)
  also have "\<dots> \<le> q" by (rule assms(1))
  finally have "round_magnitude False q = Infinity False \<or> (\<exists>r. round_magnitude False q = Finite False r \<and> 0 < r)"
    by (rule round_magnitude_positive)
  then show "\<not> f64_eq (f64_of_rat q) f64_zero" by (auto simp: q f64_zero_def f64_val_def)
qed

lemma percent_of_int:
  assumes "0 \<le> i" and "i \<le> 100"
  shows "f64_is_finite (f64_of_int i)" "f64_in_range f64_zero f64_hundred (f64_of_int i)"
  using assms by (auto simp: f64_of_int_exact f64_in_percent_iff f64_val_def)

lemma default_config_valid: "config_validate ForecastConfig_default = Inr ()"
proof -
  have "f64_is_finite f64_hundred" "f64_in_range f64_zero f64_hundred f64_hundred"
    using percent_of_int [of 100] by (simp_all add: f64_hundred_def f64_of_int_exact)
  moreover have "\<not> f64_lt (f64_of_int 20) (f64_of_int 5)" "\<not> f64_lt (f64_of_int 50) (f64_of_int 20)"
    by (simp_all add: f64_of_int_exact f64_val_def)
  ultimately show ?thesis
    unfolding config_validate_def ForecastConfig_default_def ForecastConfig.simps
    using positive_fraction_config [of "5 / 100"] positive_fraction_config [of "3 / 10"]
    by (simp add: check_threshold_def percent_of_int)
qed

lemma sample_usage_valid: "0 \<le> used \<Longrightarrow> used \<le> 100 \<Longrightarrow> snapshot_validate (sample_usage used t) = Inr ()"
  by (simp add: sample_usage_def snapshot_validate_def snapshot_validate_simps UsageSnapshot_unknown_def
      schema_v1_def SchemaVersion_V1_def QuotaScope_new_def check_value_def f64_zero_def f64_hundred_def
      check_limit_def disagrees_def check_percent_def f64_val_def f64_in_range_def f64_le_def)

lemma sample_usage_binary64: "0 \<le> used \<Longrightarrow> used \<le> 100 \<Longrightarrow> snapshot_binary64 (sample_usage used t)"
  using representable_of_nat [of "nat used"]
  by (simp add: snapshot_binary64_def sample_usage_def UsageSnapshot_unknown_def nat_less_iff)

text \<open>Two earlier observations and the current one, in the middle of a window of thirty days.\<close>

theorem forecast_bounded_witness:
  "\<exists>f. forecast sample_chrono (sample_usage 10 (15 * 86400 * NANOS))
         [sample_usage 4 (5 * 86400 * NANOS), sample_usage 8 (10 * 86400 * NANOS)]
         sample_window (15 * 86400 * NANOS) False ForecastConfig_default = Inr f
     \<and> unit_f64 (bf_period_progress f) \<and> pred_option unit_f64 (bf_smoothed_usage_progress f)"
proof -
  have w: "pw_started_at sample_window < pw_resets_at sample_window"
    "chrono_instant (pw_started_at sample_window)" "chrono_instant (pw_resets_at sample_window)"
    "chrono_instant (15 * 86400 * NANOS)"
    by (simp_all add: sample_window_def chrono_instant_def NANOS_def)
  have v: "snapshot_validate (sample_usage 10 (15 * 86400 * NANOS)) = Inr ()" by (rule sample_usage_valid) simp_all
  obtain f where f: "forecast sample_chrono (sample_usage 10 (15 * 86400 * NANOS))
         [sample_usage 4 (5 * 86400 * NANOS), sample_usage 8 (10 * 86400 * NANOS)]
         sample_window (15 * 86400 * NANOS) False ForecastConfig_default = Inr f"
    using forecast_total [OF default_config_valid v w(1)] by blast
  then show ?thesis
    using forecast_bounded [OF f] w
    by (simp add: sample_usage_valid sample_usage_binary64) (simp add: ForecastConfig_default_def)
qed

end
