(* ===== verification/Analyzer.thy ===== *)
theory Analyzer
  imports Assessment Integrity
begin

text \<open>
  \<open>crates/orchestrator-policy/src/analyzer.rs\<close>: the five-axis rubric that turns analysis hints and the
  text of a task into an assessment.
\<close>

section \<open>Text\<close>

text \<open>\<open>str::to_lowercase\<close> up to what a search for ASCII or Hangul text can see: ASCII letters, the Kelvin
  sign, whose lower case is \<open>k\<close>, and the dotted capital I, whose lower case is \<open>i\<close> with a combining
  dot. Every other character has no ASCII or Hangul lower case.\<close>

definition lower_char :: "char \<Rightarrow> string \<Rightarrow> string \<times> nat" where
  "lower_char a s =
     (if a = CHR 0xE2 \<and> starts_with s [CHR 0x84, CHR 0xAA] then (''k'', Suc (Suc 0))
      else if a = CHR 0xC4 \<and> starts_with s [CHR 0xB0] then ([CHR ''i'', CHR 0xCC, CHR 0x87], Suc 0)
      else ([ascii_lower a], 0))"

fun lower_from :: "nat \<Rightarrow> string \<Rightarrow> string" where
  "lower_from skip [] = []"
| "lower_from (Suc skip) (a # s) = lower_from skip s"
| "lower_from 0 (a # s) = (case lower_char a s of (out, skip) \<Rightarrow> out @ lower_from skip s)"

definition to_lowercase :: "string \<Rightarrow> string" where
  "to_lowercase s = lower_from 0 s"

text \<open>\<open>Display\<close> of integers and booleans.\<close>

function digits_of :: "nat \<Rightarrow> string" where
  "digits_of n = (if n < 10 then [char_of (48 + n)] else digits_of (n div 10) @ [char_of (48 + n mod 10)])"
  by auto
termination
  by (relation "measure id") auto

declare digits_of.simps [simp del]

definition show_bool :: "bool \<Rightarrow> string" where
  "show_bool b = (if b then ''true'' else ''false'')"

section \<open>Data\<close>

record AnalysisHints =
  estimated_files :: "u32 option"
  estimated_components :: "u32 option"
  repository_wide :: bool
  cross_component :: bool
  unclear_requirements :: u32
  advanced_technical_concerns :: u32
  production_impact :: bool
  rollback_difficult :: bool
  verification_layers :: u32
  needs_e2e :: bool
  lacks_clear_oracle :: bool
  hint_risk_tags :: "RiskTag list"

record TaskAnalysisInput =
  input_objective :: string
  input_constraints :: "string list"
  input_acceptance_criteria :: "string list"
  input_hints :: AnalysisHints

datatype AnalyzerError = MissingObjective | InvalidAssessment AssessmentError

section \<open>The rubric\<close>

definition bool_u8 :: "bool \<Rightarrow> u8" where
  "bool_u8 b = (if b then 1 else 0)"

definition score_scope :: "AnalysisHints \<Rightarrow> u8" where
  "score_scope h =
     (if repository_wide h \<or> is_some_and (estimated_files h) (\<lambda>files. files > 10)
         \<or> is_some_and (estimated_components h) (\<lambda>components. components > 3)
      then 2
      else bool_u8 (cross_component h \<or> is_some_and (estimated_files h) (\<lambda>files. files > 1)
             \<or> is_some_and (estimated_components h) (\<lambda>components. components > 1)))"

definition score_ambiguity :: "TaskAnalysisInput \<Rightarrow> u8" where
  "score_ambiguity i =
     (if input_acceptance_criteria i = [] \<or> unclear_requirements (input_hints i) \<ge> 3 then 2
      else bool_u8 (unclear_requirements (input_hints i) > 0))"

definition score_technical :: "AnalysisHints \<Rightarrow> u8" where
  "score_technical h =
     (if advanced_technical_concerns h \<ge> 2 then 2
      else bool_u8 (advanced_technical_concerns h = 1 \<or> cross_component h))"

definition score_failure :: "AnalysisHints \<Rightarrow> RiskTag list \<Rightarrow> u8" where
  "score_failure h risks =
     (if production_impact h \<or> rollback_difficult h \<or> list_ex forces_premium risks then 2
      else bool_u8 (cross_component h \<or> risks \<noteq> []))"

definition score_verification :: "TaskAnalysisInput \<Rightarrow> u8" where
  "score_verification i =
     (if needs_e2e (input_hints i) \<or> lacks_clear_oracle (input_hints i)
         \<or> verification_layers (input_hints i) \<ge> 3
      then 2
      else bool_u8 (verification_layers (input_hints i) \<ge> 2 \<or> length (input_acceptance_criteria i) > 1))"

definition estimates_for_total :: "u8 \<Rightarrow> u32 UsageRange \<times> f64 UsageRange" where
  "estimates_for_total score =
     (let (lo, hi) =
        (if score \<le> 2 then (1, 2) else if score \<le> 4 then (2, 4) else if score \<le> 6 then (4, 8)
         else if score \<le> 8 then (8, 16) else (12, 24))
      in (\<lparr> range_min = of_int lo, range_max = of_int hi \<rparr>,
          \<lparr> range_min = Finite False (of_int lo), range_max = Finite False (of_int hi) \<rparr>))"

definition count_rationale :: "u32 option \<Rightarrow> string" where
  "count_rationale x = (case x of None \<Rightarrow> ''unknown'' | Some v \<Rightarrow> digits_of (unat v))"

definition scope_rationale :: "AnalysisHints \<Rightarrow> string" where
  "scope_rationale h =
     ''files='' @ count_rationale (estimated_files h)
   @ '', components='' @ count_rationale (estimated_components h)
   @ '', repository_wide='' @ show_bool (repository_wide h)
   @ '', cross_component='' @ show_bool (cross_component h)"

text \<open>The table of \<open>detect_risks\<close>; the entries in bytes are the Korean words of the source.\<close>

definition risk_needles :: "(string list \<times> RiskTag) list" where
  "risk_needles =
     [([''security'',
         ''vulnerability'',
         [CHR 0xEC, CHR 0x95, CHR 0x94, CHR 0xED, CHR 0x98, CHR 0xB8],
         [CHR 0xEB, CHR 0xB3, CHR 0xB4, CHR 0xEC, CHR 0x95, CHR 0x88]], Security),
      ([''authentication'',
         ''authorization'',
         ''oauth'',
         [CHR 0xEB, CHR 0xA1, CHR 0x9C, CHR 0xEA, CHR 0xB7, CHR 0xB8, CHR 0xEC, CHR 0x9D, CHR 0xB8],
         [CHR 0xEC, CHR 0x9D, CHR 0xB8, CHR 0xEC, CHR 0xA6, CHR 0x9D]], Authentication),
      ([''production'',
         [CHR 0xED, CHR 0x94, CHR 0x84, CHR 0xEB, CHR 0xA1, CHR 0x9C, CHR 0xEB, CHR 0x8D, CHR 0x95, CHR 0xEC, CHR 0x85, CHR 0x98],
         [CHR 0xEC, CHR 0x9A, CHR 0xB4, CHR 0xEC, CHR 0x98, CHR 0x81, CHR 0x20, CHR 0xED, CHR 0x99, CHR 0x98, CHR 0xEA, CHR 0xB2, CHR 0xBD]], Production),
      ([''infrastructure'',
         ''terraform'',
         ''kubernetes'',
         [CHR 0xEC, CHR 0x9D, CHR 0xB8, CHR 0xED, CHR 0x94, CHR 0x84, CHR 0xEB, CHR 0x9D, CHR 0xBC]], Infrastructure),
      ([''destructive migration'',
         ''drop table'',
         [CHR 0xED, CHR 0x8C, CHR 0x8C, CHR 0xEA, CHR 0xB4, CHR 0xB4, CHR 0xEC, CHR 0xA0, CHR 0x81, CHR 0x20, CHR 0xEB, CHR 0xA7, CHR 0x88, CHR 0xEC, CHR 0x9D, CHR 0xB4, CHR 0xEA, CHR 0xB7, CHR 0xB8, CHR 0xEB, CHR 0xA0, CHR 0x88, CHR 0xEC, CHR 0x9D, CHR 0xB4, CHR 0xEC, CHR 0x85, CHR 0x98]], DestructiveMigration),
      ([''data loss'',
         [CHR 0xEB, CHR 0x8D, CHR 0xB0, CHR 0xEC, CHR 0x9D, CHR 0xB4, CHR 0xED, CHR 0x84, CHR 0xB0, CHR 0x20, CHR 0xEC, CHR 0x86, CHR 0x90, CHR 0xEC, CHR 0x8B, CHR 0xA4]], DataLoss),
      ([''billing'',
         ''payment'',
         [CHR 0xEA, CHR 0xB2, CHR 0xB0, CHR 0xEC, CHR 0xA0, CHR 0x9C],
         [CHR 0xEC, CHR 0xB2, CHR 0xAD, CHR 0xEA, CHR 0xB5, CHR 0xAC]], Billing),
      ([''privacy'',
         ''pii'',
         [CHR 0xEA, CHR 0xB0, CHR 0x9C, CHR 0xEC, CHR 0x9D, CHR 0xB8, CHR 0xEC, CHR 0xA0, CHR 0x95, CHR 0xEB, CHR 0xB3, CHR 0xB4]], Privacy),
      ([''compliance'',
         [CHR 0xEA, CHR 0xB7, CHR 0x9C, CHR 0xEC, CHR 0xA0, CHR 0x95, CHR 0x20, CHR 0xEC, CHR 0xA4, CHR 0x80, CHR 0xEC, CHR 0x88, CHR 0x98],
         [CHR 0xEA, CHR 0xB0, CHR 0x90, CHR 0xEC, CHR 0x82, CHR 0xAC]], Compliance)]"

definition analysis_text :: "TaskAnalysisInput \<Rightarrow> string" where
  "analysis_text i = to_lowercase
     (join_with '' '' (input_objective i # input_constraints i @ input_acceptance_criteria i))"

text \<open>The \<open>BTreeSet\<close> of risks as its ordered list of elements.\<close>

definition risk_insert :: "RiskTag \<Rightarrow> RiskTag list \<Rightarrow> RiskTag list" where
  "risk_insert r rs = (if r \<in> set rs then rs else insort r rs)"

definition detect_risk :: "string \<Rightarrow> string list \<times> RiskTag \<Rightarrow> RiskTag list \<Rightarrow> RiskTag list" where
  "detect_risk text entry acc =
     (if list_ex (str_contains text) (fst entry) then risk_insert (snd entry) acc else acc)"

definition detect_risks :: "TaskAnalysisInput \<Rightarrow> RiskTag list \<Rightarrow> RiskTag list" where
  "detect_risks i risks =
     (let text = analysis_text i in fold (detect_risk text) risk_needles risks)"

definition assess :: "TaskAnalysisInput \<Rightarrow> AnalyzerError + TaskAssessment" where
  "assess i =
     (if is_blank (input_objective i) then Inl MissingObjective
      else
        let h = input_hints i;
            scope = score_scope h; ambiguity = score_ambiguity i; technical = score_technical h;
            risks = detect_risks i (fold risk_insert (hint_risk_tags h) []);
            failure = score_failure h risks; verification = score_verification i
        in and_then (map_err InvalidAssessment
             (AssessmentScores_new scope ambiguity technical failure verification)) (\<lambda>scores.
           let (turns, usage) = estimates_for_total (scores_total scores);
               reasons =
                 [''scope='' @ digits_of (unat scope) @ '': '' @ scope_rationale h,
                  ''ambiguity='' @ digits_of (unat ambiguity) @ '': ''
                    @ digits_of (unat (unclear_requirements h)) @ '' unclear item(s), ''
                    @ digits_of (length (input_acceptance_criteria i)) @ '' acceptance criterion/criteria'',
                  ''technical_complexity='' @ digits_of (unat technical) @ '': ''
                    @ digits_of (unat (advanced_technical_concerns h)) @ '' advanced concern(s)'',
                  ''failure_impact='' @ digits_of (unat failure) @ '': production=''
                    @ show_bool (production_impact h) @ '', difficult_rollback='' @ show_bool (rollback_difficult h),
                  ''verification_complexity='' @ digits_of (unat verification) @ '': ''
                    @ digits_of (unat (verification_layers h)) @ '' layer(s), e2e='' @ show_bool (needs_e2e h)
                    @ '', clear_oracle='' @ show_bool (\<not> lacks_clear_oracle h)]
           in map_err InvalidAssessment
                (TaskAssessment_from_scores scores risks turns usage reasons)))"

section \<open>Lemmas\<close>

lemma bool_u8_le [simp]: "bool_u8 b \<le> 2"
  by (simp add: bool_u8_def)

lemma score_bounds [simp]:
  "score_scope h \<le> 2" "score_ambiguity i \<le> 2" "score_technical h \<le> 2" "score_failure h r \<le> 2"
  "score_verification i \<le> 2"
  by (simp_all add: score_scope_def score_ambiguity_def score_technical_def score_failure_def
      score_verification_def)

lemma set_risk_insert [simp]: "set (risk_insert r rs) = insert r (set rs)"
  by (auto simp: risk_insert_def set_insort_key)

lemma set_fold_risk_insert [simp]: "set (fold risk_insert rs acc) = set rs \<union> set acc"
  by (induction rs arbitrary: acc) auto

lemma set_fold_detect_risk:
  "set (fold (detect_risk text) tab acc)
     = set acc \<union> {risk. \<exists>needles. (needles, risk) \<in> set tab \<and> (\<exists>n \<in> set needles. str_contains text n)}"
proof (induction tab arbitrary: acc)
  case (Cons entry tab)
  then show ?case by (cases entry) (auto simp: detect_risk_def list_ex_iff)
qed simp

lemma detect_risks_set:
  "set (detect_risks i risks) = set risks
     \<union> {risk. \<exists>needles. (needles, risk) \<in> set risk_needles
           \<and> (\<exists>n \<in> set needles. str_contains (analysis_text i) n)}"
  by (simp add: detect_risks_def Let_def set_fold_detect_risk)

lemma estimates_ordered:
  "estimates_for_total score = (turns, usage) \<Longrightarrow>
     range_min turns \<le> range_max turns \<and> \<not> usage_units_invalid usage"
  by (auto simp: estimates_for_total_def Let_def usage_units_invalid_def f64_zero_def f64_val_def
      split: if_splits)

lemma assess_ok:
  assumes "\<not> is_blank (input_objective i)"
  obtains scores turns usage reasons a where
    "assess i = Inr a"
    "TaskAssessment_from_scores scores (detect_risks i (fold risk_insert (hint_risk_tags (input_hints i)) []))
       turns usage reasons = Inr a"
    "range_min turns \<le> range_max turns"
proof -
  define risks where "risks = detect_risks i (fold risk_insert (hint_risk_tags (input_hints i)) [])"
  define scores where "scores = \<lparr> score_scope_axis = score_scope (input_hints i),
    score_ambiguity_axis = score_ambiguity i, score_technical_axis = score_technical (input_hints i),
    score_failure_axis = score_failure (input_hints i) risks, score_verification_axis = score_verification i \<rparr>"
  have v: "scores_validate scores = Inr ()" by (simp add: scores_def scores_validate_ok)
  obtain turns usage where e: "estimates_for_total (scores_total scores) = (turns, usage)" by fastforce
  have "scores_total scores \<le> 10" using scores_total_exact(2) [OF v] by (simp add: word_le_nat_alt)
  then obtain d where "difficulty_from_score (scores_total scores) = Some d"
    using difficulty_from_score_Some by blast
  then have "\<exists>a. TaskAssessment_from_scores scores risks turns usage reasons = Inr a" for reasons
    using v estimates_ordered [OF e] by (simp add: from_scores_ok)
  moreover have "\<exists>reasons. assess i = map_err InvalidAssessment
      (TaskAssessment_from_scores scores risks turns usage reasons)"
    using assms v e unfolding assess_def AssessmentScores_new_def
    by (simp add: Let_def map_err_def scores_def [symmetric] risks_def [symmetric]) blast
  ultimately show ?thesis using that estimates_ordered [OF e] unfolding risks_def
    by (metis map_err_eq_Inr)
qed

section \<open>Properties\<close>

text \<open>the rubric is total on non-blank objectives: the analyzer fails exactly when the objective is
  blank, and never because a derived score, total or estimate is out of range.\<close>

theorem assess_fails_only_on_blank_objective:
  "(\<exists>a. assess i = Inr a) \<longleftrightarrow> \<not> is_blank (input_objective i)"
  by (metis Inl_not_Inr assess_def assess_ok)

text \<open>every assessment the analyzer produces passes revalidation, and every risk tag that was hinted
  or whose keywords occur in the task text is recorded and, where it forces premium quality, raises
  the quality floor to premium.\<close>

theorem assess_honours_risks:
  assumes "assess i = Inr a"
  shows "assessment_validate a = Inr ()
       \<and> set (hint_risk_tags (input_hints i)) \<subseteq> set (risk_tags a)
       \<and> (\<forall>needles risk n. (needles, risk) \<in> set risk_needles \<longrightarrow> n \<in> set needles
            \<longrightarrow> str_contains (analysis_text i) n \<longrightarrow> risk \<in> set (risk_tags a))
       \<and> ((\<exists>r \<in> set (risk_tags a). forces_premium r) \<longrightarrow> minimum_quality_tier a = Tier_Premium)"
proof -
  have "\<not> is_blank (input_objective i)" using assms by (auto simp: assess_def)
  then obtain scores turns usage reasons where f:
    "TaskAssessment_from_scores scores (detect_risks i (fold risk_insert (hint_risk_tags (input_hints i)) []))
       turns usage reasons = Inr a" "range_min turns \<le> range_max turns"
    using assms by (metis assess_ok Inr_inject)
  then have "set (risk_tags a) = set (detect_risks i (fold risk_insert (hint_risk_tags (input_hints i)) []))"
    and q: "minimum_quality_tier a = quality_floor (difficulty a) (risk_tags a)"
    by (auto simp: from_scores_ok)
  then have tags: "set (risk_tags a) = set (hint_risk_tags (input_hints i))
     \<union> {risk. \<exists>needles. (needles, risk) \<in> set risk_needles
           \<and> (\<exists>n \<in> set needles. str_contains (analysis_text i) n)}"
    by (simp add: detect_risks_set)
  have "assessment_validate a = Inr ()" using from_scores_validates [OF f(1)] f(2) by simp
  with q tags show ?thesis by (auto simp: quality_floor_premium)
qed

definition sample_input :: TaskAnalysisInput where
  "sample_input = \<lparr> input_objective = ''Replace the OAuth flow'', input_constraints = [],
     input_acceptance_criteria = [''tests pass''],
     input_hints = \<lparr> estimated_files = Some 4, estimated_components = None, repository_wide = False,
       cross_component = False, unclear_requirements = 0, advanced_technical_concerns = 1,
       production_impact = False, rollback_difficult = False, verification_layers = 1, needs_e2e = False,
       lacks_clear_oracle = False, hint_risk_tags = [Concurrency] \<rparr> \<rparr>"

lemma sample_input_objective: "\<not> is_blank (input_objective sample_input)"
  by code_simp

lemma sample_input_lower:
  "to_lowercase ''Replace the OAuth flow tests pass'' = ''replace the oauth flow tests pass''"
  by (simp add: to_lowercase_def lower_char_def ascii_lower_def)

lemma sample_input_text: "str_contains (analysis_text sample_input) ''oauth''"
  by (simp add: analysis_text_def sample_input_def sample_input_lower)

lemma oauth_needle: "\<exists>needles. (needles, Authentication) \<in> set risk_needles \<and> ''oauth'' \<in> set needles"
  unfolding risk_needles_def by (rule exI, rule conjI, rule list.set_intros(2), rule list.set_intros(1)) simp

theorem assess_honours_risks_witness:
  "\<exists>a. assess sample_input = Inr a \<and> {Authentication, Concurrency} \<subseteq> set (risk_tags a)
     \<and> minimum_quality_tier a = Tier_Premium"
proof -
  obtain a where a: "assess sample_input = Inr a" using assess_ok [OF sample_input_objective] by metis
  note h = assess_honours_risks [OF a]
  have auth: "Authentication \<in> set (risk_tags a)" using h oauth_needle sample_input_text by blast
  moreover have "Concurrency \<in> set (risk_tags a)" using h by (simp add: sample_input_def)
  moreover have "minimum_quality_tier a = Tier_Premium"
    using h auth by (auto simp: forces_premium_def)
  ultimately show ?thesis using a by blast
qed

end
