(* ===== verification/Routing.thy ===== *)
theory Routing
  imports Budget Analyzer "HOL-Library.Sorting_Algorithms"
begin

text \<open>
  \<open>crates/orchestrator-policy/src/routing.rs\<close> and \<open>crates/orchestrator-domain/src/routing.rs\<close>: the eligibility
  gates and the weighted score that choose the provider of a task. \<open>Vec::sort_by\<close> is the stable sort of the
  library over a comparator; the order of the scores is shown to be one. A NaN ranks above infinity in
  \<open>total_cmp\<close>, as a NaN with a positive sign does.
\<close>

section \<open>Orders\<close>

fun then_with :: "comp \<Rightarrow> comp \<Rightarrow> comp" where
  "then_with Less c = Less"
| "then_with Greater c = Greater"
| "then_with Equiv c = c"

definition cmp :: "'a :: linorder \<Rightarrow> 'a \<Rightarrow> comp" where
  "cmp a b = (if a < b then Less else if a = b then Equiv else Greater)"

fun f64_class :: "f64 \<Rightarrow> nat" where
  "f64_class (Infinity True) = 0"
| "f64_class (Finite s m) = 1"
| "f64_class (Infinity False) = 2"
| "f64_class NaN = 3"

fun f64_finite_val :: "f64 \<Rightarrow> rat" where
  "f64_finite_val (Finite s m) = f64_val s m"
| "f64_finite_val _ = 0"

definition f64_total_cmp :: "f64 \<Rightarrow> f64 \<Rightarrow> comp" where
  "f64_total_cmp x y =
     then_with (cmp (f64_class x) (f64_class y))
       (then_with (cmp (f64_finite_val x) (f64_finite_val y)) (cmp (f64_negative y) (f64_negative x)))"

text \<open>\<open>format!("{:.2}", x)\<close>: exact decimal digits, rounded half to even.\<close>

fun format_two_decimals :: "f64 \<Rightarrow> string" where
  "format_two_decimals NaN = ''NaN''"
| "format_two_decimals (Infinity s) = (if s then ''-inf'' else ''inf'')"
| "format_two_decimals (Finite s m) =
     (let n = nat (round_half_even (m * 100)) in
      (if s then ''-'' else []) @ digits_of (n div 100) @ ''.'' @ digits_of (n mod 100 div 10) @ digits_of (n mod 10))"

section \<open>Decisions (domain crate)\<close>

record ScoreComponents =
  sc_role_affinity :: f64
  sc_capability :: f64
  sc_credit_headroom :: f64
  sc_provider_health :: f64
  sc_admin_priority :: f64
  sc_usage_confidence :: f64
  sc_exhaustion_penalty :: f64
  sc_failure_penalty :: f64
  sc_handover_penalty :: f64
  sc_uncertainty_penalty :: f64

definition components_total :: "ScoreComponents \<Rightarrow> f64" where
  "components_total c =
     f64_sub (f64_sub (f64_sub (f64_sub
       (f64_add (f64_add (f64_add (f64_add (f64_add
          (sc_role_affinity c) (sc_capability c)) (sc_credit_headroom c)) (sc_provider_health c))
          (sc_admin_priority c)) (sc_usage_confidence c))
       (sc_exhaustion_penalty c)) (sc_failure_penalty c)) (sc_handover_penalty c)) (sc_uncertainty_penalty c)"

record CandidateRoutingScore =
  cs_provider :: ProviderId
  cs_eligible :: bool
  cs_exclusions :: "string list"
  cs_components :: ScoreComponents
  cs_total :: f64

record RoutingDecision =
  rd_schema_version :: SchemaVersion
  rd_decision_id :: RoutingDecisionId
  rd_task_id :: TaskId
  rd_selected_provider :: "ProviderId option"
  rd_selected_profile :: "ModelProfile option"
  rd_reasoning_effort :: "ReasoningEffort option"
  rd_parallel_workers :: usize
  rd_candidate_scores :: "CandidateRoutingScore list"
  rd_rationale :: "string list"
  rd_downgrade :: bool
  rd_applied_policy :: string
  rd_blocked_options :: "string list"
  rd_created_at :: DateTime

definition SUPPORTED_ROUTING_DECISION_SCHEMA_VERSIONS :: "string list" where
  "SUPPORTED_ROUTING_DECISION_SCHEMA_VERSIONS = [SchemaVersion_V1]"

definition decision_has_supported_schema :: "RoutingDecision \<Rightarrow> bool" where
  "decision_has_supported_schema d =
     is_supported_by (rd_schema_version d) SUPPORTED_ROUTING_DECISION_SCHEMA_VERSIONS"

section \<open>Candidates and context\<close>

datatype TaskRole =
    Implementation | Debugging | Testing | Refactoring | Architecture | SecurityReview
  | Role_IndependentReview | RepositoryResearch | Role_Planning | Role_Integration

record RoutingCandidate =
  rc_provider :: ProviderId
  rc_enabled :: bool
  rc_capabilities :: ProviderCapabilities
  rc_health :: ProviderHealth
  rc_budgets :: "BudgetForecast list"
  rc_available_profiles :: "ModelProfile list"
  rc_calibrated_remaining_work_units :: "f64 option"
  rc_recent_failure_rate :: f64
  rc_admin_priority :: int
  rc_handover_cost :: f64

record RoutingContext =
  cx_task_id :: TaskId
  cx_assessment :: TaskAssessment
  cx_role :: TaskRole
  cx_writable :: bool
  cx_candidates :: "RoutingCandidate list"
  cx_current_provider :: "ProviderId option"
  cx_implementation_provider :: "ProviderId option"
  cx_manually_requested_provider :: "ProviderId option"
  cx_conserve_budget :: bool

record RoutingConfig =
  rg_max_parallel_workers :: usize
  rg_allow_amber :: bool

definition RoutingConfig_default :: RoutingConfig where
  "RoutingConfig_default = \<lparr> rg_max_parallel_workers = 1, rg_allow_amber = True \<rparr>"

datatype RoutingError =
    ZeroParallelWorkers
  | SelectedScoreMissing
  | InvalidAssessment AssessmentError

section \<open>Scores\<close>

fun status_severity :: "ForecastStatus \<Rightarrow> nat" where
  "status_severity Green = 0"
| "status_severity Amber = 1"
| "status_severity Status_Unknown = 2"
| "status_severity Red = 3"
| "status_severity Exhausted = 4"

fun role_affinity :: "TaskRole \<Rightarrow> ProviderId \<Rightarrow> int" where
  "role_affinity Architecture p = (case p of Claude \<Rightarrow> 25 | Codex \<Rightarrow> 20 | _ \<Rightarrow> 18)"
| "role_affinity SecurityReview p = (case p of Claude \<Rightarrow> 25 | Codex \<Rightarrow> 22 | _ \<Rightarrow> 15)"
| "role_affinity Role_IndependentReview p = (case p of Claude \<Rightarrow> 25 | Codex \<Rightarrow> 23 | _ \<Rightarrow> 18)"
| "role_affinity RepositoryResearch p = (case p of Codex \<Rightarrow> 20 | Claude \<Rightarrow> 18 | _ \<Rightarrow> 25)"
| "role_affinity Role_Planning p = (case p of Codex \<Rightarrow> 25 | Claude \<Rightarrow> 20 | _ \<Rightarrow> 18)"
| "role_affinity Role_Integration p = (case p of Codex \<Rightarrow> 25 | Claude \<Rightarrow> 20 | _ \<Rightarrow> 18)"
| "role_affinity _ p = (case p of Codex \<Rightarrow> 25 | Claude \<Rightarrow> 18 | _ \<Rightarrow> 15)"

fun support_score :: "CapabilitySupport \<Rightarrow> f64" where
  "support_score Verified = f64_one"
| "support_score Advertised = f64_of_rat (3 / 4)"
| "support_score Degraded = f64_of_rat (1 / 2)"
| "support_score Unsupported = f64_zero"

definition capability_score :: "CapabilitySupport \<Rightarrow> CapabilitySupport \<Rightarrow> CapabilitySupport \<Rightarrow> f64" where
  "capability_score non_interactive structured execution_mode =
     f64_mul (f64_div
       (foldl f64_add f64_zero (map support_score [non_interactive, structured, execution_mode]))
       (f64_of_int 3)) (f64_of_int 20)"

text \<open>\<open>Iterator::reduce\<close>, and \<open>Iterator::max_by_key\<close>, which keeps the last of several maxima.\<close>

fun reduce :: "('a \<Rightarrow> 'a \<Rightarrow> 'a) \<Rightarrow> 'a list \<Rightarrow> 'a option" where
  "reduce f [] = None"
| "reduce f (x # xs) = Some (foldl f x xs)"

definition max_by_key :: "('a \<Rightarrow> nat) \<Rightarrow> 'a list \<Rightarrow> 'a option" where
  "max_by_key rank xs = reduce (\<lambda>x y. if rank x > rank y then x else y) xs"

definition score_inputs_valid :: "RoutingCandidate \<Rightarrow> bool" where
  "score_inputs_valid c \<longleftrightarrow>
     f64_is_finite (rc_recent_failure_rate c) \<and> f64_in_range f64_zero f64_one (rc_recent_failure_rate c)
     \<and> f64_is_finite (rc_handover_cost c) \<and> f64_in_range f64_zero f64_one (rc_handover_cost c)
     \<and> 0 \<le> rc_admin_priority c \<and> rc_admin_priority c \<le> 100"

fun health_score :: "HealthStatus \<Rightarrow> f64" where
  "health_score Healthy = f64_of_int 15"
| "health_score Health_Degraded = f64_of_rat (15 / 2)"
| "health_score Health_Unknown = f64_of_int 3"
| "health_score Unhealthy = f64_zero"

definition exhaustion_score :: "ForecastStatus option \<Rightarrow> f64" where
  "exhaustion_score worst =
     (case worst of
        Some Amber \<Rightarrow> f64_of_int 10
      | Some Red \<Rightarrow> f64_of_int 30
      | Some Exhausted \<Rightarrow> f64_of_int 30
      | _ \<Rightarrow> f64_zero)"

definition uncertainty_score :: "f64 option \<Rightarrow> f64" where
  "uncertainty_score confidence =
     (case confidence of
        None \<Rightarrow> f64_of_int 20
      | Some v \<Rightarrow>
          (if f64_eq v f64_zero then f64_of_int 20
           else if f64_lt v f64_one then f64_of_int 8
           else f64_zero))"

definition score_components ::
    "RoutingContext \<Rightarrow> RoutingCandidate \<Rightarrow> CapabilitySupport \<Rightarrow> ScoreComponents" where
  "score_components cx c execution_mode =
     (let confidence = reduce f64_min (map (\<lambda>b. confidence_weight (bf_confidence b)) (rc_budgets c)) in
      \<lparr> sc_role_affinity = f64_of_int (role_affinity (cx_role cx) (rc_provider c)),
        sc_capability = capability_score (cap_non_interactive (rc_capabilities c))
                          (cap_structured_output (rc_capabilities c)) execution_mode,
        sc_credit_headroom =
          (case reduce f64_min (List.map_filter bf_safe_remaining_percent (rc_budgets c)) of
             None \<Rightarrow> f64_zero
           | Some remaining \<Rightarrow> f64_div (f64_clamp f64_zero f64_hundred remaining) (f64_of_int 5)),
        sc_provider_health = health_score (health_status (rc_health c)),
        sc_admin_priority = f64_div (f64_of_int (max 0 (min 100 (rc_admin_priority c)))) (f64_of_int 10),
        sc_usage_confidence =
          f64_mul (case confidence of None \<Rightarrow> f64_zero | Some v \<Rightarrow> v) (f64_of_int 10),
        sc_exhaustion_penalty = exhaustion_score (max_by_key status_severity (map bf_status (rc_budgets c))),
        sc_failure_penalty = f64_mul (f64_clamp f64_zero f64_one (rc_recent_failure_rate c)) (f64_of_int 15),
        sc_handover_penalty =
          (if cx_current_provider cx = Some (rc_provider c) then f64_zero
           else f64_mul (f64_clamp f64_zero f64_one (rc_handover_cost c)) (f64_of_int 10)),
        sc_uncertainty_penalty = uncertainty_score confidence \<rparr>)"

fun profile_debug :: "ModelProfile \<Rightarrow> string" where
  "profile_debug Economy = ''Economy''"
| "profile_debug Standard = ''Standard''"
| "profile_debug Premium = ''Premium''"

fun tier_debug :: "QualityTier \<Rightarrow> string" where
  "tier_debug Tier_Economy = ''Economy''"
| "tier_debug Tier_Standard = ''Standard''"
| "tier_debug Tier_Premium = ''Premium''"

definition execution_mode :: "RoutingContext \<Rightarrow> RoutingCandidate \<Rightarrow> CapabilitySupport" where
  "execution_mode cx c =
     (if cx_writable cx then cap_writable (rc_capabilities c) else cap_read_only (rc_capabilities c))"

text \<open>The gates of \<open>score_candidate\<close> with their messages, in the order of the code.\<close>

definition candidate_gates ::
    "RoutingContext \<Rightarrow> RoutingCandidate \<Rightarrow> ModelProfile \<Rightarrow> RoutingConfig \<Rightarrow> (bool \<times> string) list" where
  "candidate_gates cx c required_profile cfg =
     (let has = (\<lambda>s. list_ex (\<lambda>b. bf_status b = s) (rc_budgets c)) in
      [(\<not> rc_enabled c, ''provider is disabled''),
       (rc_provider c \<noteq> cap_provider (rc_capabilities c) \<or> rc_provider c \<noteq> health_provider (rc_health c),
        ''provider identity differs across capability or health evidence''),
       (is_some_and (cx_manually_requested_provider cx) (\<lambda>p. p \<noteq> rc_provider c),
        ''another provider was manually requested''),
       (health_status (rc_health c) = Unhealthy, ''provider health is unhealthy''),
       (\<not> capability_usable (cap_non_interactive (rc_capabilities c))
        \<or> \<not> capability_usable (cap_structured_output (rc_capabilities c)),
        ''safe non-interactive structured execution is unsupported''),
       (\<not> capability_usable (execution_mode cx c), ''required sandbox execution mode is unsupported''),
       (cx_role cx = Role_IndependentReview \<and> \<not> capability_verified (execution_mode cx c),
        ''reviewer read-only mode has not been verified''),
       (cx_role cx = Role_IndependentReview
        \<and> is_some_and (cx_implementation_provider cx) (\<lambda>p. p = rc_provider c),
        ''independent review must use a different provider''),
       (required_profile \<notin> set (rc_available_profiles c),
        ''required '' @ profile_debug required_profile @ '' model profile is unavailable''),
       (has Exhausted, ''a required quota scope is exhausted''),
       (has Red, ''a required quota scope is below the safe handover threshold''),
       (\<not> rg_allow_amber cfg \<and> has Amber, ''amber quota is disabled by administrator policy''),
       (difficulty (cx_assessment cx) = Critical
        \<and> (rc_budgets c = []
           \<or> list_ex (\<lambda>b. bf_status b = Status_Unknown \<or> bf_confidence b = Confidence_Unknown) (rc_budgets c)),
        ''critical work requires known provider headroom''),
       (is_some_and (rc_calibrated_remaining_work_units c)
          (\<lambda>r. f64_lt r (range_max (estimated_usage_units (cx_assessment cx)))),
        ''estimated task usage exceeds calibrated safe remaining work units''),
       (\<not> score_inputs_valid c, ''candidate score inputs are outside configured bounds'')])"

definition score_candidate ::
    "RoutingContext \<Rightarrow> RoutingCandidate \<Rightarrow> ModelProfile \<Rightarrow> RoutingConfig \<Rightarrow> CandidateRoutingScore" where
  "score_candidate cx c required_profile cfg =
     (let exclusions = map snd (filter fst (candidate_gates cx c required_profile cfg));
          components = score_components cx c (execution_mode cx c)
      in \<lparr> cs_provider = rc_provider c, cs_eligible = (exclusions = []), cs_exclusions = exclusions,
           cs_components = components, cs_total = components_total components \<rparr>)"

section \<open>Routing\<close>

definition byte_codes :: "string \<Rightarrow> nat list" where "byte_codes s = map of_char s"

definition compare_scores :: "CandidateRoutingScore \<Rightarrow> CandidateRoutingScore \<Rightarrow> comp" where
  "compare_scores left right =
     then_with (cmp (cs_eligible right) (cs_eligible left))
    (then_with (f64_total_cmp (cs_total right) (cs_total left))
    (then_with (f64_total_cmp (sc_admin_priority (cs_components right)) (sc_admin_priority (cs_components left)))
       (cmp (byte_codes (provider_as_str (cs_provider left))) (byte_codes (provider_as_str (cs_provider right))))))"

lemma comparator_cmp: "comparator (\<lambda>a b. cmp (f a) (f b))"
  by standard (auto simp: cmp_def split: if_splits)

lemma comparator_flip:
  assumes "comparator c"
  shows "comparator (\<lambda>a b. c b a)"
proof (rule comparator.intro)
  note c = comparator.refl [OF assms] comparator.trans_equiv [OF assms] comparator.trans_less [OF assms]
    comparator.greater_iff_sym_less [OF assms]
  show "c a a = Equiv" for a by (rule c(1))
  show "c k a = Equiv" if "c b a = Equiv" "c k b = Equiv" for a b k using that c(2) by blast
  show "c k a = Less" if "c b a = Less" "c k b = Less" for a b k using that c(3) by blast
  show "c a b = Greater \<longleftrightarrow> c b a = Less" for a b by (rule c(4))
qed

lemma comparator_then:
  assumes "comparator c" and "comparator d"
  shows "comparator (\<lambda>a b. then_with (c a b) (d a b))"
proof (rule comparator.intro)
  note c = comparator.refl [OF assms(1)] comparator.trans_equiv [OF assms(1)] comparator.trans_less [OF assms(1)]
    comparator.greater_iff_sym_less [OF assms(1)] comparator.trans_equiv_less [OF assms(1)]
    comparator.trans_less_equiv [OF assms(1)] comparator.sym [OF assms(1)]
  note d = comparator.refl [OF assms(2)] comparator.trans_equiv [OF assms(2)] comparator.trans_less [OF assms(2)]
    comparator.greater_iff_sym_less [OF assms(2)] comparator.sym [OF assms(2)]
  have Equiv: "then_with x y = Equiv \<longleftrightarrow> x = Equiv \<and> y = Equiv"
    and Less: "then_with x y = Less \<longleftrightarrow> x = Less \<or> x = Equiv \<and> y = Less"
    and Greater: "then_with x y = Greater \<longleftrightarrow> x = Greater \<or> x = Equiv \<and> y = Greater" for x y
    by (cases x; simp)+
  show "then_with (c a a) (d a a) = Equiv" for a by (simp add: c(1) d(1))
  show "then_with (c a k) (d a k) = Equiv"
    if "then_with (c a b) (d a b) = Equiv" "then_with (c b k) (d b k) = Equiv" for a b k
    using that c(2) d(2) unfolding Equiv by blast
  show "then_with (c a k) (d a k) = Less"
    if "then_with (c a b) (d a b) = Less" "then_with (c b k) (d b k) = Less" for a b k
    using that c(2,3,5,6) d(3) unfolding Less by blast
  show "then_with (c b a) (d b a) = Greater \<longleftrightarrow> then_with (c a b) (d a b) = Less" for a b
    unfolding Less Greater using c(4) d(4) c(7) [of a b] by blast
qed

lemma comparator_total_cmp: "comparator (\<lambda>a b. f64_total_cmp (f a) (f b))"
  unfolding f64_total_cmp_def
  by (intro comparator_then comparator_cmp comparator_flip [OF comparator_cmp])

lemma comparator_compare_scores: "comparator compare_scores"
  unfolding compare_scores_def [abs_def]
  by (intro comparator_then comparator_cmp comparator_flip [OF comparator_cmp] comparator_flip [OF comparator_total_cmp])

lift_definition score_order :: "CandidateRoutingScore comparator" is compare_scores
  by (rule comparator_compare_scores)

fun profile_for_quality :: "QualityTier \<Rightarrow> ModelProfile" where
  "profile_for_quality Tier_Economy = Economy"
| "profile_for_quality Tier_Standard = Standard"
| "profile_for_quality Tier_Premium = Premium"

fun effort_for_profile :: "ModelProfile \<Rightarrow> ReasoningEffort" where
  "effort_for_profile Economy = Effort_Low"
| "effort_for_profile Standard = Effort_Medium"
| "effort_for_profile Premium = Effort_High"

definition blocked_messages :: "string list" where
  "blocked_messages =
     [''wait for quota reset'', ''use another approved provider'', ''reduce task scope'',
      ''ask an administrator for a usage override'',
      ''explicitly approve a quality downgrade when policy permits'']"

definition sorted_scores :: "RoutingContext \<Rightarrow> RoutingConfig \<Rightarrow> CandidateRoutingScore list" where
  "sorted_scores cx cfg =
     Sorting_Algorithms.sort score_order
       (map (\<lambda>c. score_candidate cx c (profile_for_quality (minimum_quality_tier (cx_assessment cx))) cfg)
          (cx_candidates cx))"

text \<open>\<open>fresh\<close> is the identifier that \<open>RoutingDecisionId::new\<close> draws.\<close>

definition route ::
    "RoutingDecisionId \<Rightarrow> RoutingContext \<Rightarrow> RoutingConfig \<Rightarrow> DateTime \<Rightarrow> RoutingError + RoutingDecision" where
  "route fresh cx cfg now =
     (if rg_max_parallel_workers cfg = 0 then Inl ZeroParallelWorkers
      else
        and_then (map_err InvalidAssessment (assessment_validate (cx_assessment cx))) (\<lambda>_.
        let quality = minimum_quality_tier (cx_assessment cx);
            required_profile = profile_for_quality quality;
            scores = sorted_scores cx cfg;
            selected_provider = map_option cs_provider (find cs_eligible scores);
            selected_profile = map_option (\<lambda>_. required_profile) selected_provider;
            reasoning_effort = map_option effort_for_profile selected_profile;
            eligible_count = of_nat (length (filter cs_eligible scores));
            parallel_workers =
              (if selected_provider = None then 0
               else if cx_writable cx \<or> cx_conserve_budget cx then 1
               else max (min (rg_max_parallel_workers cfg) eligible_count) 1)
        in
        and_then
          (case selected_provider of
             Some provider \<Rightarrow>
               and_then (ok_or SelectedScoreMissing (find (\<lambda>s. cs_provider s = provider) scores)) (\<lambda>selected.
                 Inr ([''selected '' @ provider_as_str provider @ '' with score ''
                        @ format_two_decimals (cs_total selected) @ ''; profile '' @ profile_debug required_profile
                        @ '' satisfies '' @ tier_debug quality @ '' quality floor''], []))
           | None \<Rightarrow>
               Inr ([''no approved provider satisfies health, capability, budget, and quality gates''],
                    blocked_messages)) (\<lambda>(reasons, blocked_options).
        Inr \<lparr> rd_schema_version = schema_v1, rd_decision_id = fresh, rd_task_id = cx_task_id cx,
              rd_selected_provider = selected_provider, rd_selected_profile = selected_profile,
              rd_reasoning_effort = reasoning_effort, rd_parallel_workers = parallel_workers,
              rd_candidate_scores = scores, rd_rationale = reasons, rd_downgrade = False,
              rd_applied_policy = ''enterprise-routing-v1'', rd_blocked_options = blocked_options,
              rd_created_at = now \<rparr>)))"

section \<open>Eligibility\<close>

text \<open>When a candidate may take the task.\<close>

definition may_take :: "RoutingContext \<Rightarrow> RoutingConfig \<Rightarrow> RoutingCandidate \<Rightarrow> bool" where
  "may_take cx cfg c \<longleftrightarrow>
     rc_enabled c \<and> cap_provider (rc_capabilities c) = rc_provider c \<and> health_provider (rc_health c) = rc_provider c
   \<and> cx_manually_requested_provider cx \<in> {None, Some (rc_provider c)}
   \<and> health_status (rc_health c) \<noteq> Unhealthy
   \<and> cap_non_interactive (rc_capabilities c) \<noteq> Unsupported
   \<and> cap_structured_output (rc_capabilities c) \<noteq> Unsupported
   \<and> execution_mode cx c \<noteq> Unsupported
   \<and> (cx_role cx = Role_IndependentReview \<longrightarrow>
        execution_mode cx c = Verified \<and> cx_implementation_provider cx \<noteq> Some (rc_provider c))
   \<and> profile_for_quality (minimum_quality_tier (cx_assessment cx)) \<in> set (rc_available_profiles c)
   \<and> {Exhausted, Red} \<inter> bf_status ` set (rc_budgets c) = {}
   \<and> (rg_allow_amber cfg \<or> Amber \<notin> bf_status ` set (rc_budgets c))
   \<and> (difficulty (cx_assessment cx) = Critical \<longrightarrow>
        rc_budgets c \<noteq> [] \<and> Status_Unknown \<notin> bf_status ` set (rc_budgets c)
        \<and> Confidence_Unknown \<notin> bf_confidence ` set (rc_budgets c))
   \<and> (\<forall>r. rc_calibrated_remaining_work_units c = Some r \<longrightarrow>
        \<not> f64_lt r (range_max (estimated_usage_units (cx_assessment cx))))
   \<and> score_inputs_valid c"

lemma capability_usable_iff: "capability_usable x \<longleftrightarrow> x \<noteq> Unsupported"
  by (cases x) (simp_all add: capability_usable_def)

lemma gate_simps:
  "list_ex (\<lambda>b. bf_status b = s) bs \<longleftrightarrow> s \<in> bf_status ` set bs"
  "list_ex (\<lambda>b. bf_status b = Status_Unknown \<or> bf_confidence b = Confidence_Unknown) bs \<longleftrightarrow>
     Status_Unknown \<in> bf_status ` set bs \<or> Confidence_Unknown \<in> bf_confidence ` set bs"
  "is_some_and m (\<lambda>p. p \<noteq> x) \<longleftrightarrow> m \<notin> {None, Some x}"
  "is_some_and m (\<lambda>p. p = x) \<longleftrightarrow> m = Some x"
  "\<not> is_some_and r P \<longleftrightarrow> (\<forall>v. r = Some v \<longrightarrow> \<not> P v)"
  "{Exhausted, Red} \<inter> A = {} \<longleftrightarrow> Exhausted \<notin> A \<and> Red \<notin> A"
  by (force simp: list_ex_iff image_iff is_some_and_iff)+

lemma filter_fst_Nil: "filter fst ((b, m) # gs) = [] \<longleftrightarrow> \<not> b \<and> filter fst gs = []"
  by simp

lemma gates_open_iff:
  "filter fst (candidate_gates cx c (profile_for_quality (minimum_quality_tier (cx_assessment cx))) cfg) = []
     \<longleftrightarrow> may_take cx cfg c"
  unfolding candidate_gates_def may_take_def Let_def capability_usable_iff capability_verified_def
    filter_fst_Nil gate_simps
  by (simp add: eq_commute [of "rc_provider c"] imp_conjR del: insert_iff singleton_iff)

section \<open>Selection\<close>

abbreviation score_of :: "RoutingContext \<Rightarrow> RoutingConfig \<Rightarrow> RoutingCandidate \<Rightarrow> CandidateRoutingScore" where
  "score_of cx cfg c \<equiv> score_candidate cx c (profile_for_quality (minimum_quality_tier (cx_assessment cx))) cfg"

lemma score_eligible_iff: "cs_eligible (score_of cx cfg c) \<longleftrightarrow> may_take cx cfg c"
  by (simp add: score_candidate_def Let_def gates_open_iff)

lemma score_provider: "cs_provider (score_of cx cfg c) = rc_provider c"
  by (simp add: score_candidate_def Let_def)

lemma set_sorted_scores: "set (sorted_scores cx cfg) = score_of cx cfg ` set (cx_candidates cx)"
  by (simp add: sorted_scores_def)

text \<open>The first eligible score of the sorted list has the highest total of all eligible scores.\<close>

lemma cmp_Greater [simp]: "cmp a b = Greater \<longleftrightarrow> b < a" "cmp a b = Equiv \<longleftrightarrow> a = b" "cmp a b = Less \<longleftrightarrow> a < b"
  by (auto simp: cmp_def)

lemma then_with_not_Greater: "then_with x y \<noteq> Greater \<Longrightarrow> x \<noteq> Greater"
  by (cases x) simp_all

lemma first_eligible_is_best:
  assumes "Sorting_Algorithms.sorted score_order scores" and "find cs_eligible scores = Some s"
    and "t \<in> set scores" and "cs_eligible t"
  shows "f64_total_cmp (cs_total t) (cs_total s) \<noteq> Greater"
  using assms
proof (induction scores rule: list.induct)
  case (Cons x xs)
  show ?case
  proof (cases "cs_eligible x")
    case True
    then have "s = x" using Cons.prems(2) by simp
    have "compare score_order x t \<noteq> Greater"
    proof (cases "t = x")
      case False
      then have "t \<in> set xs" using Cons.prems(3) by simp
      then show ?thesis by (rule Sorting_Algorithms.sorted_Cons_imp_not_less [OF Cons.prems(1)])
    qed simp
    then have "compare_scores x t \<noteq> Greater" by transfer
    moreover have "cmp (cs_eligible t) (cs_eligible x) = Equiv" using True Cons.prems(4) by simp
    ultimately show ?thesis
      unfolding compare_scores_def \<open>s = x\<close> by (simp only: then_with.simps) (rule then_with_not_Greater)
  next
    case False
    then show ?thesis
      using Cons.IH [OF Sorting_Algorithms.sorted_Cons_imp_sorted [OF Cons.prems(1)]] Cons.prems(2-4) by auto
  qed
qed simp

lemma selected_candidate:
  assumes "find cs_eligible (sorted_scores cx cfg) = Some s"
  shows "\<exists>c. c \<in> set (cx_candidates cx) \<and> s = score_of cx cfg c \<and> may_take cx cfg c
     \<and> set (cx_candidates cx) \<inter> Collect (may_take cx cfg)
         \<subseteq> {c'. f64_total_cmp (cs_total (score_of cx cfg c')) (cs_total (score_of cx cfg c)) \<noteq> Greater}"
proof -
  have "s \<in> set (sorted_scores cx cfg)" "cs_eligible s" using assms by (auto simp: find_Some_iff)
  then obtain c where c: "c \<in> set (cx_candidates cx)" "s = score_of cx cfg c" "may_take cx cfg c"
    using score_eligible_iff [of cx _ cfg] by (auto simp: set_sorted_scores)
  have "f64_total_cmp (cs_total (score_of cx cfg c')) (cs_total s) \<noteq> Greater"
    if "c' \<in> set (cx_candidates cx)" "may_take cx cfg c'" for c'
  proof (rule first_eligible_is_best [OF _ assms])
    show "Sorting_Algorithms.sorted score_order (sorted_scores cx cfg)" by (simp add: sorted_scores_def)
  qed (use that score_eligible_iff [of cx c' cfg] in \<open>auto simp: set_sorted_scores\<close>)
  then show ?thesis using c by (intro exI [of _ c]) auto
qed

lemma no_candidate:
  assumes "find cs_eligible (sorted_scores cx cfg) = None"
  shows "Collect (may_take cx cfg) \<inter> set (cx_candidates cx) = {}"
  using assms score_eligible_iff [of cx _ cfg] by (auto simp: find_None_iff set_sorted_scores)

lemma selected_score_found:
  assumes "find cs_eligible scores = Some s"
  shows "\<exists>t. find (\<lambda>x. cs_provider x = cs_provider s) scores = Some t"
proof -
  have "s \<in> set scores" using assms by (auto simp: find_Some_iff)
  then show ?thesis by (cases "find (\<lambda>x. cs_provider x = cs_provider s) scores") (auto simp: find_None_iff)
qed

lemma worker_bounds:
  fixes m n :: usize
  assumes "m \<noteq> 0"
  shows "1 \<le> max (min m n) 1" "max (min m n) 1 \<le> m" "1 \<le> m"
proof -
  show "1 \<le> m" using assms by (simp add: word_le_nat_alt unat_gt_0 Suc_le_eq)
  then show "1 \<le> max (min m n) 1" "max (min m n) 1 \<le> m" by simp_all
qed

text \<open>C35: routing picks a best admissible provider. It fails only for zero workers or an invalid assessment.
  Otherwise the selected provider belongs to a candidate that passes every gate, with the highest score of
  all candidates that do; the profile is the one the quality floor asks for and is never lowered; at
  least one and at most the configured number of workers run, and only one where files are written; and
  nothing is selected only when no candidate passes the gates.\<close>

theorem route_selects_best:
  "(case route fresh cx cfg now of
      Inl e \<Rightarrow>
        (if rg_max_parallel_workers cfg = 0 then e = ZeroParallelWorkers
         else \<exists>a. assessment_validate (cx_assessment cx) = Inl a \<and> e = InvalidAssessment a)
    | Inr d \<Rightarrow>
        rg_max_parallel_workers cfg \<noteq> 0 \<and> assessment_validate (cx_assessment cx) = Inr () \<and> \<not> rd_downgrade d
        \<and> (case rd_selected_provider d of
              None \<Rightarrow> Collect (may_take cx cfg) \<inter> set (cx_candidates cx) = {} \<and> rd_parallel_workers d = 0
            | Some p \<Rightarrow>
                \<exists>c. c \<in> set (cx_candidates cx) \<and> rc_provider c = p \<and> may_take cx cfg c
                \<and> set (cx_candidates cx) \<inter> Collect (may_take cx cfg)
                    \<subseteq> {c'. f64_total_cmp (cs_total (score_of cx cfg c')) (cs_total (score_of cx cfg c)) \<noteq> Greater}
                \<and> rd_selected_profile d = Some (profile_for_quality (minimum_quality_tier (cx_assessment cx)))
                \<and> 1 \<le> rd_parallel_workers d \<and> rd_parallel_workers d \<le> rg_max_parallel_workers cfg
                \<and> (if cx_writable cx then rd_parallel_workers d = 1 else True)))"
proof (cases "rg_max_parallel_workers cfg = 0")
  case True
  then show ?thesis by (simp add: route_def)
next
  case max: False
  note w = worker_bounds [OF max]
  show ?thesis
  proof (cases "assessment_validate (cx_assessment cx)")
    case (Inl a)
    then show ?thesis using max by (simp add: route_def)
  next
    case (Inr u)
    show ?thesis
    proof (cases "find cs_eligible (sorted_scores cx cfg)")
      case None
      then show ?thesis using max Inr no_candidate [OF None] by (simp add: route_def map_err_def Let_def)
    next
      case (Some s)
      obtain t where t: "find (\<lambda>x. cs_provider x = cs_provider s) (sorted_scores cx cfg) = Some t"
        using selected_score_found [OF Some] by blast
      show ?thesis
        using max Inr Some t w selected_candidate [OF Some] score_provider [of cx _ cfg]
        by (auto simp: route_def map_err_def Let_def ok_or_def)
    qed
  qed
qed

end
