(* ===== verification/Artifacts.thy ===== *)
theory Artifacts
  imports State_Store Canonical
begin

text \<open>
  \<open>crates/orchestrator-state/src/artifacts.rs\<close> (\<open>ArtifactStore\<close>) and the directory guards of
  \<open>permissions.rs\<close>: an immutable file store below a canonical root. The file system is a map from the
  components of a path to what is there; permission bits, temporary files and device errors are not
  modelled, so an \<open>Io\<close> error means that a file stands where a directory is needed or the reverse.
\<close>

section \<open>File system\<close>

text \<open>A link records whether its target exists: \<open>Path::exists\<close> follows links, \<open>symlink_metadata\<close> does not.\<close>

datatype node = Directory | File string | Link bool

type_synonym file_system = "Component list \<Rightarrow> node option"

definition path_exists :: "file_system \<Rightarrow> Component list \<Rightarrow> bool" where
  "path_exists fs p =
     (case fs p of None \<Rightarrow> False | Some (Link resolves) \<Rightarrow> resolves | Some _ \<Rightarrow> True)"

definition is_link :: "file_system \<Rightarrow> Component list \<Rightarrow> bool" where
  "is_link fs p \<longleftrightarrow> (case fs p of Some (Link _) \<Rightarrow> True | _ \<Rightarrow> False)"

definition is_file :: "file_system \<Rightarrow> Component list \<Rightarrow> bool" where
  "is_file fs p \<longleftrightarrow> (case fs p of Some (File _) \<Rightarrow> True | _ \<Rightarrow> False)"

text \<open>\<open>reject_symlink_components\<close> walks down the path; looking below a file is an error.\<close>

fun reject_from :: "file_system \<Rightarrow> Component list \<Rightarrow> Component list \<Rightarrow> StateError + unit" where
  "reject_from fs current [] = Inr ()"
| "reject_from fs current (RootDir # cs) = reject_from fs (current @ [RootDir]) cs"
| "reject_from fs current (CurDir # cs) = reject_from fs current cs"
| "reject_from fs current (ParentDir # cs) = Inl UnsafeArtifactPath"
| "reject_from fs current (Normal part # cs) =
     (let next = current @ [Normal part] in
      if is_file fs current then Inl (Io ''not a directory'')
      else if is_link fs next then Inl (SymlinkEscape next)
      else reject_from fs next cs)"

definition reject_symlink_components :: "file_system \<Rightarrow> Component list \<Rightarrow> StateError + unit" where
  "reject_symlink_components fs path = reject_from fs [] path"

text \<open>\<open>fs::create_dir_all\<close> on a path without links.\<close>

fun create_from :: "file_system \<Rightarrow> Component list \<Rightarrow> Component list \<Rightarrow> (StateError + unit) \<times> file_system" where
  "create_from fs current [] = (Inr (), fs)"
| "create_from fs current (c # cs) =
     (let next = current @ [c] in
      case fs next of
        None \<Rightarrow> create_from (fs(next \<mapsto> Directory)) next cs
      | Some Directory \<Rightarrow> create_from fs next cs
      | Some _ \<Rightarrow> (Inl (Io ''not a directory''), fs))"

definition ensure_private_directory ::
    "file_system \<Rightarrow> Component list \<Rightarrow> (StateError + unit) \<times> file_system" where
  "ensure_private_directory fs path =
     (case reject_symlink_components fs path of
        Inl e \<Rightarrow> (Inl e, fs)
      | Inr _ \<Rightarrow>
          (case create_from fs [] path of
             (Inl e, fs') \<Rightarrow> (Inl e, fs')
           | (Inr _, fs') \<Rightarrow> (reject_symlink_components fs' path, fs')))"

section \<open>The store\<close>

record StoredArtifact =
  sa_relative_path :: RepoPath
  sa_sha256 :: string
  sa_byte_length :: u64

text \<open>\<open>ensure_safe_parent\<close>: \<open>base\<close> are the components of the store's root.\<close>

fun safe_from :: "file_system \<Rightarrow> Component list \<Rightarrow> Component list \<Rightarrow> StateError + unit" where
  "safe_from fs current [] = Inr ()"
| "safe_from fs current (c # cs) =
     (let next = current @ [c] in
      if path_exists fs next \<and> is_link fs next then Inl (SymlinkEscape next)
      else safe_from fs next cs)"

definition ensure_safe_parent ::
    "file_system \<Rightarrow> Component list \<Rightarrow> Component list \<Rightarrow> StateError + unit" where
  "ensure_safe_parent fs base parent =
     (if prefix base parent then safe_from fs base (drop (length base) parent)
      else Inl UnsafeArtifactPath)"

definition verify_existing ::
    "integrity_env \<Rightarrow> file_system \<Rightarrow> RepoPath \<Rightarrow> Component list \<Rightarrow> string \<Rightarrow> u64
     \<Rightarrow> StateError + StoredArtifact" where
  "verify_existing env fs relative_path destination digest len =
     (case fs destination of
        Some (Link _) \<Rightarrow> Inl (SymlinkEscape destination)
      | Some (File bytes) \<Rightarrow>
          (if of_nat (length bytes) \<noteq> len \<or> sha256_hex env bytes \<noteq> digest
           then Inl (ArtifactConflict destination)
           else Inr \<lparr> sa_relative_path = relative_path, sa_sha256 = digest, sa_byte_length = len \<rparr>)
      | _ \<Rightarrow> Inl (Io ''not a file''))"

definition artifact_put ::
    "integrity_env \<Rightarrow> string \<Rightarrow> file_system \<Rightarrow> RepoPath \<Rightarrow> string
     \<Rightarrow> (StateError + StoredArtifact) \<times> file_system" where
  "artifact_put env base fs path contents =
     (let destination = components (join_to path base); parent = butlast destination in
      if destination = [] \<or> destination = [RootDir] then (Inl UnsafeArtifactPath, fs)
      else
        case ensure_safe_parent fs (components base) parent of
          Inl e \<Rightarrow> (Inl e, fs)
        | Inr _ \<Rightarrow>
            (case ensure_private_directory fs parent of
               (Inl e, fs1) \<Rightarrow> (Inl e, fs1)
             | (Inr _, fs1) \<Rightarrow>
                 (case ensure_safe_parent fs1 (components base) parent of
                    Inl e \<Rightarrow> (Inl e, fs1)
                  | Inr _ \<Rightarrow>
                      (let digest = sha256_hex env contents; len = of_nat (length contents) in
                       if fs1 destination \<noteq> None
                       then (verify_existing env fs1 path destination digest len, fs1)
                       else (Inr \<lparr> sa_relative_path = path, sa_sha256 = digest, sa_byte_length = len \<rparr>,
                             fs1(destination \<mapsto> File contents))))))"

definition read_path ::
    "file_system \<Rightarrow> string \<Rightarrow> RepoPath \<Rightarrow> StateError + Component list \<times> string" where
  "read_path fs base relative_path =
     (let path = components (join_to relative_path base) in
      and_then (reject_symlink_components fs path) (\<lambda>_.
        case fs path of
          None \<Rightarrow> Inl (Io ''not found'')
        | Some found \<Rightarrow>
            if \<not> prefix (components base) path then Inl (SymlinkEscape path)
            else (case found of File bytes \<Rightarrow> Inr (path, bytes) | _ \<Rightarrow> Inl (Io ''not a file''))))"

definition read_verified ::
    "integrity_env \<Rightarrow> string \<Rightarrow> file_system \<Rightarrow> StoredArtifact \<Rightarrow> StateError + string" where
  "read_verified env base fs artifact =
     and_then (read_path fs base (sa_relative_path artifact)) (\<lambda>(path, contents).
       if sha256_hex env contents \<noteq> sa_sha256 artifact
          \<or> of_nat (length contents) \<noteq> sa_byte_length artifact
       then Inl (ArtifactConflict path) else Inr contents)"

definition artifact_inspect ::
    "integrity_env \<Rightarrow> string \<Rightarrow> file_system \<Rightarrow> RepoPath \<Rightarrow> StateError + StoredArtifact" where
  "artifact_inspect env base fs relative_path =
     and_then (read_path fs base relative_path) (\<lambda>(_, contents).
       Inr \<lparr> sa_relative_path = relative_path, sa_sha256 = sha256_hex env contents,
             sa_byte_length = of_nat (length contents) \<rparr>)"

section \<open>Growth of the file system\<close>

text \<open>\<open>grows fs fs'\<close>: nothing that exists in \<open>fs\<close> is changed or removed, and nothing is put at the
  top.\<close>

definition grows :: "file_system \<Rightarrow> file_system \<Rightarrow> bool" where
  "grows fs fs' \<longleftrightarrow> fs \<subseteq>\<^sub>m fs' \<and> fs' [] = fs []"

lemma growsD: "grows fs fs' \<Longrightarrow> fs p = Some x \<Longrightarrow> fs' p = Some x"
  by (auto simp: grows_def map_le_def dom_def)

lemma grows_refl [simp]: "grows fs fs"
  by (simp add: grows_def)

lemma grows_trans: "grows a b \<Longrightarrow> grows b c \<Longrightarrow> grows a c"
  by (auto simp: grows_def intro: map_le_trans)

lemma grows_upd: "fs p = None \<Longrightarrow> p \<noteq> [] \<Longrightarrow> grows fs (fs(p \<mapsto> x))"
  by (auto simp: grows_def map_le_def)

lemma create_from_grows: "grows fs (snd (create_from fs current cs))"
proof (induction fs current cs rule: create_from.induct)
  case (2 fs current c cs)
  show ?case
  proof (cases "fs (current @ [c])")
    case None
    have "grows fs (fs(current @ [c] \<mapsto> Directory))" using None by (intro grows_upd) simp_all
    then show ?thesis using 2(1) [OF refl None] None by (auto simp: fun_upd_def Let_def intro: grows_trans)
  next
    case (Some x)
    then show ?thesis using 2(2) [OF refl Some] by (cases x) (simp_all add: Let_def)
  qed
qed simp

lemma ensure_private_directory_grows: "grows fs (snd (ensure_private_directory fs path))"
  using create_from_grows [of fs "[]" path]
  by (auto simp: ensure_private_directory_def split: sum.split prod.split)

lemma ensure_private_directory_cases:
  obtains e fs1 where "ensure_private_directory fs path = (Inl e, fs1)" "grows fs fs1"
  | fs1 where "ensure_private_directory fs path = (Inr (), fs1)" "grows fs fs1"
  using ensure_private_directory_grows [of fs path]
  by (cases "ensure_private_directory fs path"; cases "fst (ensure_private_directory fs path)") auto

text \<open>Every call of \<open>put\<close>, whatever it returns, only adds to the file system.\<close>

lemma artifact_put_grows:
  assumes "artifact_put env base fs path contents = (r, fs')"
  shows "grows fs fs'"
proof (cases rule: ensure_private_directory_cases
    [of fs "butlast (components (join_to path base))"])
  case (1 e fs1)
  then show ?thesis using assms by (auto simp: artifact_put_def Let_def split: sum.splits if_splits)
next
  case (2 fs1)
  then show ?thesis using assms
    by (auto simp: artifact_put_def Let_def split: sum.splits if_splits intro: grows_trans grows_upd)
qed

section \<open>Reading back\<close>

text \<open>The root of a store is absolute and canonical (\<open>fs::canonicalize\<close>), and every existing node has a
  directory above it.\<close>

definition canonical_base :: "string \<Rightarrow> bool" where
  "canonical_base base \<longleftrightarrow> has_root base \<and> list_all is_normal (tl (components base))"

definition closed_fs :: "file_system \<Rightarrow> bool" where
  "closed_fs fs \<longleftrightarrow> (\<forall>p c. p \<noteq> [] \<longrightarrow> fs (p @ [c]) \<noteq> None \<longrightarrow> fs p = Some Directory)"

lemma closed_fsD: "closed_fs fs \<Longrightarrow> p \<noteq> [] \<Longrightarrow> fs (p @ [c]) \<noteq> None \<Longrightarrow> fs p = Some Directory"
  by (auto simp: closed_fs_def)

lemma closed_fs_prefix:
  assumes "closed_fs fs" and "fs p \<noteq> None" and "strict_prefix q p" and "q \<noteq> []"
  shows "fs q = Some Directory"
  using assms(2,3)
proof (induction p rule: rev_induct)
  case (snoc c p)
  have p: "prefix q p" using snoc(3) by (auto simp: strict_prefix_def prefix_snoc)
  then have "p \<noteq> []" using assms(4) by auto
  then have "fs p = Some Directory" using closed_fsD [OF assms(1)] snoc(2) by blast
  then show ?case using snoc(1) p by (cases "q = p") (auto simp: strict_prefix_def)
qed simp

lemma components_no_CurDir:
  assumes "has_root s"
  shows "CurDir \<notin> set (components s)" and "components s \<noteq> []" and "hd (components s) = RootDir"
  using assms by (auto simp: components_def body_components_def part_component_def)

lemma has_root_path_join: "has_root base \<Longrightarrow> has_root (path_join base p)"
  by (auto simp: path_join_def has_root_def split: list.splits)

lemma reject_from_append:
  assumes "CurDir \<notin> set xs"
  shows "reject_from fs current (xs @ ys) = Inr () \<longleftrightarrow>
     reject_from fs current xs = Inr () \<and> reject_from fs (current @ xs) ys = Inr ()"
  using assms
proof (induction xs arbitrary: current)
  case (Cons c xs)
  then show ?case by (cases c) (auto simp: Let_def)
qed simp

text \<open>The walk only looks at the prefixes of the path.\<close>

lemma reject_from_cong:
  assumes "CurDir \<notin> set xs" and "\<And>q. prefix current q \<Longrightarrow> prefix q (current @ xs) \<Longrightarrow> fs q = fs' q"
  shows "reject_from fs current xs = reject_from fs' current xs"
  using assms
proof (induction xs arbitrary: current)
  case (Cons c xs)
  have IH: "reject_from fs (current @ [c]) xs = reject_from fs' (current @ [c]) xs"
    using Cons(2,3) by (intro Cons(1)) (auto dest: append_prefixD)
  have "fs current = fs' current" "fs (current @ [c]) = fs' (current @ [c])"
    using Cons(3) by auto
  then show ?case using IH Cons(2) by (cases c) (auto simp: Let_def is_file_def is_link_def)
qed simp

lemma read_path_grows:
  assumes "canonical_base base" and "closed_fs fs" and "grows fs fs'"
    and "read_path fs base p = Inr (q, bytes)"
  shows "read_path fs' base p = Inr (q, bytes)"
proof -
  let ?path = "components (join_to p base)"
  have root: "has_root (join_to p base)"
    using assms(1) has_root_path_join by (simp add: canonical_base_def join_to_def)
  have stored: "fs ?path = Some (File bytes)" and ok: "reject_from fs [] ?path = Inr ()"
    using assms(4)
    by (auto simp: read_path_def Let_def and_then_eq_Inr reject_symlink_components_def
        split: option.splits if_splits node.splits)
  have eq: "fs r = fs' r" if "prefix r ?path" for r
  proof (cases "r = [] \<or> r = ?path")
    case True
    then show ?thesis using assms(3) growsD [OF assms(3) stored] stored by (auto simp: grows_def)
  next
    case False
    then have "fs r = Some Directory"
      using that stored by (intro closed_fs_prefix [OF assms(2)]) (auto simp: strict_prefix_def)
    then show ?thesis using growsD [OF assms(3)] by simp
  qed
  have "reject_from fs' [] ?path = Inr ()"
    using reject_from_cong [OF components_no_CurDir(1) [OF root], of "[]" fs fs'] eq ok by simp
  then show ?thesis
    using assms(4) ok eq [of ?path] by (simp add: read_path_def Let_def reject_symlink_components_def)
qed

lemma read_verified_grows:
  assumes "canonical_base base" and "closed_fs fs" and "grows fs fs'"
    and "read_verified env base fs a = Inr c"
  shows "read_verified env base fs' a = Inr c"
proof -
  obtain q bytes where "read_path fs base (sa_relative_path a) = Inr (q, bytes)"
    using assms(4) by (auto simp: read_verified_def and_then_eq_Inr)
  with read_path_grows [OF assms(1-3) this] show ?thesis using assms(4) by (simp add: read_verified_def)
qed


lemma create_from_closed:
  assumes "closed_fs fs" and "current = [] \<or> fs current = Some Directory"
    and "create_from fs current cs = (r, fs')"
  shows "closed_fs fs' \<and> (r = Inr () \<longrightarrow> cs \<noteq> [] \<longrightarrow> fs' (current @ cs) = Some Directory)"
  using assms
proof (induction cs arbitrary: fs current)
  case (Cons c cs)
  let ?next = "current @ [c]"
  show ?case
  proof (cases "fs ?next")
    case None
    let ?fs1 = "fs(?next \<mapsto> Directory)"
    have "closed_fs ?fs1"
      unfolding closed_fs_def
    proof (intro allI impI)
      fix p d assume p: "p \<noteq> []" "?fs1 (p @ [d]) \<noteq> None"
      show "?fs1 p = Some Directory"
        using p Cons(3) closed_fsD [OF Cons(2) p(1), of d] None by (cases "p @ [d] = ?next") auto
    qed
    moreover have run: "create_from ?fs1 ?next cs = (r, fs')" using Cons(4) None by (simp add: Let_def)
    ultimately have "closed_fs fs' \<and> (r = Inr () \<longrightarrow> cs \<noteq> [] \<longrightarrow> fs' (?next @ cs) = Some Directory)"
      by (intro Cons(1) [of ?fs1]) (simp_all only: fun_upd_same simp_thms)
    then show ?thesis using run by (cases "cs = []") auto
  next
    case (Some x)
    show ?thesis
    proof (cases "x = Directory")
      case True
      then have run: "create_from fs ?next cs = (r, fs')" using Cons(4) Some by (simp add: Let_def)
      then have "closed_fs fs' \<and> (r = Inr () \<longrightarrow> cs \<noteq> [] \<longrightarrow> fs' (?next @ cs) = Some Directory)"
        using Cons(2) Some True by (intro Cons(1)) simp_all
      then show ?thesis using run Some True by (cases "cs = []") auto
    next
      case False
      then show ?thesis using Cons(2,4) Some by (cases x) (auto simp: Let_def)
    qed
  qed
qed auto

lemma ensure_private_directory_closed:
  assumes "closed_fs fs" and "ensure_private_directory fs path = (r, fs')"
  shows "closed_fs fs'"
    and "r = Inr () \<Longrightarrow> path \<noteq> [] \<Longrightarrow> fs' path = Some Directory"
  using assms create_from_closed [OF assms(1), of "[]" path]
  by (auto simp: ensure_private_directory_def reject_symlink_components_def
      split: sum.splits prod.splits)


text \<open>A file of a closed file system is reached without crossing a link or another file.\<close>

lemma reject_from_file:
  assumes "closed_fs fs" and "list_all is_normal cs" and "current \<noteq> []"
    and "fs (current @ cs) = Some (File bytes)"
  shows "reject_from fs current cs = Inr ()"
  using assms(2-4)
proof (induction cs arbitrary: current)
  case (Cons c cs)
  obtain part where c: "c = Normal part" using Cons(2) by (auto simp: is_normal_def split: Component.splits)
  have "fs current = Some Directory"
    using Cons(3,4) by (intro closed_fs_prefix [OF assms(1), of "current @ c # cs"]) (auto simp: strict_prefix_def)
  moreover have "fs (current @ [c]) = Some (if cs = [] then File bytes else Directory)"
  proof (cases "cs = []")
    case False
    have "fs (current @ [c]) = Some Directory"
      using False Cons(4)
      by (intro closed_fs_prefix [OF assms(1), of "current @ c # cs"]) (auto simp: strict_prefix_def)
    then show ?thesis using False by simp
  qed (use Cons(4) in simp)
  moreover have "reject_from fs (current @ [c]) cs = Inr ()"
    using Cons(2,4) by (intro Cons(1)) auto
  ultimately show ?case by (simp add: c is_file_def is_link_def Let_def)
qed simp

text \<open>What a successful \<open>put\<close> leaves behind.\<close>

lemma artifact_put_ok:
  assumes "closed_fs fs" and "artifact_put env base fs path contents = (Inr a, fs')"
  shows "closed_fs fs'"
    and "prefix (components base) (components (join_to path base))"
    and "a = \<lparr> sa_relative_path = path, sa_sha256 = sha256_hex env contents,
               sa_byte_length = of_nat (length contents) \<rparr>"
    and "\<exists>bytes. fs' (components (join_to path base)) = Some (File bytes)
           \<and> sha256_hex env bytes = sha256_hex env contents
           \<and> (of_nat (length bytes) :: u64) = of_nat (length contents)"
proof -
  define destination where "destination = components (join_to path base)"
  let ?parent = "butlast destination"
  obtain fs1 where dir: "ensure_private_directory fs ?parent = (Inr (), fs1)"
    and safe: "ensure_safe_parent fs1 (components base) ?parent = Inr ()"
    and ne: "destination \<noteq> []"
    and rest: "if fs1 destination \<noteq> None
       then verify_existing env fs1 path destination (sha256_hex env contents) (of_nat (length contents)) = Inr a
            \<and> fs' = fs1
       else a = \<lparr> sa_relative_path = path, sa_sha256 = sha256_hex env contents,
                   sa_byte_length = of_nat (length contents) \<rparr> \<and> fs' = fs1(destination \<mapsto> File contents)"
    using assms(2) unfolding artifact_put_def destination_def [symmetric]
    by (auto simp: Let_def split: sum.splits prod.splits if_splits)
  note closed = ensure_private_directory_closed [OF assms(1) dir]
  have "prefix (components base) ?parent"
    using safe by (auto simp: ensure_safe_parent_def split: if_splits)
  then show "prefix (components base) (components (join_to path base))"
    using prefixeq_butlast prefix_order.trans unfolding destination_def by blast
  have "closed_fs fs'" if none: "fs1 destination = None"
    unfolding closed_fs_def
  proof (intro allI impI)
    fix p c assume p: "p \<noteq> []" "fs' (p @ [c]) \<noteq> None"
    have fs': "fs' = fs1(destination \<mapsto> File contents)" using rest none by simp
    show "fs' p = Some Directory"
    proof (cases "p @ [c] = destination")
      case True
      then have "p = ?parent" by (metis butlast_snoc)
      then show ?thesis using p(1) closed(2) True by (auto simp: fs')
    next
      case False
      then show ?thesis using closed_fsD [OF closed(1) p(1), of c] p(2) none by (auto simp: fs')
    qed
  qed
  then show "closed_fs fs'" using rest closed(1) by (cases "fs1 destination") auto
  show "a = \<lparr> sa_relative_path = path, sa_sha256 = sha256_hex env contents,
               sa_byte_length = of_nat (length contents) \<rparr>"
    and "\<exists>bytes. fs' (components (join_to path base)) = Some (File bytes)
           \<and> sha256_hex env bytes = sha256_hex env contents
           \<and> (of_nat (length bytes) :: u64) = of_nat (length contents)"
    using rest unfolding destination_def [symmetric]
    by (auto simp: verify_existing_def split: if_splits option.splits node.splits)
qed

lemma artifact_put_closed:
  assumes "closed_fs fs"
  shows "closed_fs (snd (artifact_put env base fs path contents))"
proof (cases "fst (artifact_put env base fs path contents)")
  case (Inr a)
  then show ?thesis
    using artifact_put_ok(1) [OF assms, of env base path contents a] by (cases "artifact_put env base fs path contents") simp
next
  case (Inl e)
  obtain r fs1 where dir: "ensure_private_directory fs (butlast (components (join_to path base))) = (r, fs1)"
    by (cases "ensure_private_directory fs (butlast (components (join_to path base)))")
  have "closed_fs fs1" by (rule ensure_private_directory_closed(1) [OF assms dir])
  then show ?thesis using Inl assms dir
    by (cases r) (auto simp: artifact_put_def Let_def split: sum.splits if_splits)
qed

lemma artifact_put_read:
  assumes "canonical_base base" and "closed_fs fs" and "RepoPath_new s = Inr path"
    and "\<And>bytes. sha256_hex env bytes = sha256_hex env contents \<Longrightarrow> bytes = contents"
    and "artifact_put env base fs path contents = (Inr a, fs')"
  shows "read_verified env base fs' a = Inr contents"
proof -
  note put = artifact_put_ok [OF assms(2,5)]
  have comp: "components (join_to path base) = RootDir # tl (components base) @ components s"
  proof -
    have "components (join_to path base) = components base @ components s"
      using RepoPath_new_ok [OF assms(3)] components_join by (simp add: join_to_def)
    moreover have "components base = RootDir # tl (components base)"
      using assms(1) components_no_CurDir [of base] by (cases "components base") (auto simp: canonical_base_def)
    ultimately show ?thesis by (metis append_Cons)
  qed
  obtain bytes where stored: "fs' (components (join_to path base)) = Some (File bytes)"
    and "sha256_hex env bytes = sha256_hex env contents" using put(4) by blast
  then have b: "bytes = contents" using assms(4) by blast
  have "reject_from fs' [RootDir] (tl (components base) @ components s) = Inr ()"
    using stored RepoPath_new_ok(3) [OF assms(3)] assms(1) comp
    by (intro reject_from_file [OF put(1), of _ _ bytes]) (auto simp: canonical_base_def)
  then show ?thesis
    using stored b put(2,3) comp
    by (simp add: read_verified_def read_path_def reject_symlink_components_def Let_def)
qed

section \<open>An immutable store\<close>

text \<open>The interface the engine relies on: what was stored is read back unchanged, and no later call
  changes it.\<close>

locale immutable_store =
  fixes put :: "'s \<Rightarrow> 'k \<Rightarrow> 'v \<Rightarrow> ('e + 'a) \<times> 's"
    and get :: "'s \<Rightarrow> 'a \<Rightarrow> 'e + 'v"
    and inv :: "'s \<Rightarrow> bool"
    and valid :: "'k \<Rightarrow> bool"
  assumes put_inv: "inv s \<Longrightarrow> inv (snd (put s k v))"
    and put_get: "inv s \<Longrightarrow> valid k \<Longrightarrow> put s k v = (Inr a, s') \<Longrightarrow> get s' a = Inr v"
    and put_keeps: "inv s \<Longrightarrow> get s a = Inr v \<Longrightarrow> get (snd (put s k w)) a = Inr v"
begin

definition put_all :: "'s \<Rightarrow> ('k \<times> 'v) list \<Rightarrow> 's" where
  "put_all s kvs = foldl (\<lambda>s (k, v). snd (put s k v)) s kvs"

lemma put_all_keeps: "inv s \<Longrightarrow> get s a = Inr v \<Longrightarrow> get (put_all s kvs) a = Inr v"
  unfolding put_all_def
proof (induction kvs arbitrary: s)
  case (Cons kv kvs)
  then show ?case by (cases kv) (simp add: put_inv put_keeps)
qed simp

lemma stored_forever:
  assumes "inv s" and "valid k" and "put s k v = (Inr a, s')"
  shows "get (put_all s' kvs) a = Inr v"
  using put_all_keeps put_inv [OF assms(1), of k v] put_get [OF assms] assms(3) by simp

end

definition store_ok :: "integrity_env \<Rightarrow> string \<Rightarrow> file_system \<Rightarrow> bool" where
  "store_ok env base fs \<longleftrightarrow>
     canonical_base base \<and> closed_fs fs \<and> (\<forall>s t. sha256_hex env s = sha256_hex env t \<longrightarrow> s = t)"

interpretation artifacts: immutable_store
  "artifact_put env base" "read_verified env base" "store_ok env base"
  "\<lambda>p. RepoPath_new (as_path p) = Inr p"
  for env base
proof unfold_locales
  show "store_ok env base (snd (artifact_put env base s k v))" if "store_ok env base s" for s k v
    using that artifact_put_closed by (simp add: store_ok_def)
  show "read_verified env base s' a = Inr v"
    if "store_ok env base s" "RepoPath_new (as_path k) = Inr k" "artifact_put env base s k v = (Inr a, s')"
    for s k v a s'
    using that(1) artifact_put_read [OF _ _ that(2) _ that(3)] unfolding store_ok_def by blast
  show "read_verified env base (snd (artifact_put env base s k w)) a = Inr v"
    if "store_ok env base s" "read_verified env base s a = Inr v" for s a v k w
    using that artifact_put_grows [of env base s k w] read_verified_grows
    unfolding store_ok_def by (metis surjective_pairing)
qed

section \<open>Properties\<close>

text \<open>C33: an artifact that was stored is read back verified with the same bytes for ever: no later
  sequence of store operations, with any paths and contents and whether they succeed or fail, changes
  or hides it.\<close>

theorem artifact_stored_forever:
  assumes "store_ok env base fs" and "RepoPath_new s = Inr path"
    and "artifact_put env base fs path contents = (Inr a, fs1)"
  shows "read_verified env base
           (foldl (\<lambda>fs (path, contents). snd (artifact_put env base fs path contents)) fs1 later) a
         = Inr contents"
  using artifacts.stored_forever [OF assms(1) _ assms(3), of later] RepoPath_new_ok(1) [OF assms(2)] assms(2)
  by (simp add: artifacts.put_all_def)

definition sample_fs :: file_system where
  "sample_fs = [[RootDir] \<mapsto> Directory]"

definition sample_fs_stored :: file_system where
  "sample_fs_stored = snd (artifact_put sample_integrity_env ''/'' sample_fs (RepoPath ''a'') ''x'')"

lemma sample_store_ok: "store_ok sample_integrity_env ''/'' sample_fs"
proof -
  have "components ''/'' = [RootDir]" by code_simp
  moreover have "has_root ''/''" by code_simp
  ultimately show ?thesis
    by (auto simp: store_ok_def canonical_base_def closed_fs_def sample_fs_def sample_integrity_env_def)
qed

lemma sample_put:
  "fst (artifact_put sample_integrity_env ''/'' sample_fs (RepoPath ''a'') ''x'') =
     Inr \<lparr> sa_relative_path = RepoPath ''a'', sa_sha256 = ''sha:x'', sa_byte_length = 1 \<rparr>"
proof -
  have "components (join_to (RepoPath ''a'') ''/'') = [RootDir, Normal ''a'']" "components ''/'' = [RootDir]"
    by code_simp+
  then show ?thesis
    by (simp add: artifact_put_def Let_def ensure_safe_parent_def ensure_private_directory_def
        reject_symlink_components_def sample_fs_def sample_integrity_env_def)
qed

theorem artifact_stored_forever_witness:
  "read_verified sample_integrity_env ''/''
     (snd (artifact_put sample_integrity_env ''/'' sample_fs_stored (RepoPath ''a'') ''overwrite''))
     \<lparr> sa_relative_path = RepoPath ''a'', sa_sha256 = ''sha:x'', sa_byte_length = 1 \<rparr> = Inr ''x''"
proof -
  have "RepoPath_new ''a'' = Inr (RepoPath ''a'')" by code_simp
  from artifact_stored_forever [OF sample_store_ok this, of "''x''" _ _ "[(RepoPath ''a'', ''overwrite'')]"]
  show ?thesis using sample_put unfolding sample_fs_stored_def
    by (cases "artifact_put sample_integrity_env ''/'' sample_fs (RepoPath ''a'') ''x''") simp
qed

end
