(* ===== verification/Engine.thy ===== *)
theory Engine
  imports Documents Artifacts Schedule_Claims
begin

text \<open>
  The state-carrying parts of \<open>orchestrator-engine\<close>: the lifecycle holder (\<open>coordinator.rs\<close>), handover
  creation and acknowledgement (\<open>handover.rs\<close>), checkpoints made from Git evidence (\<open>checkpoint.rs\<close>) and
  the execution report with its completion and claim gates (\<open>executor.rs\<close>). Fresh identifiers
  (\<open>CheckpointId::new\<close>, \<open>HandoverId::new\<close>), the printed form of an identifier and the generated
  serializers are parameters.
\<close>

datatype EngineError =
    Engine_UnsafePath "Component list"
  | UnsafeGitBoundary string
  | MissingGitEvidence
  | InvalidHandoverAcknowledgement
  | IntegrityMismatch string
  | InvalidRepoPath RepoPathError
  | Engine_Transition TransitionError
  | Engine_Integrity IntegrityError
  | Engine_State StateError
  | Engine_Json string

section \<open>Lifecycle holder\<close>

record TaskLifecycle =
  lc_state :: TaskState
  lc_resume_state :: "TaskState option"

definition TaskLifecycle_new :: TaskLifecycle where
  "TaskLifecycle_new = \<lparr> lc_state = Queued, lc_resume_state = None \<rparr>"

text \<open>\<open>transition\<close>: the guards it checks with, and the update.\<close>

definition effective_guards :: "TaskLifecycle \<Rightarrow> TransitionGuards \<Rightarrow> TransitionGuards" where
  "effective_guards lc guards =
     (if lc_state lc = Blocked then guards\<lparr>resume_point := lc_resume_state lc\<rparr> else guards)"

definition lifecycle_transition ::
    "TaskLifecycle \<Rightarrow> TaskState \<Rightarrow> TransitionGuards \<Rightarrow> EngineError + TaskLifecycle" where
  "lifecycle_transition lc next guards =
     and_then (map_err Engine_Transition
                 (task_validate_transition (lc_state lc) next (effective_guards lc guards))) (\<lambda>_.
       Inr \<lparr> lc_state = next,
             lc_resume_state =
               (if next = Blocked then Some (lc_state lc)
                else if lc_state lc = Blocked then None
                else lc_resume_state lc) \<rparr>)"

section \<open>Handover\<close>

record HandoverInput =
  hi_checkpoint :: Checkpoint
  hi_original_request :: string
  hi_constraints :: "string list"
  hi_acceptance_criteria :: "string list"
  hi_recommended_next_worker :: ProviderId
  hi_usage_snapshots :: "UsageSnapshot list"
  hi_safe_boundary_confirmed :: bool
  hi_created_at :: DateTime

definition bundle_of :: "HandoverId \<Rightarrow> HandoverInput \<Rightarrow> HandoverBundle" where
  "bundle_of handover_id input =
     (let checkpoint = hi_checkpoint input in
      \<lparr> hb_schema_version = SchemaVersion_V1, hb_handover_id = handover_id,
        hb_task_id = cp_task_id checkpoint, hb_objective = cp_objective checkpoint,
        hb_original_request = hi_original_request input, hb_constraints = hi_constraints input,
        hb_acceptance_criteria = hi_acceptance_criteria input,
        hb_current_plan = cp_current_plan checkpoint,
        hb_completed_steps = cp_completed_steps checkpoint,
        hb_pending_steps = cp_pending_steps checkpoint, hb_files_read = cp_files_read checkpoint,
        hb_files_changed = cp_files_changed checkpoint, hb_git_base = cp_git_base checkpoint,
        hb_diff_path = cp_diff_path checkpoint, hb_commands_run = cp_commands_run checkpoint,
        hb_tests = cp_tests checkpoint, hb_decisions = cp_decisions checkpoint,
        hb_unresolved_questions = cp_unresolved_questions checkpoint,
        hb_known_failures = cp_known_failures checkpoint,
        hb_current_worker = cp_current_worker checkpoint,
        hb_recommended_next_worker = hi_recommended_next_worker input,
        hb_usage_snapshots = hi_usage_snapshots input,
        hb_concise_context_summary = cp_concise_context_summary checkpoint,
        hb_created_at = hi_created_at input, hb_integrity_hash = [] \<rparr>)"

record engine_env = integrity_env +
  checkpoint_value :: "Checkpoint \<Rightarrow> string + json"
  bundle_value :: "HandoverBundle \<Rightarrow> string + json"

text \<open>\<open>x.has_supported_schema()\<close> is tested before the hash is computed.\<close>

definition handover_create ::
    "engine_env \<Rightarrow> HandoverId \<Rightarrow> HandoverInput \<Rightarrow> EngineError + HandoverBundle" where
  "handover_create env handover_id input =
     (if \<not> hi_safe_boundary_confirmed input
      then Inl (UnsafeGitBoundary ''worker has not reached a safe checkpoint boundary'')
      else
        and_then
          (if \<not> checkpoint_has_supported_schema (hi_checkpoint input) then Inr False
           else map_err Engine_Integrity
                  (checkpoint_verify_integrity (integrity_env.truncate env) (checkpoint_value env)
                     (hi_checkpoint input)))
          (\<lambda>verified.
             if \<not> verified then Inl (IntegrityMismatch ''checkpoint'')
             else map_err Engine_Integrity
                    (bundle_seal (integrity_env.truncate env) (bundle_value env) (bundle_of handover_id input))))"

text \<open>\<open>stdin_payload\<close>; \<open>to_vec\<close> is \<open>serde_json::to_vec\<close>.\<close>

definition stdin_payload ::
    "engine_env \<Rightarrow> (HandoverBundle \<Rightarrow> string + string) \<Rightarrow> HandoverBundle \<Rightarrow> EngineError + string" where
  "stdin_payload env to_vec bundle =
     and_then
       (if \<not> bundle_has_supported_schema bundle then Inr False
        else map_err Engine_Integrity
               (bundle_verify_integrity (integrity_env.truncate env) (bundle_value env) bundle))
       (\<lambda>verified. if \<not> verified then Inl (IntegrityMismatch ''handover bundle'')
                   else map_err Engine_Json (to_vec bundle))"

definition validate_acknowledgement ::
    "engine_env \<Rightarrow> HandoverBundle \<Rightarrow> HandoverAcknowledgement \<Rightarrow> EngineError + unit" where
  "validate_acknowledgement env bundle acknowledgement =
     and_then (map_err Engine_Integrity
                 (bundle_verify_integrity (integrity_env.truncate env) (bundle_value env) bundle)) (\<lambda>verified.
       if verified \<and> ack_matches acknowledgement bundle then Inr ()
       else Inl InvalidHandoverAcknowledgement)"

section \<open>Checkpoints from Git evidence\<close>

record GitSnapshot =
  git_base_revision :: string
  git_head :: string
  git_status_porcelain :: string
  git_diff :: string
  git_changed_files :: "RepoPath list"

definition snapshot_is_clean :: "GitSnapshot \<Rightarrow> bool" where
  "snapshot_is_clean s \<longleftrightarrow> git_changed_files s = []"

record GitCheckpointEvidence =
  ge_base_revision :: string
  ge_head :: string
  ge_diff :: string
  ge_changed_files :: "RepoPath list"

definition evidence_from_snapshot :: "GitSnapshot \<Rightarrow> GitCheckpointEvidence" where
  "evidence_from_snapshot s =
     \<lparr> ge_base_revision = git_base_revision s, ge_head = git_head s, ge_diff = git_diff s,
       ge_changed_files = git_changed_files s \<rparr>"

record CheckpointInput =
  ci_task_id :: TaskId
  ci_attempt_id :: AttemptId
  ci_objective :: string
  ci_current_plan :: "PlanStep list"
  ci_completed_steps :: "CompletedStep list"
  ci_pending_steps :: "PlanStep list"
  ci_files_read :: "RepoPath list"
  ci_commands_run :: "CommandEvidence list"
  ci_tests :: "TestEvidence list"
  ci_decisions :: "DecisionRecord list"
  ci_unresolved_questions :: "string list"
  ci_known_failures :: "FailureRecord list"
  ci_worker_claim :: "UntrustedWorkerClaim option"
  ci_current_worker :: ProviderId
  ci_concise_context_summary :: string
  ci_created_at :: DateTime

definition is_full_object_id :: "string \<Rightarrow> bool" where
  "is_full_object_id value \<longleftrightarrow> 40 \<le> length value \<and> length value \<le> 64 \<and> list_all is_ascii_hexdigit value"

definition checkpoint_of ::
    "CheckpointId \<Rightarrow> CheckpointInput \<Rightarrow> GitCheckpointEvidence \<Rightarrow> RepoPath option \<Rightarrow> Checkpoint" where
  "checkpoint_of checkpoint_id input git diff_path =
     \<lparr> cp_schema_version = SchemaVersion_V1, cp_checkpoint_id = checkpoint_id,
       cp_task_id = ci_task_id input, cp_attempt_id = ci_attempt_id input,
       cp_objective = ci_objective input, cp_current_plan = ci_current_plan input,
       cp_completed_steps = ci_completed_steps input, cp_pending_steps = ci_pending_steps input,
       cp_files_read = ci_files_read input, cp_files_changed = ge_changed_files git,
       cp_git_base = Some (ge_base_revision git), cp_diff_path = diff_path,
       cp_commands_run = ci_commands_run input, cp_tests = ci_tests input,
       cp_decisions = ci_decisions input, cp_unresolved_questions = ci_unresolved_questions input,
       cp_known_failures = ci_known_failures input, cp_worker_claim = ci_worker_claim input,
       cp_current_worker = ci_current_worker input,
       cp_concise_context_summary = ci_concise_context_summary input,
       cp_created_at = ci_created_at input, cp_integrity_hash = [] \<rparr>"

text \<open>The text forms used by \<open>create\<close>: an identifier and a pretty-printed document.\<close>

record checkpoint_env = engine_env +
  checkpoint_id_text :: "CheckpointId \<Rightarrow> string"
  to_vec_pretty :: "Checkpoint \<Rightarrow> string + string"

definition store_diff ::
    "checkpoint_env \<Rightarrow> string \<Rightarrow> file_system \<Rightarrow> CheckpointId \<Rightarrow> GitCheckpointEvidence
     \<Rightarrow> (EngineError + RepoPath option) \<times> file_system" where
  "store_diff env base fs checkpoint_id git =
     (if ge_diff git = [] then (Inr None, fs)
      else
        let digest = sha256_hex env (ge_diff git) in
        case RepoPath_try_from
               (''checkpoints/'' @ checkpoint_id_text env checkpoint_id @ ''/worktree.'' @ digest @ ''.diff'') of
          Inl e \<Rightarrow> (Inl (InvalidRepoPath e), fs)
        | Inr relative \<Rightarrow>
            (case artifact_put (integrity_env.truncate env) base fs relative (ge_diff git) of
               (Inl e, fs1) \<Rightarrow> (Inl (Engine_State e), fs1)
             | (Inr stored, fs1) \<Rightarrow>
                 (if sa_sha256 stored \<noteq> digest then (Inl (IntegrityMismatch ''checkpoint diff''), fs1)
                  else (Inr (Some relative), fs1))))"

definition checkpoint_create ::
    "checkpoint_env \<Rightarrow> string \<Rightarrow> file_system \<Rightarrow> CheckpointId \<Rightarrow> CheckpointInput \<Rightarrow> GitCheckpointEvidence
     \<Rightarrow> (EngineError + Checkpoint) \<times> file_system" where
  "checkpoint_create env base fs checkpoint_id input git =
     (if \<not> is_full_object_id (ge_base_revision git) \<or> \<not> is_full_object_id (ge_head git)
      then (Inl MissingGitEvidence, fs)
      else
        case store_diff env base fs checkpoint_id git of
          (Inl e, fs1) \<Rightarrow> (Inl e, fs1)
        | (Inr diff_path, fs1) \<Rightarrow>
            (case checkpoint_seal (integrity_env.truncate env) (checkpoint_value env)
                    (checkpoint_of checkpoint_id input git diff_path) of
               Inl e \<Rightarrow> (Inl (Engine_Integrity e), fs1)
             | Inr checkpoint \<Rightarrow>
                 (case RepoPath_try_from
                         (''checkpoints/'' @ checkpoint_id_text env checkpoint_id @ ''/checkpoint.json'') of
                    Inl e \<Rightarrow> (Inl (InvalidRepoPath e), fs1)
                  | Inr document_path \<Rightarrow>
                      (case to_vec_pretty env checkpoint of
                         Inl e \<Rightarrow> (Inl (Engine_Json e), fs1)
                       | Inr text \<Rightarrow>
                           (case artifact_put (integrity_env.truncate env) base fs1 document_path text of
                              (Inl e, fs2) \<Rightarrow> (Inl (Engine_State e), fs2)
                            | (Inr _, fs2) \<Rightarrow> (Inr checkpoint, fs2))))))"

section \<open>Execution reports\<close>

record TaskExecutionReport =
  rep_task_id :: TaskId
  rep_attempt_id :: AttemptId
  rep_provider :: ProviderId
  rep_outcome :: WorkerOutcome
  rep_summary_redacted :: string
  rep_worktree_path :: string
  rep_branch :: string
  rep_base_revision :: string
  rep_changed_files :: "RepoPath list"
  rep_checkpoint :: "Checkpoint option"
  rep_verification :: "VerificationResult option"
  rep_lifecycle_failure :: "FailureRecord option"

definition verification_matches_report :: "TaskExecutionReport \<Rightarrow> VerificationResult \<Rightarrow> bool" where
  "verification_matches_report r v \<longleftrightarrow>
     ver_task_id v = rep_task_id r
     \<and> ver_implementation_provider v = rep_provider r
     \<and> ver_changed_files v = rep_changed_files r"

text \<open>\<open>checkpoint.verify_integrity().unwrap_or(false)\<close>.\<close>

definition verified_or_false :: "engine_env \<Rightarrow> Checkpoint \<Rightarrow> bool" where
  "verified_or_false env c =
     (case checkpoint_verify_integrity (integrity_env.truncate env) (checkpoint_value env) c of
        Inl _ \<Rightarrow> False | Inr b \<Rightarrow> b)"

definition passed_completion_gate :: "engine_env \<Rightarrow> TaskExecutionReport \<Rightarrow> bool" where
  "passed_completion_gate env r \<longleftrightarrow>
     rep_outcome r = Outcome_Succeeded
     \<and> is_some_and (rep_verification r) (\<lambda>v.
          verification_matches_report r v \<and> passes_completion_gate v False)
     \<and> is_some_and (rep_checkpoint r) (\<lambda>c.
          cp_files_changed c = rep_changed_files r \<and> verified_or_false env c)"

definition validate_failure_contract :: "engine_env \<Rightarrow> TaskExecutionReport \<Rightarrow> bool" where
  "validate_failure_contract env r \<longleftrightarrow>
     (if rep_outcome r = Outcome_Succeeded \<and> rep_lifecycle_failure r \<noteq> None then False
      else
        let expected = (case rep_lifecycle_failure r of None \<Rightarrow> [] | Some f \<Rightarrow> [f]) in
        case rep_checkpoint r of
          None \<Rightarrow> rep_lifecycle_failure r = None
        | Some c \<Rightarrow>
            cp_task_id c = rep_task_id r
            \<and> cp_attempt_id c = rep_attempt_id r
            \<and> cp_current_worker c = rep_provider r
            \<and> cp_git_base c = Some (rep_base_revision r)
            \<and> cp_files_changed c = rep_changed_files r
            \<and> checkpoint_has_supported_schema c
            \<and> verified_or_false env c
            \<and> cp_known_failures c = expected)"

definition non_retryable_failure :: "engine_env \<Rightarrow> TaskExecutionReport \<Rightarrow> FailureRecord option" where
  "non_retryable_failure env r =
     (if validate_failure_contract env r
      then (case rep_lifecycle_failure r of
              Some f \<Rightarrow> if \<not> fr_retryable f then Some f else None
            | None \<Rightarrow> None)
      else None)"

definition validates_claim :: "engine_env \<Rightarrow> TaskExecutionReport \<Rightarrow> ClaimedTask \<Rightarrow> bool" where
  "validates_claim env r claim \<longleftrightarrow>
     rep_task_id r = ct_task_id claim
     \<and> rep_provider r = ct_provider claim
     \<and> rep_base_revision r = ct_approved_base_commit claim
     \<and> (case rep_verification r of None \<Rightarrow> True | Some v \<Rightarrow> verification_matches_report r v)
     \<and> validate_failure_contract env r"

section \<open>The lifecycle holder refines the transition machine\<close>

text \<open>A sequence of calls of \<open>transition\<close>; a refused call leaves the holder as it is. The history keeps
  the guards the accepted calls were checked with; a resume point is read in state \<open>Blocked\<close> only.\<close>

type_synonym lifecycle_call = "TaskState \<times> TransitionGuards"

fun lifecycle_calls :: "TaskLifecycle \<Rightarrow> lifecycle_call list \<Rightarrow> TaskLifecycle" where
  "lifecycle_calls lc [] = lc"
| "lifecycle_calls lc ((next, guards) # calls) =
     (case lifecycle_transition lc next guards of
        Inl _ \<Rightarrow> lifecycle_calls lc calls
      | Inr lc' \<Rightarrow> lifecycle_calls lc' calls)"

definition checked_guards :: "TaskLifecycle \<Rightarrow> TransitionGuards \<Rightarrow> TransitionGuards" where
  "checked_guards lc guards =
     guards\<lparr>resume_point := if lc_state lc = Blocked then lc_resume_state lc else None\<rparr>"

fun lifecycle_history :: "TaskLifecycle \<Rightarrow> lifecycle_call list \<Rightarrow> task_step list" where
  "lifecycle_history lc [] = []"
| "lifecycle_history lc ((next, guards) # calls) =
     (case lifecycle_transition lc next guards of
        Inl _ \<Rightarrow> lifecycle_history lc calls
      | Inr lc' \<Rightarrow> (checked_guards lc guards, next) # lifecycle_history lc' calls)"

lemma validate_ignores_resume_point:
  "s \<noteq> Blocked \<Longrightarrow> task_validate_transition s n (g\<lparr>resume_point := r\<rparr>) = task_validate_transition s n g"
  by (cases s) (simp_all add: task_validate_transition_def)

lemma validate_checked_guards:
  "task_validate_transition (lc_state lc) n (checked_guards lc g) =
   task_validate_transition (lc_state lc) n (effective_guards lc g)"
  by (simp add: checked_guards_def effective_guards_def validate_ignores_resume_point)

lemma lifecycle_transition_Inr:
  assumes "lifecycle_transition lc next guards = Inr lc'"
  shows "task_validate_transition (lc_state lc) next (checked_guards lc guards) = Inr ()"
    and "lc_state lc' = next"
    and "lc_resume_state lc' =
           (if next = Blocked then Some (lc_state lc) else if lc_state lc = Blocked then None
            else lc_resume_state lc)"
  using assms by (auto simp: lifecycle_transition_def and_then_eq_Inr validate_checked_guards)

lemma lifecycle_history_run: "task_run (lc_state lc) (lifecycle_history lc calls) (lc_state (lifecycle_calls lc calls))"
proof (induction lc calls rule: lifecycle_calls.induct)
  case (2 lc n g calls)
  show ?case
  proof (cases "lifecycle_transition lc n g")
    case (Inr lc')
    then show ?thesis
      using 2(2) [OF Inr] lifecycle_transition_Inr [OF Inr] by (simp add: task_run_Cons)
  qed (use 2(1) in simp)
qed (simp add: task_run.start)

text \<open>Every resume point the holder uses is a state it has been in.\<close>

lemma lifecycle_resume_visited:
  assumes "\<And>p. lc_resume_state lc = Some p \<Longrightarrow> p \<in> seen" and "lc_state lc \<in> seen"
    and "lifecycle_history lc calls = a @ (g, u) # b" and "resume_point g = Some p"
  shows "p \<in> seen \<union> set (map snd a)"
  using assms
proof (induction lc calls arbitrary: seen a rule: lifecycle_calls.induct)
  case (2 lc n gs calls)
  show ?case
  proof (cases "lifecycle_transition lc n gs")
    case (Inl e)
    then show ?thesis using 2(1) [OF Inl 2(3,4)] 2(5,6) by simp
  next
    case (Inr lc')
    note tr = lifecycle_transition_Inr [OF Inr]
    have split: "(checked_guards lc gs, n) # lifecycle_history lc' calls = a @ (g, u) # b"
      using 2(5) Inr by simp
    show ?thesis
    proof (cases a)
      case Nil
      then have "g = checked_guards lc gs" using split by simp
      then have "lc_resume_state lc = Some p"
        using 2(6) by (auto simp: checked_guards_def split: if_splits)
      then show ?thesis using 2(3) by simp
    next
      case (Cons x a')
      then have "p \<in> insert n seen \<union> set (map snd a')"
        using 2(3,4,6) split tr(2,3) by (intro 2(2) [OF Inr]) (auto split: if_splits)
      then show ?thesis using Cons split by auto
    qed
  qed
qed simp

text \<open>C26: the engine's lifecycle holder refines the transition machine: whatever calls are made on a new
  holder, with whatever guards, the accepted ones form a run of the machine from \<open>Queued\<close> to the
  holder's state, and every resume point used is a state the task was in before, so a blocked task
  returns only to where it was blocked.\<close>

theorem lifecycle_holder_refines_machine:
  "task_run Queued (lifecycle_history TaskLifecycle_new calls)
     (lc_state (lifecycle_calls TaskLifecycle_new calls))
   \<and> resume_disciplined Queued (lifecycle_history TaskLifecycle_new calls)"
proof
  show "task_run Queued (lifecycle_history TaskLifecycle_new calls)
          (lc_state (lifecycle_calls TaskLifecycle_new calls))"
    using lifecycle_history_run [of TaskLifecycle_new calls] by (simp add: TaskLifecycle_new_def)
  show "resume_disciplined Queued (lifecycle_history TaskLifecycle_new calls)"
    unfolding resume_disciplined_def
  proof (intro allI impI)
    fix a g u b assume h: "lifecycle_history TaskLifecycle_new calls = a @ (g, u) # b"
    show "case resume_point g of None \<Rightarrow> True | Some p \<Rightarrow> p \<in> set (visited_from Queued a)"
      using lifecycle_resume_visited [OF _ _ h, of "{Queued}"]
      by (auto simp: TaskLifecycle_new_def split: option.split)
  qed
qed

section \<open>Handover\<close>

lemma verified_bool: "and_then r (\<lambda>v. if \<not> v then Inl e else k) = Inr x \<longleftrightarrow> r = Inr True \<and> k = Inr x"
  by (cases r) auto

lemma handover_create_Inr:
  assumes "handover_create env hid input = Inr b"
  shows "hi_safe_boundary_confirmed input" and "checkpoint_has_supported_schema (hi_checkpoint input)"
    and "checkpoint_verify_integrity (integrity_env.truncate env) (checkpoint_value env) (hi_checkpoint input)
         = Inr True"
    and "bundle_refresh_integrity_hash (integrity_env.truncate env) (bundle_value env) (bundle_of hid input)
         = Inr b"
  using assms by (auto simp: handover_create_def verified_bool split: if_splits)

lemma bundle_refresh_ok:
  assumes "ideal_digest env" and "bundle_refresh_integrity_hash env to_value b = Inr b'"
  shows "bundle_verify_integrity env to_value b' = Inr True"
    and "b'\<lparr>hb_integrity_hash := []\<rparr> = b\<lparr>hb_integrity_hash := []\<rparr>"
proof -
  have seal: "seal_with (\<lambda>b. canonical_sha256 env (to_value b)) (\<lambda>h b. b\<lparr>hb_integrity_hash := h\<rparr>) b = Inr b'"
    using assms(2) by (simp add: bundle_refresh_integrity_hash_def)
  then have "hb_integrity_hash b' \<noteq> []"
    using canonical_sha256_nonempty [OF assms(1)] by (auto simp: bundle_doc.seal_iff)
  then show "bundle_verify_integrity env to_value b' = Inr True"
    unfolding bundle_verify_integrity_def by (rule bundle_doc.seal_verifies [OF seal])
  show "b'\<lparr>hb_integrity_hash := []\<rparr> = b\<lparr>hb_integrity_hash := []\<rparr>"
    by (rule bundle_doc.seal_keeps_content [OF seal])
qed

lemma checkpoint_refresh_ok:
  assumes "ideal_digest env" and "checkpoint_refresh_integrity_hash env to_value c = Inr c'"
  shows "checkpoint_verify_integrity env to_value c' = Inr True"
    and "c'\<lparr>cp_integrity_hash := []\<rparr> = c\<lparr>cp_integrity_hash := []\<rparr>"
proof -
  have seal: "seal_with (\<lambda>c. canonical_sha256 env (to_value c)) (\<lambda>h c. c\<lparr>cp_integrity_hash := h\<rparr>) c = Inr c'"
    using assms(2) by (simp add: checkpoint_refresh_integrity_hash_def)
  then have "cp_integrity_hash c' \<noteq> []"
    using canonical_sha256_nonempty [OF assms(1)] by (auto simp: checkpoint_doc.seal_iff)
  then show "checkpoint_verify_integrity env to_value c' = Inr True"
    unfolding checkpoint_verify_integrity_def by (rule checkpoint_doc.seal_verifies [OF seal])
  show "c'\<lparr>cp_integrity_hash := []\<rparr> = c\<lparr>cp_integrity_hash := []\<rparr>"
    by (rule checkpoint_doc.seal_keeps_content [OF seal])
qed

lemma validate_acknowledgement_Inr:
  "validate_acknowledgement env b a = Inr () \<longleftrightarrow>
     bundle_verify_integrity (integrity_env.truncate env) (bundle_value env) b = Inr True \<and> ack_matches a b"
  by (auto simp: validate_acknowledgement_def and_then_eq_Inr)

text \<open>C27: a handover starts from verified work and is resumed only on the bundle that was sent. Whenever a bundle is created, the worker
  stands at a confirmed boundary, the hash of the checkpoint verifies, the bundle verifies and carries the checkpoint's task, plan and changed
  files with the request; an acknowledgement is accepted for it exactly when it repeats the bundle's hash, task, objective, constraints and
  criteria, comes from the recommended worker and says that it can resume; and every bundle for which the same acknowledgement is accepted has
  the same canonical content.\<close>

theorem handover_bundle_bound:
  assumes "ideal_digest (integrity_env.truncate env)" and "handover_create env handover_id input = Inr b"
  shows "hi_safe_boundary_confirmed input
       \<and> checkpoint_verify_integrity (integrity_env.truncate env) (checkpoint_value env) (hi_checkpoint input)
         = Inr True
       \<and> bundle_verify_integrity (integrity_env.truncate env) (bundle_value env) b = Inr True
       \<and> b\<lparr>hb_integrity_hash := []\<rparr> = bundle_of handover_id input
       \<and> (\<forall>a. validate_acknowledgement env b a = Inr () \<longleftrightarrow>
            ack_has_supported_schema a \<and> ack_bundle_hash a = hb_integrity_hash b \<and> ack_task_id a = cp_task_id (hi_checkpoint input)
            \<and> ack_provider a = hi_recommended_next_worker input \<and> ack_understood_objective a = cp_objective (hi_checkpoint input)
            \<and> ack_understood_constraints a = hi_constraints input
            \<and> ack_understood_acceptance_criteria a = hi_acceptance_criteria input \<and> ack_can_resume a)
       \<and> (\<forall>a b'. validate_acknowledgement env b a = Inr () \<and> validate_acknowledgement env b' a = Inr () \<longrightarrow>
            canonical_json (integrity_env.truncate env) (bundle_value env (b'\<lparr>hb_integrity_hash := []\<rparr>))
            = canonical_json (integrity_env.truncate env) (bundle_value env (bundle_of handover_id input)))"
proof -
  note made = handover_create_Inr [OF assms(2)]
  note sealed = bundle_refresh_ok [OF assms(1) made(4)]
  have content: "b\<lparr>hb_integrity_hash := []\<rparr> = bundle_of handover_id input"
    using sealed(2) by (simp add: bundle_of_def Let_def)
  have fields: "hb_schema_version b = SchemaVersion_V1" "hb_task_id b = cp_task_id (hi_checkpoint input)"
    "hb_recommended_next_worker b = hi_recommended_next_worker input" "hb_objective b = cp_objective (hi_checkpoint input)"
    "hb_constraints b = hi_constraints input" "hb_acceptance_criteria b = hi_acceptance_criteria input"
    using arg_cong [OF content, of hb_schema_version] arg_cong [OF content, of hb_task_id] arg_cong [OF content, of hb_recommended_next_worker]
      arg_cong [OF content, of hb_objective] arg_cong [OF content, of hb_constraints] arg_cong [OF content, of hb_acceptance_criteria]
    by (simp_all add: bundle_of_def Let_def)
  have accepted: "validate_acknowledgement env b a = Inr () \<longleftrightarrow>
            ack_has_supported_schema a \<and> ack_bundle_hash a = hb_integrity_hash b \<and> ack_task_id a = cp_task_id (hi_checkpoint input)
            \<and> ack_provider a = hi_recommended_next_worker input \<and> ack_understood_objective a = cp_objective (hi_checkpoint input)
            \<and> ack_understood_constraints a = hi_constraints input
            \<and> ack_understood_acceptance_criteria a = hi_acceptance_criteria input \<and> ack_can_resume a" for a
    unfolding validate_acknowledgement_Inr ack_matches_def bundle_has_supported_schema_def fields
    using sealed(1) by (auto simp: is_supported_by_def SUPPORTED_HANDOVER_SCHEMA_VERSIONS_def)
  have "canonical_json (integrity_env.truncate env) (bundle_value env (b'\<lparr>hb_integrity_hash := []\<rparr>))
      = canonical_json (integrity_env.truncate env) (bundle_value env (bundle_of handover_id input))"
    if "validate_acknowledgement env b a = Inr ()" "validate_acknowledgement env b' a = Inr ()" for a b'
  proof (rule same_hash_same_text [OF assms(1)])
    have "hb_integrity_hash b' = hb_integrity_hash b" using that by (simp add: validate_acknowledgement_Inr ack_matches_def)
    then show "canonical_sha256 (integrity_env.truncate env) (bundle_value env (b'\<lparr>hb_integrity_hash := []\<rparr>)) = Inr (hb_integrity_hash b)"
      using that(2) by (simp add: validate_acknowledgement_Inr bundle_verified_hash)
    show "canonical_sha256 (integrity_env.truncate env) (bundle_value env (bundle_of handover_id input)) = Inr (hb_integrity_hash b)"
      using sealed(1) content by (simp add: bundle_verified_hash)
  qed
  then show ?thesis using made(1,3) sealed(1) content accepted by blast
qed

text \<open>A sample: a checkpoint that serializes to \<open>null\<close>, and a serializer that knows one bundle.\<close>

definition sample_checkpoint :: Checkpoint where
  "sample_checkpoint =
     \<lparr> cp_schema_version = SchemaVersion_V1, cp_checkpoint_id = 1, cp_task_id = 2, cp_attempt_id = 3,
       cp_objective = ''objective'', cp_current_plan = [], cp_completed_steps = [], cp_pending_steps = [],
       cp_files_read = [], cp_files_changed = [RepoPath ''a''], cp_git_base = None, cp_diff_path = None,
       cp_commands_run = [], cp_tests = [], cp_decisions = [], cp_unresolved_questions = [],
       cp_known_failures = [], cp_worker_claim = None, cp_current_worker = Codex,
       cp_concise_context_summary = [], cp_created_at = 0, cp_integrity_hash = ''sha:null'' \<rparr>"

definition sample_handover_input :: HandoverInput where
  "sample_handover_input =
     \<lparr> hi_checkpoint = sample_checkpoint, hi_original_request = ''request'', hi_constraints = [],
       hi_acceptance_criteria = [], hi_recommended_next_worker = Claude, hi_usage_snapshots = [],
       hi_safe_boundary_confirmed = True, hi_created_at = 0 \<rparr>"

definition sample_engine_env :: engine_env where
  "sample_engine_env =
     \<lparr> json_quote = sample_quote, sha256_hex = (\<lambda>s. ''sha:'' @ s), checkpoint_value = (\<lambda>c. Inr JNull),
       bundle_value = (\<lambda>b. if b = bundle_of 4 sample_handover_input then Inr JNull else Inl ''other'') \<rparr>"

definition sample_bundle :: HandoverBundle where
  "sample_bundle = (bundle_of 4 sample_handover_input)\<lparr>hb_integrity_hash := ''sha:null''\<rparr>"

definition sample_ack :: HandoverAcknowledgement where
  "sample_ack =
     \<lparr> ack_schema_version = SchemaVersion_V1, ack_task_id = 2, ack_bundle_hash = ''sha:null'',
       ack_provider = Claude, ack_understood_objective = ''objective'', ack_understood_constraints = [],
       ack_understood_acceptance_criteria = [], ack_next_step_id = None, ack_unresolved_questions = [],
       ack_can_resume = True, ack_acknowledged_at = 0 \<rparr>"

lemma sample_engine_truncate: "integrity_env.truncate sample_engine_env = sample_integrity_env"
  by (simp add: sample_engine_env_def sample_integrity_env_def integrity_env.defs)

lemma sample_bundle_clear: "sample_bundle\<lparr>hb_integrity_hash := []\<rparr> = bundle_of 4 sample_handover_input"
  by (simp add: sample_bundle_def bundle_of_def Let_def)

lemma sample_sha_null: "canonical_sha256 sample_integrity_env (Inr JNull) = Inr ''sha:null''"
  by (simp add: canonical_sha256_def canonical_json_def sample_integrity_env_def)

lemma sample_bundle_verifies:
  "bundle_verify_integrity sample_integrity_env (bundle_value sample_engine_env) sample_bundle = Inr True"
  unfolding bundle_verified_hash sample_bundle_clear
  by (simp add: sample_engine_env_def sample_sha_null) (simp add: sample_bundle_def)

lemma sample_checkpoint_verifies:
  "checkpoint_verify_integrity sample_integrity_env (checkpoint_value sample_engine_env) sample_checkpoint = Inr True"
  unfolding checkpoint_verified_hash
  by (simp add: sample_engine_env_def sample_sha_null) (simp add: sample_checkpoint_def)

lemma sample_input_fields:
  "hi_checkpoint sample_handover_input = sample_checkpoint" "hi_safe_boundary_confirmed sample_handover_input"
  by (simp_all add: sample_handover_input_def)

lemma sample_handover_created: "handover_create sample_engine_env 4 sample_handover_input = Inr sample_bundle"
proof -
  have "checkpoint_has_supported_schema sample_checkpoint"
    by (simp add: checkpoint_has_supported_schema_def is_supported_by_def sample_checkpoint_def
        SUPPORTED_CHECKPOINT_SCHEMA_VERSIONS_def)
  moreover have "bundle_refresh_integrity_hash sample_integrity_env (bundle_value sample_engine_env)
      (bundle_of 4 sample_handover_input) = Inr sample_bundle"
  proof -
    have "(bundle_of 4 sample_handover_input)\<lparr>hb_integrity_hash := []\<rparr> = bundle_of 4 sample_handover_input"
      by (simp add: bundle_of_def Let_def)
    then show ?thesis
      unfolding bundle_refresh_integrity_hash_def bundle_doc.seal_iff
      by (simp add: sample_engine_env_def sample_sha_null sample_bundle_def)
  qed
  ultimately show ?thesis
    using sample_checkpoint_verifies
    by (simp add: handover_create_def sample_engine_truncate sample_input_fields map_err_def)
qed

theorem handover_bundle_bound_witness:
  "validate_acknowledgement sample_engine_env sample_bundle sample_ack = Inr ()
   \<and> sample_bundle\<lparr>hb_integrity_hash := []\<rparr> = bundle_of 4 sample_handover_input"
  using handover_bundle_bound [of sample_engine_env, unfolded sample_engine_truncate, OF sample_ideal_digest sample_handover_created]
  by (simp add: ack_has_supported_schema_def is_supported_by_def SUPPORTED_HANDOVER_SCHEMA_VERSIONS_def sample_ack_def sample_handover_input_def
      sample_checkpoint_def sample_bundle_def)

section \<open>Checkpoints\<close>

lemma store_diff_Inr:
  assumes "store_diff env base fs cid git = (Inr diff_path, fs1)"
  shows "ge_diff git = [] \<and> diff_path = None \<and> fs1 = fs
    \<or> ge_diff git \<noteq> []
      \<and> (\<exists>s path stored. RepoPath_new s = Inr path \<and> diff_path = Some path
           \<and> artifact_put (integrity_env.truncate env) base fs path (ge_diff git) = (Inr stored, fs1))"
  using assms
  by (auto simp: store_diff_def RepoPath_try_from_def Let_def split: if_splits sum.splits prod.splits)

text \<open>The artifact entry of a checkpoint's diff.\<close>

definition diff_artifact :: "integrity_env \<Rightarrow> RepoPath \<Rightarrow> string \<Rightarrow> StoredArtifact" where
  "diff_artifact env path diff =
     \<lparr> sa_relative_path = path, sa_sha256 = sha256_hex env diff, sa_byte_length = of_nat (length diff) \<rparr>"

lemma checkpoint_create_Inr:
  assumes "checkpoint_create env base fs cid input git = (Inr c, fs')"
  obtains diff_path fs1 path doc stored where
    "is_full_object_id (ge_base_revision git)" "is_full_object_id (ge_head git)"
    "store_diff env base fs cid git = (Inr diff_path, fs1)"
    "checkpoint_refresh_integrity_hash (integrity_env.truncate env) (checkpoint_value env)
       (checkpoint_of cid input git diff_path) = Inr c"
    "artifact_put (integrity_env.truncate env) base fs1 path doc = (Inr stored, fs')"
  using assms
  by (auto simp: checkpoint_create_def split: if_splits sum.splits prod.splits)

lemma store_diff_readable:
  assumes "store_ok (integrity_env.truncate env) base fs"
    and "store_diff env base fs cid git = (Inr diff_path, fs1)"
  shows "store_ok (integrity_env.truncate env) base fs1"
    and "ge_diff git = [] \<Longrightarrow> diff_path = None"
    and "ge_diff git \<noteq> [] \<Longrightarrow> \<exists>path. diff_path = Some path
           \<and> read_verified (integrity_env.truncate env) base fs1
               (diff_artifact (integrity_env.truncate env) path (ge_diff git)) = Inr (ge_diff git)"
proof -
  note d = store_diff_Inr [OF assms(2)]
  show "ge_diff git = [] \<Longrightarrow> diff_path = None" using d by blast
  show "store_ok (integrity_env.truncate env) base fs1"
    using d artifacts.put_inv [OF assms(1)] assms(1) by (metis snd_conv)
  assume "ge_diff git \<noteq> []"
  then obtain s path stored where p: "RepoPath_new s = Inr path" "diff_path = Some path"
    "artifact_put (integrity_env.truncate env) base fs path (ge_diff git) = (Inr stored, fs1)"
    using d by blast
  have "closed_fs fs" using assms(1) by (simp add: store_ok_def)
  then have "stored = diff_artifact (integrity_env.truncate env) path (ge_diff git)"
    using artifact_put_ok(3) [OF _ p(3)] by (simp add: diff_artifact_def)
  then show "\<exists>path. diff_path = Some path \<and> read_verified (integrity_env.truncate env) base fs1
               (diff_artifact (integrity_env.truncate env) path (ge_diff git)) = Inr (ge_diff git)"
    using artifacts.put_get [OF assms(1) _ p(3)] p(1,2) RepoPath_new_ok(1) [OF p(1)] by auto
qed

text \<open>C28: a checkpoint records what Git shows and keeps the diff it was made from. When \<open>create\<close> succeeds
  the checkpoint's hash verifies, its changed files and base revision are those of the Git evidence
  whatever the worker claimed, and the diff it points to can be read back, verified, from the artifact
  store, also after the checkpoint document itself was stored.\<close>

theorem checkpoint_binds_git_evidence:
  assumes "ideal_digest (integrity_env.truncate env)" and "store_ok (integrity_env.truncate env) base fs"
    and "checkpoint_create env base fs checkpoint_id input git = (Inr c, fs')"
  shows "checkpoint_verify_integrity (integrity_env.truncate env) (checkpoint_value env) c = Inr True
       \<and> cp_files_changed c = ge_changed_files git \<and> cp_git_base c = Some (ge_base_revision git)
       \<and> is_full_object_id (ge_base_revision git)
       \<and> (if ge_diff git = [] then cp_diff_path c = None
          else \<exists>path. cp_diff_path c = Some path
                 \<and> read_verified (integrity_env.truncate env) base fs'
                     (diff_artifact (integrity_env.truncate env) path (ge_diff git)) = Inr (ge_diff git))"
proof -
  obtain diff_path fs1 path doc stored where full: "is_full_object_id (ge_base_revision git)"
    and diff: "store_diff env base fs checkpoint_id git = (Inr diff_path, fs1)"
    and seal: "checkpoint_refresh_integrity_hash (integrity_env.truncate env) (checkpoint_value env)
       (checkpoint_of checkpoint_id input git diff_path) = Inr c"
    and put: "artifact_put (integrity_env.truncate env) base fs1 path doc = (Inr stored, fs')"
    using assms(3) by (rule checkpoint_create_Inr)
  note sealed = checkpoint_refresh_ok [OF assms(1) seal]
  have fs': "fs' = snd (artifact_put (integrity_env.truncate env) base fs1 path doc)" using put by simp
  note stored = store_diff_readable [OF assms(2) diff]
  have fields: "cp_files_changed c = ge_changed_files git" "cp_git_base c = Some (ge_base_revision git)"
    "cp_diff_path c = diff_path"
    using arg_cong [OF sealed(2), of cp_files_changed] arg_cong [OF sealed(2), of cp_git_base]
      arg_cong [OF sealed(2), of cp_diff_path]
    by (simp_all add: checkpoint_of_def)
  show ?thesis
    using sealed(1) fields full stored(2,3) artifacts.put_keeps [OF stored(1)] unfolding fs' by auto
qed

definition sample_checkpoint_env :: checkpoint_env where
  "sample_checkpoint_env =
     \<lparr> json_quote = sample_quote, sha256_hex = (\<lambda>s. ''sha:'' @ s), checkpoint_value = (\<lambda>c. Inr JNull),
       bundle_value = (\<lambda>b. Inr JNull), checkpoint_id_text = (\<lambda>i. ''k''), to_vec_pretty = (\<lambda>c. Inr ''{}'') \<rparr>"

definition sample_git :: GitCheckpointEvidence where
  "sample_git =
     \<lparr> ge_base_revision = replicate 40 CHR ''a'', ge_head = replicate 40 CHR ''b'', ge_diff = ''d'',
       ge_changed_files = [RepoPath ''a''] \<rparr>"

definition sample_checkpoint_input :: CheckpointInput where
  "sample_checkpoint_input =
     \<lparr> ci_task_id = 2, ci_attempt_id = 3, ci_objective = ''objective'', ci_current_plan = [],
       ci_completed_steps = [], ci_pending_steps = [], ci_files_read = [], ci_commands_run = [],
       ci_tests = [], ci_decisions = [], ci_unresolved_questions = [], ci_known_failures = [],
       ci_worker_claim = None, ci_current_worker = Codex, ci_concise_context_summary = [],
       ci_created_at = 0 \<rparr>"

lemma sample_checkpoint_truncate: "integrity_env.truncate sample_checkpoint_env = sample_integrity_env"
  by (simp add: sample_checkpoint_env_def sample_integrity_env_def integrity_env.defs)

lemma sample_paths:
  "RepoPath_try_from ''checkpoints/k/worktree.sha:d.diff'' = Inr (RepoPath ''checkpoints/k/worktree.sha:d.diff'')"
  "RepoPath_try_from ''checkpoints/k/checkpoint.json'' = Inr (RepoPath ''checkpoints/k/checkpoint.json'')"
  "components (join_to (RepoPath ''checkpoints/k/worktree.sha:d.diff'') ''/'') =
     [RootDir, Normal ''checkpoints'', Normal ''k'', Normal ''worktree.sha:d.diff'']"
  "components (join_to (RepoPath ''checkpoints/k/checkpoint.json'') ''/'') =
     [RootDir, Normal ''checkpoints'', Normal ''k'', Normal ''checkpoint.json'']"
  "components ''/'' = [RootDir]"
  by code_simp+

lemmas put_evaluation =
  artifact_put_def ensure_safe_parent_def ensure_private_directory_def reject_symlink_components_def
  path_exists_def is_link_def is_file_def

definition sample_diff_fs :: file_system where
  "sample_diff_fs =
     [[RootDir] \<mapsto> Directory, [RootDir, Normal ''checkpoints''] \<mapsto> Directory,
      [RootDir, Normal ''checkpoints'', Normal ''k''] \<mapsto> Directory,
      [RootDir, Normal ''checkpoints'', Normal ''k'', Normal ''worktree.sha:d.diff''] \<mapsto> File ''d'']"

lemma sample_sha: "sha256_hex sample_integrity_env s = ''sha:'' @ s"
  by (simp add: sample_integrity_env_def)

lemma sample_put_diff:
  "artifact_put sample_integrity_env ''/'' sample_fs (RepoPath ''checkpoints/k/worktree.sha:d.diff'') ''d'' =
     (Inr (diff_artifact sample_integrity_env (RepoPath ''checkpoints/k/worktree.sha:d.diff'') ''d''), sample_diff_fs)"
  by (simp add: put_evaluation sample_paths Let_def sample_fs_def sample_sha diff_artifact_def sample_diff_fs_def)

lemma sample_put_document:
  "fst (artifact_put sample_integrity_env ''/'' sample_diff_fs (RepoPath ''checkpoints/k/checkpoint.json'') ''{}'')
   = Inr (diff_artifact sample_integrity_env (RepoPath ''checkpoints/k/checkpoint.json'') ''{}'')"
  by (simp add: put_evaluation sample_paths Let_def sample_sha diff_artifact_def sample_diff_fs_def)

definition sample_created :: Checkpoint where
  "sample_created =
     (checkpoint_of 1 sample_checkpoint_input sample_git (Some (RepoPath ''checkpoints/k/worktree.sha:d.diff'')))
       \<lparr>cp_integrity_hash := ''sha:null''\<rparr>"

lemma sample_checkpoint_seal:
  "checkpoint_refresh_integrity_hash sample_integrity_env (checkpoint_value sample_checkpoint_env)
     (checkpoint_of 1 sample_checkpoint_input sample_git (Some (RepoPath ''checkpoints/k/worktree.sha:d.diff'')))
   = Inr sample_created"
  unfolding checkpoint_refresh_integrity_hash_def checkpoint_doc.seal_iff
  by (simp add: sample_checkpoint_env_def sample_sha_null sample_created_def)

lemma sample_env_fields:
  "sha256_hex sample_checkpoint_env s = ''sha:'' @ s" "checkpoint_id_text sample_checkpoint_env i = ''k''"
  "to_vec_pretty sample_checkpoint_env c = Inr ''{}''"
  by (simp_all add: sample_checkpoint_env_def)

lemma sample_git_fields:
  "is_full_object_id (ge_base_revision sample_git)" "is_full_object_id (ge_head sample_git)"
  "ge_diff sample_git = ''d''"
  by code_simp+

lemma sample_store_diff:
  "store_diff sample_checkpoint_env ''/'' sample_fs 1 sample_git =
     (Inr (Some (RepoPath ''checkpoints/k/worktree.sha:d.diff'')), sample_diff_fs)"
  by (simp add: store_diff_def sample_env_fields sample_git_fields Let_def sample_paths
      sample_checkpoint_truncate sample_put_diff diff_artifact_def sample_sha)

lemma sample_create:
  "checkpoint_create sample_checkpoint_env ''/'' sample_fs 1 sample_checkpoint_input sample_git =
     (Inr sample_created,
      snd (artifact_put sample_integrity_env ''/'' sample_diff_fs (RepoPath ''checkpoints/k/checkpoint.json'') ''{}''))"
  using sample_put_document
  by (cases "artifact_put sample_integrity_env ''/'' sample_diff_fs (RepoPath ''checkpoints/k/checkpoint.json'') ''{}''")
     (simp add: checkpoint_create_def sample_git_fields sample_store_diff sample_checkpoint_truncate sample_checkpoint_seal
      sample_env_fields sample_paths)

theorem checkpoint_binds_git_evidence_witness:
  "cp_files_changed sample_created = [RepoPath ''a'']
   \<and> checkpoint_verify_integrity sample_integrity_env (checkpoint_value sample_checkpoint_env) sample_created
     = Inr True"
  using checkpoint_binds_git_evidence [of sample_checkpoint_env, unfolded sample_checkpoint_truncate,
      OF sample_ideal_digest sample_store_ok sample_create]
  by (simp add: sample_git_def)

section \<open>Reports\<close>

lemma verified_or_false_iff:
  "verified_or_false env c \<longleftrightarrow>
     checkpoint_verify_integrity (integrity_env.truncate env) (checkpoint_value env) c = Inr True"
  by (auto simp: verified_or_false_def split: sum.split)

text \<open>A report that passes the completion gate and validates against a scheduler claim is evidence for
  the task, provider and base of the claim: it carries a verified checkpoint and a passing verification for the claimed task by
  the claimed provider, made from the approved base commit; report, checkpoint and verification agree on
  the changed files; no file is out of scope, no approval is pending and no failure is recorded.\<close>

theorem gated_report_binds_claim:
  assumes "passed_completion_gate env r" and "validates_claim env r claim"
  shows "\<exists>c v. rep_checkpoint r = Some c \<and> rep_verification r = Some v
       \<and> checkpoint_verify_integrity (integrity_env.truncate env) (checkpoint_value env) c = Inr True
       \<and> cp_task_id c = ct_task_id claim \<and> ver_task_id v = ct_task_id claim
       \<and> cp_current_worker c = ct_provider claim \<and> ver_implementation_provider v = ct_provider claim
       \<and> cp_git_base c = Some (ct_approved_base_commit claim)
       \<and> cp_files_changed c = rep_changed_files r \<and> ver_changed_files v = rep_changed_files r
       \<and> ver_out_of_scope_files v = [] \<and> \<not> ver_requires_approval v
       \<and> list_all (\<lambda>check. vc_status check = Verification_Pass) (ver_checks v)
       \<and> cp_known_failures c = [] \<and> rep_lifecycle_failure r = None"
proof -
  obtain c v where c: "rep_checkpoint r = Some c" "verified_or_false env c"
    and v: "rep_verification r = Some v" "verification_matches_report r v" "passes_completion_gate v False"
    and ok: "rep_outcome r = Outcome_Succeeded"
    using assms(1) by (auto simp: passed_completion_gate_def is_some_and_iff)
  have contract: "validate_failure_contract env r" using assms(2) by (simp add: validates_claim_def)
  then have none: "rep_lifecycle_failure r = None"
    using ok by (auto simp: validate_failure_contract_def split: if_splits)
  show ?thesis
    using c v contract none assms(2)
    by (auto simp: validate_failure_contract_def validates_claim_def verification_matches_report_def
        passes_completion_gate_def verified_or_false_iff)
qed

definition sample_verification :: VerificationResult where
  "sample_verification =
     \<lparr> ver_schema_version = SchemaVersion_V1, ver_verification_id = 5, ver_task_id = 2,
       ver_implementation_provider = Codex, ver_reviewer_provider = None, ver_status = Verification_Pass,
       ver_checks = [], ver_acceptance_criteria = [], ver_changed_files = [RepoPath ''a''],
       ver_out_of_scope_files = [], ver_unresolved_todos = [], ver_requires_approval = False,
       ver_verified_at = 0 \<rparr>"

definition sample_report :: TaskExecutionReport where
  "sample_report =
     \<lparr> rep_task_id = 2, rep_attempt_id = 3, rep_provider = Codex, rep_outcome = Outcome_Succeeded,
       rep_summary_redacted = [], rep_worktree_path = [], rep_branch = [],
       rep_base_revision = replicate 40 CHR ''a'', rep_changed_files = [RepoPath ''a''],
       rep_checkpoint = Some sample_created, rep_verification = Some sample_verification,
       rep_lifecycle_failure = None \<rparr>"

definition sample_claimed :: ClaimedTask where
  "sample_claimed =
     \<lparr> ct_workspace_id = 1, ct_schedule_claim_id = 7, ct_daemon_instance_id = 8, ct_session_id = 9,
       ct_revision_id = 10, ct_task_id = 2, ct_node_key = ''a'', ct_display_order = 0, ct_provider = Codex,
       ct_profile = Standard, ct_envelope = TaskEnvelope_new 2 ''objective'' [] 0,
       ct_scope = \<lparr> scope_paths = [RepoPath ''a''], scope_repository_wide = False \<rparr>,
       ct_approved_base_commit = replicate 40 CHR ''a'', ct_acquired_at = 0, ct_expires_at = 1 \<rparr>"

definition sample_report_env :: engine_env where
  "sample_report_env = engine_env.truncate sample_checkpoint_env"

lemma sample_report_env_fields:
  "integrity_env.truncate sample_report_env = sample_integrity_env"
  "checkpoint_value sample_report_env = checkpoint_value sample_checkpoint_env"
  by (simp_all add: sample_report_env_def sample_checkpoint_env_def sample_integrity_env_def
      integrity_env.defs engine_env.defs)

lemma sample_created_verified: "verified_or_false sample_report_env sample_created"
  using checkpoint_refresh_ok(1) [OF sample_ideal_digest sample_checkpoint_seal]
  by (simp add: verified_or_false_iff sample_report_env_fields)

lemma sample_report_gated: "passed_completion_gate sample_report_env sample_report"
  using sample_created_verified
  by (simp add: passed_completion_gate_def sample_report_def verification_matches_report_def
      passes_completion_gate_def sample_verification_def)
     (simp add: sample_created_def checkpoint_of_def sample_git_def)

lemma sample_report_validates: "validates_claim sample_report_env sample_report sample_claimed"
proof -
  have "validate_failure_contract sample_report_env sample_report"
    using sample_created_verified
    by (simp add: validate_failure_contract_def sample_report_def checkpoint_has_supported_schema_def
        is_supported_by_def SUPPORTED_CHECKPOINT_SCHEMA_VERSIONS_def)
       (simp add: sample_created_def checkpoint_of_def sample_git_def sample_checkpoint_input_def)
  then show ?thesis
    by (simp add: validates_claim_def)
       (simp add: sample_report_def sample_claimed_def verification_matches_report_def sample_verification_def)
qed

theorem gated_report_binds_claim_witness:
  "\<exists>c v. rep_checkpoint sample_report = Some c \<and> rep_verification sample_report = Some v
       \<and> cp_git_base c = Some (ct_approved_base_commit sample_claimed)
       \<and> ver_changed_files v = rep_changed_files sample_report"
  using gated_report_binds_claim [OF sample_report_gated sample_report_validates] by blast

end
