(* ===== verification/Verification_Engine.thy ===== *)
theory Verification_Engine
  imports Engine "HOL-Library.Product_Lexorder"
begin

text \<open>
  \<open>crates/orchestrator-engine/src/verification.rs\<close>: deterministic verification of a worker's result from
  Git, command, test, acceptance and review evidence, with the secret scan. The regular expressions are
  compiled by the crate \<open>regex\<close>: whether the pattern of a kind occurs in some bytes is the parameter
  \<open>is_match\<close>. The worktree is a function from repository paths to what is found there; device errors
  are not modelled.
\<close>

section \<open>Secret scan\<close>

record SecretFinding =
  sf_location :: string
  sf_kind :: string

record SecretScanReport =
  scan_findings :: "SecretFinding list"
  scan_truncated_files :: "string list"

definition safe_to_persist_or_share :: "SecretScanReport \<Rightarrow> bool" where
  "safe_to_persist_or_share r \<longleftrightarrow> scan_findings r = [] \<and> scan_truncated_files r = []"

text \<open>The kinds of \<open>VerificationEngine::new\<close>, in its order.\<close>

definition secret_kinds :: "string list" where
  "secret_kinds = [''private_key'', ''openai_key'', ''anthropic_key'', ''github_token'', ''google_api_key'']"

definition MAX_SECRET_SCAN_BYTES_PER_FILE :: nat where
  "MAX_SECRET_SCAN_BYTES_PER_FILE = 4 * 1024 * 1024"

text \<open>What a path of the worktree resolves to: whether its canonical location lies below the canonical root,
  whether it is a regular file, and its bytes.\<close>

record worktree_entry =
  entry_below_root :: bool
  entry_is_file :: bool
  entry_bytes :: string

type_synonym worktree = "RepoPath \<Rightarrow> worktree_entry option"

definition scan_bytes :: "(string \<Rightarrow> string \<Rightarrow> bool) \<Rightarrow> string \<Rightarrow> string \<Rightarrow> SecretFinding list" where
  "scan_bytes is_match location bytes =
     map (\<lambda>kind. \<lparr> sf_location = location, sf_kind = kind \<rparr>) (filter (\<lambda>kind. is_match kind bytes) secret_kinds)"

text \<open>\<open>diff.split_inclusive('\n')\<close>, and the added lines of a diff without their \<open>+\<close>.\<close>

fun split_inclusive :: "string \<Rightarrow> string list" where
  "split_inclusive [] = []"
| "split_inclusive (c # s) =
     (if c = CHR ''\<newline>'' then [c] # split_inclusive s
      else (case split_inclusive s of [] \<Rightarrow> [[c]] | l # ls \<Rightarrow> (c # l) # ls))"

definition added_diff_lines :: "string \<Rightarrow> string" where
  "added_diff_lines diff =
     concat (map tl (filter (\<lambda>line. line \<noteq> [] \<and> hd line = CHR ''+'' \<and> \<not> starts_with line ''+++ '')
       (split_inclusive diff)))"

text \<open>One changed file of \<open>scan_changed_files\<close>; a missing path and a path that is not a file are skipped. The error
  names the repository path instead of its absolute canonical location.\<close>

definition scan_file ::
    "(string \<Rightarrow> string \<Rightarrow> bool) \<Rightarrow> worktree \<Rightarrow> SecretScanReport \<Rightarrow> RepoPath \<Rightarrow> EngineError + SecretScanReport" where
  "scan_file is_match wt report relative =
     (case wt relative of
        None \<Rightarrow> Inr report
      | Some entry \<Rightarrow>
          (if \<not> entry_below_root entry then Inl (Engine_UnsafePath (components (as_path relative)))
           else if \<not> entry_is_file entry then Inr report
           else
             let truncated =
                   (if length (entry_bytes entry) > MAX_SECRET_SCAN_BYTES_PER_FILE
                    then [RepoPath_to_string relative] else []);
                 bytes = take MAX_SECRET_SCAN_BYTES_PER_FILE (entry_bytes entry)
             in Inr \<lparr> scan_findings =
                        scan_findings report @ scan_bytes is_match (RepoPath_to_string relative) bytes,
                      scan_truncated_files = scan_truncated_files report @ truncated \<rparr>))"

fun scan_files ::
    "(string \<Rightarrow> string \<Rightarrow> bool) \<Rightarrow> worktree \<Rightarrow> SecretScanReport \<Rightarrow> RepoPath list
     \<Rightarrow> EngineError + SecretScanReport" where
  "scan_files is_match wt report [] = Inr report"
| "scan_files is_match wt report (relative # files) =
     and_then (scan_file is_match wt report relative) (\<lambda>report'. scan_files is_match wt report' files)"

definition finding_order :: "SecretFinding \<Rightarrow> nat list \<times> nat list" where
  "finding_order f = (map byte (sf_location f), map byte (sf_kind f))"

definition scan_changed_files ::
    "(string \<Rightarrow> string \<Rightarrow> bool) \<Rightarrow> worktree \<Rightarrow> RepoPath list \<Rightarrow> string \<Rightarrow> bool
     \<Rightarrow> EngineError + SecretScanReport" where
  "scan_changed_files is_match wt files diff scan_all_diff_bytes =
     (let diff_to_scan = (if scan_all_diff_bytes then diff else added_diff_lines diff) in
      and_then
        (scan_files is_match wt
           \<lparr> scan_findings = scan_bytes is_match ''git_diff'' diff_to_scan, scan_truncated_files = [] \<rparr> files)
        (\<lambda>report.
           Inr \<lparr> scan_findings = remdups_adj (sort_key finding_order (scan_findings report)),
                 scan_truncated_files =
                   remdups_adj (sort_key (map byte) (scan_truncated_files report)) \<rparr>))"

definition preflight_persistence ::
    "(string \<Rightarrow> string \<Rightarrow> bool) \<Rightarrow> worktree \<Rightarrow> GitSnapshot \<Rightarrow> EngineError + SecretScanReport" where
  "preflight_persistence is_match wt snapshot =
     scan_changed_files is_match wt (git_changed_files snapshot) (git_diff snapshot) True"

section \<open>Verification\<close>

record VerificationInput =
  vi_task_id :: TaskId
  vi_implementation_provider :: ProviderId
  vi_reviewer_provider :: "ProviderId option"
  vi_independent_review_required :: bool
  vi_independent_review_passed :: bool
  vi_snapshot :: GitSnapshot
  vi_expected_paths :: "RepoPath list"
  vi_commands :: "CommandEvidence list"
  vi_tests :: "TestEvidence list"
  vi_acceptance_criteria :: "AcceptanceEvidence list"
  vi_unresolved_todos :: "string list"
  vi_verified_at :: DateTime

definition path_is_expected :: "RepoPath \<Rightarrow> RepoPath list \<Rightarrow> bool" where
  "path_is_expected path expected \<longleftrightarrow>
     list_ex (\<lambda>p. prefix (components (as_path p)) (components (as_path path))) expected"

definition pass_if :: "bool \<Rightarrow> VerificationStatus" where
  "pass_if passes = (if passes then Verification_Pass else Verification_Fail)"

definition detail_if :: "bool \<Rightarrow> string \<Rightarrow> string option" where
  "detail_if condition detail = (if condition then Some detail else None)"

definition verification_check ::
    "VerificationCheckKind \<Rightarrow> string \<Rightarrow> VerificationStatus \<Rightarrow> string option \<Rightarrow> VerificationCheck" where
  "verification_check kind name status detail =
     \<lparr> vc_kind = kind, vc_name = name, vc_status = status, vc_detail = detail, vc_evidence_paths = [] \<rparr>"

definition secret_scan_status :: "SecretScanReport \<Rightarrow> VerificationStatus" where
  "secret_scan_status scan =
     (if scan_findings scan \<noteq> [] then Verification_Fail
      else if scan_truncated_files scan \<noteq> [] then Verification_Inconclusive
      else Verification_Pass)"

text \<open>\<open>Display\<close> of \<open>usize\<close>.\<close>

fun show_nat :: "nat \<Rightarrow> string" where
  "show_nat n =
     (if n < 10 then [char_of (48 + n)] else show_nat (n div 10) @ [char_of (48 + n mod 10)])"

declare show_nat.simps [simp del]

definition secret_scan_detail :: "SecretScanReport \<Rightarrow> string option" where
  "secret_scan_detail scan =
     (let findings = length (scan_findings scan); truncated = length (scan_truncated_files scan) in
      if findings = 0 \<and> truncated = 0 then None
      else if truncated = 0 then Some (show_nat findings @ '' potential secret(s); values omitted'')
      else if findings = 0 then
        Some (show_nat truncated @ '' file(s) exceeded the secret-scan byte limit; approval required'')
      else Some (show_nat findings @ '' potential secret(s); '' @ show_nat truncated
                 @ '' file(s) exceeded the scan limit; values omitted''))"

definition command_failed :: "CommandEvidence \<Rightarrow> bool" where
  "command_failed c \<longleftrightarrow> ce_exit_code c \<noteq> Some 0 \<or> ce_timed_out c \<or> ce_output_truncated c"

definition review_failure :: "VerificationInput \<Rightarrow> bool" where
  "review_failure input \<longleftrightarrow>
     vi_independent_review_required input
     \<and> (\<not> vi_independent_review_passed input
        \<or> vi_reviewer_provider input = None
        \<or> vi_reviewer_provider input = Some (vi_implementation_provider input))"

definition verification_checks ::
    "VerificationInput \<Rightarrow> RepoPath list \<Rightarrow> SecretScanReport \<Rightarrow> VerificationCheck list" where
  "verification_checks input out_of_scope scan =
     (let command_failure = list_ex command_failed (vi_commands input);
          test_failure = list_ex (\<lambda>t. te_status t \<noteq> Test_Passed) (vi_tests input);
          acceptance_failure = list_ex (\<lambda>a. ae_status a \<noteq> Verification_Pass) (vi_acceptance_criteria input)
      in
      [verification_check GitDiff ''authoritative Git snapshot'' Verification_Pass
         (Some (show_nat (length (git_changed_files (vi_snapshot input))) @ '' changed path(s)'')),
       verification_check Check_Scope ''changed-file scope'' (pass_if (out_of_scope = []))
         (detail_if (out_of_scope \<noteq> [])
            (show_nat (length out_of_scope) @ '' path(s) are outside the expected scope'')),
       verification_check CommandExit ''command exit evidence'' (pass_if (\<not> command_failure))
         (detail_if command_failure ''one or more commands failed or were truncated''),
       verification_check Check_Test ''test evidence'' (pass_if (\<not> test_failure))
         (detail_if test_failure ''one or more tests did not pass''),
       verification_check AcceptanceCriterion ''acceptance criteria'' (pass_if (\<not> acceptance_failure))
         (detail_if acceptance_failure ''acceptance evidence is incomplete''),
       verification_check UnresolvedTodo ''unresolved TODO review'' (pass_if (vi_unresolved_todos input = []))
         (detail_if (vi_unresolved_todos input \<noteq> [])
            (show_nat (length (vi_unresolved_todos input)) @ '' unresolved item(s)'')),
       verification_check SecretScan ''secret scan'' (secret_scan_status scan) (secret_scan_detail scan),
       verification_check IndependentReview ''independent provider review'' (pass_if (\<not> review_failure input))
         (detail_if (review_failure input)
            ''required independent review is missing or not independent'')])"

definition verification_failed :: "VerificationInput \<Rightarrow> RepoPath list \<Rightarrow> SecretScanReport \<Rightarrow> bool" where
  "verification_failed input out_of_scope scan \<longleftrightarrow>
     out_of_scope \<noteq> []
     \<or> list_ex command_failed (vi_commands input)
     \<or> list_ex (\<lambda>t. te_status t \<noteq> Test_Passed) (vi_tests input)
     \<or> list_ex (\<lambda>a. ae_status a \<noteq> Verification_Pass) (vi_acceptance_criteria input)
     \<or> vi_unresolved_todos input \<noteq> []
     \<or> scan_findings scan \<noteq> []
     \<or> review_failure input"

definition engine_verify ::
    "(string \<Rightarrow> string \<Rightarrow> bool) \<Rightarrow> worktree \<Rightarrow> VerificationId \<Rightarrow> VerificationInput
     \<Rightarrow> EngineError + VerificationResult" where
  "engine_verify is_match wt verification_id input =
     (let snapshot = vi_snapshot input;
          out_of_scope =
            filter (\<lambda>path. \<not> path_is_expected path (vi_expected_paths input)) (git_changed_files snapshot)
      in
      and_then (scan_changed_files is_match wt (git_changed_files snapshot) (git_diff snapshot) False) (\<lambda>scan.
        let inconclusive = scan_truncated_files scan \<noteq> [];
            failed = verification_failed input out_of_scope scan
        in Inr \<lparr> ver_schema_version = schema_v1, ver_verification_id = verification_id,
                 ver_task_id = vi_task_id input,
                 ver_implementation_provider = vi_implementation_provider input,
                 ver_reviewer_provider = vi_reviewer_provider input,
                 ver_status =
                   (if failed then Verification_Fail
                    else if inconclusive then Verification_Inconclusive else Verification_Pass),
                 ver_checks = verification_checks input out_of_scope scan,
                 ver_acceptance_criteria = vi_acceptance_criteria input,
                 ver_changed_files = git_changed_files snapshot,
                 ver_out_of_scope_files = out_of_scope,
                 ver_unresolved_todos = vi_unresolved_todos input,
                 ver_requires_approval = out_of_scope \<noteq> [] \<or> scan_findings scan \<noteq> [] \<or> inconclusive,
                 ver_verified_at = vi_verified_at input \<rparr>))"

section \<open>Lemmas\<close>

text \<open>What the scan must find for a worktree to be clean.\<close>

definition no_secret :: "(string \<Rightarrow> string \<Rightarrow> bool) \<Rightarrow> string \<Rightarrow> bool" where
  "no_secret is_match bytes \<longleftrightarrow> list_all (\<lambda>kind. \<not> is_match kind bytes) secret_kinds"

definition file_clean :: "(string \<Rightarrow> string \<Rightarrow> bool) \<Rightarrow> worktree \<Rightarrow> RepoPath \<Rightarrow> bool" where
  "file_clean is_match wt path \<longleftrightarrow>
     (case wt path of
        None \<Rightarrow> True
      | Some entry \<Rightarrow>
          entry_below_root entry
          \<and> (entry_is_file entry \<longrightarrow>
               no_secret is_match (entry_bytes entry)
               \<and> length (entry_bytes entry) \<le> MAX_SECRET_SCAN_BYTES_PER_FILE))"

lemma scan_bytes_Nil: "scan_bytes is_match location bytes = [] \<longleftrightarrow> no_secret is_match bytes"
  by (simp add: scan_bytes_def no_secret_def filter_empty_conv list_all_iff)

lemma scan_file_clean:
  assumes "scan_file is_match wt report path = Inr report'"
  shows "safe_to_persist_or_share report' \<longleftrightarrow> safe_to_persist_or_share report \<and> file_clean is_match wt path"
  using assms
  by (auto simp: scan_file_def file_clean_def safe_to_persist_or_share_def scan_bytes_Nil Let_def
      split: option.splits if_splits)

lemma scan_files_clean:
  assumes "scan_files is_match wt report files = Inr report'"
  shows "safe_to_persist_or_share report' \<longleftrightarrow>
           safe_to_persist_or_share report \<and> list_all (file_clean is_match wt) files"
  using assms
proof (induction files arbitrary: report)
  case (Cons path files)
  then obtain r where "scan_file is_match wt report path = Inr r" "scan_files is_match wt r files = Inr report'"
    by (auto simp: and_then_eq_Inr)
  then show ?case using Cons(1) [of r] scan_file_clean [of is_match wt report path r] by simp
qed simp

lemma scan_changed_files_clean:
  assumes "scan_changed_files is_match wt files diff all = Inr scan"
  shows "safe_to_persist_or_share scan \<longleftrightarrow>
           no_secret is_match (if all then diff else added_diff_lines diff)
           \<and> list_all (file_clean is_match wt) files"
proof -
  let ?start = "\<lparr> scan_findings = scan_bytes is_match ''git_diff'' (if all then diff else added_diff_lines diff),
                 scan_truncated_files = [] \<rparr>"
  obtain r where r: "scan_files is_match wt ?start files = Inr r"
    and scan: "scan = \<lparr> scan_findings = remdups_adj (sort_key finding_order (scan_findings r)),
      scan_truncated_files = remdups_adj (sort_key (map byte) (scan_truncated_files r)) \<rparr>"
    using assms by (auto simp: scan_changed_files_def Let_def and_then_eq_Inr)
  have "safe_to_persist_or_share scan \<longleftrightarrow> safe_to_persist_or_share r"
    by (simp add: scan safe_to_persist_or_share_def) (metis length_0_conv length_sort)
  then show ?thesis
    using scan_files_clean [OF r] by (simp add: safe_to_persist_or_share_def scan_bytes_Nil)
qed

lemma safe_scan_status: "secret_scan_status scan = Verification_Pass \<longleftrightarrow> safe_to_persist_or_share scan"
  by (auto simp: secret_scan_status_def safe_to_persist_or_share_def)

lemma pass_if_Pass [simp]: "pass_if b = Verification_Pass \<longleftrightarrow> b"
  by (simp add: pass_if_def)

lemma verification_checks_pass:
  "list_all (\<lambda>check. vc_status check = Verification_Pass) (verification_checks input out_of_scope scan) \<longleftrightarrow>
     out_of_scope = [] \<and> \<not> list_ex command_failed (vi_commands input)
     \<and> \<not> list_ex (\<lambda>t. te_status t \<noteq> Test_Passed) (vi_tests input)
     \<and> \<not> list_ex (\<lambda>a. ae_status a \<noteq> Verification_Pass) (vi_acceptance_criteria input)
     \<and> vi_unresolved_todos input = [] \<and> safe_to_persist_or_share scan \<and> \<not> review_failure input"
  by (simp add: verification_checks_def verification_check_def Let_def safe_scan_status)

lemma not_failed_iff:
  "\<not> verification_failed input out_of_scope scan \<and> scan_truncated_files scan = [] \<longleftrightarrow>
     list_all (\<lambda>check. vc_status check = Verification_Pass) (verification_checks input out_of_scope scan)"
  unfolding verification_checks_pass verification_failed_def safe_to_persist_or_share_def by blast

text \<open>The evidence a verification asks for.\<close>

definition verified_evidence :: "(string \<Rightarrow> string \<Rightarrow> bool) \<Rightarrow> worktree \<Rightarrow> VerificationInput \<Rightarrow> bool" where
  "verified_evidence is_match wt input \<longleftrightarrow>
     list_all (\<lambda>path. path_is_expected path (vi_expected_paths input)) (git_changed_files (vi_snapshot input))
     \<and> list_all (\<lambda>c. ce_exit_code c = Some 0 \<and> \<not> ce_timed_out c \<and> \<not> ce_output_truncated c) (vi_commands input)
     \<and> list_all (\<lambda>t. te_status t = Test_Passed) (vi_tests input)
     \<and> list_all (\<lambda>a. ae_status a = Verification_Pass) (vi_acceptance_criteria input)
     \<and> vi_unresolved_todos input = []
     \<and> no_secret is_match (added_diff_lines (git_diff (vi_snapshot input)))
     \<and> list_all (file_clean is_match wt) (git_changed_files (vi_snapshot input))
     \<and> (vi_independent_review_required input \<longrightarrow>
          vi_independent_review_passed input
          \<and> (\<exists>p. vi_reviewer_provider input = Some p \<and> p \<noteq> vi_implementation_provider input))"

lemma engine_verify_Inr:
  assumes "engine_verify is_match wt vid input = Inr v"
  obtains scan where
    "scan_changed_files is_match wt (git_changed_files (vi_snapshot input)) (git_diff (vi_snapshot input)) False
     = Inr scan"
    "ver_status v = Verification_Pass \<longleftrightarrow>
       list_all (\<lambda>check. vc_status check = Verification_Pass) (ver_checks v)"
    "ver_requires_approval v \<longleftrightarrow> ver_out_of_scope_files v \<noteq> [] \<or> \<not> safe_to_persist_or_share scan"
    "ver_checks v = verification_checks input (ver_out_of_scope_files v) scan"
    "ver_out_of_scope_files v =
       filter (\<lambda>path. \<not> path_is_expected path (vi_expected_paths input)) (git_changed_files (vi_snapshot input))"
    "ver_acceptance_criteria v = vi_acceptance_criteria input"
    "ver_reviewer_provider v = vi_reviewer_provider input"
    "ver_implementation_provider v = vi_implementation_provider input"
proof -
  obtain scan where scan: "scan_changed_files is_match wt (git_changed_files (vi_snapshot input))
      (git_diff (vi_snapshot input)) False = Inr scan"
    using assms by (auto simp: engine_verify_def Let_def and_then_eq_Inr)
  note v = assms [unfolded engine_verify_def Let_def scan and_then_Inr sum.inject(2), symmetric]
  show thesis
    by (rule that [OF scan]) (simp_all add: v not_failed_iff [symmetric] safe_to_persist_or_share_def)
qed

text \<open>C31: verification passes the completion gate exactly on complete evidence. The result of \<open>verify\<close>, gated
  with the review requirement it was made with, passes when and only when every changed file is below an
  expected path, every command ended with exit code 0 in time and untruncated, every test and acceptance
  criterion passed, nothing is left to do, no secret occurs in the added lines or in any changed file and
  no file was too large to scan, and a required review was passed by another provider.\<close>

theorem verify_gate_iff_evidence:
  assumes "engine_verify is_match wt verification_id input = Inr v"
  shows "passes_completion_gate v (vi_independent_review_required input) \<longleftrightarrow> verified_evidence is_match wt input"
proof -
  obtain scan where scan: "scan_changed_files is_match wt (git_changed_files (vi_snapshot input))
      (git_diff (vi_snapshot input)) False = Inr scan"
    and v: "ver_status v = Verification_Pass \<longleftrightarrow>
        list_all (\<lambda>check. vc_status check = Verification_Pass) (ver_checks v)"
      "ver_requires_approval v \<longleftrightarrow> ver_out_of_scope_files v \<noteq> [] \<or> \<not> safe_to_persist_or_share scan"
      "ver_checks v = verification_checks input (ver_out_of_scope_files v) scan"
      "ver_out_of_scope_files v =
         filter (\<lambda>path. \<not> path_is_expected path (vi_expected_paths input)) (git_changed_files (vi_snapshot input))"
      "ver_acceptance_criteria v = vi_acceptance_criteria input"
      "ver_reviewer_provider v = vi_reviewer_provider input"
      "ver_implementation_provider v = vi_implementation_provider input"
    using assms by (rule engine_verify_Inr)
  have review: "list_ex (\<lambda>check. vc_kind check = IndependentReview \<and> vc_status check = Verification_Pass)
        (ver_checks v) \<longleftrightarrow> \<not> review_failure input"
    by (simp add: v(3) verification_checks_def verification_check_def Let_def)
  have gate: "passes_completion_gate v (vi_independent_review_required input) \<longleftrightarrow>
      list_all (\<lambda>check. vc_status check = Verification_Pass) (ver_checks v)"
    unfolding passes_completion_gate_def review v(1,2,5-7)
    unfolding v(3) verification_checks_pass
    by (auto simp: review_failure_def list_ex_iff list_all_iff is_some_and_iff)
  have "list_all (\<lambda>check. vc_status check = Verification_Pass) (ver_checks v) \<longleftrightarrow>
      verified_evidence is_match wt input"
    unfolding v(3) verification_checks_pass scan_changed_files_clean [OF scan] verified_evidence_def v(4)
    by (auto simp: filter_empty_conv list_all_iff list_ex_iff command_failed_def review_failure_def)
  with gate show ?thesis by simp
qed

text \<open>A change of one expected file, verified with and without a secret in it.\<close>

definition sample_match :: "string \<Rightarrow> string \<Rightarrow> bool" where
  "sample_match kind bytes \<longleftrightarrow> kind = ''openai_key'' \<and> str_contains bytes ''sk-''"

definition sample_worktree :: "string \<Rightarrow> worktree" where
  "sample_worktree bytes =
     [RepoPath ''a'' \<mapsto> \<lparr> entry_below_root = True, entry_is_file = True, entry_bytes = bytes \<rparr>]"

definition sample_verify_input :: VerificationInput where
  "sample_verify_input =
     \<lparr> vi_task_id = 2, vi_implementation_provider = Codex, vi_reviewer_provider = Some Claude,
       vi_independent_review_required = True, vi_independent_review_passed = True,
       vi_snapshot = \<lparr> git_base_revision = ''b'', git_head = ''h'', git_status_porcelain = [],
                       git_diff = ''+x'', git_changed_files = [RepoPath ''a''] \<rparr>,
       vi_expected_paths = [RepoPath ''a''], vi_commands = [], vi_tests = [],
       vi_acceptance_criteria = [], vi_unresolved_todos = [], vi_verified_at = 0 \<rparr>"

lemma sample_verify_returns: "\<exists>v. engine_verify sample_match (sample_worktree bytes) 1 sample_verify_input = Inr v"
  by (simp add: engine_verify_def scan_changed_files_def scan_file_def sample_worktree_def
      sample_verify_input_def Let_def)

lemma sample_evidence:
  "verified_evidence sample_match (sample_worktree ''x'') sample_verify_input"
  "\<not> verified_evidence sample_match (sample_worktree ''sk-'') sample_verify_input"
  by (simp_all add: verified_evidence_def sample_verify_input_def path_is_expected_def no_secret_def
      secret_kinds_def sample_match_def added_diff_lines_def file_clean_def sample_worktree_def
      MAX_SECRET_SCAN_BYTES_PER_FILE_def)

theorem verify_gate_iff_evidence_witness:
  "(\<exists>v. engine_verify sample_match (sample_worktree ''x'') 1 sample_verify_input = Inr v
        \<and> passes_completion_gate v True)
   \<and> (\<exists>v. engine_verify sample_match (sample_worktree ''sk-'') 1 sample_verify_input = Inr v
        \<and> \<not> passes_completion_gate v True)"
proof -
  have "vi_independent_review_required sample_verify_input" by (simp add: sample_verify_input_def)
  then show ?thesis
    using sample_verify_returns verify_gate_iff_evidence sample_evidence by metis
qed

end
