(* ===== verification/Spec2Isabelle.thy ===== *)
theory Spec2Isabelle
  imports Audit_Chain Claim_Store Client_Commands Conversation Daemon_Instances Graph_Store Graph_Validation Instructions Integration
    Lease_Store Process_Output Routing Session_Store Verification_Engine
begin

text \<open>
  Verification of Colay, a supervisor for coding agents.

  \<^bold>\<open>The program.\<close> Colay (a Rust workspace under \<open>src/crates\<close>) takes a goal from a user, lets a planner
  propose a graph of tasks, validates and seals the graph, and runs its tasks with coding agents (providers such
  as Claude, Codex or Gemini) in separate Git worktrees. A daemon keeps all state in one SQLite database that is
  partitioned by workspace. The parts and their interaction:

  \<^item> \<open>orchestrator-domain\<close> holds the data and its rules: identifiers, repository paths, the task and session state
    machines, graphs, assessments, scheduling, sealed documents, conversations and integrations. It does no input or output.
  \<^item> \<open>orchestrator-policy\<close> decides: the analyzer rates a task, \<open>period\<close> and \<open>budget\<close> judge quotas, \<open>routing\<close> chooses
    a provider from assessment, capabilities and forecasts.
  \<^item> \<open>orchestrator-state\<close> stores: schedule claims, leases, client commands, daemon instances, sessions with their messages, the audit trail and
    artifacts. The scheduler of the domain crate runs inside the claim transaction.
  \<^item> \<open>orchestrator-engine\<close> executes: it drives the task state machine, makes checkpoints and handovers from Git evidence,
    stores their documents through the artifact store and verifies results before a task may complete.
  \<^item> \<open>orchestrator-daemon\<close>, \<open>-providers\<close>, \<open>-process\<close>, \<open>codex-compat\<close>, \<open>-cli\<close>, \<open>-tui\<close> and \<open>-windows-ipc\<close> connect these
    parts to processes, sockets, terminals and operating systems.

  \<^bold>\<open>Reading the model.\<close> A Rust struct is a record, an enum a datatype with the source's variants (a prefix where
  two enums share a name), a function a definition of the same name (with the type as prefix where several types
  have it), \<open>Result<T, E>\<close> the sum \<open>E + T\<close>, and \<open>?\<close> the function \<open>and_then\<close>. Panics are \<open>None\<close>. Machine integers
  keep their width where they can overflow; \<open>f64\<close> is modelled with its rounding, infinities and NaN. A SQLite table is a
  list of rows, a transaction a function on the tables whose errors leave them unchanged, and an interleaving a run of
  a step relation. Strings are lists of bytes (UTF-8).

  \<^bold>\<open>Foundations.\<close>
  \<^item> \<open>Prelude\<close>: types of identifiers and times, results, early-exit loops, list facts. \<open>Rust_Str\<close>: trimming, prefixes,
    case folding and hexadecimal digests of \<open>str\<close>. \<open>White_Space\<close>: these byte tests against the code points they stand for.
  \<^item> \<open>F64\<close>, \<open>F64_Rounding\<close>: binary64 values over rationals with round-to-nearest-even; monotonicity, exactness and
    closure of the operations, so that bounds survive every rounding.
  \<^item> \<open>Lifecycle\<close> (locale \<open>lifecycle\<close>): state machines whose terminal states absorb and stay reachable; interpreted by the
    task, session and instruction machines. \<open>Partitioned_Store\<close> (locale \<open>partitioned_store\<close>): operations keep the
    invariant of their workspace and do not touch others; interpreted by the claim and lease stores.
    \<open>Growing_Table\<close> (locale \<open>growing_table\<close>): tables whose rows only evolve along a relation; interpreted by the command
    queue, its invocations, the daemon instances, the task instructions, the sessions and their messages.

  \<^bold>\<open>Domain.\<close>
  \<^item> \<open>Repo_Path\<close> (\<open>path.rs\<close>): accepted paths stay below the root they are joined to.
  \<^item> \<open>Task_State\<close> (\<open>state.rs\<close>): along every run, completion needs verification evidence, handover needs a verified
    checkpoint, terminal states absorb, and every live task can fail.
  \<^item> \<open>Task_Graph\<close>, \<open>Graph_Search\<close>, \<open>Graph_Order\<close>, \<open>Graph_Validation\<close> (\<open>graph.rs\<close>): the operations, the
    correctness of the two searches and of the layered topological order, and the validator as a whole: it ends without panic,
    accepts exactly the acceptable graphs, reports real cycles, and independent nodes never write the same place.
  \<^item> \<open>Integrity\<close>, \<open>Canonical\<close> (\<open>integrity.rs\<close>): the canonical JSON writer determines a value up to member order.
    \<open>json_same\<close> is the equality of \<open>serde_json\<close> values, which ignores member order. \<open>Documents\<close> (\<open>checkpoint.rs\<close>, \<open>handover.rs\<close>, \<open>event.rs\<close>, \<open>verification.rs\<close>, \<open>evidence.rs\<close>): sealed documents and
    what a verified seal determines.
  \<^item> \<open>Providers\<close> (\<open>provider.rs\<close>, \<open>schema.rs\<close> and \<open>ProviderId\<close> of \<open>usage.rs\<close>), \<open>Usage\<close> (\<open>usage.rs\<close>), \<open>Assessment\<close>
    (\<open>assessment.rs\<close>, \<open>task.rs\<close>), \<open>Session\<close> (\<open>session.rs\<close>), \<open>Conversation\<close> (\<open>conversation.rs\<close>), \<open>Integration\<close> (\<open>integration.rs\<close>): validation and
    what it guarantees, from percentages within bounds to approvals that cover only disjoint changes.
  \<^item> \<open>Scheduling\<close> (\<open>scheduling.rs\<close>): one round selects a maximal set of runnable tasks with disjoint scopes within
    the limits.

  \<^bold>\<open>Policy.\<close> \<open>Analyzer\<close> (\<open>analyzer.rs\<close>), \<open>Period\<close> (\<open>period.rs\<close>), \<open>Budget\<close> (\<open>budget.rs\<close>), \<open>Routing\<close> (\<open>routing.rs\<close> of the policy and
  domain crates): quota windows lie around their instant as far as the clock of the zone allows, forecasts stay in range after all rounding, routing selects the best
  candidate that passes every gate.

  \<^bold>\<open>State.\<close> \<open>State_Store\<close> (rows, errors, transactions), then per store its operations and a theory with the properties
  that span them: \<open>Schedule_Claims\<close>, \<open>Claim_Safety\<close>, \<open>Claim_Store\<close> (\<open>scheduling.rs\<close>: claims never overlap in any interleaving),
  \<open>Leases\<close>, \<open>Lease_Store\<close> (\<open>leases.rs\<close>: one coordinator and one writer per task, resume never steals), \<open>Client_Commands\<close>
  (\<open>client_commands.rs\<close> and the writers of its tables in \<open>sessions.rs\<close> and \<open>conversations.rs\<close>: idempotent submission, nothing lost or repeated), \<open>Daemon_Instances\<close> (\<open>daemon_instances.rs\<close>: one
  owner, a replaced daemon is fenced off), \<open>Instructions\<close> (\<open>instructions.rs\<close>: delivery in order), \<open>Session_Store\<close> (\<open>sessions.rs\<close>, over the tables of the last
  three stores and the audit trail: no lost update, append-only conversations), \<open>Graph_Store\<close> (\<open>graphs.rs\<close>, over those tables: an approval turns exactly the confirmed graph
  into tasks, once), \<open>Event_Log\<close>, \<open>Audit_Chain\<close>
  (\<open>event_log.rs\<close> and the outbox of \<open>database.rs\<close>: a complete hash chain whose last hash determines the exported content), \<open>Artifacts\<close> (\<open>artifacts.rs\<close>, \<open>permissions.rs\<close>: stored
  artifacts stay readable).

  \<^bold>\<open>Engine.\<close> \<open>Engine\<close> (\<open>coordinator.rs\<close>, \<open>handover.rs\<close>, \<open>checkpoint.rs\<close>, \<open>executor.rs\<close>): the lifecycle holder refines the
  task machine; handovers and checkpoints bind their evidence. \<open>Verification_Engine\<close> (\<open>verification.rs\<close>): the result passes
  the completion gate exactly when all evidence is present.

  \<^bold>\<open>Processes.\<close> \<open>Key_Redaction\<close> (\<open>redaction.rs\<close>): the byte automaton for private keys agrees with leftmost matching of the
  redaction expression for every division of the output into frames. \<open>Process_Output\<close> (\<open>runner.rs\<close>, \<open>jsonl.rs\<close>): a capture keeps a
  bounded prefix of the output, and neither its frames nor its JSON lines show a byte of a private key.

  \<^bold>\<open>Parameters.\<close> Code outside the repository is an argument of the definitions: SHA-256
  (assumed injective where a property speaks of different documents), the generated serializers (assumed injective only for a document
  without floating-point numbers; elsewhere a hash fixes the canonical text), string quoting of \<open>serde_json\<close>, the regular
  expressions of the secret scan and of the redactor, the JSON parser (never assumed to invert the printer), the calendar and the zone clocks of \<open>chrono\<close> and \<open>chrono_tz\<close>, fresh identifiers. Their laws are
  hypotheses of the properties that need them, and each such property has a concrete instance.

  \<^bold>\<open>Bounds and fuel.\<close> Loops are structural or carry a measure. The searches of \<open>graph.rs\<close> take fuel that the validator
  properties show sufficient: their result is always a verdict. \<open>resolve_boundary\<close> tries 181 minutes as the source does. Instants are
  whole nanoseconds; where \<open>Period\<close> converts a span to seconds in floating point it assumes instants of at most
  \<open>2 ^ 73\<close> nanoseconds, which contains the range of \<open>chrono\<close>. The text form of times orders like the
  times for the years 0 to 9999.

  \<^bold>\<open>Not modelled.\<close> Operating-system and network glue: process spawning and termination (\<open>-process\<close>), provider adapters and
  their wire formats (\<open>-providers\<close>, \<open>codex-compat\<close>), Git worktrees, rollback and merging (\<open>worktree.rs\<close>, \<open>rollback.rs\<close> and the
  integration driver of the engine), sockets and command dispatch of the daemon, the terminal interface, the command line and
  the Windows pipes. In the state crate: schema migrations, the import of old databases, configuration files, conversation attempts and the
  record queries that only encode and decode rows. Their behaviour is that of external
  programs and formats, for which the sources give no definition to check against.
\<close>

end
